(* ===== verification/Prelude.thy ===== *)
theory Prelude
  imports Complex_Main "HOL-Library.Product_Lexorder" "HOL-Library.List_Lexorder" "HOL-Library.Char_ord"
begin

text \<open>
  Shared vocabulary of the development: Python exceptions as values, sequencing of fallible
  calls, the string and list operations of the Python standard library that the modelled code
  calls (\<open>strip\<close>, \<open>upper\<close>, \<open>min\<close> and \<open>max\<close> with a key, \<open>sorted\<close>), and the collections of
  rewrite rules the component theories extend.
\<close>

named_theorems exn_simps "rules that decompose a fallible computation which returned a value"
named_theorems spec_defs "definitions that the proofs of one component unfold together"

section \<open>Exceptions as values\<close>

text \<open>
  Every \<open>raise\<close> of the modelled code is a constructor of \<open>pyexn\<close>. Messages are kept where they
  are machine readable (error codes); Russian or free text is not modelled.
\<close>

datatype pyexn =
    ValueError string
  | KeyError string
  | AssertionError string
  | RuntimeError string
  | OverflowError
  | ZeroDivisionError
  | InvalidOperation
  | LedgerError string
  | LotValidationError string
  | PersonalPortfolioError string
  | BrokerFeeError string
  | IntegrityError

type_synonym 'a res = "pyexn + 'a"

definition bnd :: "'a res \<Rightarrow> ('a \<Rightarrow> 'b res) \<Rightarrow> 'b res" where
  "bnd m f = (case m of Inl e \<Rightarrow> Inl e | Inr x \<Rightarrow> f x)"

text \<open>Inlined in code equations, so that evaluation meets a \<open>case\<close> and not a closure.\<close>

declare bnd_def [code_unfold]

lemma bnd_Inl [simp]: "bnd (Inl e) f = Inl e"
  by (simp add: bnd_def)

lemma bnd_Inr [simp]: "bnd (Inr x) f = f x"
  by (simp add: bnd_def)

lemma bnd_eq_Inr [exn_simps]: "bnd m f = Inr y \<longleftrightarrow> (\<exists>x. m = Inr x \<and> f x = Inr y)"
  by (cases m) auto

lemma bnd_eq_Inl: "bnd m f = Inl e \<longleftrightarrow> m = Inl e \<or> (\<exists>x. m = Inr x \<and> f x = Inl e)"
  by (cases m) auto

lemma bnd_cong [fundef_cong]:
  "m = m' \<Longrightarrow> (\<And>x. m' = Inr x \<Longrightarrow> f x = f' x) \<Longrightarrow> bnd m f = bnd m' f'"
  by (cases m') auto

lemma bnd_assoc: "bnd (bnd m f) g = bnd m (\<lambda>x. bnd (f x) g)"
  by (cases m) auto

lemma if_raise_eq_Inr [exn_simps]: "(if c then Inl e else m) = Inr y \<longleftrightarrow> \<not> c \<and> m = Inr y"
  by simp

text \<open>A loop over a list whose body may raise: the first exception stops it.\<close>

fun foldM :: "('s \<Rightarrow> 'a \<Rightarrow> 's res) \<Rightarrow> 's \<Rightarrow> 'a list \<Rightarrow> 's res" where
  "foldM f s [] = Inr s"
| "foldM f s (x # xs) = bnd (f s x) (\<lambda>s'. foldM f s' xs)"

lemma foldM_append: "foldM f s (xs @ ys) = bnd (foldM f s xs) (\<lambda>s'. foldM f s' ys)"
  by (induction xs arbitrary: s) (auto simp: bnd_assoc)

text \<open>Invariant rule for such loops.\<close>

lemma foldM_invariant:
  assumes "foldM f s xs = Inr t" and "P s"
    and "\<And>s x s'. x \<in> set xs \<Longrightarrow> P s \<Longrightarrow> f s x = Inr s' \<Longrightarrow> P s'"
  shows "P t"
  using assms
proof (induction xs arbitrary: s)
  case Nil
  then show ?case by simp
next
  case (Cons x xs)
  then obtain s' where s': "f s x = Inr s'" and r: "foldM f s' xs = Inr t"
    by (auto simp: exn_simps)
  have "P s'" using Cons.prems(2,3) s' by auto
  with r show ?case using Cons.IH Cons.prems(3) by (metis list.set_intros(2))
qed

text \<open>A loop whose body always returns is \<open>foldl\<close>.\<close>

lemma foldM_total: "(\<And>s x. f s x = Inr (g s x)) \<Longrightarrow> foldM f s xs = Inr (foldl g s xs)"
  by (induction xs arbitrary: s) auto

lemma map_sum_Inr: "map_sum id f r = Inr y \<longleftrightarrow> (\<exists>x. r = Inr x \<and> f x = y)"
  by (cases r) auto

section \<open>Optional values\<close>

text \<open>Python's \<open>a if a is not None else b\<close>.\<close>

definition opt_or :: "'a option \<Rightarrow> 'a \<Rightarrow> 'a" where
  "opt_or a b = (case a of None \<Rightarrow> b | Some x \<Rightarrow> x)"

lemma opt_or_simps [simp]: "opt_or None b = b" "opt_or (Some x) b = x"
  by (simp_all add: opt_or_def)

text \<open>\<open>is not None and p(x)\<close>.\<close>

definition opt_sat :: "('a \<Rightarrow> bool) \<Rightarrow> 'a option \<Rightarrow> bool" where
  "opt_sat p a = (case a of None \<Rightarrow> False | Some x \<Rightarrow> p x)"

lemma opt_sat_simps [simp]: "opt_sat p None = False" "opt_sat p (Some x) = p x"
  by (simp_all add: opt_sat_def)

lemma opt_sat_iff: "opt_sat p a \<longleftrightarrow> (\<exists>x. a = Some x \<and> p x)"
  by (cases a) auto

section \<open>Lists\<close>

text \<open>\<open>tuple(dict.fromkeys(xs))\<close>: the first occurrences, in order.\<close>

definition dedupe :: "'a list \<Rightarrow> 'a list" where
  "dedupe xs = rev (remdups (rev xs))"

lemma set_dedupe [simp]: "set (dedupe xs) = set xs"
  by (simp add: dedupe_def)

lemma distinct_dedupe [simp]: "distinct (dedupe xs)"
  by (simp add: dedupe_def)

lemma set_map_filter: "set (List.map_filter f xs) = {y. Some y \<in> f ` set xs}"
  by (induction xs) (auto simp: List.map_filter_simps split: option.split)

lemma map_filter_empty: "List.map_filter f xs = [] \<longleftrightarrow> f ` set xs \<subseteq> {None}"
  by (induction xs) (auto simp: List.map_filter_simps split: option.split)

lemma map_filter_cong: "(\<And>x. x \<in> set xs \<Longrightarrow> f x = g x) \<Longrightarrow> List.map_filter f xs = List.map_filter g xs"
  by (induction xs) (simp_all add: List.map_filter_simps cong: option.case_cong)

section \<open>Strings\<close>

text \<open>\<open>s or d\<close> for an optional text: None and the empty text are falsy.\<close>

definition or_text :: "string option \<Rightarrow> string \<Rightarrow> string" where
  "or_text s d = (case s of Some (c # cs) \<Rightarrow> c # cs | _ \<Rightarrow> d)"

definition or_else :: "string option \<Rightarrow> string option \<Rightarrow> string option" where
  "or_else s t = (case s of Some (c # cs) \<Rightarrow> s | _ \<Rightarrow> t)"

text \<open>\<open>str.upper\<close>, \<open>str.lower\<close> and \<open>str.strip\<close> on ASCII text (tickers, codes and sides are ASCII).\<close>

definition up_char :: "char \<Rightarrow> char" where
  "up_char c = (let n = (of_char c :: nat) in if 97 \<le> n \<and> n \<le> 122 then char_of (n - 32) else c)"

definition upper :: "string \<Rightarrow> string" where
  "upper s = map up_char s"

definition low_char :: "char \<Rightarrow> char" where
  "low_char c = (let n = (of_char c :: nat) in if 65 \<le> n \<and> n \<le> 90 then char_of (n + 32) else c)"

definition lower :: "string \<Rightarrow> string" where
  "lower s = map low_char s"

definition is_space :: "char \<Rightarrow> bool" where
  "is_space c = (let n = (of_char c :: nat) in n = 32 \<or> (9 \<le> n \<and> n \<le> 13) \<or> (28 \<le> n \<and> n \<le> 31))"

definition strip :: "string \<Rightarrow> string" where
  "strip s = rev (dropWhile is_space (rev (dropWhile is_space s)))"

lemma up_char_idem [simp]: "up_char (up_char c) = up_char c"
proof -
  have "(of_char c :: nat) < 256" by simp
  then show ?thesis
    by (auto simp: up_char_def Let_def)
qed

lemma upper_idem [simp]: "upper (upper s) = upper s"
  by (simp add: upper_def)

section \<open>Lists\<close>

text \<open>\<open>min(xs, key=k)\<close> and \<open>max(xs, key=k)\<close>: the first element with an extreme key.\<close>

fun min_by :: "('a \<Rightarrow> 'k::linorder) \<Rightarrow> 'a \<Rightarrow> 'a list \<Rightarrow> 'a" where
  "min_by k x [] = x"
| "min_by k x (y # ys) = (if k y < k x then min_by k y ys else min_by k x ys)"

fun max_by :: "('a \<Rightarrow> 'k::linorder) \<Rightarrow> 'a \<Rightarrow> 'a list \<Rightarrow> 'a" where
  "max_by k x [] = x"
| "max_by k x (y # ys) = (if k x < k y then max_by k y ys else max_by k x ys)"

lemma min_by_in: "min_by k x xs \<in> insert x (set xs)"
  by (induction k x xs rule: min_by.induct) auto

lemma max_by_in: "max_by k x xs \<in> insert x (set xs)"
  by (induction k x xs rule: max_by.induct) auto

lemma min_by_le_start: "k (min_by k x xs) \<le> k x"
proof (induction k x xs rule: min_by.induct)
  case (2 k x y ys)
  then show ?case by (cases "k y < k x") auto
qed simp

lemma max_by_ge_start: "k x \<le> k (max_by k x xs)"
proof (induction k x xs rule: max_by.induct)
  case (2 k x y ys)
  then show ?case by (cases "k x < k y") auto
qed simp

lemma min_by_le: "y \<in> insert x (set xs) \<Longrightarrow> k (min_by k x xs) \<le> k y"
proof (induction xs arbitrary: x)
  case (Cons z zs)
  then show ?case
    using min_by_le_start [of k z zs] min_by_le_start [of k x zs]
    by (cases "k z < k x") (auto intro: order_trans)
qed simp

lemma max_by_ge: "y \<in> insert x (set xs) \<Longrightarrow> k y \<le> k (max_by k x xs)"
proof (induction xs arbitrary: x)
  case (Cons z zs)
  then show ?case
    using max_by_ge_start [of k z zs] max_by_ge_start [of k x zs]
    by (cases "k x < k z") (auto intro: order_trans)
qed simp

text \<open>Python's \<open>sorted\<close> is stable, as \<open>sort_key\<close> is; the head of a sorted list is its minimum.\<close>

lemma hd_sort_key_le:
  assumes "x \<in> set xs" shows "k (hd (sort_key k xs)) \<le> k x"
proof -
  have s: "sorted (map k (sort_key k xs))" by simp
  obtain y ys where e: "sort_key k xs = y # ys"
    using assms by (metis list.exhaust list.set(1) empty_iff set_sort)
  have "x = y \<or> x \<in> set ys" using assms e by (metis set_ConsD set_sort)
  with s e show ?thesis by auto
qed

lemma hd_sort_key_in: "xs \<noteq> [] \<Longrightarrow> hd (sort_key k xs) \<in> set xs"
  by (metis hd_in_set set_sort sort_key_simps(1) length_0_conv length_sort)

text \<open>Integers of a finite range, as \<open>range(lo, hi)\<close>.\<close>

lemma sum_list_nonneg_map: "(\<And>x. x \<in> set xs \<Longrightarrow> (0::'b::ordered_comm_monoid_add) \<le> f x) \<Longrightarrow> 0 \<le> sum_list (map f xs)"
  by (induction xs) auto

end
