(* ===== verification/Pynum.thy ===== *)
theory Pynum
  imports Prelude "HOL-Library.Log_Nat"
begin

text \<open>
  Python's two number types with rounding, as used by the modelled code.

  \<^item> \<open>decimal\<close>: a finite \<open>decimal.Decimal\<close>, by its numeric value. The default context of the
    library is written out: every arithmetic result is rounded to 28 significant digits, half to
    even, on the grid \<open>10 powi (-1000026)\<close> below the normal range; \<open>quantize\<close> raises
    \<open>InvalidOperation\<close> when its result needs more than 28 digits. Comparisons are exact.
  \<^item> \<open>pyfloat\<close>: a finite binary64, by its numeric value: results are rounded to 53 significant
    bits, half to even, with the subnormal grid \<open>2 powi (-1074)\<close>.

  Both are instances of one rounding function \<open>rnd b p emin\<close>; the locale \<open>float_format\<close> proves
  its laws once. Not modelled: the exponent a \<open>Decimal\<close> carries beside its value (it shows in
  printing only), signed zeros, NaN and infinities (the code reads its numbers from numeric
  columns), and overflow beyond \<open>10 ^ 999999\<close> and \<open>2 ^ 1024\<close>.
\<close>

type_synonym decimal = rat
type_synonym pyfloat = rat

section \<open>Rounding a rational to an integer\<close>

definition rhe :: "rat \<Rightarrow> int" where  \<comment> \<open>half to even\<close>
  "rhe x = (let f = \<lfloor>x\<rfloor>; r = x - of_int f in
     if r < 1/2 then f else if r > 1/2 then f + 1 else if even f then f else f + 1)"

definition rhu :: "rat \<Rightarrow> int" where  \<comment> \<open>half away from zero: \<open>ROUND_HALF_UP\<close>\<close>
  "rhu x = (if 0 \<le> x then \<lfloor>x + 1/2\<rfloor> else - \<lfloor>1/2 - x\<rfloor>)"

lemma rhe_of_int [simp]: "rhe (of_int n) = n"
  by (simp add: rhe_def)

lemma rhu_of_int [simp]: "rhu (of_int n) = n"
proof -
  have "\<lfloor>of_int n + 1/2 :: rat\<rfloor> = n" and "\<lfloor>1/2 - of_int n :: rat\<rfloor> = - n"
    by linarith+
  then show ?thesis by (simp add: rhu_def)
qed

lemma rhe_cases:
  obtains "rhe x = \<lfloor>x\<rfloor>" "x - of_int \<lfloor>x\<rfloor> \<le> 1/2" "x - of_int \<lfloor>x\<rfloor> = 1/2 \<Longrightarrow> even \<lfloor>x\<rfloor>"
  | "rhe x = \<lfloor>x\<rfloor> + 1" "1/2 \<le> x - of_int \<lfloor>x\<rfloor>" "x - of_int \<lfloor>x\<rfloor> = 1/2 \<Longrightarrow> odd \<lfloor>x\<rfloor>"
  by (fastforce simp: rhe_def Let_def split: if_splits)

lemma rhe_error: "\<bar>of_int (rhe x) - x\<bar> \<le> 1/2"
proof (cases rule: rhe_cases [of x])
  case 1
  then show ?thesis by (simp add: abs_le_iff)
next
  case 2
  then have "\<bar>of_int (\<lfloor>x\<rfloor> + 1) - x\<bar> \<le> 1/2" unfolding of_int_add by linarith
  with 2 show ?thesis by simp
qed

lemma rhu_error: "\<bar>of_int (rhu x) - x\<bar> \<le> 1/2"
proof (cases "0 \<le> x")
  case True
  have "\<bar>of_int \<lfloor>x + 1/2\<rfloor> - x\<bar> \<le> 1/2" by linarith
  with True show ?thesis by (simp add: rhu_def)
next
  case False
  have "\<bar>- of_int \<lfloor>1/2 - x\<rfloor> - x\<bar> \<le> 1/2" by linarith
  with False show ?thesis by (simp add: rhu_def)
qed

lemma rhe_mono: "x \<le> y \<Longrightarrow> rhe x \<le> rhe y"
proof (cases "\<lfloor>x\<rfloor> = \<lfloor>y\<rfloor>")
  case True
  assume "x \<le> y"
  with True show ?thesis
    by (cases rule: rhe_cases [of x]; cases rule: rhe_cases [of y]) auto
next
  case False
  assume "x \<le> y"
  with False have "\<lfloor>x\<rfloor> + 1 \<le> \<lfloor>y\<rfloor>" using floor_mono [of x y] by linarith
  moreover have "rhe x \<le> \<lfloor>x\<rfloor> + 1" by (cases rule: rhe_cases [of x]) auto
  moreover have "\<lfloor>y\<rfloor> \<le> rhe y" by (cases rule: rhe_cases [of y]) auto
  ultimately show ?thesis by linarith
qed

lemma rhu_mono: "x \<le> y \<Longrightarrow> rhu x \<le> rhu y"
proof -
  assume xy: "x \<le> y"
  show ?thesis
  proof (cases "0 \<le> x \<or> y < 0")
    case True
    with xy have "0 \<le> x \<and> 0 \<le> y \<or> x < 0 \<and> y < 0" by linarith
    with xy show ?thesis
      using floor_mono [of "x + 1/2" "y + 1/2"] floor_mono [of "1/2 - y" "1/2 - x"]
      by (auto simp: rhu_def)
  next
    case False
    then have "x < 0" and "0 \<le> y" by auto
    then have "0 \<le> \<lfloor>1/2 - x\<rfloor>" and "0 \<le> \<lfloor>y + 1/2\<rfloor>" by auto
    then have "- \<lfloor>1/2 - x\<rfloor> \<le> \<lfloor>y + 1/2\<rfloor>" by linarith
    with \<open>x < 0\<close> \<open>0 \<le> y\<close> show ?thesis by (simp add: rhu_def)
  qed
qed

lemma rhe_minus: "rhe (- x) = - rhe x"
proof (cases "x = of_int \<lfloor>x\<rfloor>")
  case True
  then show ?thesis by (metis rhe_of_int of_int_minus)
next
  case False
  define f where "f = \<lfloor>x\<rfloor>"
  have b: "of_int f < x" "x < of_int f + 1"
    using False unfolding f_def by linarith+
  then have "\<lfloor>- x\<rfloor> = - f - 1" by linarith
  with b show ?thesis unfolding rhe_def Let_def f_def [symmetric] by auto
qed

lemma rhu_minus: "rhu (- x) = - rhu x"
proof (cases "x = 0")
  case True
  then show ?thesis using rhu_of_int [of 0] by simp
next
  case False
  then show ?thesis by (auto simp: rhu_def algebra_simps)
qed

lemma rhe_le_of_int: "x \<le> of_int n \<Longrightarrow> rhe x \<le> n"
  using rhe_mono [of x "of_int n"] by simp

lemma rhe_ge_of_int: "of_int n \<le> x \<Longrightarrow> n \<le> rhe x"
  using rhe_mono [of "of_int n" x] by simp

lemma rhu_le_of_int: "x \<le> of_int n \<Longrightarrow> rhu x \<le> n"
  using rhu_mono [of x "of_int n"] by simp

lemma rhu_ge_of_int: "of_int n \<le> x \<Longrightarrow> n \<le> rhu x"
  using rhu_mono [of "of_int n" x] by simp

section \<open>The position of the leading digit\<close>

text \<open>
  \<open>mag b y\<close> is the exponent \<open>e\<close> with \<open>b powi (e - 1) \<le> y < b powi e\<close>, computed from the numbers of
  digits of the numerator and the denominator.
\<close>

function ndig :: "int \<Rightarrow> int \<Rightarrow> int" where  \<comment> \<open>number of base-\<open>b\<close> digits of \<open>n\<close>\<close>
  "ndig b n = (if b < 2 \<or> n \<le> 0 then 0 else 1 + ndig b (n div b))"
  by pat_completeness auto
termination
  by (relation "measure (\<lambda>(b, n). nat n)") (auto simp: int_div_less_self)

declare ndig.simps [simp del]

lemma ndig_floorlog: "2 \<le> b \<Longrightarrow> ndig (int b) n = int (floorlog b (nat n))"
proof (induction "int b" n rule: ndig.induct)
  case (1 n)
  show ?case
  proof (cases "n \<le> 0")
    case True
    then show ?thesis by (simp add: ndig.simps [of "int b" n] floorlog_def)
  next
    case False
    then have "ndig (int b) n = 1 + int (floorlog b (nat (n div int b)))"
      using 1 by (simp add: ndig.simps [of "int b" n])
    also have "nat (n div int b) = nat n div b" using False by (simp add: nat_div_distrib)
    finally show ?thesis using False \<open>2 \<le> b\<close> compute_floorlog [of b "nat n"] by simp
  qed
qed

definition mag :: "nat \<Rightarrow> rat \<Rightarrow> int" where
  "mag b y = (let (n, d) = quotient_of y;
                  k = ndig (int b) n - ndig (int b) d
              in if of_nat b powi k \<le> y then k + 1 else k)"

lemma floorlog_powi:
  assumes "2 \<le> b" "0 < n"
  shows "of_nat b powi (int (floorlog b n) - 1) \<le> (of_nat n :: rat)"
    and "(of_nat n :: rat) < of_nat b powi (int (floorlog b n))"
proof -
  have pos: "0 < floorlog b n" using assms by (simp add: floorlog_def)
  have b: "b ^ (floorlog b n - 1) \<le> n \<and> n < b ^ floorlog b n"
    using floorlog_bounds [of n b] assms by simp
  have e: "of_nat b powi (int (floorlog b n) - 1) = (of_nat (b ^ (floorlog b n - 1)) :: rat)"
    using pos by (simp add: power_int_def nat_diff_distrib)
  show "of_nat b powi (int (floorlog b n) - 1) \<le> (of_nat n :: rat)"
    unfolding e using b by (simp only: of_nat_le_iff)
  have "(of_nat n :: rat) < of_nat (b ^ floorlog b n)" using b by (simp only: of_nat_less_iff)
  then show "(of_nat n :: rat) < of_nat b powi (int (floorlog b n))" by simp
qed

lemma mag_bounds:
  assumes b: "2 \<le> b" and y: "0 < y"
  shows "of_nat b powi (mag b y - 1) \<le> y" and "y < of_nat b powi mag b y"
proof -
  obtain n d where q: "quotient_of y = (n, d)" by force
  have d: "0 < d" using quotient_of_denom_pos [OF q] .
  have yq: "y = of_int n / of_int d" using quotient_of_div [OF q] .
  have n: "0 < n" using y yq d by (simp add: zero_less_divide_iff)
  define ln ld where "ln = int (floorlog b (nat n))" and "ld = int (floorlog b (nat d))"
  define k where "k = ln - ld"
  define B :: rat where "B = of_nat b"
  have B: "2 \<le> B" using b by (simp add: B_def)
  have nn: "B powi (ln - 1) \<le> of_int n" "of_int n < B powi ln"
    using floorlog_powi [of b "nat n"] b n by (simp_all add: ln_def B_def)
  have dd: "B powi (ld - 1) \<le> of_int d" "of_int d < B powi ld"
    using floorlog_powi [of b "nat d"] b d by (simp_all add: ld_def B_def)
  have p: "0 < B powi i" for i using B by simp
  have "k - 1 = ln - 1 - ld" by (simp add: k_def)
  then have "B powi (k - 1) = B powi (ln - 1 - ld)" by (simp only:)
  also have "\<dots> = B powi (ln - 1) / B powi ld"
    using B by (intro power_int_diff) auto
  also have "\<dots> \<le> y" unfolding yq using nn(1) dd(2) d n p by (intro frac_le) auto
  finally have lo: "B powi (k - 1) \<le> y" .
  have "y < B powi ln / B powi (ld - 1)"
    unfolding yq using nn(2) dd(1) d n p by (intro frac_less) auto
  also have "\<dots> = B powi (ln - (ld - 1))"
    using B by (intro power_int_diff [symmetric]) auto
  also have "ln - (ld - 1) = k + 1" by (simp add: k_def)
  finally have hi: "y < B powi (k + 1)" .
  have m: "mag b y = (if B powi k \<le> y then k + 1 else k)"
    using ndig_floorlog [OF b] by (simp add: mag_def q Let_def k_def ln_def ld_def B_def)
  show "of_nat b powi (mag b y - 1) \<le> y" and "y < of_nat b powi mag b y"
    using lo hi m by (auto simp: B_def split: if_splits)
qed

section \<open>Rounding to \<open>p\<close> significant digits in base \<open>b\<close>\<close>

definition rnd_exp :: "nat \<Rightarrow> nat \<Rightarrow> int \<Rightarrow> rat \<Rightarrow> int" where
  "rnd_exp b p emin x = max (mag b \<bar>x\<bar> - int p) emin"

definition rnd :: "nat \<Rightarrow> nat \<Rightarrow> int \<Rightarrow> rat \<Rightarrow> rat" where
  "rnd b p emin x = (if x = 0 then 0 else
     let u = of_nat b powi rnd_exp b p emin x in of_int (rhe (x / u)) * u)"

text \<open>The numbers of the format: a coefficient of at most \<open>p\<close> digits and an exponent.\<close>

definition representable :: "nat \<Rightarrow> nat \<Rightarrow> int \<Rightarrow> rat \<Rightarrow> bool" where
  "representable b p emin x \<longleftrightarrow>
     (\<exists>m e. emin \<le> e \<and> \<bar>m\<bar> < int b ^ p \<and> x = of_int m * of_nat b powi e)"


locale float_format =
  fixes b p :: nat and emin :: int
  assumes base: "2 \<le> b" and prec: "1 \<le> p"
begin

lemma B_ge: "(2::rat) \<le> of_nat b"
  using base by simp

lemma pw_pos [simp]: "(0::rat) < of_nat b powi i"
  using B_ge by simp

lemma pw_nz [simp]: "of_nat b powi i \<noteq> (0::rat)"
  using pw_pos [of i] by linarith

lemma pw_add: "(of_nat b powi (i + j) :: rat) = of_nat b powi i * of_nat b powi j"
  using base by (simp add: power_int_add)

lemma pw_mono: "i \<le> j \<Longrightarrow> (of_nat b powi i :: rat) \<le> of_nat b powi j"
  using B_ge by (intro power_int_increasing) auto

lemma pw_less_iff: "(of_nat b powi i :: rat) < of_nat b powi j \<longleftrightarrow> i < j"
  using B_ge power_int_strict_increasing [of i j "of_nat b :: rat"] pw_mono [of j i]
  by (cases "i < j") auto

lemma pw_int: "0 \<le> i \<Longrightarrow> (of_nat b powi i :: rat) = of_int (int b ^ nat i)"
  by (simp add: power_int_def)

lemma mag_le: "\<lbrakk>0 < y; y < of_nat b powi k\<rbrakk> \<Longrightarrow> mag b y \<le> k"
  using mag_bounds(1) [OF base, of y] pw_less_iff [of "mag b y - 1" k] by linarith

lemma mag_mono: "\<lbrakk>0 < x; x \<le> y\<rbrakk> \<Longrightarrow> mag b x \<le> mag b y"
  using mag_le [of x "mag b y"] mag_bounds(2) [OF base, of y] by linarith

lemma rnd_0 [simp]: "rnd b p emin 0 = 0"
  by (simp add: rnd_def)

lemma rnd_minus: "rnd b p emin (- x) = - rnd b p emin x"
  by (simp add: rnd_def rnd_exp_def Let_def rhe_minus)

lemma rnd_eq: "rnd b p emin x = of_int (rhe (x / of_nat b powi rnd_exp b p emin x)) * of_nat b powi rnd_exp b p emin x"
  using rhe_of_int [of 0] by (simp add: rnd_def Let_def del: rhe_of_int)

text \<open>A power of the base on the rounding grid is never crossed.\<close>

lemma rnd_le_pw:
  assumes "rnd_exp b p emin x \<le> k" and "x \<le> of_nat b powi k"
  shows "rnd b p emin x \<le> of_nat b powi k"
proof -
  define E where "E = rnd_exp b p emin x"
  have k: "(of_nat b powi k :: rat) = of_int (int b ^ nat (k - E)) * of_nat b powi E"
    using assms(1) pw_int [of "k - E"] pw_add [of "k - E" E] by (simp add: E_def)
  then have "x / of_nat b powi E \<le> of_int (int b ^ nat (k - E))"
    using assms(2) by (simp add: pos_divide_le_eq)
  then have "rhe (x / of_nat b powi E) \<le> int b ^ nat (k - E)" by (rule rhe_le_of_int)
  then have "(of_int (rhe (x / of_nat b powi E)) :: rat) \<le> of_int (int b ^ nat (k - E))"
    by (simp only: of_int_le_iff)
  then have "of_int (rhe (x / of_nat b powi E)) * (of_nat b powi E :: rat)
      \<le> of_int (int b ^ nat (k - E)) * of_nat b powi E"
    by (rule mult_right_mono) simp
  then show ?thesis unfolding rnd_eq [of x] k E_def .
qed

lemma rnd_ge_pw:
  assumes "rnd_exp b p emin x \<le> k" and "of_nat b powi k \<le> x"
  shows "of_nat b powi k \<le> rnd b p emin x"
proof -
  define E where "E = rnd_exp b p emin x"
  have k: "(of_nat b powi k :: rat) = of_int (int b ^ nat (k - E)) * of_nat b powi E"
    using assms(1) pw_int [of "k - E"] pw_add [of "k - E" E] by (simp add: E_def)
  then have "of_int (int b ^ nat (k - E)) \<le> x / of_nat b powi E"
    using assms(2) by (simp add: pos_le_divide_eq)
  then have "int b ^ nat (k - E) \<le> rhe (x / of_nat b powi E)" by (rule rhe_ge_of_int)
  then have "(of_int (int b ^ nat (k - E)) :: rat) \<le> of_int (rhe (x / of_nat b powi E))"
    by (simp only: of_int_le_iff)
  then have "of_int (int b ^ nat (k - E)) * (of_nat b powi E :: rat)
      \<le> of_int (rhe (x / of_nat b powi E)) * of_nat b powi E"
    by (rule mult_right_mono) simp
  then show ?thesis unfolding rnd_eq [of x] k E_def .
qed

lemma rnd_nonneg: "0 \<le> x \<Longrightarrow> 0 \<le> rnd b p emin x"
  unfolding rnd_eq using rhe_ge_of_int [of 0] by (intro mult_nonneg_nonneg) (simp_all add: less_imp_le)

lemma rnd_nonpos: "x \<le> 0 \<Longrightarrow> rnd b p emin x \<le> 0"
  using rnd_nonneg [of "- x"] by (simp add: rnd_minus)

lemma rnd_mono_pos:
  assumes x: "0 < x" and xy: "x \<le> y"
  shows "rnd b p emin x \<le> rnd b p emin y"
proof (cases "rnd_exp b p emin x = rnd_exp b p emin y")
  case True
  have "x / of_nat b powi rnd_exp b p emin y \<le> y / of_nat b powi rnd_exp b p emin y"
    using xy by (intro divide_right_mono) (auto simp: less_imp_le)
  from rhe_mono [OF this] show ?thesis
    unfolding rnd_eq [of x] rnd_eq [of y] True
    by (intro mult_right_mono) (simp_all add: less_imp_le)
next
  case False
  have m: "mag b x \<le> mag b y" using x xy by (rule mag_mono)
  have ne: "mag b x < mag b y"
    using False m x xy by (cases "mag b x = mag b y") (auto simp: rnd_exp_def)
  have ey: "rnd_exp b p emin y \<le> mag b y - 1" and ex: "rnd_exp b p emin x \<le> mag b y - 1"
    using False m ne x xy prec by (auto simp: rnd_exp_def max_def split: if_splits)
  have "x \<le> of_nat b powi (mag b y - 1)"
    using mag_bounds(2) [OF base x] pw_mono [of "mag b x" "mag b y - 1"] ne by linarith
  from rnd_le_pw [OF ex this] rnd_ge_pw [OF ey] mag_bounds(1) [OF base, of y] x xy
  show ?thesis by linarith
qed

lemma rnd_mono: "x \<le> y \<Longrightarrow> rnd b p emin x \<le> rnd b p emin y"
proof (cases "0 < x")
  case True
  then show "x \<le> y \<Longrightarrow> ?thesis" by (rule rnd_mono_pos)
next
  case False
  assume xy: "x \<le> y"
  show ?thesis
  proof (cases "y < 0")
    case True
    then have "rnd b p emin (- y) \<le> rnd b p emin (- x)" using xy by (intro rnd_mono_pos) auto
    then show ?thesis by (simp add: rnd_minus)
  next
    case False
    with \<open>\<not> 0 < x\<close> show ?thesis using rnd_nonneg [of y] rnd_nonpos [of x] by linarith
  qed
qed

lemma rnd_exact:
  assumes "representable b p emin x"
  shows "rnd b p emin x = x"
proof (cases "x = 0")
  case False
  obtain m e where e: "emin \<le> e" and m: "\<bar>m\<bar> < int b ^ p" and x: "x = of_int m * of_nat b powi e"
    using assms by (auto simp: representable_def)
  have "(of_int \<bar>m\<bar> :: rat) < of_int (int b ^ p)" using m by (simp only: of_int_less_iff)
  then have "\<bar>x\<bar> < of_nat b powi int p * of_nat b powi e"
    unfolding x abs_mult by (simp add: mult_strict_right_mono)
  then have "mag b \<bar>x\<bar> \<le> int p + e" using False by (intro mag_le) (auto simp: pw_add)
  with e have E: "rnd_exp b p emin x \<le> e" by (simp add: rnd_exp_def)
  define E where "E = rnd_exp b p emin x"
  have xE: "x = of_int (m * int b ^ nat (e - E)) * of_nat b powi E"
    using E pw_int [of "e - E"] pw_add [of "e - E" E] by (simp add: x E_def)
  then have "x / of_nat b powi E = of_int (m * int b ^ nat (e - E))"
    using pw_nz [of E] nonzero_eq_divide_eq by fastforce
  then show ?thesis unfolding rnd_eq [of x] E_def [symmetric]
    by (metis rhe_of_int xE)
qed simp

lemma rnd_representable: "representable b p emin (rnd b p emin x)"
proof -
  define E where "E = rnd_exp b p emin x"
  define m where "m = rhe (x / of_nat b powi E)"
  have r: "rnd b p emin x = of_int m * of_nat b powi E"
    by (simp add: rnd_eq m_def E_def)
  have E: "emin \<le> E" by (simp add: E_def rnd_exp_def)
  have bb: "\<bar>x / of_nat b powi E\<bar> \<le> of_int (int b ^ p)"
  proof (cases "x = 0")
    case False
    have "\<bar>x\<bar> \<le> of_nat b powi mag b \<bar>x\<bar>" using mag_bounds(2) [OF base, of "\<bar>x\<bar>"] False by simp
    also have "\<dots> \<le> of_nat b powi (int p + E)" by (rule pw_mono) (simp add: E_def rnd_exp_def)
    finally show ?thesis by (simp add: pw_add pos_divide_le_eq)
  qed simp
  then have m: "\<bar>m\<bar> \<le> int b ^ p"
    using rhe_le_of_int [of "x / of_nat b powi E" "int b ^ p"]
      rhe_ge_of_int [of "- (int b ^ p)" "x / of_nat b powi E"]
    unfolding m_def abs_le_iff by (simp add: abs_le_iff)
  show ?thesis
  proof (cases "\<bar>m\<bar> = int b ^ p")
    case True
    define m' where "m' = sgn m * int b ^ (p - 1)"
    have bp: "int b ^ p = int b ^ (p - 1) * int b" using prec by (simp add: power_eq_if)
    have "0 < int b ^ (p - 1)" using base by simp
    then have "\<bar>m'\<bar> < int b ^ p" using base True bp by (auto simp: m'_def abs_mult abs_sgn_eq)
    moreover have "m = m' * int b" using True bp unfolding m'_def
      by (metis mult.assoc sgn_mult_abs)
    then have "rnd b p emin x = of_int m' * of_nat b powi (E + 1)" by (simp add: r pw_add)
    ultimately show ?thesis using E unfolding representable_def by (intro exI [of _ m'] exI [of _ "E + 1"]) simp
  next
    case False
    with m E r show ?thesis unfolding representable_def by (intro exI [of _ m] exI [of _ E]) simp
  qed
qed

lemma rnd_idem [simp]: "rnd b p emin (rnd b p emin x) = rnd b p emin x"
  by (rule rnd_exact [OF rnd_representable])

lemma rnd_le: "\<lbrakk>representable b p emin r; x \<le> r\<rbrakk> \<Longrightarrow> rnd b p emin x \<le> r"
  using rnd_mono [of x r] rnd_exact [of r] by simp

lemma rnd_ge: "\<lbrakk>representable b p emin r; r \<le> x\<rbrakk> \<Longrightarrow> r \<le> rnd b p emin x"
  using rnd_mono [of r x] rnd_exact [of r] by simp

lemma representable_grid: "\<lbrakk>emin \<le> e; \<bar>m\<bar> < int b ^ p\<rbrakk> \<Longrightarrow> representable b p emin (of_int m * of_nat b powi e)"
  by (auto simp: representable_def)

lemma representable_of_int: "\<lbrakk>emin \<le> 0; \<bar>m\<bar> < int b ^ p\<rbrakk> \<Longrightarrow> representable b p emin (of_int m)"
  using representable_grid [of 0 m] by simp

lemma rnd_error: "\<bar>rnd b p emin x - x\<bar> \<le> of_nat b powi rnd_exp b p emin x / 2"
proof -
  define u :: rat where "u = of_nat b powi rnd_exp b p emin x"
  have u: "0 < u" by (simp add: u_def)
  have "\<bar>rnd b p emin x - x\<bar> = \<bar>of_int (rhe (x / u)) - x / u\<bar> * u"
    using u by (simp add: rnd_eq u_def [symmetric] abs_mult_pos left_diff_distrib)
  also have "\<dots> \<le> 1/2 * u" using rhe_error [of "x / u"] u by (intro mult_right_mono) auto
  finally show ?thesis by (simp add: u_def)
qed

text \<open>The relative error is half a unit in the last place, the absolute one half the grid near zero.\<close>

lemma rnd_rel_error:
  "\<bar>rnd b p emin x - x\<bar> \<le> \<bar>x\<bar> * of_nat b powi (1 - int p) / 2 + of_nat b powi emin / 2"
proof (cases "x = 0")
  case True
  then show ?thesis using pw_pos [of emin] by simp
next
  case False
  have "of_nat b powi rnd_exp b p emin x
      \<le> (of_nat b powi (mag b \<bar>x\<bar> - int p) :: rat) + of_nat b powi emin"
    using pw_pos [of emin] pw_pos [of "mag b \<bar>x\<bar> - int p"]
    by (simp add: rnd_exp_def max_def)
  also have "of_nat b powi (mag b \<bar>x\<bar> - int p) = of_nat b powi (mag b \<bar>x\<bar> - 1) * (of_nat b powi (1 - int p) :: rat)"
    by (simp flip: pw_add)
  also have "\<dots> \<le> \<bar>x\<bar> * of_nat b powi (1 - int p)"
    using mag_bounds(1) [OF base, of "\<bar>x\<bar>"] False by (intro mult_right_mono) (simp_all add: less_imp_le)
  finally show ?thesis using rnd_error [of x] by simp
qed

end


section \<open>Decimal\<close>

definition dround :: "rat \<Rightarrow> decimal" where
  "dround x = rnd 10 28 (- 1000026) x"

interpretation dec: float_format 10 28 "- 1000026"
  by unfold_locales simp_all

definition dadd :: "decimal \<Rightarrow> decimal \<Rightarrow> decimal" where "dadd a b = dround (a + b)"
definition dsub :: "decimal \<Rightarrow> decimal \<Rightarrow> decimal" where "dsub a b = dround (a - b)"
definition dmul :: "decimal \<Rightarrow> decimal \<Rightarrow> decimal" where "dmul a b = dround (a * b)"
definition dneg :: "decimal \<Rightarrow> decimal" where "dneg a = dround (- a)"

text \<open>
  Division raises \<open>InvalidOperation\<close> or \<open>DivisionByZero\<close> on a zero divisor; both are
  \<open>ZeroDivisionError\<close> or \<open>ArithmeticError\<close> to a caller, and one constructor here. \<open>ddiv\<close> is the
  quotient where the divisor is a non-zero literal of the source or is guarded.
\<close>

definition ddiv :: "decimal \<Rightarrow> decimal \<Rightarrow> decimal" where "ddiv a b = dround (a / b)"

definition ddivE :: "decimal \<Rightarrow> decimal \<Rightarrow> decimal res" where
  "ddivE a b = (if b = 0 then Inl ZeroDivisionError else Inr (ddiv a b))"

lemmas darith_defs = dadd_def dsub_def dmul_def ddiv_def dneg_def

text \<open>\<open>int(d)\<close> truncates; \<open>to_integral_value(ROUND_FLOOR)\<close> is exact.\<close>

definition dtrunc :: "decimal \<Rightarrow> int" where
  "dtrunc x = (if 0 \<le> x then \<lfloor>x\<rfloor> else \<lceil>x\<rceil>)"

definition dfloor :: "decimal \<Rightarrow> int" where
  "dfloor x = \<lfloor>x\<rfloor>"

lemma dround_0 [simp]: "dround 0 = 0"
  by (simp add: dround_def)

lemma dround_mono: "x \<le> y \<Longrightarrow> dround x \<le> dround y"
  unfolding dround_def by (rule dec.rnd_mono)

lemma dround_nonneg: "0 \<le> x \<Longrightarrow> 0 \<le> dround x"
  using dround_mono [of 0 x] by simp

lemma dround_nonpos: "x \<le> 0 \<Longrightarrow> dround x \<le> 0"
  using dround_mono [of x 0] by simp

lemma dround_idem [simp]: "dround (dround x) = dround x"
  by (simp add: dround_def)

lemma dround_minus: "dround (- x) = - dround x"
  by (simp add: dround_def dec.rnd_minus)

text \<open>Up to 28 digits on the grid of \<open>k\<close> decimal places, nothing is lost.\<close>

definition on_grid :: "nat \<Rightarrow> rat \<Rightarrow> bool" where
  "on_grid k x \<longleftrightarrow> x * 10 ^ k \<in> \<int>"

lemma on_gridI: "x * 10 ^ k = of_int m \<Longrightarrow> on_grid k x"
  by (simp add: on_grid_def)

lemma on_grid_0 [simp]: "on_grid k 0"
  by (simp add: on_grid_def)

lemma on_grid_of_int [simp]: "on_grid k (of_int n)"
  by (simp add: on_grid_def)

lemma on_grid_add: "on_grid k x \<Longrightarrow> on_grid k y \<Longrightarrow> on_grid k (x + y)"
  by (simp add: on_grid_def distrib_right)

lemma on_grid_diff: "on_grid k x \<Longrightarrow> on_grid k y \<Longrightarrow> on_grid k (x - y)"
  by (simp add: on_grid_def left_diff_distrib)

lemma on_grid_mult: "on_grid j x \<Longrightarrow> on_grid k y \<Longrightarrow> on_grid (j + k) (x * y)"
proof -
  assume "on_grid j x" "on_grid k y"
  then have "(x * 10 ^ j) * (y * 10 ^ k) \<in> \<int>" unfolding on_grid_def by (rule Ints_mult)
  then show ?thesis by (simp add: on_grid_def power_add ac_simps)
qed

lemma dround_exact:
  assumes "on_grid k x" and "\<bar>x\<bar> * 10 ^ k < 10 ^ 28" and "k \<le> 1000026"
  shows "dround x = x"
proof -
  obtain m where m: "x * 10 ^ k = of_int m" using assms(1) by (auto simp: on_grid_def elim: Ints_cases)
  have "\<bar>of_int m :: rat\<bar> < 10 ^ 28" using assms(2) by (simp flip: m add: abs_mult)
  then have "of_int \<bar>m\<bar> < (of_int (10 ^ 28) :: rat)" by simp
  then have "\<bar>m\<bar> < 10 ^ 28" by (simp only: of_int_less_iff)
  moreover have "x = of_int m * of_nat 10 powi (- int k)"
    by (simp flip: m add: power_int_minus field_simps)
  ultimately show ?thesis unfolding dround_def
    using dec.representable_grid [of "- int k" m] assms(3) by (intro dec.rnd_exact) auto
qed

text \<open>Evaluation asks first whether the number is a short decimal: then there is nothing to round.\<close>

lemma dround_code [code]:
  "dround x = (let (n, d) = quotient_of x in
     if 10 ^ 12 mod d = 0 \<and> \<bar>n\<bar> * (10 ^ 12 div d) < 10 ^ 28 then x else rnd 10 28 (- 1000026) x)"
proof -
  obtain n d where q: "quotient_of x = (n, d)" by force
  have x: "x = of_int n / of_int d" using quotient_of_div [OF q] .
  have d: "0 < d" using quotient_of_denom_pos [OF q] .
  have "dround x = x" if h: "10 ^ 12 mod d = 0" "\<bar>n\<bar> * (10 ^ 12 div d) < 10 ^ 28"
  proof -
    have "d dvd 10 ^ 12" using h(1) by (simp only: mod_eq_0_iff_dvd)
    then obtain c where c: "10 ^ 12 = d * c" by (rule dvdE)
    then have cd: "10 ^ 12 div d = c" unfolding c using d by simp
    have "(10 ^ 12 :: rat) = of_int (10 ^ 12)" by simp
    then have "(10 ^ 12 :: rat) = of_int d * of_int c" by (simp only: c of_int_mult)
    then have "x * 10 ^ 12 = of_int n / of_int d * (of_int d * of_int c)" by (simp only: x)
    then have e: "x * 10 ^ 12 = of_int (n * c)" using d by simp
    have "\<bar>n * c\<bar> = \<bar>n\<bar> * c"
    proof -
      have "0 < d * c" unfolding c [symmetric] by simp
      then have "0 < c" using d by (simp add: zero_less_mult_iff)
      then show ?thesis by (simp add: abs_mult)
    qed
    then have "\<bar>n * c\<bar> < 10 ^ 28" using h(2) cd by simp
    then have "of_int \<bar>n * c\<bar> < (of_int (10 ^ 28) :: rat)" by (simp only: of_int_less_iff)
    then have "\<bar>x\<bar> * 10 ^ 12 < 10 ^ 28" using e by (metis abs_mult abs_numeral of_int_abs of_int_numeral of_int_power power_abs)
    moreover have "on_grid 12 x" using e by (rule on_gridI)
    ultimately show ?thesis using dround_exact [of 12 x] by simp
  qed
  then show ?thesis by (auto simp: q dround_def [symmetric])
qed

lemma dround_of_int: "\<bar>m\<bar> < 10 ^ 28 \<Longrightarrow> dround (of_int m) = of_int m"
proof -
  assume "\<bar>m\<bar> < 10 ^ 28"
  then have "of_int \<bar>m\<bar> < (of_int (10 ^ 28) :: rat)" by (simp only: of_int_less_iff)
  then show ?thesis by (intro dround_exact [of 0]) simp_all
qed

text \<open>\<open>d.quantize(Decimal(10) ** -k, rounding=ROUND_HALF_UP)\<close>.\<close>

definition quantize :: "nat \<Rightarrow> decimal \<Rightarrow> decimal res" where
  "quantize k x = (let m = rhu (x * 10 ^ k)
     in if 10 ^ 28 \<le> \<bar>m\<bar> then Inl InvalidOperation else Inr (of_int m / 10 ^ k))"

lemma quantize_grid: "quantize k x = Inr y \<Longrightarrow> on_grid k y"
  by (auto simp: quantize_def Let_def on_grid_def split: if_splits)

lemma quantize_bound: "quantize k x = Inr y \<Longrightarrow> \<bar>y\<bar> * 10 ^ k < 10 ^ 28"
proof -
  assume a: "quantize k x = Inr y"
  define m where "m = rhu (x * 10 ^ k)"
  from a have m: "\<bar>m\<bar> < 10 ^ 28" and y: "y = of_int m / 10 ^ k"
    by (auto simp: quantize_def Let_def m_def split: if_splits)
  have "of_int \<bar>m\<bar> < (of_int (10 ^ 28) :: rat)" using m by (simp only: of_int_less_iff)
  then show ?thesis by (simp add: y)
qed

lemma quantize_of_grid: "on_grid k x \<Longrightarrow> quantize k x = (if 10 ^ 28 \<le> \<bar>x\<bar> * 10 ^ k then Inl InvalidOperation else Inr x)"
proof -
  assume "on_grid k x"
  then obtain m where m: "x * 10 ^ k = of_int m" by (auto simp: on_grid_def elim: Ints_cases)
  have "\<bar>x\<bar> * 10 ^ k = of_int \<bar>m\<bar>" by (simp flip: m add: abs_mult)
  then have "10 ^ 28 \<le> \<bar>x\<bar> * 10 ^ k \<longleftrightarrow> (of_int (10 ^ 28) :: rat) \<le> of_int \<bar>m\<bar>" by simp
  also have "\<dots> \<longleftrightarrow> 10 ^ 28 \<le> \<bar>m\<bar>" by (simp only: of_int_le_iff)
  finally have "10 ^ 28 \<le> \<bar>x\<bar> * 10 ^ k \<longleftrightarrow> 10 ^ 28 \<le> \<bar>m\<bar>" .
  moreover have "rhu (x * 10 ^ k) = m" by (simp add: m)
  moreover have "of_int m / 10 ^ k = x" by (simp flip: m)
  ultimately show ?thesis by (simp add: quantize_def Let_def)
qed

lemma quantize_sign:
  assumes "quantize k x = Inr y"
  shows "0 \<le> x \<Longrightarrow> 0 \<le> y" and "x \<le> 0 \<Longrightarrow> y \<le> 0"
proof -
  from assms have y: "y = of_int (rhu (x * 10 ^ k)) / 10 ^ k"
    by (auto simp: quantize_def Let_def split: if_splits)
  show "0 \<le> y" if "0 \<le> x"
    using rhu_ge_of_int [of 0 "x * 10 ^ k"] that by (simp add: y)
  show "y \<le> 0" if "x \<le> 0"
    using rhu_le_of_int [of "x * 10 ^ k" 0] that by (simp add: y mult_nonpos_nonneg divide_nonpos_pos)
qed

lemma quantize_error: "quantize k x = Inr y \<Longrightarrow> \<bar>y - x\<bar> \<le> 1 / 2 / 10 ^ k"
proof -
  assume "quantize k x = Inr y"
  then have "y - x = (of_int (rhu (x * 10 ^ k)) - x * 10 ^ k) / 10 ^ k"
    by (auto simp: quantize_def Let_def field_simps split: if_splits)
  then have "\<bar>y - x\<bar> = \<bar>of_int (rhu (x * 10 ^ k)) - x * 10 ^ k\<bar> / 10 ^ k"
    by (simp only: abs_divide) simp
  then show ?thesis using rhu_error [of "x * 10 ^ k"]
    by (simp only: divide_right_mono zero_le_numeral zero_le_power)
qed

text \<open>
  Sums of grid values survive the two roundings of \<open>quantize (a + b)\<close>: the call raises or
  returns the exact sum. The context rounding cannot hide an overflow of the grid.
\<close>

lemma quantize_dround_grid:
  assumes g: "on_grid k x" and k: "k \<le> 28" and r: "quantize k (dround x) = Inr y"
  shows "y = x"
proof (cases "\<bar>x\<bar> * 10 ^ k < 10 ^ 28")
  case True
  have "dround x = x" by (rule dround_exact [OF g True]) (use k in simp)
  with r g True show ?thesis by (auto simp: quantize_of_grid)
next
  case False
  define T :: rat where "T = 10 powi (28 - int k)"
  have T: "T * 10 ^ k = 10 ^ 28" by (simp add: T_def power_int_diff)
  have "T * 10 ^ k \<le> \<bar>x\<bar> * 10 ^ k" using False T by simp
  then have big: "T \<le> \<bar>x\<bar>" by simp
  have rep: "representable 10 28 (- 1000026) T"
    using dec.representable_grid [of "28 - int k" 1] k by (simp add: T_def)
  have "T \<le> \<bar>dround x\<bar>"
    using dec.rnd_ge [OF rep, of x] dec.rnd_ge [OF rep, of "- x"] big
    by (auto simp: dround_def dec.rnd_minus abs_if split: if_splits)
  then have "10 ^ 28 \<le> \<bar>dround x\<bar> * 10 ^ k" using T by (metis mult_right_mono zero_le_numeral zero_le_power)
  then have "10 ^ 28 \<le> dround x * 10 ^ k \<or> dround x * 10 ^ k \<le> - (10 ^ 28)"
    by (auto simp: abs_if split: if_splits)
  then have "10 ^ 28 \<le> \<bar>rhu (dround x * 10 ^ k)\<bar>"
    using rhu_ge_of_int [of "10 ^ 28" "dround x * 10 ^ k"] rhu_le_of_int [of "dround x * 10 ^ k" "- (10 ^ 28)"]
    by auto
  with r show ?thesis by (simp add: quantize_def)
qed

section \<open>binary64\<close>

definition fl :: "rat \<Rightarrow> pyfloat" where
  "fl x = rnd 2 53 (- 1074) x"

interpretation b64: float_format 2 53 "- 1074"
  by unfold_locales simp_all

definition fadd :: "pyfloat \<Rightarrow> pyfloat \<Rightarrow> pyfloat" where "fadd a b = fl (a + b)"
definition fsub :: "pyfloat \<Rightarrow> pyfloat \<Rightarrow> pyfloat" where "fsub a b = fl (a - b)"
definition fmul :: "pyfloat \<Rightarrow> pyfloat \<Rightarrow> pyfloat" where "fmul a b = fl (a * b)"
definition fdiv :: "pyfloat \<Rightarrow> pyfloat \<Rightarrow> pyfloat" where "fdiv a b = fl (a / b)"

definition fdivE :: "pyfloat \<Rightarrow> pyfloat \<Rightarrow> pyfloat res" where
  "fdivE a b = (if b = 0 then Inl ZeroDivisionError else Inr (fdiv a b))"

lemmas farith_defs = fadd_def fsub_def fmul_def fdiv_def

text \<open>
  \<open>sum(xs)\<close> of floats. Since CPython 3.12, the version the program runs on, it is Neumaier's
  compensated summation: the rounding error of every addition is collected and added at the end.
\<close>

fun fsum_loop :: "pyfloat \<Rightarrow> pyfloat \<Rightarrow> pyfloat list \<Rightarrow> pyfloat" where
  "fsum_loop f c [] = (if c = 0 then f else fadd f c)"
| "fsum_loop f c (x # xs) =
     (let t = fadd f x;
          d = (if \<bar>x\<bar> \<le> \<bar>f\<bar> then fadd (fsub f t) x else fadd (fsub x t) f)
      in fsum_loop t (fadd c d) xs)"

definition fsum :: "pyfloat list \<Rightarrow> pyfloat" where
  "fsum xs = fsum_loop 0 0 xs"

lemma fl_0 [simp]: "fl 0 = 0"
  by (simp add: fl_def)

lemma fl_mono: "x \<le> y \<Longrightarrow> fl x \<le> fl y"
  unfolding fl_def by (rule b64.rnd_mono)

lemma fl_nonneg: "0 \<le> x \<Longrightarrow> 0 \<le> fl x"
  using fl_mono [of 0 x] by simp

lemma fl_nonpos: "x \<le> 0 \<Longrightarrow> fl x \<le> 0"
  using fl_mono [of x 0] by simp

lemma fl_idem [simp]: "fl (fl x) = fl x"
  by (simp add: fl_def)

lemma fl_minus: "fl (- x) = - fl x"
  by (simp add: fl_def b64.rnd_minus)

text \<open>As for decimals, evaluation first asks whether the number is a short binary fraction.\<close>

lemma fl_code [code]:
  "fl x = (let (n, d) = quotient_of x in
     if 2 ^ 20 mod d = 0 \<and> \<bar>n\<bar> * (2 ^ 20 div d) < 2 ^ 53 then x else rnd 2 53 (- 1074) x)"
proof -
  obtain n d where q: "quotient_of x = (n, d)" by force
  have x: "x = of_int n / of_int d" using quotient_of_div [OF q] .
  have d: "0 < d" using quotient_of_denom_pos [OF q] .
  have "fl x = x" if h: "2 ^ 20 mod d = 0" "\<bar>n\<bar> * (2 ^ 20 div d) < 2 ^ 53"
  proof -
    have "d dvd 2 ^ 20" using h(1) by (simp only: mod_eq_0_iff_dvd)
    then obtain c where c: "2 ^ 20 = d * c" by (rule dvdE)
    then have cd: "2 ^ 20 div d = c" unfolding c using d by simp
    have "0 < d * c" unfolding c [symmetric] by simp
    then have c0: "0 < c" using d by (simp add: zero_less_mult_iff)
    have "(2 ^ 20 :: rat) = of_int (2 ^ 20)" by simp
    then have dc: "(2 ^ 20 :: rat) = of_int d * of_int c" by (simp only: c of_int_mult)
    have "x * 2 ^ 20 = of_int n / of_int d * (of_int d * of_int c)" by (simp only: x dc)
    then have "x * 2 ^ 20 = of_int (n * c)" using d by simp
    moreover have "of_nat 2 powi (- 20) = inverse ((2::rat) ^ 20)"
      by (simp only: power_int_minus of_nat_numeral power_int_numeral)
    ultimately have xe: "x = of_int (n * c) * of_nat 2 powi (- 20)" by (simp add: field_simps)
    have "\<bar>n * c\<bar> < int 2 ^ 53" using h(2) cd c0 by (simp add: abs_mult)
    then have "representable 2 53 (- 1074) x" unfolding xe by (intro b64.representable_grid) simp_all
    then show ?thesis unfolding fl_def by (rule b64.rnd_exact)
  qed
  then show ?thesis by (auto simp: q fl_def [symmetric])
qed

lemma fl_of_int: "\<bar>m\<bar> < 2 ^ 53 \<Longrightarrow> fl (of_int m) = of_int m"
  unfolding fl_def using b64.representable_of_int [of m] by (intro b64.rnd_exact) simp

lemma fl_1 [simp]: "fl 1 = 1"
  using fl_of_int [of 1] by simp

lemma fl_le_1: "x \<le> 1 \<Longrightarrow> fl x \<le> 1"
  using fl_mono [of x 1] by simp

lemma fl_ge_1: "1 \<le> x \<Longrightarrow> 1 \<le> fl x"
  using fl_mono [of 1 x] by simp

lemma fl_fl_le: "x \<le> fl y \<Longrightarrow> fl x \<le> fl y"
  using fl_mono [of x "fl y"] by simp

lemma fl_fl_ge: "fl y \<le> x \<Longrightarrow> fl y \<le> fl x"
  using fl_mono [of "fl y" x] by simp

text \<open>
  \<open>Decimal(str(x))\<close> for a float: \<open>repr\<close> prints the decimal with the fewest digits that reads back
  as \<open>x\<close>, the nearest one to \<open>x\<close> among those. Seventeen digits always suffice; the last
  branch keeps the function total.
\<close>

definition dec_dig :: "int \<Rightarrow> rat \<Rightarrow> rat list" where
  "dec_dig n x = (let u = 10 powi (mag 10 \<bar>x\<bar> - n); lo = of_int \<lfloor>x / u\<rfloor> * u; hi = of_int \<lceil>x / u\<rceil> * u
     in (if x - lo \<le> hi - x then [lo, hi] else [hi, lo]))"

fun repr_from :: "nat \<Rightarrow> int \<Rightarrow> rat \<Rightarrow> rat" where
  "repr_from 0 n x = x"
| "repr_from (Suc k) n x = (case List.find (\<lambda>c. fl c = x) (dec_dig n x) of
      Some c \<Rightarrow> c | None \<Rightarrow> repr_from k (n + 1) x)"

definition dec_of_float :: "pyfloat \<Rightarrow> decimal" where
  "dec_of_float x = (if x = 0 then 0 else repr_from 17 1 x)"

lemma fl_dec_of_float: "fl x = x \<Longrightarrow> fl (dec_of_float x) = x"
proof -
  assume x: "fl x = x"
  have "fl (repr_from k n x) = x" for k n
    by (induction k arbitrary: n) (auto simp: x find_Some_iff split: option.splits)
  then show ?thesis by (simp add: dec_of_float_def)
qed

end
