(* ===== verification/Pyeval.thy ===== *)
theory Pyeval
  imports Pynum
begin

text \<open>
  Evaluation of the two number types: code equations that round on the numbers of the quotient instead of
  on rationals. A result is kept as a coefficient over a power of the base (\<open>grid2\<close>, \<open>grid10\<close>), so that the
  next operation reads its quotient off. Nothing here is part of the model; the witnesses are evaluated
  with it.
\<close>

section \<open>Coefficients over a power of the base\<close>

definition grid2 :: "int \<Rightarrow> nat \<Rightarrow> rat" where "grid2 q k = of_int q / 2 ^ k"
definition grid10 :: "int \<Rightarrow> nat \<Rightarrow> rat" where "grid10 q k = of_int q / 10 ^ k"

fun strip2n :: "num \<Rightarrow> nat \<Rightarrow> num \<times> nat" where
  "strip2n (num.Bit0 n) (Suc k) = strip2n n k"
| "strip2n n k = (n, k)"

definition strip2 :: "int \<Rightarrow> nat \<Rightarrow> int \<times> nat" where
  "strip2 q k = (if q = 0 then (0, 0) else map_prod (\<lambda>m. sgn q * numeral m) id (strip2n (num_of_nat (nat \<bar>q\<bar>)) k))"

lemma strip2_code [code]:
  "strip2 0 k = (0, 0)"
  "strip2 (Int.Pos m) k = map_prod Int.Pos id (strip2n m k)"
  "strip2 (Int.Neg m) k = map_prod Int.Neg id (strip2n m k)"
  by (simp_all add: strip2_def num_of_nat_numeral_eq prod_eq_iff)

fun strip5 :: "int \<Rightarrow> nat \<Rightarrow> int \<times> nat" where
  "strip5 q 0 = (q, 0)"
| "strip5 q (Suc k) = (if q mod 5 = 0 then strip5 (q div 5) k else (q, Suc k))"

fun num_length :: "num \<Rightarrow> int" where
  "num_length num.One = 1"
| "num_length (num.Bit0 n) = num_length n + 1"
| "num_length (num.Bit1 n) = num_length n + 1"

definition int_length :: "int \<Rightarrow> int" where
  "int_length n = (if n = 0 then 0 else num_length (num_of_nat (nat \<bar>n\<bar>)))"

lemma int_length_code [code]:
  "int_length 0 = 0"
  "int_length (Int.Pos m) = num_length m"
  "int_length (Int.Neg m) = num_length m"
  by (simp_all add: int_length_def num_of_nat_numeral_eq)

lemma strip2n_spec: "strip2n m k = (m', k') \<Longrightarrow> numeral m = (numeral m' * 2 ^ (k - k') :: int) \<and> k' \<le> k \<and> (k' = 0 \<or> odd (numeral m' :: int))"
proof (induction m k rule: strip2n.induct)
  case (1 n k)
  then have "numeral n = (numeral m' * 2 ^ (k - k') :: int)" "k' \<le> k" "k' = 0 \<or> odd (numeral m' :: int)" by simp_all
  moreover have "numeral (num.Bit0 n) = 2 * (numeral n :: int)" by (subst numeral_Bit0) (rule mult_2 [symmetric])
  moreover have "2 * (x * 2 ^ (k - k')) = x * (2 ^ (Suc k - k') :: int)" for x
    using calculation(2) by (simp add: Suc_diff_le)
  ultimately show ?case by (metis le_SucI)
qed auto

lemma strip2_spec: "strip2 q k = (q', k') \<Longrightarrow> q = q' * 2 ^ (k - k') \<and> k' \<le> k \<and> (k' = 0 \<or> odd q')"
proof (cases "q = 0")
  case False
  assume a: "strip2 q k = (q', k')"
  obtain m j where j: "strip2n (num_of_nat (nat \<bar>q\<bar>)) k = (m, j)" by force
  with a False have q': "q' = sgn q * numeral m" and m: "strip2n (num_of_nat (nat \<bar>q\<bar>)) k = (m, k')"
    by (simp_all add: strip2_def)
  have n: "numeral (num_of_nat (nat \<bar>q\<bar>)) = \<bar>q\<bar>"
    using False by (metis int_nat_eq nat_abs_triangle_ineq numeral_num_of_nat of_nat_numeral zero_less_abs_iff zero_less_nat_eq abs_ge_zero)
  note s = strip2n_spec [OF m, unfolded n]
  have "q = sgn q * \<bar>q\<bar>" by (simp add: mult_sgn_abs)
  also have "\<dots> = q' * 2 ^ (k - k')" using s q' by simp
  finally show ?thesis using s False by (simp add: q' sgn_if)
qed (simp add: strip2_def)

lemma quotient_of_coprime_div: "0 < d \<Longrightarrow> coprime n d \<Longrightarrow> quotient_of (of_int n / of_int d) = (n, d)"
  by (metis Fract_of_int_quotient normalize_stable quotient_of_Fract)

lemma grid2_code [code abstract]: "quotient_of (grid2 q k) = (case strip2 q k of (q', k') \<Rightarrow> (q', 2 ^ k'))"
proof -
  obtain q' k' where s: "strip2 q k = (q', k')" by force
  note 2 = strip2_spec [OF s]
  have "(2 :: rat) ^ k = 2 ^ (k - k') * 2 ^ k'" using 2 by (simp flip: power_add)
  then have "grid2 q k = of_int q' / of_int (2 ^ k')" unfolding grid2_def using 2 by simp
  moreover have "coprime q' (2 ^ k')" using 2 by (auto simp: coprime_power_right_iff)
  ultimately show ?thesis using quotient_of_coprime_div [of "2 ^ k'" q'] by (simp add: s)
qed

lemma strip5_spec: "strip5 q k = (q', k') \<Longrightarrow> q = q' * 5 ^ (k - k') \<and> k' \<le> k \<and> (k' = 0 \<or> q' mod 5 \<noteq> 0)"
proof (induction q k rule: strip5.induct)
  case (2 q k)
  show ?case
  proof (cases "q mod 5 = 0")
    case True
    with 2 have "q div 5 = q' * 5 ^ (k - k')" "k' \<le> k" "k' = 0 \<or> q' mod 5 \<noteq> 0" by simp_all
    with True show ?thesis by (auto simp: Suc_diff_le mod_eq_0_iff_dvd elim!: dvdE)
  next
    case False
    with 2 show ?thesis by auto
  qed
qed auto

lemma grid10_code [code abstract]:
  "quotient_of (grid10 q k) = (case strip2 q k of (q1, k1) \<Rightarrow> case strip5 q1 k of (q2, k2) \<Rightarrow> (q2, 2 ^ k1 * 5 ^ k2))"
proof -
  obtain q1 k1 q2 k2 where s: "strip2 q k = (q1, k1)" "strip5 q1 k = (q2, k2)" by fastforce
  note 2 = strip2_spec [OF s(1)] and 5 = strip5_spec [OF s(2)]
  have p: "(10 :: rat) ^ k = (2 ^ (k - k1) * 2 ^ k1) * (5 ^ (k - k2) * 5 ^ k2)"
    using 2 5 by (simp flip: power_add power_mult_distrib)
  have "grid10 q k = of_int q2 / of_int (2 ^ k1 * 5 ^ k2)"
    unfolding grid10_def p using 2 5 by (simp add: field_simps)
  moreover have "coprime q2 (2 ^ k1)" using 2 5 by (auto simp: coprime_power_right_iff)
  moreover have "coprime q2 (5 ^ k2)"
  proof (cases "k2 = 0")
    case False
    with 5 have "q2 mod 5 = 1 \<or> q2 mod 5 = 2 \<or> q2 mod 5 = 3 \<or> q2 mod 5 = 4" by presburger
    then have "gcd (q2 mod 5) 5 = 1" by (elim disjE) (simp_all add: gcd_non_0_int)
    then have "coprime q2 5" by (metis coprime_iff_gcd_eq_1 gcd.commute gcd_red_int)
    then show ?thesis by simp
  qed simp
  ultimately show ?thesis using quotient_of_coprime_div [of "2 ^ k1 * 5 ^ k2" q2] by (simp add: s coprime_mult_right_iff)
qed

section \<open>Rounding\<close>

definition rhe_div :: "int \<Rightarrow> int \<Rightarrow> int" where
  "rhe_div a d = (let q = a div d; r = a mod d in
     if 2 * r < d then q else if d < 2 * r then q + 1 else if q mod 2 = 0 then q else q + 1)"

lemma rhe_div: "0 < d \<Longrightarrow> rhe (of_int a / of_int d) = rhe_div a d"
proof -
  assume d: "0 < d"
  have "of_int a = of_int (a div d) * (of_int d :: rat) + of_int (a mod d)"
    by (simp flip: of_int_mult of_int_add)
  then have r: "of_int a / of_int d - of_int (a div d) = (of_int (a mod d) / of_int d :: rat)"
    using d by (simp add: field_simps)
  have c: "(of_int x / of_int d < (1/2 :: rat)) = (2 * x < d)" "((1/2 :: rat) < of_int x / of_int d) = (d < 2 * x)" for x
  proof -
    have "(of_int x / of_int d < (1/2 :: rat)) = (of_int (2 * x) < (of_int d :: rat))" "((1/2 :: rat) < of_int x / of_int d) = (of_int d < (of_int (2 * x) :: rat))"
      using d by (simp_all add: divide_simps mult.commute)
    then show "(of_int x / of_int d < (1/2 :: rat)) = (2 * x < d)" "((1/2 :: rat) < of_int x / of_int d) = (d < 2 * x)"
      by (simp_all only: of_int_less_iff)
  qed
  show ?thesis
    by (simp only: rhe_def rhe_div_def Let_def floor_divide_of_int_eq r c even_iff_mod_2_eq_zero)
qed

definition mag_is :: "nat \<Rightarrow> int \<Rightarrow> int \<Rightarrow> int \<Rightarrow> bool" where
  "mag_is b n d m \<longleftrightarrow>
     (if 1 \<le> m then d * int b ^ nat (m - 1) \<le> n else d \<le> n * int b ^ nat (1 - m)) \<and>
     (if 0 \<le> m then n < d * int b ^ nat m else n * int b ^ nat (- m) < d)"

definition mag_guess :: "nat \<Rightarrow> int \<Rightarrow> int \<Rightarrow> int" where
  "mag_guess b n d = (let k = int_length n - int_length d in if b = 2 then k else k * 30103 div 100000)"

definition mag_div :: "nat \<Rightarrow> int \<Rightarrow> int \<Rightarrow> int" where
  "mag_div b n d = (let m = mag_guess b n d in
     if mag_is b n d m then m else if mag_is b n d (m + 1) then m + 1 else if mag_is b n d (m + 2) then m + 2
     else mag b (of_int n / of_int d))"

lemma mag_is_mag:
  assumes "2 \<le> b" "0 < n" "0 < d" "mag_is b n d m"
  shows "mag b (of_int n / of_int d) = m"
proof -
  define y :: rat where "y = of_int n / of_int d"
  have y: "0 < y" using assms by (simp add: y_def)
  have lo: "of_nat b powi (m - 1) \<le> y"
  proof (cases "1 \<le> m")
    case True
    then have "of_int (d * int b ^ nat (m - 1)) \<le> (of_int n :: rat)" using assms(4) by (simp only: mag_is_def of_int_le_iff if_True)
    then show ?thesis using assms(3) True by (simp add: y_def field_simps power_int_def)
  next
    case False
    define B :: rat where "B = of_nat b ^ nat (1 - m)"
    have "of_int d \<le> (of_int (n * int b ^ nat (1 - m)) :: rat)" using assms(4) False by (simp only: mag_is_def of_int_le_iff if_False)
    then have "of_int d \<le> (of_int n * B :: rat)" by (simp add: B_def)
    moreover have e: "of_nat b powi (m - 1) = 1 / B" using False by (simp add: B_def power_int_def power_one_over inverse_eq_divide)
    moreover have "0 < B" using assms(1) by (simp add: B_def)
    ultimately show ?thesis unfolding e using assms(3) by (simp add: y_def field_simps)
  qed
  have hi: "y < of_nat b powi m"
  proof (cases "0 \<le> m")
    case True
    then have "(of_int n :: rat) < of_int (d * int b ^ nat m)" using assms(4) by (simp only: mag_is_def of_int_less_iff if_True)
    then show ?thesis using assms(3) True by (simp add: y_def field_simps power_int_def)
  next
    case False
    define B :: rat where "B = of_nat b ^ nat (- m)"
    have "(of_int (n * int b ^ nat (- m)) :: rat) < of_int d" using assms(4) False by (simp only: mag_is_def of_int_less_iff if_False)
    then have "of_int n * B < of_int d" by (simp add: B_def)
    moreover have e: "of_nat b powi m = 1 / B" using False by (simp add: B_def power_int_def power_one_over inverse_eq_divide)
    moreover have "0 < B" using assms(1) by (simp add: B_def)
    ultimately show ?thesis unfolding e using assms(3) by (simp add: y_def field_simps)
  qed
  have "of_nat b powi (mag b y - 1) < (of_nat b powi m :: rat)" "of_nat b powi (m - 1) < (of_nat b powi mag b y :: rat)"
    using lo hi mag_bounds [OF assms(1) y] by linarith+
  moreover have "float_format b 1" using assms(1) by unfold_locales simp_all
  ultimately have "mag b y - 1 < m" "m - 1 < mag b y" using float_format.pw_less_iff by blast+
  then show ?thesis by (simp add: y_def)
qed


lemma mag_div: "2 \<le> b \<Longrightarrow> 0 < n \<Longrightarrow> 0 < d \<Longrightarrow> mag b (of_int n / of_int d) = mag_div b n d"
  by (auto simp: mag_div_def Let_def intro: mag_is_mag)

definition on_base :: "nat \<Rightarrow> int \<Rightarrow> nat \<Rightarrow> rat" where
  "on_base b q k = (if b = 2 then grid2 q k else if b = 10 then grid10 q k else of_int q / of_nat b ^ k)"

definition rnd_div :: "nat \<Rightarrow> nat \<Rightarrow> int \<Rightarrow> int \<Rightarrow> int \<Rightarrow> rat" where
  "rnd_div b p emin n d = (if n = 0 then 0 else
     let e = max (mag_div b \<bar>n\<bar> d - int p) emin in
     if 0 \<le> e then of_int (rhe_div n (d * int b ^ nat e) * int b ^ nat e)
     else on_base b (rhe_div (n * int b ^ nat (- e)) d) (nat (- e)))"

lemma rnd_div:
  assumes "2 \<le> b" "0 < d"
  shows "rnd b p emin (of_int n / of_int d) = rnd_div b p emin n d"
proof (cases "n = 0")
  case False
  define e where "e = max (mag_div b \<bar>n\<bar> d - int p) emin"
  have m: "rnd_exp b p emin (of_int n / of_int d) = e"
    using mag_div [OF assms(1) _ assms(2), of "\<bar>n\<bar>"] False assms(2) by (simp add: rnd_exp_def e_def)
  have r: "rnd b p emin (of_int n / of_int d) = of_int (rhe (of_int n / of_int d / of_nat b powi e)) * of_nat b powi e"
    using False assms(2) by (simp add: rnd_def Let_def m)
  show ?thesis
  proof (cases "0 \<le> e")
    case True
    then have u: "of_nat b powi e = (of_int (int b ^ nat e) :: rat)" by (simp add: power_int_def)
    have q: "of_int n / of_int d / of_int (int b ^ nat e) = (of_int n / of_int (d * int b ^ nat e) :: rat)" by simp
    have "0 < d * int b ^ nat e" using assms by simp
    from rhe_div [OF this, of n] show ?thesis unfolding r u q using True \<open>n \<noteq> 0\<close>
      by (simp only: rnd_div_def Let_def e_def [symmetric] if_True if_False of_int_mult)
  next
    case False
    define B :: rat where "B = of_nat b ^ nat (- e)"
    have u: "of_nat b powi e = 1 / B" using False by (simp add: B_def power_int_def power_one_over inverse_eq_divide)
    have q: "of_int n / of_int d / (1 / B) = (of_int (n * int b ^ nat (- e)) / of_int d :: rat)" by (simp add: B_def)
    have o: "on_base b x (nat (- e)) = of_int x * (1 / B)" for x by (simp add: on_base_def grid2_def grid10_def B_def)
    show ?thesis unfolding r u q rhe_div [OF assms(2)] using False \<open>n \<noteq> 0\<close>
      by (simp only: rnd_div_def Let_def e_def [symmetric] if_False o)
  qed
qed (simp add: rnd_div_def rnd_def)

text \<open>Short fractions need no rounding.\<close>

lemma fl_eval [code]:
  "fl x = (case quotient_of x of (n, d) \<Rightarrow>
     if d = 1 \<and> \<bar>n\<bar> < 2 ^ 53 then of_int n
     else if \<bar>n\<bar> < 2 ^ 53 \<and> int_length d \<le> 1000 \<and> d = 2 ^ nat (int_length d - 1) then grid2 n (nat (int_length d - 1))
     else rnd_div 2 53 (- 1074) n d)"
proof -
  obtain n d where q: "quotient_of x = (n, d)" by force
  have x: "x = of_int n / of_int d" using quotient_of_div [OF q] .
  have A: "fl x = of_int n" if "d = 1 \<and> \<bar>n\<bar> < 2 ^ 53" using that x fl_of_int by simp
  have B: "fl x = grid2 n k" if "\<bar>n\<bar> < 2 ^ 53" "k < 1000" "d = 2 ^ k" for k
  proof -
    have p: "of_nat 2 powi (- int k) = inverse ((2::rat) ^ k)" by (simp add: power_int_minus)
    have "representable 2 53 (- 1074) (of_int n * of_nat 2 powi (- int k))"
      using that(1,2) by (intro b64.representable_grid) simp_all
    then have "rnd 2 53 (- 1074) (of_int n * of_nat 2 powi (- int k)) = of_int n * of_nat 2 powi (- int k)" by (rule b64.rnd_exact)
    then show ?thesis using that(3) unfolding fl_def x p by (simp add: grid2_def divide_inverse)
  qed
  have C: "fl x = rnd_div 2 53 (- 1074) n d"
    unfolding fl_def x by (rule rnd_div) (use quotient_of_denom_pos [OF q] in simp_all)
  define k where "k = nat (int_length d - 1)"
  have "int_length d \<le> 1000 \<Longrightarrow> k < 1000" by (simp add: k_def)
  then have B': "\<bar>n\<bar> < 2 ^ 53 \<and> int_length d \<le> 1000 \<and> d = 2 ^ k \<Longrightarrow> fl x = grid2 n k" using B by blast
  show ?thesis unfolding q prod.case k_def [symmetric] using A B' C by argo
qed

lemma dround_eval [code]:
  "dround x = (case quotient_of x of (n, d) \<Rightarrow>
     if 10 ^ 12 mod d = 0 \<and> \<bar>n\<bar> * (10 ^ 12 div d) < 10 ^ 28 then (if d = 1 then of_int n else of_int n / of_int d)
     else rnd_div 10 28 (- 1000026) n d)"
proof -
  obtain n d where q: "quotient_of x = (n, d)" by force
  have x: "x = of_int n / of_int d" using quotient_of_div [OF q] .
  have "dround x = rnd_div 10 28 (- 1000026) n d"
    unfolding dround_def x by (rule rnd_div) (use quotient_of_denom_pos [OF q] in simp_all)
  then show ?thesis using dround_code [of x] x q by (auto split: if_splits)
qed

lemma mag_eval [code]:
  "mag b y = (case quotient_of y of (n, d) \<Rightarrow> if 2 \<le> b \<and> 0 < n then mag_div b n d else
     let k = ndig (int b) n - ndig (int b) d in if of_nat b powi k \<le> y then k + 1 else k)"
proof -
  obtain n d where q: "quotient_of y = (n, d)" by force
  have "mag b y = mag_div b n d" if "2 \<le> b \<and> 0 < n"
    using mag_div [of b n d] quotient_of_denom_pos [OF q] that by (simp add: quotient_of_div [OF q])
  moreover have "mag b y = (let k = ndig (int b) n - ndig (int b) d in if of_nat b powi k \<le> y then k + 1 else k)"
    by (simp add: mag_def q)
  ultimately show ?thesis unfolding q prod.case by argo
qed

text \<open>The two neighbours of \<open>x\<close> with \<open>n\<close> digits, nearest first.\<close>

lemma neighbours:
  fixes u :: rat
  assumes "0 < u" "0 < D" "x / u = of_int a / of_int D"
  shows "\<lfloor>x / u\<rfloor> = a div D" and "\<lceil>x / u\<rceil> = (if a mod D = 0 then a div D else a div D + 1)"
    and "(x - of_int (a div D) * u \<le> of_int (if a mod D = 0 then a div D else a div D + 1) * u - x) = (2 * (a mod D) \<le> D)"
proof -
  show f: "\<lfloor>x / u\<rfloor> = a div D" unfolding assms(3) by (rule floor_divide_of_int_eq)
  show c: "\<lceil>x / u\<rceil> = (if a mod D = 0 then a div D else a div D + 1)"
    unfolding assms(3) ceiling_divide_eq_div using assms(2) by (simp add: zdiv_zminus1_eq_if)
  have "of_int a = of_int (a div D) * (of_int D :: rat) + of_int (a mod D)" by (simp flip: of_int_mult of_int_add)
  then have x: "x = (of_int (a div D) + of_int (a mod D) / of_int D) * u" using assms by (simp add: field_simps)
  have l: "x - of_int (a div D) * u = of_int (a mod D) / of_int D * u" by (subst x) (simp add: algebra_simps)
  show "(x - of_int (a div D) * u \<le> of_int (if a mod D = 0 then a div D else a div D + 1) * u - x) = (2 * (a mod D) \<le> D)"
  proof (cases "a mod D = 0")
    case True
    then show ?thesis using l assms(2) by simp
  next
    case False
    define R :: rat where "R = of_int (a mod D) / of_int D"
    have o: "of_int (a div D + 1) * u - x = (1 - R) * u" by (subst x) (simp add: algebra_simps R_def)
    have "(R * u \<le> (1 - R) * u) = (R \<le> 1 - R)" using assms(1) by (simp only: mult_le_cancel_right) simp
    also have "\<dots> = (of_int (2 * (a mod D)) \<le> (of_int D :: rat))" using assms(2) by (simp add: R_def field_simps)
    also have "\<dots> = (2 * (a mod D) \<le> D)" by (simp only: of_int_le_iff)
    finally show ?thesis using False l o by (simp only: R_def if_False)
  qed
qed

lemma dec_dig_eval [code]:
  "dec_dig n x = (case quotient_of x of (a, d) \<Rightarrow> let k = mag 10 \<bar>x\<bar> - n in
     if 0 \<le> k then let u = 10 ^ nat k; q = a div (d * u); r = a mod (d * u); lo = of_int (q * u); hi = of_int ((if r = 0 then q else q + 1) * u)
       in if 2 * r \<le> d * u then [lo, hi] else [hi, lo]
     else let b = a * 10 ^ nat (- k); q = b div d; r = b mod d; lo = grid10 q (nat (- k)); hi = grid10 (if r = 0 then q else q + 1) (nat (- k))
       in if 2 * r \<le> d then [lo, hi] else [hi, lo])"
proof -
  obtain a d where q: "quotient_of x = (a, d)" by force
  have x: "x = of_int a / of_int d" and d: "0 < d" using quotient_of_div [OF q] quotient_of_denom_pos [OF q] by simp_all
  define k where "k = mag 10 \<bar>x\<bar> - n"
  define u :: rat where "u = 10 powi k"
  have u: "0 < u" by (simp add: u_def)
  have dig: "dec_dig n x = (if x - of_int \<lfloor>x / u\<rfloor> * u \<le> of_int \<lceil>x / u\<rceil> * u - x
      then [of_int \<lfloor>x / u\<rfloor> * u, of_int \<lceil>x / u\<rceil> * u] else [of_int \<lceil>x / u\<rceil> * u, of_int \<lfloor>x / u\<rfloor> * u])"
    by (simp add: dec_dig_def Let_def k_def u_def)
  show ?thesis
  proof (cases "0 \<le> k")
    case True
    then have uk: "u = of_int (10 ^ nat k)" by (simp add: u_def power_int_def)
    have "x / u = of_int a / of_int (d * 10 ^ nat k)" by (simp add: x uk)
    note N = neighbours [OF u _ this]
    have D: "0 < d * 10 ^ nat k" using d by simp
    show ?thesis using True unfolding dig N(1) [OF D] N(2) [OF D] unfolding N(3) [OF D]
      unfolding q prod.case k_def [symmetric] Let_def uk of_int_mult [symmetric]
      by (simp only: if_True)
  next
    case False
    have uk: "of_int y * u = grid10 y (nat (- k))" for y using False by (simp add: grid10_def u_def power_int_def power_one_over inverse_eq_divide)
    have "x / u = of_int (a * 10 ^ nat (- k)) / of_int d" using False by (simp add: x u_def power_int_def power_one_over)
    note N = neighbours [OF u d this]
    show ?thesis using False unfolding dig N(1) N(2) unfolding N(3) unfolding q prod.case k_def [symmetric] Let_def uk
      by (simp only: if_False)
  qed
qed

section \<open>Letters\<close>

text \<open>The case of an ASCII letter is its bit 5.\<close>

lemma up_char_code [code]:
  "up_char (Char b0 b1 b2 b3 b4 b5 b6 b7) =
     (if b5 \<and> b6 \<and> \<not> b7 \<and> (b0 \<or> b1 \<or> b2 \<or> b3 \<or> b4) \<and> \<not> (b4 \<and> b3 \<and> (b2 \<or> b1 \<and> b0))
      then Char b0 b1 b2 b3 b4 False b6 b7 else Char b0 b1 b2 b3 b4 b5 b6 b7)"
  by (cases b0; cases b1; cases b2; cases b3; cases b4; cases b5; cases b6; cases b7;
      simp add: up_char_def Let_def char_of_def bit_0)

lemma low_char_code [code]:
  "low_char (Char b0 b1 b2 b3 b4 b5 b6 b7) =
     (if \<not> b5 \<and> b6 \<and> \<not> b7 \<and> (b0 \<or> b1 \<or> b2 \<or> b3 \<or> b4) \<and> \<not> (b4 \<and> b3 \<and> (b2 \<or> b1 \<and> b0))
      then Char b0 b1 b2 b3 b4 True b6 b7 else Char b0 b1 b2 b3 b4 b5 b6 b7)"
  by (cases b0; cases b1; cases b2; cases b3; cases b4; cases b5; cases b6; cases b7;
      simp add: low_char_def Let_def char_of_def bit_0)

lemma is_space_code [code]:
  "is_space (Char b0 b1 b2 b3 b4 b5 b6 b7) =
     (\<not> b6 \<and> \<not> b7 \<and> (if b5 then \<not> (b0 \<or> b1 \<or> b2 \<or> b3 \<or> b4)
        else if b4 then b3 \<and> b2 else b3 \<and> (if b2 then \<not> b1 else b0 \<or> b1)))"
  by (cases b0; cases b1; cases b2; cases b3; cases b4; cases b5; cases b6; cases b7;
      simp add: is_space_def Let_def)

end
