(* ===== verification/Ledger.thy ===== *)
theory Ledger
  imports Pyeval "HOL-Library.AList"
begin

text \<open>
  The personal portfolio ledger of \<open>backend/app/modules/portfolio/domain/personal_ledger.py\<close>:
  the state \<open>LedgerState\<close> with its positions, the events of the journal, and \<open>apply_event\<close>,
  one definition per operation of its dispatch. \<open>state.clone()\<close> is the identity here: the model
  is functional and every update builds a new record. Error messages keep their code only.

  The lemmas show what one event does to the state. The central fact is
  \<open>money_add_exact\<close>: on values of the money grid the two roundings of \<open>money(a + b)\<close> lose
  nothing, they raise or return the exact sum.
\<close>

section \<open>Money and units\<close>

definition money :: "decimal \<Rightarrow> decimal res" where
  "money v = quantize 6 v"

definition units_q :: "decimal \<Rightarrow> decimal res" where
  "units_q v = quantize 8 v"

section \<open>State and events\<close>

datatype operation_type =
    DEPOSIT | WITHDRAWAL | BUY | SELL | COMMISSION | OPENING_CASH | OPENING_POSITION
  | DIVIDEND | COUPON | TAX | AMORTIZATION | OTHER_FEE

record position_book =
  units :: decimal
  average_cost :: "decimal option"

record ledger_state =
  cash :: decimal
  contributed :: decimal
  withdrawn :: decimal
  realized_pnl :: decimal
  books :: "(int \<times> position_book) list"
  cost_basis_incomplete :: bool

text \<open>\<open>positions\<close> is a dict: its items in insertion order, read as a map.\<close>

definition positions :: "ledger_state \<Rightarrow> int \<rightharpoonup> position_book" where
  "positions s = map_of (books s)"

definition empty_book :: position_book where
  "empty_book = \<lparr>units = 0, average_cost = None\<rparr>"

definition empty_ledger :: ledger_state where
  "empty_ledger = \<lparr>cash = 0, contributed = 0, withdrawn = 0, realized_pnl = 0,
     books = [], cost_basis_incomplete = False\<rparr>"

record ledger_event =
  operation_type :: operation_type
  instrument_id :: "int option"
  ev_units :: decimal
  price :: "decimal option"
  amount :: decimal
  commission :: decimal

section \<open>Operations\<close>

definition event_deposit :: "ledger_state \<Rightarrow> ledger_event \<Rightarrow> ledger_state res" where
  "event_deposit s e =
     bnd (money (amount e)) (\<lambda>a.
     if a \<le> 0 then Inl (LedgerError ''INVALID_AMOUNT'') else
     bnd (money (dadd (cash s) a)) (\<lambda>c.
     bnd (money (dadd (contributed s) a)) (\<lambda>k.
     Inr (s\<lparr>cash := c, contributed := k\<rparr>))))"

definition event_withdrawal :: "ledger_state \<Rightarrow> ledger_event \<Rightarrow> ledger_state res" where
  "event_withdrawal s e =
     bnd (money (amount e)) (\<lambda>a.
     if a \<le> 0 then Inl (LedgerError ''INVALID_AMOUNT'') else
     if cash s < a then Inl (LedgerError ''INSUFFICIENT_CASH'') else
     bnd (money (dsub (cash s) a)) (\<lambda>c.
     bnd (money (dadd (withdrawn s) a)) (\<lambda>w.
     Inr (s\<lparr>cash := c, withdrawn := w\<rparr>))))"

text \<open>The common tail of \<open>COMMISSION\<close>, \<open>TAX\<close> and \<open>OTHER_FEE\<close>; they differ in the amount read.\<close>

definition event_fee :: "ledger_state \<Rightarrow> decimal \<Rightarrow> ledger_state res" where
  "event_fee s v =
     bnd (money v) (\<lambda>fee.
     if fee \<le> 0 then Inl (LedgerError ''INVALID_AMOUNT'') else
     if cash s < fee then Inl (LedgerError ''INSUFFICIENT_CASH'') else
     bnd (money (dsub (cash s) fee)) (\<lambda>c. Inr (s\<lparr>cash := c\<rparr>)))"

definition event_income :: "ledger_state \<Rightarrow> ledger_event \<Rightarrow> ledger_state res" where
  "event_income s e =
     bnd (money (amount e)) (\<lambda>a.
     if a \<le> 0 then Inl (LedgerError ''INVALID_AMOUNT'') else
     bnd (money (dadd (cash s) a)) (\<lambda>c. Inr (s\<lparr>cash := c\<rparr>)))"

text \<open>\<open>out.positions.get(iid) or PositionBook()\<close>.\<close>

definition book_of :: "ledger_state \<Rightarrow> int \<Rightarrow> position_book" where
  "book_of s iid = opt_or (positions s iid) empty_book"

definition put_book :: "ledger_state \<Rightarrow> int \<Rightarrow> position_book \<Rightarrow> ledger_state" where
  "put_book s iid b = s\<lparr>books := AList.update iid b (books s)\<rparr>"

text \<open>\<open>out.contributed = money(out.contributed + money(u * px))\<close>.\<close>

definition contribute :: "ledger_state \<Rightarrow> decimal \<Rightarrow> decimal \<Rightarrow> ledger_state res" where
  "contribute s u px =
     bnd (money (dmul u px)) (\<lambda>v.
     bnd (money (dadd (contributed s) v)) (\<lambda>k. Inr (s\<lparr>contributed := k\<rparr>)))"

definition open_into_book :: "ledger_state \<Rightarrow> int \<Rightarrow> decimal \<Rightarrow> decimal option \<Rightarrow> ledger_state res" where
  "open_into_book s iid u px =
     (let book = book_of s iid in
      if units book > 0 then
        (case (average_cost book, px) of
           (Some avg, Some p) \<Rightarrow>
             bnd (money (dadd (dmul (units book) avg) (dmul u p))) (\<lambda>total.
             bnd (units_q (dadd (units book) u)) (\<lambda>n.
             bnd (if n > 0 then bnd (ddivE total n) (\<lambda>q. bnd (money q) (\<lambda>a. Inr (Some a))) else Inr None) (\<lambda>avg'.
             bnd (contribute s u p) (\<lambda>s'.
             Inr (put_book s' iid \<lparr>units = n, average_cost = avg'\<rparr>)))))
         | _ \<Rightarrow>
             bnd (units_q (dadd (units book) u)) (\<lambda>n.
             Inr (put_book (s\<lparr>cost_basis_incomplete := True\<rparr>) iid \<lparr>units = n, average_cost = None\<rparr>)))
      else
        (case px of
           None \<Rightarrow> Inr (put_book (s\<lparr>cost_basis_incomplete := True\<rparr>) iid \<lparr>units = u, average_cost = None\<rparr>)
         | Some p \<Rightarrow>
             bnd (contribute s u p) (\<lambda>s'.
             Inr (put_book s' iid \<lparr>units = u, average_cost = Some p\<rparr>))))"

definition event_opening_position :: "ledger_state \<Rightarrow> ledger_event \<Rightarrow> ledger_state res" where
  "event_opening_position s e =
     (case instrument_id e of
        None \<Rightarrow> Inl (LedgerError ''INSTRUMENT_REQUIRED'')
      | Some iid \<Rightarrow>
          bnd (units_q (ev_units e)) (\<lambda>u.
          if u \<le> 0 then Inl (LedgerError ''INVALID_UNITS'') else
          (case price e of
             None \<Rightarrow> open_into_book s iid u None
           | Some p \<Rightarrow>
               bnd (money p) (\<lambda>px.
               if px < 0 then Inl (LedgerError ''INVALID_PRICE'') else open_into_book s iid u (Some px)))))"

text \<open>The checks that \<open>BUY\<close> and \<open>SELL\<close> share, in the code's order: instrument, units, price.\<close>

definition trade_args :: "ledger_event \<Rightarrow> (int \<times> decimal \<times> decimal) res" where
  "trade_args e =
     (case instrument_id e of
        None \<Rightarrow> Inl (LedgerError ''INSTRUMENT_REQUIRED'')
      | Some iid \<Rightarrow>
          bnd (units_q (ev_units e)) (\<lambda>u.
          (case price e of
             None \<Rightarrow> Inl (LedgerError ''INVALID_PRICE'')
           | Some p \<Rightarrow>
               bnd (money p) (\<lambda>px.
               if u \<le> 0 then Inl (LedgerError ''INVALID_UNITS'') else
               if px \<le> 0 then Inl (LedgerError ''INVALID_PRICE'') else Inr (iid, u, px)))))"

text \<open>The new book of a purchase: weighted average cost with the commission included.\<close>

definition buy_into_book :: "position_book \<Rightarrow> decimal \<Rightarrow> decimal \<Rightarrow> decimal \<Rightarrow> position_book res" where
  "buy_into_book book u notional comm =
     (if average_cost book = None \<and> units book > 0 then
        bnd (units_q (dadd (units book) u)) (\<lambda>n. Inr \<lparr>units = n, average_cost = None\<rparr>)
      else
        bnd (money (case average_cost book of Some avg \<Rightarrow> dmul (units book) avg | None \<Rightarrow> 0)) (\<lambda>prior.
        bnd (money (dadd (dadd prior notional) comm)) (\<lambda>total.
        bnd (units_q (dadd (units book) u)) (\<lambda>n.
        bnd (ddivE total n) (\<lambda>q.
        bnd (money q) (\<lambda>avg'. Inr \<lparr>units = n, average_cost = Some avg'\<rparr>))))))"

definition event_buy :: "ledger_state \<Rightarrow> ledger_event \<Rightarrow> decimal \<Rightarrow> ledger_state res" where
  "event_buy s e comm =
     bnd (trade_args e) (\<lambda>(iid, u, px).
     bnd (money (dmul u px)) (\<lambda>notional.
     bnd (money (dadd notional comm)) (\<lambda>cash_out.
     if cash s < cash_out then Inl (LedgerError ''INSUFFICIENT_CASH'') else
     let book = book_of s iid;
         s1 = (if average_cost book = None \<and> units book > 0 then s\<lparr>cost_basis_incomplete := True\<rparr> else s)
     in bnd (buy_into_book book u notional comm) (\<lambda>book'.
        bnd (money (dsub (cash s) cash_out)) (\<lambda>c.
        Inr ((put_book s1 iid book')\<lparr>cash := c\<rparr>))))))"

definition event_sell :: "ledger_state \<Rightarrow> ledger_event \<Rightarrow> decimal \<Rightarrow> ledger_state res" where
  "event_sell s e comm =
     bnd (trade_args e) (\<lambda>(iid, u, px).
     case positions s iid of
       None \<Rightarrow> Inl (LedgerError ''INSUFFICIENT_UNITS'')
     | Some book \<Rightarrow>
       if units book < u then Inl (LedgerError ''INSUFFICIENT_UNITS'') else
       bnd (money (dmul u px)) (\<lambda>gross.
       bnd (money (dsub gross comm)) (\<lambda>proceeds.
       if proceeds < 0 then Inl (LedgerError ''INVALID_COMMISSION'') else
       bnd (units_q (dsub (units book) u)) (\<lambda>remaining.
       bnd (case average_cost book of
              None \<Rightarrow> Inr (s\<lparr>cost_basis_incomplete := True\<rparr>)
            | Some avg \<Rightarrow>
                bnd (money (dmul u avg)) (\<lambda>cost.
                bnd (money (dsub proceeds cost)) (\<lambda>realized.
                bnd (money (dadd (realized_pnl s) realized)) (\<lambda>r.
                Inr (s\<lparr>realized_pnl := r\<rparr>))))) (\<lambda>s1.
       let s2 = (if remaining = 0 then s1\<lparr>books := AList.delete iid (books s1)\<rparr>
                 else put_book s1 iid (book\<lparr>units := remaining\<rparr>))
       in bnd (money (dadd (cash s) proceeds)) (\<lambda>c. Inr (s2\<lparr>cash := c\<rparr>)))))))"

definition apply_event :: "ledger_state \<Rightarrow> ledger_event \<Rightarrow> ledger_state res" where
  "apply_event s e =
     bnd (money (commission e)) (\<lambda>comm.
     if comm < 0 then Inl (LedgerError ''INVALID_COMMISSION'') else
     (case operation_type e of
        DEPOSIT \<Rightarrow> event_deposit s e
      | OPENING_CASH \<Rightarrow> event_deposit s e
      | WITHDRAWAL \<Rightarrow> event_withdrawal s e
      | COMMISSION \<Rightarrow> event_fee s (if amount e \<noteq> 0 then amount e else commission e)
      | TAX \<Rightarrow> event_fee s (amount e)
      | OTHER_FEE \<Rightarrow> event_fee s (amount e)
      | DIVIDEND \<Rightarrow> event_income s e
      | COUPON \<Rightarrow> event_income s e
      | AMORTIZATION \<Rightarrow> event_income s e
      | OPENING_POSITION \<Rightarrow> event_opening_position s e
      | BUY \<Rightarrow> event_buy s e comm
      | SELL \<Rightarrow> event_sell s e comm))"

text \<open>\<open>investment_pnl\<close> and \<open>lots_to_units\<close>.\<close>

definition investment_pnl :: "decimal \<Rightarrow> decimal \<Rightarrow> decimal \<Rightarrow> decimal res" where
  "investment_pnl nav contrib withdr =
     bnd (money (dsub contrib withdr)) (\<lambda>net. money (dsub nav net))"

definition lots_to_units :: "decimal \<Rightarrow> int \<Rightarrow> decimal res" where
  "lots_to_units lots lot_size =
     (if lot_size \<le> 0 then Inl (LedgerError ''INVALID_LOT_SIZE'')
      else units_q (dmul lots (of_int lot_size)))"


lemma positions_upd [simp]:
  "positions (s\<lparr>cash := x\<rparr>) = positions s" "positions (s\<lparr>contributed := x\<rparr>) = positions s"
  "positions (s\<lparr>withdrawn := x\<rparr>) = positions s" "positions (s\<lparr>realized_pnl := x\<rparr>) = positions s"
  "positions (s\<lparr>cost_basis_incomplete := y\<rparr>) = positions s"
  "positions (s\<lparr>books := AList.delete iid (books s)\<rparr>) = (positions s)(iid := None)"
  by (simp_all add: positions_def delete_conv')

lemma positions_empty [simp]: "positions empty_ledger = Map.empty"
  by (simp add: positions_def empty_ledger_def)

lemma put_book_simps [simp]:
  "cash (put_book s iid b) = cash s" "contributed (put_book s iid b) = contributed s"
  "withdrawn (put_book s iid b) = withdrawn s" "realized_pnl (put_book s iid b) = realized_pnl s"
  "cost_basis_incomplete (put_book s iid b) = cost_basis_incomplete s"
  "positions (put_book s iid b) = (positions s)(iid \<mapsto> b)"
  by (simp_all add: put_book_def positions_def update_conv')

section \<open>Money is exact on its grid\<close>

definition q6 :: "decimal \<Rightarrow> decimal" where "q6 x = of_int (rhu (x * 10 ^ 6)) / 10 ^ 6"
definition q8 :: "decimal \<Rightarrow> decimal" where "q8 x = of_int (rhu (x * 10 ^ 8)) / 10 ^ 8"

lemma money_q6: "money x = Inr y \<Longrightarrow> y = q6 x"
  by (auto simp: money_def quantize_def q6_def Let_def split: if_splits)

lemma units_q8: "units_q x = Inr y \<Longrightarrow> y = q8 x"
  by (auto simp: units_q_def quantize_def q8_def Let_def split: if_splits)

lemma money_grid: "money x = Inr y \<Longrightarrow> on_grid 6 y"
  unfolding money_def by (rule quantize_grid)

lemma units_grid: "units_q x = Inr y \<Longrightarrow> on_grid 8 y"
  unfolding units_q_def by (rule quantize_grid)

lemma money_nonneg: "money x = Inr y \<Longrightarrow> 0 \<le> x \<Longrightarrow> 0 \<le> y"
  unfolding money_def by (rule quantize_sign(1))

lemma money_add_exact: "\<lbrakk>on_grid 6 x; on_grid 6 y; money (dadd x y) = Inr z\<rbrakk> \<Longrightarrow> z = x + y"
  unfolding money_def dadd_def by (rule quantize_dround_grid [OF on_grid_add]) auto

lemma money_sub_exact: "\<lbrakk>on_grid 6 x; on_grid 6 y; money (dsub x y) = Inr z\<rbrakk> \<Longrightarrow> z = x - y"
  unfolding money_def dsub_def by (rule quantize_dround_grid [OF on_grid_diff]) auto

lemma units_add_exact: "\<lbrakk>on_grid 8 x; on_grid 8 y; units_q (dadd x y) = Inr z\<rbrakk> \<Longrightarrow> z = x + y"
  unfolding units_q_def dadd_def by (rule quantize_dround_grid [OF on_grid_add]) auto

lemma units_sub_exact: "\<lbrakk>on_grid 8 x; on_grid 8 y; units_q (dsub x y) = Inr z\<rbrakk> \<Longrightarrow> z = x - y"
  unfolding units_q_def dsub_def by (rule quantize_dround_grid [OF on_grid_diff]) auto

lemma money_mul_nonneg: "\<lbrakk>0 \<le> x; 0 \<le> y; money (dmul x y) = Inr z\<rbrakk> \<Longrightarrow> 0 \<le> z"
  by (erule money_nonneg) (simp add: dmul_def dround_nonneg)

lemma ddivE_nonneg: "\<lbrakk>0 \<le> x; 0 \<le> y; ddivE x y = Inr z\<rbrakk> \<Longrightarrow> 0 \<le> z"
  by (auto simp: ddivE_def ddiv_def dround_nonneg split: if_splits)

lemmas money_facts = money_add_exact money_sub_exact money_grid

section \<open>The invariant\<close>

definition book_ok :: "position_book \<Rightarrow> bool" where
  "book_ok b \<longleftrightarrow> 0 < units b \<and> on_grid 8 (units b) \<and>
     (\<forall>a. average_cost b = Some a \<longrightarrow> 0 \<le> a \<and> on_grid 6 a)"

definition totals_ok :: "ledger_state \<Rightarrow> bool" where
  "totals_ok s \<longleftrightarrow> 0 \<le> cash s \<and> on_grid 6 (cash s) \<and> 0 \<le> contributed s \<and> on_grid 6 (contributed s) \<and>
     0 \<le> withdrawn s \<and> on_grid 6 (withdrawn s) \<and> on_grid 6 (realized_pnl s)"

definition ledger_inv :: "ledger_state \<Rightarrow> bool" where
  "ledger_inv s \<longleftrightarrow> totals_ok s \<and>
     (\<forall>iid b. positions s iid = Some b \<longrightarrow>
        book_ok b \<and> (average_cost b = None \<longrightarrow> cost_basis_incomplete s))"

lemma ledger_inv_empty: "ledger_inv empty_ledger"
  by (simp add: ledger_inv_def totals_ok_def) (simp add: empty_ledger_def)

lemma ledger_invD:
  assumes "ledger_inv s"
  shows "totals_ok s" and "positions s iid = Some b \<Longrightarrow> book_ok b"
    and "positions s iid = Some b \<Longrightarrow> average_cost b = None \<Longrightarrow> cost_basis_incomplete s"
  using assms by (auto simp: ledger_inv_def)

lemma book_of_cases:
  assumes "ledger_inv s"
  shows "book_of s iid = empty_book \<or> book_ok (book_of s iid)"
  using assms by (auto simp: book_of_def opt_or_def ledger_inv_def split: option.splits)

lemma ledger_inv_put:
  assumes "ledger_inv s" and "totals_ok s'" and "positions s' = (positions s)(iid \<mapsto> b)" and "book_ok b"
    and "cost_basis_incomplete s \<longrightarrow> cost_basis_incomplete s'"
    and "average_cost b = None \<longrightarrow> cost_basis_incomplete s'"
  shows "ledger_inv s'"
  using assms by (auto simp: ledger_inv_def)

lemma ledger_inv_totals:
  assumes "ledger_inv s" and "totals_ok s'" and "positions s' = positions s"
    and "cost_basis_incomplete s \<longrightarrow> cost_basis_incomplete s'"
  shows "ledger_inv s'"
  using assms by (auto simp: ledger_inv_def)

section \<open>What each operation does\<close>

lemma event_deposit_spec:
  assumes s: "ledger_inv s" and r: "event_deposit s e = Inr s'"
  shows "s' = s\<lparr>cash := cash s + q6 (amount e), contributed := contributed s + q6 (amount e)\<rparr>"
    and "0 < q6 (amount e)" and "on_grid 6 (q6 (amount e))"
proof -
  from r obtain a c k where a: "money (amount e) = Inr a" "0 < a"
    and c: "money (dadd (cash s) a) = Inr c" and k: "money (dadd (contributed s) a) = Inr k"
    and s': "s' = s\<lparr>cash := c, contributed := k\<rparr>"
    by (auto simp: event_deposit_def exn_simps)
  have g: "on_grid 6 a" using a(1) by (rule money_grid)
  have t: "on_grid 6 (cash s)" "on_grid 6 (contributed s)"
    using ledger_invD(1) [OF s] by (simp_all add: totals_ok_def)
  show "s' = s\<lparr>cash := cash s + q6 (amount e), contributed := contributed s + q6 (amount e)\<rparr>"
    and "0 < q6 (amount e)" and "on_grid 6 (q6 (amount e))"
    using s' a g money_add_exact [OF t(1) g c] money_add_exact [OF t(2) g k] money_q6 [OF a(1)] by simp_all
qed

lemma event_withdrawal_spec:
  assumes s: "ledger_inv s" and r: "event_withdrawal s e = Inr s'"
  shows "s' = s\<lparr>cash := cash s - q6 (amount e), withdrawn := withdrawn s + q6 (amount e)\<rparr>"
    and "0 < q6 (amount e)" and "on_grid 6 (q6 (amount e))" and "q6 (amount e) \<le> cash s"
proof -
  from r obtain a c k where a: "money (amount e) = Inr a" "0 < a" "a \<le> cash s"
    and c: "money (dsub (cash s) a) = Inr c" and k: "money (dadd (withdrawn s) a) = Inr k"
    and s': "s' = s\<lparr>cash := c, withdrawn := k\<rparr>"
    by (auto simp: event_withdrawal_def exn_simps)
  have g: "on_grid 6 a" using a(1) by (rule money_grid)
  have t: "on_grid 6 (cash s)" "on_grid 6 (withdrawn s)"
    using ledger_invD(1) [OF s] by (simp_all add: totals_ok_def)
  show "s' = s\<lparr>cash := cash s - q6 (amount e), withdrawn := withdrawn s + q6 (amount e)\<rparr>"
    and "0 < q6 (amount e)" and "on_grid 6 (q6 (amount e))" and "q6 (amount e) \<le> cash s"
    using s' a g money_sub_exact [OF t(1) g c] money_add_exact [OF t(2) g k] money_q6 [OF a(1)] by simp_all
qed

lemma event_fee_spec:
  assumes s: "ledger_inv s" and r: "event_fee s v = Inr s'"
  shows "s' = s\<lparr>cash := cash s - q6 v\<rparr>" and "0 < q6 v" and "on_grid 6 (q6 v)" and "q6 v \<le> cash s"
proof -
  from r obtain a c where a: "money v = Inr a" "0 < a" "a \<le> cash s"
    and c: "money (dsub (cash s) a) = Inr c" and s': "s' = s\<lparr>cash := c\<rparr>"
    by (auto simp: event_fee_def exn_simps)
  have g: "on_grid 6 a" using a(1) by (rule money_grid)
  have t: "on_grid 6 (cash s)" using ledger_invD(1) [OF s] by (simp add: totals_ok_def)
  show "s' = s\<lparr>cash := cash s - q6 v\<rparr>" and "0 < q6 v" and "on_grid 6 (q6 v)" and "q6 v \<le> cash s"
    using s' a g money_sub_exact [OF t g c] money_q6 [OF a(1)] by simp_all
qed

lemma event_income_spec:
  assumes s: "ledger_inv s" and r: "event_income s e = Inr s'"
  shows "s' = s\<lparr>cash := cash s + q6 (amount e)\<rparr>" and "0 < q6 (amount e)" and "on_grid 6 (q6 (amount e))"
proof -
  from r obtain a c where a: "money (amount e) = Inr a" "0 < a"
    and c: "money (dadd (cash s) a) = Inr c" and s': "s' = s\<lparr>cash := c\<rparr>"
    by (auto simp: event_income_def exn_simps)
  have g: "on_grid 6 a" using a(1) by (rule money_grid)
  have t: "on_grid 6 (cash s)" using ledger_invD(1) [OF s] by (simp add: totals_ok_def)
  show "s' = s\<lparr>cash := cash s + q6 (amount e)\<rparr>" and "0 < q6 (amount e)" and "on_grid 6 (q6 (amount e))"
    using s' a g money_add_exact [OF t g c] money_q6 [OF a(1)] by simp_all
qed

lemma contribute_spec:
  assumes s: "totals_ok s" and r: "contribute s u px = Inr s'" and "0 \<le> u" "0 \<le> px"
  shows "s' = s\<lparr>contributed := contributed s + q6 (dmul u px)\<rparr>" and "totals_ok s'"
proof -
  from r obtain v k where v: "money (dmul u px) = Inr v"
    and k: "money (dadd (contributed s) v) = Inr k" and s': "s' = s\<lparr>contributed := k\<rparr>"
    by (auto simp: contribute_def exn_simps)
  have g: "on_grid 6 v" using v by (rule money_grid)
  have p: "0 \<le> v" using assms(3,4) v by (rule money_mul_nonneg)
  have t: "on_grid 6 (contributed s)" using s by (simp add: totals_ok_def)
  have k': "k = contributed s + v" by (rule money_add_exact [OF t g k])
  show "s' = s\<lparr>contributed := contributed s + q6 (dmul u px)\<rparr>"
    using s' k' money_q6 [OF v] by simp
  show "totals_ok s'" using s s' k' p money_grid [OF k] by (simp add: totals_ok_def)
qed


lemma totals_ok_cong:
  "\<lbrakk>cash s' = cash s; contributed s' = contributed s; withdrawn s' = withdrawn s;
    realized_pnl s' = realized_pnl s\<rbrakk> \<Longrightarrow> totals_ok s' = totals_ok s"
  by (simp add: totals_ok_def)

definition held_units :: "ledger_state \<Rightarrow> int \<Rightarrow> decimal" where
  "held_units s iid = (case positions s iid of None \<Rightarrow> 0 | Some b \<Rightarrow> units b)"

lemma units_book_of: "units (book_of s iid) = held_units s iid"
  by (simp add: book_of_def held_units_def opt_or_def empty_book_def split: option.splits)

lemma book_of_units_ok:
  assumes "ledger_inv s" shows "0 \<le> units (book_of s iid)" and "on_grid 8 (units (book_of s iid))"
  using book_of_cases [OF assms, of iid] by (auto simp: empty_book_def book_ok_def)

lemma new_avg_ok:
  assumes "0 \<le> tot" and "0 < n" and "ddivE tot n = Inr q" and "money q = Inr a"
  shows "0 \<le> a" and "on_grid 6 a"
  using assms ddivE_nonneg [of tot n q] money_nonneg [of q a] money_grid [of q a] by auto

lemma open_into_book_spec:
  assumes s: "ledger_inv s" and u: "0 < u" "on_grid 8 u" and px: "\<And>p. px = Some p \<Longrightarrow> 0 \<le> p \<and> on_grid 6 p"
    and r: "open_into_book s iid u px = Inr s'"
  shows "ledger_inv s' \<and> cash s' = cash s \<and> withdrawn s' = withdrawn s \<and> realized_pnl s' = realized_pnl s \<and>
    (\<exists>b. positions s' = (positions s)(iid \<mapsto> b) \<and> units b = held_units s iid + u)"
proof -
  define book where "book = book_of s iid"
  have t: "totals_ok s" using s by (rule ledger_invD)
  have bu: "0 \<le> units book" "on_grid 8 (units book)"
    unfolding book_def using book_of_units_ok [OF s] by simp_all
  have unk: ?thesis if "s' = put_book (s\<lparr>cost_basis_incomplete := True\<rparr>) iid \<lparr>units = n, average_cost = None\<rparr>"
    and "n = units book + u" for n
    using that bu u t s ledger_inv_put [OF s, of s' iid "\<lparr>units = n, average_cost = None\<rparr>"]
    by (auto simp: totals_ok_def book_ok_def on_grid_add book_def units_book_of)
  have kn: ?thesis if c: "contribute s u p = Inr s1" and s': "s' = put_book s1 iid \<lparr>units = n, average_cost = Some a\<rparr>"
    and n: "n = units book + u" and a: "0 \<le> a" "on_grid 6 a" and p: "0 \<le> p" for s1 n a p
  proof -
    have c1: "s1 = s\<lparr>contributed := contributed s + q6 (dmul u p)\<rparr>" "totals_ok s1"
      using contribute_spec [OF t c] u p by simp_all
    show ?thesis
      using c1 s' n a bu u ledger_inv_put [OF s, of s' iid "\<lparr>units = n, average_cost = Some a\<rparr>"]
      by (auto simp: totals_ok_def book_ok_def on_grid_add book_def units_book_of)
  qed
  have add: "units book + u = n" if "units_q (dadd (units book) u) = Inr n" for n
    using units_add_exact [OF bu(2) u(2) that] by simp
  show ?thesis
  proof (cases "0 < units book")
    case True
    show ?thesis
    proof (cases "\<exists>avg p. average_cost book = Some avg \<and> px = Some p")
      case True
      then obtain avg p where ap: "average_cost book = Some avg" "px = Some p" by auto
      have ok: "0 \<le> avg" using book_of_cases [OF s, of iid] ap(1) \<open>0 < units book\<close>
        by (auto simp: book_def book_ok_def empty_book_def)
      from r ap \<open>0 < units book\<close> obtain tot n q a s1 where
        tt: "money (dadd (dmul (units book) avg) (dmul u p)) = Inr tot"
        and n: "units_q (dadd (units book) u) = Inr n"
        and aa: "if 0 < n then ddivE tot n = Inr q \<and> money q = Inr a else False"
        and c: "contribute s u p = Inr s1" and s': "s' = put_book s1 iid \<lparr>units = n, average_cost = Some a\<rparr>"
        using add bu u unfolding open_into_book_def book_def [symmetric] Let_def
        by (auto simp: exn_simps split: if_splits)
      have "0 \<le> tot" using tt ok bu u px [OF ap(2)]
        by (intro money_nonneg [OF tt]) (auto simp: dadd_def dmul_def intro!: dround_nonneg add_nonneg_nonneg)
      then show ?thesis using kn [OF c s'] add [OF n] aa new_avg_ok [of tot n q a] px [OF ap(2)]
        by (auto split: if_splits)
    next
      case False
      then obtain n where "units_q (dadd (units book) u) = Inr n"
        and "s' = put_book (s\<lparr>cost_basis_incomplete := True\<rparr>) iid \<lparr>units = n, average_cost = None\<rparr>"
        using r \<open>0 < units book\<close> unfolding open_into_book_def book_def [symmetric] Let_def
        by (auto simp: exn_simps split: option.splits)
      then show ?thesis using unk add by metis
    qed
  next
    case False
    then have z: "units book = 0" using bu by simp
    show ?thesis
    proof (cases px)
      case None
      then have "s' = put_book (s\<lparr>cost_basis_incomplete := True\<rparr>) iid \<lparr>units = u, average_cost = None\<rparr>"
        using r False unfolding open_into_book_def book_def [symmetric] Let_def by simp
      then show ?thesis using unk z by simp
    next
      case (Some p)
      then obtain s1 where "contribute s u p = Inr s1" "s' = put_book s1 iid \<lparr>units = u, average_cost = Some p\<rparr>"
        using r False unfolding open_into_book_def book_def [symmetric] Let_def by (auto simp: exn_simps)
      then show ?thesis using kn [of p s1 u p] z px [OF Some] by simp
    qed
  qed
qed


definition trade_gross :: "ledger_event \<Rightarrow> decimal" where
  "trade_gross e = q6 (dmul (q8 (ev_units e)) (q6 (opt_or (price e) 0)))"

lemma trade_args_spec:
  assumes "trade_args e = Inr (iid, u, px)"
  shows "instrument_id e = Some iid" and "u = q8 (ev_units e)" and "px = q6 (opt_or (price e) 0)"
    and "0 < u" and "0 < px" and "on_grid 8 u" and "on_grid 6 px" and "price e \<noteq> None"
  using assms
  by (auto simp: trade_args_def exn_simps units_q8 money_q6 split: option.splits
      intro: units_grid money_grid)

lemma buy_into_book_spec:
  assumes b: "0 \<le> units book" "on_grid 8 (units book)" "\<And>a. average_cost book = Some a \<Longrightarrow> 0 \<le> a"
    and u: "0 < u" "on_grid 8 u" and v: "0 \<le> v" and c: "0 \<le> c"
    and r: "buy_into_book book u v c = Inr b'"
  shows "book_ok b'" and "units b' = units book + u"
    and "average_cost b' = None \<longleftrightarrow> average_cost book = None \<and> 0 < units book"
proof -
  have "book_ok b' \<and> units b' = units book + u \<and>
      (average_cost b' = None \<longleftrightarrow> average_cost book = None \<and> 0 < units book)"
  proof (cases "average_cost book = None \<and> 0 < units book")
    case True
    then obtain n where "units_q (dadd (units book) u) = Inr n" "b' = \<lparr>units = n, average_cost = None\<rparr>"
      using r by (auto simp: buy_into_book_def exn_simps)
    then show ?thesis using True u b units_add_exact [OF b(2) u(2)]
      by (auto simp: book_ok_def on_grid_add)
  next
    case False
    then obtain prior tot n q a where
      pr: "money (case average_cost book of Some avg \<Rightarrow> dmul (units book) avg | None \<Rightarrow> 0) = Inr prior"
      and tt: "money (dadd (dadd prior v) c) = Inr tot" and n: "units_q (dadd (units book) u) = Inr n"
      and a: "ddivE tot n = Inr q" "money q = Inr a" and b': "b' = \<lparr>units = n, average_cost = Some a\<rparr>"
      using r by (auto simp: buy_into_book_def exn_simps simp del: dround_0)
    have "0 \<le> prior" using pr b(1,3)
      by (intro money_nonneg [OF pr]) (auto simp: dmul_def intro!: dround_nonneg split: option.splits)
    then have "0 \<le> tot" using v c
      by (intro money_nonneg [OF tt]) (auto simp: dadd_def intro!: dround_nonneg add_nonneg_nonneg)
    moreover have "n = units book + u" using units_add_exact [OF b(2) u(2) n] .
    ultimately show ?thesis using False new_avg_ok [of tot n q a] a b' b u
      by (auto simp: book_ok_def on_grid_add)
  qed
  then show "book_ok b'" and "units b' = units book + u"
    and "average_cost b' = None \<longleftrightarrow> average_cost book = None \<and> 0 < units book" by auto
qed

lemma event_buy_spec:
  assumes s: "ledger_inv s" and c: "0 \<le> comm" "on_grid 6 comm" and r: "event_buy s e comm = Inr s'"
  obtains iid b where "instrument_id e = Some iid" "ledger_inv s'"
    "cash s' = cash s - (trade_gross e + comm)"
    "contributed s' = contributed s" "withdrawn s' = withdrawn s" "realized_pnl s' = realized_pnl s"
    "positions s' = (positions s)(iid \<mapsto> b)" "units b = held_units s iid + q8 (ev_units e)"
proof -
  from r obtain iid u px v co b c' where ta: "trade_args e = Inr (iid, u, px)"
    and v: "money (dmul u px) = Inr v" and co: "money (dadd v comm) = Inr co" and le: "co \<le> cash s"
    and b: "buy_into_book (book_of s iid) u v comm = Inr b" and c': "money (dsub (cash s) co) = Inr c'"
    and s': "s' = (put_book (if average_cost (book_of s iid) = None \<and> 0 < units (book_of s iid)
        then s\<lparr>cost_basis_incomplete := True\<rparr> else s) iid b)\<lparr>cash := c'\<rparr>"
    unfolding event_buy_def Let_def by (auto simp: exn_simps)
  note t = trade_args_spec [OF ta]
  have tot: "totals_ok s" using s by (rule ledger_invD)
  have gv: "on_grid 6 v" using v by (rule money_grid)
  have pv: "0 \<le> v" using money_mul_nonneg [OF _ _ v] t(4,5) by simp
  have co': "co = v + comm" by (rule money_add_exact [OF gv c(2) co])
  have gc: "on_grid 6 (cash s)" using tot by (simp add: totals_ok_def)
  have cc: "c' = cash s - co" by (rule money_sub_exact [OF gc money_grid [OF co] c'])
  have avg: "0 \<le> a" if "average_cost (book_of s iid) = Some a" for a
    using book_of_cases [OF s, of iid] that by (auto simp: empty_book_def book_ok_def)
  note bk = buy_into_book_spec [OF book_of_units_ok [OF s] avg t(4,6) pv c(1) b]
  have inv: "ledger_inv s'"
  proof (rule ledger_inv_put [OF s])
    show "totals_ok s'" using tot le cc money_grid [OF c'] by (auto simp: totals_ok_def s')
    show "positions s' = (positions s)(iid \<mapsto> b)" by (simp add: s')
  qed (use bk in \<open>auto simp: s'\<close>)
  show thesis
    by (rule that [of iid b]) (use t inv cc co' bk in \<open>auto simp: s' trade_gross_def money_q6 [OF v] units_book_of\<close>)
qed

lemma event_sell_spec:
  assumes s: "ledger_inv s" and c: "0 \<le> comm" "on_grid 6 comm" and r: "event_sell s e comm = Inr s'"
  obtains iid book where "instrument_id e = Some iid" "ledger_inv s'"
    "cash s' = cash s + (trade_gross e - comm)"
    "contributed s' = contributed s" "withdrawn s' = withdrawn s"
    "realized_pnl s' = realized_pnl s + (case average_cost book of None \<Rightarrow> 0
       | Some a \<Rightarrow> trade_gross e - comm - q6 (dmul (q8 (ev_units e)) a))"
    "positions s iid = Some book" "q8 (ev_units e) \<le> units book"
    "positions s' = (positions s)(iid := if units book = q8 (ev_units e) then None
       else Some (book\<lparr>units := units book - q8 (ev_units e)\<rparr>))"
proof -
  from r obtain iid u px where ta: "trade_args e = Inr (iid, u, px)"
    by (auto simp: event_sell_def exn_simps)
  with r obtain book where p: "positions s iid = Some book" and le: "u \<le> units book"
    by (auto simp: event_sell_def split: option.splits if_splits)
  from r ta p le obtain v pr rem s1 c' where
      v: "money (dmul u px) = Inr v" and pr: "money (dsub v comm) = Inr pr" "0 \<le> pr"
    and rem: "units_q (dsub (units book) u) = Inr rem"
    and s1: "(case average_cost book of None \<Rightarrow> Inr (s\<lparr>cost_basis_incomplete := True\<rparr>)
            | Some avg \<Rightarrow> bnd (money (dmul u avg)) (\<lambda>cost.
                bnd (money (dsub pr cost)) (\<lambda>realized.
                bnd (money (dadd (realized_pnl s) realized)) (\<lambda>r. Inr (s\<lparr>realized_pnl := r\<rparr>))))) = Inr s1"
    and c': "money (dadd (cash s) pr) = Inr c'"
    and s': "s' = (if rem = 0 then s1\<lparr>books := AList.delete iid (books s1)\<rparr>
                 else put_book s1 iid (book\<lparr>units := rem\<rparr>))\<lparr>cash := c'\<rparr>"
    by (auto simp: event_sell_def exn_simps Let_def)
  note t = trade_args_spec [OF ta]
  have tot: "totals_ok s" using s by (rule ledger_invD)
  have bk: "book_ok book" using s p by (rule ledger_invD)
  have rem': "rem = units book - u"
    using bk t(6) rem units_sub_exact by (auto simp: book_ok_def)
  have pr': "pr = v - comm" by (rule money_sub_exact [OF money_grid [OF v] c(2) pr(1)])
  have cc: "c' = cash s + pr"
    using tot money_add_exact [OF _ money_grid [OF pr(1)] c'] by (simp add: totals_ok_def)
  have r1: "realized_pnl s1 = realized_pnl s + (case average_cost book of None \<Rightarrow> 0 | Some a \<Rightarrow> pr - q6 (dmul u a))
      \<and> on_grid 6 (realized_pnl s1) \<and> cash s1 = cash s \<and> contributed s1 = contributed s \<and> withdrawn s1 = withdrawn s
      \<and> positions s1 = positions s \<and> (cost_basis_incomplete s \<longrightarrow> cost_basis_incomplete s1)
      \<and> (average_cost book = None \<longrightarrow> cost_basis_incomplete s1)"
  proof (cases "average_cost book")
    case None
    then show ?thesis using s1 tot by (auto simp: totals_ok_def)
  next
    case (Some a)
    then obtain cost re rr where m: "money (dmul u a) = Inr cost" "money (dsub pr cost) = Inr re"
        "money (dadd (realized_pnl s) re) = Inr rr" and "s1 = s\<lparr>realized_pnl := rr\<rparr>"
      using s1 by (auto simp: exn_simps)
    moreover have "re = pr - cost" by (rule money_sub_exact [OF money_grid [OF pr(1)] money_grid [OF m(1)] m(2)])
    moreover have "rr = realized_pnl s + re"
      using tot money_add_exact [OF _ money_grid [OF m(2)] m(3)] by (simp add: totals_ok_def)
    ultimately show ?thesis using Some money_q6 [OF m(1)] money_grid [OF m(3)] by simp
  qed
  have inv: "ledger_inv s'"
    using s r1 tot cc pr(2) money_grid [OF c'] bk le rem' money_grid [OF pr(1)] units_grid [OF rem]
    by (auto simp: s' ledger_inv_def totals_ok_def book_ok_def split: if_splits)
  show thesis
    by (rule that [of iid book])
      (use t inv cc pr' r1 p le rem' in \<open>auto simp: s' trade_gross_def money_q6 [OF v] split: option.splits\<close>)
qed


section \<open>The ledger refines a double-entry account\<close>

text \<open>
  The abstract specification: what one event is worth to the cash account, to the external
  contributions and withdrawals and to the holding of an instrument, computed from the event
  alone.
\<close>

fun cash_flow :: "ledger_event \<Rightarrow> decimal" where
  "cash_flow e = (case operation_type e of
     DEPOSIT \<Rightarrow> q6 (amount e) | OPENING_CASH \<Rightarrow> q6 (amount e)
   | WITHDRAWAL \<Rightarrow> - q6 (amount e)
   | COMMISSION \<Rightarrow> - q6 (if amount e \<noteq> 0 then amount e else commission e)
   | TAX \<Rightarrow> - q6 (amount e) | OTHER_FEE \<Rightarrow> - q6 (amount e)
   | DIVIDEND \<Rightarrow> q6 (amount e) | COUPON \<Rightarrow> q6 (amount e) | AMORTIZATION \<Rightarrow> q6 (amount e)
   | OPENING_POSITION \<Rightarrow> 0
   | BUY \<Rightarrow> - (trade_gross e + q6 (commission e))
   | SELL \<Rightarrow> trade_gross e - q6 (commission e))"

fun unit_flow :: "ledger_event \<Rightarrow> int \<Rightarrow> decimal" where
  "unit_flow e iid = (if instrument_id e = Some iid then
     (case operation_type e of BUY \<Rightarrow> q8 (ev_units e) | OPENING_POSITION \<Rightarrow> q8 (ev_units e)
      | SELL \<Rightarrow> - q8 (ev_units e) | _ \<Rightarrow> 0) else 0)"

fun withdrawn_flow :: "ledger_event \<Rightarrow> decimal" where
  "withdrawn_flow e = (if operation_type e = WITHDRAWAL then q6 (amount e) else 0)"

declare cash_flow.simps [simp del] unit_flow.simps [simp del] withdrawn_flow.simps [simp del]

definition event_effect :: "ledger_state \<Rightarrow> ledger_event \<Rightarrow> ledger_state \<Rightarrow> bool" where
  "event_effect s e s' \<longleftrightarrow> ledger_inv s' \<and> cash s' = cash s + cash_flow e \<and>
     withdrawn s' = withdrawn s + withdrawn_flow e \<and>
     (\<forall>iid. held_units s' iid = held_units s iid + unit_flow e iid)"

lemma held_units_cong: "positions s' = positions s \<Longrightarrow> held_units s' iid = held_units s iid"
  by (simp add: held_units_def)

lemma ledger_inv_cash:
  assumes s: "ledger_inv s" and s': "s' = s\<lparr>cash := c, contributed := k, withdrawn := w\<rparr>"
    and "0 \<le> c" "on_grid 6 c" "0 \<le> k" "on_grid 6 k" "0 \<le> w" "on_grid 6 w"
  shows "ledger_inv s'"
  using assms ledger_invD(1) [OF s] by (intro ledger_inv_totals [OF s]) (auto simp: totals_ok_def)

lemma opening_args:
  assumes "event_opening_position s e = Inr s'"
  obtains iid u px where "instrument_id e = Some iid" "units_q (ev_units e) = Inr u" "0 < u"
    "open_into_book s iid u px = Inr s'" "\<And>p. px = Some p \<Longrightarrow> 0 \<le> p \<and> on_grid 6 p"
proof (cases "price e")
  case None
  then obtain iid u where "instrument_id e = Some iid" "units_q (ev_units e) = Inr u" "0 < u"
      "open_into_book s iid u None = Inr s'"
    using assms by (auto simp: event_opening_position_def exn_simps split: option.splits)
  then show thesis by (rule that) simp
next
  case (Some p)
  then obtain iid u px where "instrument_id e = Some iid" "units_q (ev_units e) = Inr u" "0 < u"
      "open_into_book s iid u (Some px) = Inr s'" and "money p = Inr px" "0 \<le> px"
    using assms by (auto simp: event_opening_position_def exn_simps split: option.splits)
  then show thesis by (intro that) (auto intro: money_grid)
qed

lemma apply_event_effect:
  assumes s: "ledger_inv s" and r: "apply_event s e = Inr s'"
  shows "event_effect s e s'"
proof -
  from r obtain comm where c: "money (commission e) = Inr comm" "0 \<le> comm"
    by (auto simp: apply_event_def exn_simps)
  note gc = money_grid [OF c(1)] and qc = money_q6 [OF c(1)]
  have t: "0 \<le> cash s" "on_grid 6 (cash s)" "0 \<le> contributed s" "on_grid 6 (contributed s)"
      "0 \<le> withdrawn s" "on_grid 6 (withdrawn s)"
    using ledger_invD(1) [OF s] by (simp_all add: totals_ok_def)
  note flows = cash_flow.simps unit_flow.simps withdrawn_flow.simps held_units_def
  have dep: ?thesis if "operation_type e \<in> {DEPOSIT, OPENING_CASH}" "event_deposit s e = Inr s'"
    using event_deposit_spec [OF s that(2)] that(1) t
      ledger_inv_cash [OF s, where s' = s' and c = "cash s'" and k = "contributed s'" and w = "withdrawn s"]
    by (auto simp: event_effect_def flows on_grid_add)
  have fee: ?thesis if "event_fee s v = Inr s'" "cash_flow e = - q6 v" "withdrawn_flow e = 0" "\<And>i. unit_flow e i = 0" for v
    using event_fee_spec [OF s that(1)] that(2-) t
      ledger_inv_cash [OF s, where s' = s' and c = "cash s'" and k = "contributed s" and w = "withdrawn s"]
    by (auto simp: event_effect_def held_units_def on_grid_diff)
  have inc: ?thesis if "operation_type e \<in> {DIVIDEND, COUPON, AMORTIZATION}" "event_income s e = Inr s'"
    using event_income_spec [OF s that(2)] that(1) t
      ledger_inv_cash [OF s, where s' = s' and c = "cash s'" and k = "contributed s" and w = "withdrawn s"]
    by (auto simp: event_effect_def flows on_grid_add)
  have wd: ?thesis if "operation_type e = WITHDRAWAL" "event_withdrawal s e = Inr s'"
    using event_withdrawal_spec [OF s that(2)] that(1) t
      ledger_inv_cash [OF s, where s' = s' and c = "cash s'" and k = "contributed s" and w = "withdrawn s'"]
    by (auto simp: event_effect_def flows on_grid_add on_grid_diff)
  have op: ?thesis if o: "operation_type e = OPENING_POSITION" "event_opening_position s e = Inr s'"
  proof (rule opening_args [OF o(2)])
    fix iid u px
    assume a: "instrument_id e = Some iid" "units_q (ev_units e) = Inr u" "0 < u"
      "open_into_book s iid u px = Inr s'" "\<And>p. px = Some p \<Longrightarrow> 0 \<le> p \<and> on_grid 6 p"
    show ?thesis
      using open_into_book_spec [OF s a(3) units_grid [OF a(2)] a(5) a(4)] a(1) units_q8 [OF a(2)] o(1)
      by (auto simp: event_effect_def flows)
  qed
  have buy: ?thesis if o: "operation_type e = BUY" "event_buy s e comm = Inr s'"
    by (rule event_buy_spec [OF s c(2) gc o(2)]) (use o(1) qc in \<open>auto simp: event_effect_def flows\<close>)
  have sell: ?thesis if o: "operation_type e = SELL" "event_sell s e comm = Inr s'"
    by (rule event_sell_spec [OF s c(2) gc o(2)]) (use o(1) qc in \<open>auto simp: event_effect_def flows\<close>)
  have f0: "withdrawn_flow e = 0" "\<And>i. unit_flow e i = 0" if "operation_type e \<in> {COMMISSION, TAX, OTHER_FEE}"
    using that by (auto simp: flows)
  from r c(1) show ?thesis
    by (cases "operation_type e")
      (auto simp: apply_event_def exn_simps cash_flow.simps intro!: f0 intro: fee dep inc wd op buy sell)
qed

section \<open>Properties\<close>

text \<open>C22: every event that is accepted keeps the ledger sound: cash, contributions and withdrawals
  are non-negative money values, every open position has positive units on the unit grid and a
  non-negative average cost, and a position without cost basis is flagged.\<close>

theorem apply_event_keeps_invariant:
  assumes "ledger_inv s" and "apply_event s e = Inr s'"
  shows "ledger_inv s'"
  using apply_event_effect [OF assms] by (simp add: event_effect_def)

definition deposit_100 :: ledger_event where
  "deposit_100 = \<lparr>operation_type = DEPOSIT, instrument_id = None, ev_units = 0, price = None, amount = 100, commission = 0\<rparr>"

definition buy_2 :: ledger_event where
  "buy_2 = \<lparr>operation_type = BUY, instrument_id = Some 7, ev_units = 2, price = Some 25, amount = 0, commission = 1/2\<rparr>"

definition after_deposit :: ledger_state where
  "after_deposit = empty_ledger\<lparr>cash := 100, contributed := 100\<rparr>"

definition after_buy :: ledger_state where
  "after_buy = after_deposit\<lparr>cash := 99/2, books := [(7, \<lparr>units = 2, average_cost = Some (101/4)\<rparr>)]\<rparr>"

lemma apply_deposit_100: "apply_event empty_ledger deposit_100 = Inr after_deposit"
  by code_simp

lemma apply_buy_2: "apply_event after_deposit buy_2 = Inr after_buy"
  by code_simp

lemma after_deposit_inv: "ledger_inv after_deposit"
  using apply_event_effect [OF ledger_inv_empty apply_deposit_100] by (simp add: event_effect_def)

theorem apply_event_keeps_invariant_witness: "ledger_inv after_buy"
  by (rule apply_event_keeps_invariant [OF after_deposit_inv apply_buy_2])

text \<open>C2: an accepted event moves cash, withdrawals and holdings by exactly the amounts that the
  double-entry specification reads off the event; the roundings of the code lose nothing.\<close>

theorem apply_event_double_entry:
  assumes "ledger_inv s" and "apply_event s e = Inr s'"
  shows "cash s' = cash s + cash_flow e \<and> withdrawn s' = withdrawn s + withdrawn_flow e \<and>
    (\<forall>iid. held_units s' iid = held_units s iid + unit_flow e iid)"
  using apply_event_effect [OF assms] by (simp add: event_effect_def)

theorem apply_event_double_entry_witness:
  "cash after_buy = 100 + cash_flow buy_2 \<and> cash_flow buy_2 = - (101/2) \<and> held_units after_buy 7 = unit_flow buy_2 7"
proof -
  note w = apply_event_double_entry [OF after_deposit_inv apply_buy_2]
  have "held_units after_buy 7 = held_units after_deposit 7 + unit_flow buy_2 7" using w by blast
  then show ?thesis using w
    by (simp add: after_deposit_def after_buy_def empty_ledger_def held_units_def positions_def)
qed

text \<open>C6: replaying a journal from the empty ledger gives the sum of its flows: final cash is the sum
  of the cash flows, and the units held of every instrument are the sum of its unit flows; both are
  non-negative.\<close>

theorem replay_is_sum_of_flows:
  assumes "foldM apply_event empty_ledger es = Inr s"
  shows "cash s = sum_list (map cash_flow es) \<and> 0 \<le> cash s \<and>
    (\<forall>iid. held_units s iid = sum_list (map (\<lambda>e. unit_flow e iid) es) \<and> 0 \<le> held_units s iid)"
proof -
  have gen: "foldM apply_event s0 es = Inr s \<Longrightarrow> ledger_inv s0 \<Longrightarrow> ledger_inv s \<and> cash s = cash s0 + sum_list (map cash_flow es) \<and>
      (\<forall>iid. held_units s iid = held_units s0 iid + sum_list (map (\<lambda>e. unit_flow e iid) es))" for s0
  proof (induction es arbitrary: s0)
    case (Cons e es)
    then obtain s1 where s1: "apply_event s0 e = Inr s1" "foldM apply_event s1 es = Inr s" by (auto simp: exn_simps)
    note eff = apply_event_effect [OF Cons.prems(2) s1(1)]
    show ?case using Cons.IH [OF s1(2)] eff by (simp add: event_effect_def)
  qed simp
  have z: "cash empty_ledger = 0" "held_units empty_ledger iid = 0" for iid
    by (simp_all add: held_units_def) (simp add: empty_ledger_def)
  note g = gen [OF assms ledger_inv_empty]
  have "0 \<le> held_units s iid" for iid
    using book_of_units_ok(1) g units_book_of by metis
  moreover have "0 \<le> cash s" using g by (simp add: ledger_inv_def totals_ok_def)
  ultimately show ?thesis using g z by simp
qed

theorem replay_is_sum_of_flows_witness:
  "cash after_buy = sum_list (map cash_flow [deposit_100, buy_2]) \<and> held_units after_buy 7 = 2"
proof -
  have "foldM apply_event empty_ledger [deposit_100, buy_2] = Inr after_buy"
    by (simp add: apply_deposit_100 apply_buy_2)
  from replay_is_sum_of_flows [OF this] show ?thesis by (simp add: after_buy_def held_units_def positions_def)
qed

text \<open>selling everything that was just bought, at the same price, restores the cash up to the two
  commissions and closes the position.\<close>

theorem buy_then_sell_roundtrip:
  assumes s: "ledger_inv s" and none: "positions s iid = None"
    and b: "operation_type eb = BUY" "instrument_id eb = Some iid" "apply_event s eb = Inr s1"
    and c: "operation_type es = SELL" "instrument_id es = Some iid" "apply_event s1 es = Inr s2"
    and same: "ev_units es = ev_units eb" "price es = price eb"
  shows "cash s2 = cash s - q6 (commission eb) - q6 (commission es) \<and> positions s2 iid = None"
proof -
  note e1 = apply_event_effect [OF s b(3)]
  have s1: "ledger_inv s1" using e1 by (simp add: event_effect_def)
  note e2 = apply_event_effect [OF s1 c(3)]
  have h: "held_units s iid = 0" using none by (simp add: held_units_def)
  have "held_units s2 iid = 0" "cash s2 = cash s - q6 (commission eb) - q6 (commission es)"
    using e1 e2 h b(1,2) c(1,2) same
    by (simp_all add: event_effect_def cash_flow.simps unit_flow.simps trade_gross_def)
  moreover have "ledger_inv s2" using e2 by (simp add: event_effect_def)
  then have "positions s2 iid = None \<or> 0 < held_units s2 iid"
    by (cases "positions s2 iid") (auto simp: ledger_inv_def book_ok_def held_units_def)
  ultimately show ?thesis by auto
qed

definition sell_2 :: ledger_event where
  "sell_2 = buy_2\<lparr>operation_type := SELL, commission := 1/4\<rparr>"

theorem buy_then_sell_roundtrip_witness:
  "\<exists>s2. apply_event after_buy sell_2 = Inr s2 \<and> cash s2 = 100 - q6 (1/2) - q6 (1/4) \<and> positions s2 7 = None"
proof -
  have r: "apply_event after_buy sell_2 = Inr (after_buy\<lparr>cash := 397/4, realized_pnl := - 3/4, books := []\<rparr>)"
    by code_simp
  show ?thesis
    using buy_then_sell_roundtrip [OF after_deposit_inv _ _ _ apply_buy_2 _ _ r] r
    by (simp add: buy_2_def sell_2_def after_deposit_def empty_ledger_def positions_def)
qed

text \<open>the error branches of a trade: a purchase or sale of non-positive units or at a non-positive
  price is refused before cash is looked at, a purchase that costs more than the cash is refused,
  and a sale of more than is held is refused; in every refusal the ledger is not returned at all.\<close>

theorem trade_refusals:
  assumes m: "money (commission e) = Inr c" "0 \<le> c" and i: "instrument_id e = Some iid"
    and u: "units_q (ev_units e) = Inr u" and p: "price e = Some p0" "money p0 = Inr p"
    and g: "money (dmul u p) = Inr gross" "money (dadd gross c) = Inr due"
    and t: "operation_type e = BUY \<or> operation_type e = SELL"
  shows "(u \<le> 0 \<longrightarrow> apply_event s e = Inl (LedgerError ''INVALID_UNITS'')) \<and>
    (0 < u \<and> p \<le> 0 \<longrightarrow> apply_event s e = Inl (LedgerError ''INVALID_PRICE'')) \<and>
    (0 < u \<and> 0 < p \<and> operation_type e = BUY \<and> cash s < due \<longrightarrow>
      apply_event s e = Inl (LedgerError ''INSUFFICIENT_CASH'')) \<and>
    (0 < u \<and> 0 < p \<and> operation_type e = SELL \<and> held_units s iid < u \<longrightarrow>
      apply_event s e = Inl (LedgerError ''INSUFFICIENT_UNITS''))"
  using assms by (auto simp: apply_event_def event_buy_def event_sell_def trade_args_def held_units_def split: option.splits)

theorem trade_refusals_witness:
  "apply_event after_buy (buy_2\<lparr>ev_units := 5\<rparr>) = Inl (LedgerError ''INSUFFICIENT_CASH'')"
proof -
  have q: "money (1/2) = Inr (1/2)" "units_q 5 = Inr 5" "money 25 = Inr 25" "money (dmul 5 25) = Inr 125"
      "money (dadd 125 (1/2)) = Inr (251/2)"
    by code_simp+
  show ?thesis
    using trade_refusals [of "buy_2\<lparr>ev_units := 5\<rparr>" "1/2" 7 5 25 25 125 "251/2" after_buy] q
    by (simp add: buy_2_def after_buy_def)
qed

end
