(* ===== verification/Pydate.thy ===== *)
theory Pydate
  imports Prelude
begin

text \<open>
  \<open>datetime.date\<close> and \<open>datetime.datetime\<close> as the modelled code uses them. A date is its proleptic
  Gregorian ordinal (\<open>toordinal\<close>), so comparison, \<open>timedelta(days=n)\<close> and \<open>weekday\<close> are integer
  arithmetic; the years 1 to 9999 bound it, and stepping outside raises \<open>OverflowError\<close>. The
  calendar arithmetic of \<open>date(y, m, d)\<close> and \<open>.year\<close> follows CPython's \<open>_ymd2ord\<close> and \<open>_ord2ymd\<close>.
  An aware \<open>datetime\<close> is a number of microseconds since \<open>0001-01-01T00:00Z\<close>.
\<close>

datatype date = Ord (toordinal: int)

instantiation date :: linorder
begin

definition less_eq_date :: "date \<Rightarrow> date \<Rightarrow> bool" where
  "less_eq_date a b \<longleftrightarrow> toordinal a \<le> toordinal b"

definition less_date :: "date \<Rightarrow> date \<Rightarrow> bool" where
  "less_date a b \<longleftrightarrow> toordinal a < toordinal b"

instance
  by standard (auto simp: less_eq_date_def less_date_def date.expand)

end

lemmas date_order = less_eq_date_def less_date_def

lemma Ord_le [simp]: "Ord a \<le> Ord b \<longleftrightarrow> a \<le> b"
  by (simp add: less_eq_date_def)

lemma Ord_less [simp]: "Ord a < Ord b \<longleftrightarrow> a < b"
  by (simp add: less_date_def)

definition valid_date :: "date \<Rightarrow> bool" where
  "valid_date d \<longleftrightarrow> 1 \<le> toordinal d \<and> toordinal d \<le> 3652059"

text \<open>\<open>d + timedelta(days=n)\<close>.\<close>

definition add_days :: "date \<Rightarrow> int \<Rightarrow> date res" where
  "add_days d n = (let o' = toordinal d + n in
     if 1 \<le> o' \<and> o' \<le> 3652059 then Inr (Ord o') else Inl OverflowError)"

lemma add_days_Inr: "add_days d n = Inr e \<longleftrightarrow> e = Ord (toordinal d + n) \<and> valid_date e"
  by (auto simp: add_days_def Let_def valid_date_def)

text \<open>\<open>(later - earlier).days\<close> and \<open>d.weekday()\<close> (Monday is 0).\<close>

definition days_between :: "date \<Rightarrow> date \<Rightarrow> int" where
  "days_between earlier later = toordinal later - toordinal earlier"

definition weekday :: "date \<Rightarrow> int" where
  "weekday d = (toordinal d + 6) mod 7"

lemma weekday_range: "0 \<le> weekday d \<and> weekday d \<le> 6"
proof -
  have "weekday d < 7" by (simp add: weekday_def)
  then show ?thesis by (simp add: weekday_def)
qed

section \<open>Years\<close>

definition is_leap :: "int \<Rightarrow> bool" where
  "is_leap y \<longleftrightarrow> y mod 4 = 0 \<and> (y mod 100 \<noteq> 0 \<or> y mod 400 = 0)"

definition days_before_year :: "int \<Rightarrow> int" where
  "days_before_year y = (let z = y - 1 in z * 365 + z div 4 - z div 100 + z div 400)"

definition days_before_month :: "int \<Rightarrow> int \<Rightarrow> int" where
  "days_before_month y m =
     [0, 31, 59, 90, 120, 151, 181, 212, 243, 273, 304, 334] ! nat (m - 1) +
     (if 2 < m \<and> is_leap y then 1 else 0)"

definition date_of :: "int \<Rightarrow> int \<Rightarrow> int \<Rightarrow> date" where
  "date_of y m d = Ord (days_before_year y + days_before_month y m + d)"

definition year_of :: "date \<Rightarrow> int" where
  "year_of d = (let n = toordinal d - 1;
       n400 = n div 146097; n = n mod 146097;
       n100 = n div 36524; n = n mod 36524;
       n4 = n div 1461; n = n mod 1461;
       n1 = n div 365;
       year = n400 * 400 + 1 + n100 * 100 + n4 * 4 + n1
     in if n1 = 4 \<or> n100 = 4 then year - 1 else year)"

lemma div_step: "0 < (k::int) \<Longrightarrow> y div k - (y - 1) div k = (if y mod k = 0 then 1 else 0)"
proof -
  assume k: "0 < k"
  have y: "y = k * (y div k) + y mod k" by simp
  have r: "0 \<le> y mod k" "y mod k < k" using k by simp_all
  show ?thesis
  proof (cases "y mod k = 0")
    case True
    have "y - 1 = k * (y div k - 1) + (k - 1)" using y True by (simp add: right_diff_distrib)
    then have "(y - 1) div k = y div k - 1" by (rule int_div_pos_eq) (use k in auto)
    with True show ?thesis by simp
  next
    case False
    have "y - 1 = k * (y div k) + (y mod k - 1)" using y by linarith
    then have "(y - 1) div k = y div k" by (rule int_div_pos_eq) (use r False in auto)
    with False show ?thesis by simp
  qed
qed

lemma days_before_year_diff: "days_before_year (y + 1) - days_before_year y = (if is_leap y then 366 else 365)"
proof -
  have e4: "y div 4 - (y - 1) div 4 = (if y mod 4 = 0 then 1 else 0)" by (rule div_step) simp
  have e100: "y div 100 - (y - 1) div 100 = (if y mod 100 = 0 then 1 else 0)" by (rule div_step) simp
  have e400: "y div 400 - (y - 1) div 400 = (if y mod 400 = 0 then 1 else 0)" by (rule div_step) simp
  have m: "y mod 100 = 0 \<Longrightarrow> y mod 4 = 0" "y mod 400 = 0 \<Longrightarrow> y mod 100 = 0"
    using dvd_trans [of 4 100 y] dvd_trans [of 100 400 y] by (simp_all add: mod_eq_0_iff_dvd)
  have "days_before_year (y + 1) - days_before_year y
      = 365 + (y div 4 - (y - 1) div 4) - (y div 100 - (y - 1) div 100) + (y div 400 - (y - 1) div 400)"
    by (simp add: days_before_year_def Let_def)
  also have "\<dots> = 365 + (if y mod 4 = 0 then 1 else 0) - (if y mod 100 = 0 then 1 else 0) + (if y mod 400 = 0 then 1 else 0)"
    by (simp only: e4 e100 e400)
  also have "\<dots> = (if is_leap y then 366 else 365)" using m
    by (cases "y mod 4 = 0"; cases "y mod 100 = 0"; cases "y mod 400 = 0")
      (simp_all only: is_leap_def if_True if_False not_True_eq_False not_False_eq_True, simp_all)
  finally show ?thesis .
qed

text \<open>The year of an ordinal is the one whose days it falls into.\<close>

lemma year_of_bounds:
  "days_before_year (year_of d) < toordinal d \<and> toordinal d \<le> days_before_year (year_of d + 1)"
proof -
  define n where "n = toordinal d - 1"
  define a where "a = n div 146097"
  define r1 where "r1 = n mod 146097"
  define b where "b = r1 div 36524"
  define r2 where "r2 = r1 mod 36524"
  define c where "c = r2 div 1461"
  define r3 where "r3 = r2 mod 1461"
  define e where "e = r3 div 365"
  define r4 where "r4 = r3 mod 365"
  have n: "n = a * 146097 + r1" "0 \<le> r1" "r1 < 146097" by (simp_all add: a_def r1_def)
  have r1: "r1 = b * 36524 + r2" "0 \<le> r2" "r2 < 36524" by (simp_all add: b_def r2_def)
  have r2: "r2 = c * 1461 + r3" "0 \<le> r3" "r3 < 1461" by (simp_all add: c_def r3_def)
  have r3: "r3 = e * 365 + r4" "0 \<le> r4" "r4 < 365" by (simp_all add: e_def r4_def)
  have b: "0 \<le> b" "b \<le> 4" using n r1 by linarith+
  have c: "0 \<le> c" "c \<le> 24" using r1 r2 by linarith+
  have e: "0 \<le> e" "e \<le> 4" using r2 r3 by linarith+
  define y where "y = a * 400 + b * 100 + c * 4 + e"
  have yr: "year_of d = (if e = 4 \<or> b = 4 then y else y + 1)"
    by (simp add: year_of_def Let_def n_def [symmetric] a_def [symmetric] r1_def [symmetric] b_def [symmetric]
        r2_def [symmetric] c_def [symmetric] r3_def [symmetric] e_def [symmetric] y_def)
  have D: "days_before_year (k + 1) = k * 365 + k div 4 - k div 100 + k div 400" for k
    by (simp add: days_before_year_def)
  have o': "toordinal d = n + 1" by (simp add: n_def)
  show ?thesis
  proof (cases "b = 4")
    case True
    then have z: "r2 = 0" "c = 0" "r3 = 0" "e = 0" "r4 = 0" using n r1 r2 r3 c e by linarith+
    have y: "y = (a * 400 + 399) + 1" using True z by (simp add: y_def)
    have "days_before_year (y + 1) = n + 1" using D [of y] n r1 True z by (simp add: y_def)
    moreover have "days_before_year y < n + 1"
      using days_before_year_diff [of y] calculation by (simp split: if_splits)
    ultimately show ?thesis using True yr o' by simp
  next
    case False
    then have b3: "b \<le> 3" using b by simp
    show ?thesis
    proof (cases "e = 4")
      case True
      then have z: "r4 = 0" "r3 = 1460" using r2 r3 by linarith+
      have y4: "y = a * 400 + b * 100 + (c + 1) * 4" using True by (simp add: y_def)
      have c23: "c \<le> 23" using r1 r2 z by linarith
      have d4: "y div 4 = a * 100 + b * 25 + c + 1" by (rule int_div_pos_eq [where r = 0]) (simp_all add: y4)
      have d100: "y div 100 = a * 4 + b" by (rule int_div_pos_eq [where r = "(c + 1) * 4"]) (use c23 c in \<open>simp_all add: y4\<close>)
      have d400: "y div 400 = a" by (rule int_div_pos_eq [where r = "b * 100 + (c + 1) * 4"]) (use c23 c b b3 in \<open>simp_all add: y4\<close>)
      have "days_before_year (y + 1) = n + 1"
        using D [of y] d4 d100 d400 n r1 r2 z by (simp add: y4)
      moreover have "days_before_year y < n + 1"
        using days_before_year_diff [of y] calculation by (simp split: if_splits)
      ultimately show ?thesis using True yr o' by simp
    next
      case e4: False
      then have e3: "e \<le> 3" using e by simp
      have d4: "y div 4 = a * 100 + b * 25 + c" by (rule int_div_pos_eq [where r = e]) (use e e3 in \<open>simp_all add: y_def\<close>)
      have d100: "y div 100 = a * 4 + b" by (rule int_div_pos_eq [where r = "c * 4 + e"]) (use e e3 c in \<open>simp_all add: y_def\<close>)
      have d400: "y div 400 = a" by (rule int_div_pos_eq [where r = "b * 100 + c * 4 + e"]) (use e e3 c b b3 in \<open>simp_all add: y_def\<close>)
      have lo: "days_before_year (y + 1) = n - r4"
        using D [of y] d4 d100 d400 n r1 r2 r3 by (simp add: y_def)
      have "days_before_year (y + 2) \<ge> n - r4 + 365"
        using days_before_year_diff [of "y + 1"] lo by (simp add: add.assoc split: if_splits)
      then show ?thesis using lo r3 yr o' False e4 by (simp add: add.assoc)
    qed
  qed
qed

section \<open>Instants\<close>

type_synonym instant = int

definition day_us :: int where "day_us = 86400000000"

datatype pydatetime = Naive instant | Aware instant int  \<comment> \<open>local reading, \<open>utcoffset\<close>\<close>

definition instant_date :: "instant \<Rightarrow> date" where
  "instant_date t = Ord (t div day_us + 1)"

text \<open>\<open>datetime.combine(d, time(h, m), tzinfo=UTC)\<close>.\<close>

definition combine_utc :: "date \<Rightarrow> int \<Rightarrow> int \<Rightarrow> instant" where
  "combine_utc d h m = (toordinal d - 1) * day_us + (h * 60 + m) * 60000000"

lemma instant_date_combine:
  "\<lbrakk>0 \<le> h; h < 24; 0 \<le> m; m < 60\<rbrakk> \<Longrightarrow> instant_date (combine_utc d h m) = d"
proof -
  assume a: "0 \<le> h" "h < 24" "0 \<le> m" "m < 60"
  have "0 \<le> h * 60 + m" "h * 60 + m \<le> 1439" using a by linarith+
  then have "(h * 60 + m) * 60000000 div 86400000000 = 0"
    by (intro div_pos_pos_trivial) auto
  then show ?thesis by (cases d) (simp add: instant_date_def combine_utc_def day_us_def)
qed

end
