(* ===== verification/Fees.thy ===== *)
theory Fees
  imports Ledger Pydate
begin

text \<open>
  The broker fee engine of \<open>backend/app/modules/portfolio/domain/fee_engine.py\<close>: rule matching by
  dimension, validity window and day-turnover tier, the choice of the winning rule by
  \<open>(priority, specificity, id)\<close>, and the fee on the clean notional. Strings are compared after
  \<open>_norm\<close> as in the code. Explanations are kept as what they are derived from, not as text.
\<close>

datatype fee_status = KNOWN | UNKNOWN

text \<open>\<open>FeeType\<close> is a \<open>StrEnum\<close>; rules carry its value as a string.\<close>

definition fee_type_percentage :: string where "fee_type_percentage = ''PERCENTAGE''"
definition fee_type_fixed :: string where "fee_type_fixed = ''FIXED''"
definition fee_type_both :: string where "fee_type_both = ''PERCENTAGE_PLUS_FIXED''"

record fee_rule =
  fr_id :: "int option"
  fr_code :: "string option"
  fr_market :: "string option"
  fr_trading_system :: "string option"
  fr_execution_channel :: "string option"
  fr_side :: "string option"
  fr_asset_class :: "string option"
  fr_instrument_subtype :: "string option"
  fr_instrument_id :: "int option"
  fr_instrument_symbol :: "string option"
  fr_turnover_from :: "decimal option"
  fr_turnover_to :: "decimal option"
  fr_fee_type :: string
  fr_percentage_rate :: "decimal option"
  fr_fixed_amount :: "decimal option"
  fr_exclude_from_turnover :: bool
  fr_priority :: int
  fr_valid_from :: "date option"
  fr_valid_to :: "date option"
  fr_explanation :: "string option"
  fr_active :: bool

record fee_context =
  fc_as_of :: date
  fc_side :: string
  fc_notional :: decimal
  fc_nkd :: decimal
  fc_market :: string
  fc_trading_system :: "string option"
  fc_execution_channel :: "string option"
  fc_asset_class :: "string option"
  fc_instrument_subtype :: "string option"
  fc_instrument_id :: "int option"
  fc_instrument_symbol :: "string option"
  fc_day_turnover :: decimal

datatype fee_explanation = No_matching_rule | Rule_text string | Matched_on_clean_notional

record fee_estimate =
  fe_status :: fee_status
  fe_amount :: "decimal option"
  fe_rule_id :: "int option"
  fe_explanation :: fee_explanation
  fe_exclude_from_turnover :: bool
  fe_matched_rule_code :: "string option"

definition is_unknown :: "fee_estimate \<Rightarrow> bool" where
  "is_unknown f \<longleftrightarrow> fe_status f = UNKNOWN"

section \<open>Matching\<close>

definition norm_str :: "string option \<Rightarrow> string option" where
  "norm_str value = (case value of None \<Rightarrow> None
     | Some v \<Rightarrow> let text = upper (strip v) in if text = [] then None else Some text)"

definition side_matches :: "string option \<Rightarrow> string \<Rightarrow> bool" where
  "side_matches rule_side trade_side =
     (let rs = norm_str rule_side in
      if rs = None \<or> rs = Some ''ANY'' then True else rs = norm_str (Some trade_side))"

definition dim_matches :: "string option \<Rightarrow> string option \<Rightarrow> bool" where
  "dim_matches rule_value ctx_value =
     (let rv = norm_str rule_value in if rv = None then True else rv = norm_str ctx_value)"

definition date_in_range :: "date \<Rightarrow> date option \<Rightarrow> date option \<Rightarrow> bool" where
  "date_in_range as_of valid_from valid_to =
     (if opt_sat (\<lambda>f. as_of < f) valid_from then False
      else if opt_sat (\<lambda>t. t < as_of) valid_to then False else True)"

definition turnover_matches :: "decimal \<Rightarrow> decimal option \<Rightarrow> decimal option \<Rightarrow> bool" where
  "turnover_matches day_turnover turnover_from turnover_to =
     (if opt_sat (\<lambda>f. day_turnover < f) turnover_from then False
      else if opt_sat (\<lambda>t. t \<le> day_turnover) turnover_to then False else True)"

definition instrument_matches :: "fee_rule \<Rightarrow> fee_context \<Rightarrow> bool" where
  "instrument_matches rule ctx =
     (if fr_instrument_id rule \<noteq> None \<and>
         (fc_instrument_id ctx = None \<or> fc_instrument_id ctx \<noteq> fr_instrument_id rule) then False
      else if fr_instrument_symbol rule \<noteq> None \<and>
         norm_str (fc_instrument_symbol ctx) \<noteq> norm_str (fr_instrument_symbol rule) then False
      else True)"

text \<open>The body of the loop of \<open>_match\<close>: the \<open>continue\<close> guards in the code's order.\<close>

definition rule_applies :: "fee_context \<Rightarrow> decimal \<Rightarrow> fee_rule \<Rightarrow> bool" where
  "rule_applies ctx day_turnover rule =
     (if \<not> fr_active rule then False
      else if \<not> date_in_range (fc_as_of ctx) (fr_valid_from rule) (fr_valid_to rule) then False
      else if \<not> side_matches (fr_side rule) (fc_side ctx) then False
      else if \<not> dim_matches (fr_market rule) (Some (fc_market ctx)) then False
      else if \<not> dim_matches (fr_trading_system rule) (fc_trading_system ctx) then False
      else if \<not> dim_matches (fr_execution_channel rule) (fc_execution_channel ctx) then False
      else if \<not> dim_matches (fr_asset_class rule) (fc_asset_class ctx) then False
      else if \<not> dim_matches (fr_instrument_subtype rule) (fc_instrument_subtype ctx) then False
      else if \<not> instrument_matches rule ctx then False
      else if \<not> turnover_matches day_turnover (fr_turnover_from rule) (fr_turnover_to rule) then False
      else True)"

text \<open>Lower priority wins; then instrument-pinned and side-pinned rules; then the lower id.\<close>

definition rule_key :: "fee_rule \<Rightarrow> int \<times> int \<times> int" where
  "rule_key r =
     (fr_priority r,
      (if fr_instrument_id r \<noteq> None \<or> fr_instrument_symbol r \<noteq> None then - 10 else 0) -
      (if fr_side r \<noteq> None \<and> norm_str (fr_side r) \<noteq> None \<and> norm_str (fr_side r) \<noteq> Some ''ANY'' then 1 else 0),
      opt_or (fr_id r) (10 ^ 9))"

definition match_rule :: "fee_rule list \<Rightarrow> fee_context \<Rightarrow> decimal \<Rightarrow> fee_rule option" where
  "match_rule rules ctx day_turnover =
     (let candidates = filter (rule_applies ctx day_turnover) rules in
      if candidates = [] then None else Some (hd (sort_key rule_key candidates)))"

section \<open>The amount\<close>

definition fee_base_notional :: "fee_context \<Rightarrow> decimal res" where
  "fee_base_notional ctx =
     bnd (money (fc_notional ctx)) (\<lambda>base. Inr (if base < 0 then 0 else base))"

definition compute_fee_amount :: "fee_rule \<Rightarrow> decimal \<Rightarrow> decimal res" where
  "compute_fee_amount rule base =
     (let fee_type = opt_or (norm_str (Some (fr_fee_type rule))) fee_type_percentage;
          pct = opt_or (fr_percentage_rate rule) 0 in
      bnd (case fr_fixed_amount rule of None \<Rightarrow> Inr 0 | Some f \<Rightarrow> money f) (\<lambda>fixed.
      if fee_type = fee_type_fixed then money fixed
      else if fee_type = fee_type_both then money (dadd (dmul base pct) fixed)
      else money (dmul base pct)))"

definition estimate_fee :: "fee_rule list \<Rightarrow> fee_context \<Rightarrow> fee_estimate res" where
  "estimate_fee rules ctx =
     bnd (fee_base_notional ctx) (\<lambda>base.
     bnd (money (fc_day_turnover ctx)) (\<lambda>t.
     let day_to = (if t < 0 then 0 else t) in
     case match_rule rules ctx day_to of
       None \<Rightarrow> Inr \<lparr>fe_status = UNKNOWN, fe_amount = None, fe_rule_id = None,
                 fe_explanation = No_matching_rule, fe_exclude_from_turnover = False,
                 fe_matched_rule_code = None\<rparr>
     | Some matched \<Rightarrow>
         bnd (compute_fee_amount matched base) (\<lambda>a.
         Inr \<lparr>fe_status = KNOWN, fe_amount = Some a, fe_rule_id = fr_id matched,
              fe_explanation = (case fr_explanation matched of
                 None \<Rightarrow> Matched_on_clean_notional
               | Some t \<Rightarrow> if t = [] then Matched_on_clean_notional else Rule_text t),
              fe_exclude_from_turnover = fr_exclude_from_turnover matched,
              fe_matched_rule_code = fr_code matched\<rparr>)))"

text \<open>\<open>fee_rule_to_spec\<close> of \<open>broker_fee_service.py\<close>: \<open>priority or 100\<close>, \<open>fee_type or PERCENTAGE\<close>.\<close>

definition fee_rule_to_spec :: "fee_rule \<Rightarrow> fee_rule" where
  "fee_rule_to_spec r = r\<lparr>fr_fee_type := (if fr_fee_type r = [] then fee_type_percentage else fr_fee_type r),
     fr_priority := (if fr_priority r = 0 then 100 else fr_priority r)\<rparr>"

section \<open>The built-in Sber rules\<close>

definition default_rule :: fee_rule where
  "default_rule = \<lparr>fr_id = None, fr_code = None, fr_market = None, fr_trading_system = None,
     fr_execution_channel = None, fr_side = None, fr_asset_class = None, fr_instrument_subtype = None,
     fr_instrument_id = None, fr_instrument_symbol = None, fr_turnover_from = None, fr_turnover_to = None,
     fr_fee_type = fee_type_percentage, fr_percentage_rate = None, fr_fixed_amount = None,
     fr_exclude_from_turnover = False, fr_priority = 100, fr_valid_from = None, fr_valid_to = None,
     fr_explanation = None, fr_active = True\<rparr>"

text \<open>\<open>profile_rule_ids\<close> maps a rule code to its stored id; the texts are placeholders.\<close>

definition sber_investment_builtin_rules :: "(string \<rightharpoonup> int) \<Rightarrow> fee_rule list" where
  "sber_investment_builtin_rules ids =
     [default_rule
        \<lparr>fr_id := Some (opt_or (ids ''SBER_SBFR_ZERO_TEMP'') 1), fr_code := Some ''SBER_SBFR_ZERO_TEMP'',
         fr_market := Some ''MOEX'', fr_execution_channel := Some ''ONLINE'', fr_side := Some ''ANY'',
         fr_instrument_symbol := Some ''SBFR'', fr_fee_type := fee_type_percentage,
         fr_percentage_rate := Some 0, fr_exclude_from_turnover := True, fr_priority := 10,
         fr_valid_from := Some (date_of 2026 8 4), fr_valid_to := Some (date_of 2026 12 31),
         fr_explanation := Some ''Temporary zero broker fee''\<rparr>,
      default_rule
        \<lparr>fr_id := Some (opt_or (ids ''SBER_MOEX_ONLINE_DEFAULT'') 2), fr_code := Some ''SBER_MOEX_ONLINE_DEFAULT'',
         fr_market := Some ''MOEX'', fr_execution_channel := Some ''ONLINE'', fr_side := Some ''ANY'',
         fr_fee_type := fee_type_percentage, fr_percentage_rate := Some (3/1000),
         fr_exclude_from_turnover := False, fr_priority := 100,
         fr_valid_from := Some (date_of 2026 9 29),
         fr_explanation := Some ''Default MOEX stock-market online trades: 0.3% of turnover''\<rparr>]"

section \<open>Lemmas\<close>

lemma match_rule_Some:
  assumes "match_rule rules ctx t = Some r"
  shows "r \<in> set rules" and "rule_applies ctx t r"
    and "\<And>r'. r' \<in> set rules \<Longrightarrow> rule_applies ctx t r' \<Longrightarrow> rule_key r \<le> rule_key r'"
proof -
  define cs where "cs = filter (rule_applies ctx t) rules"
  have ne: "cs \<noteq> []" and r: "r = hd (sort_key rule_key cs)"
    using assms by (auto simp: match_rule_def cs_def Let_def split: if_splits)
  have "r \<in> set cs" unfolding r by (rule hd_sort_key_in [OF ne])
  then show "r \<in> set rules" and "rule_applies ctx t r" by (auto simp: cs_def)
  show "rule_key r \<le> rule_key r'" if "r' \<in> set rules" "rule_applies ctx t r'" for r'
    unfolding r by (rule hd_sort_key_le) (use that in \<open>simp add: cs_def\<close>)
qed

lemma match_rule_None: "match_rule rules ctx t = None \<longleftrightarrow> (\<forall>r \<in> set rules. \<not> rule_applies ctx t r)"
  by (auto simp: match_rule_def Let_def filter_empty_conv)

lemma rule_applies_active: "rule_applies ctx t r \<Longrightarrow> fr_active r"
  by (simp add: rule_applies_def split: if_splits)

lemma match_rule_active: "match_rule (filter fr_active rules) ctx t = match_rule rules ctx t"
proof -
  have "filter (rule_applies ctx t) (filter fr_active rules) = filter (rule_applies ctx t) rules"
    by (induction rules) (auto dest: rule_applies_active)
  then show ?thesis by (simp add: match_rule_def)
qed

lemma rule_applies_nkd: "rule_applies (ctx\<lparr>fc_nkd := x\<rparr>) = rule_applies ctx"
  by (intro ext, cases ctx) (simp only: rule_applies_def instrument_matches_def fee_context.simps)

lemma rule_applies_notional: "rule_applies (ctx\<lparr>fc_notional := y\<rparr>) = rule_applies ctx"
  by (intro ext, cases ctx) (simp only: rule_applies_def instrument_matches_def fee_context.simps)

lemma match_rule_upd [simp]:
  "match_rule rules (ctx\<lparr>fc_nkd := x\<rparr>) t = match_rule rules ctx t"
  "match_rule rules (ctx\<lparr>fc_notional := y\<rparr>) t = match_rule rules ctx t"
  by (simp_all only: match_rule_def rule_applies_nkd rule_applies_notional)

definition rule_nonneg :: "fee_rule \<Rightarrow> bool" where
  "rule_nonneg r \<longleftrightarrow> 0 \<le> opt_or (fr_percentage_rate r) 0 \<and> 0 \<le> opt_or (fr_fixed_amount r) 0"

lemma fee_base_nonneg: "fee_base_notional ctx = Inr b \<Longrightarrow> 0 \<le> b"
  by (auto simp: fee_base_notional_def exn_simps)

lemma compute_fee_nonneg:
  assumes r: "rule_nonneg r" and b: "0 \<le> base" and a: "compute_fee_amount r base = Inr a"
  shows "0 \<le> a" and "on_grid 6 a"
proof -
  define pct where "pct = opt_or (fr_percentage_rate r) 0"
  obtain fixed where f: "(case fr_fixed_amount r of None \<Rightarrow> Inr 0 | Some f \<Rightarrow> money f) = Inr fixed"
    and m: "money fixed = Inr a \<or> money (dadd (dmul base pct) fixed) = Inr a \<or> money (dmul base pct) = Inr a"
    using a unfolding compute_fee_amount_def Let_def pct_def [symmetric]
    by (auto simp: exn_simps split: if_splits)
  have p: "0 \<le> pct" using r by (simp add: rule_nonneg_def pct_def)
  have fx: "0 \<le> fixed" using f r by (auto simp: rule_nonneg_def split: option.splits intro: money_nonneg)
  have bp: "0 \<le> dmul base pct" using b p by (simp add: dmul_def dround_nonneg)
  have bpf: "0 \<le> dadd (dmul base pct) fixed" using bp fx by (simp add: dadd_def dround_nonneg)
  show "0 \<le> a" using m fx bp bpf by (auto intro: money_nonneg)
  show "on_grid 6 a" using m by (auto intro: money_grid)
qed

lemma estimate_fee_cases:
  assumes "estimate_fee rules ctx = Inr f"
  obtains t where "fe_status f = UNKNOWN" "fe_amount f = None" "match_rule rules ctx t = None"
      "0 \<le> t"
  | t r b a where "fe_status f = KNOWN" "fe_amount f = Some a" "match_rule rules ctx t = Some r"
      "fee_base_notional ctx = Inr b" "compute_fee_amount r b = Inr a" "fe_rule_id f = fr_id r"
      "fe_exclude_from_turnover f = fr_exclude_from_turnover r" "fe_matched_rule_code f = fr_code r"
proof -
  from assms obtain b t0 where b: "fee_base_notional ctx = Inr b" and t0: "money (fc_day_turnover ctx) = Inr t0"
    by (auto simp: estimate_fee_def exn_simps)
  define t where "t = (if t0 < 0 then 0 else t0)"
  show thesis
  proof (cases "match_rule rules ctx t")
    case None
    then show thesis using assms b t0
      by (intro that(1) [of t]) (auto simp: estimate_fee_def Let_def t_def)
  next
    case (Some r)
    then obtain a where "compute_fee_amount r b = Inr a" and
      "f = \<lparr>fe_status = KNOWN, fe_amount = Some a, fe_rule_id = fr_id r,
              fe_explanation = (case fr_explanation r of
                 None \<Rightarrow> Matched_on_clean_notional
               | Some t \<Rightarrow> if t = [] then Matched_on_clean_notional else Rule_text t),
              fe_exclude_from_turnover = fr_exclude_from_turnover r,
              fe_matched_rule_code = fr_code r\<rparr>"
      using assms b t0 by (auto simp: estimate_fee_def Let_def t_def exn_simps)
    then show thesis using Some b by (intro that(2)) auto
  qed
qed

section \<open>Properties\<close>

text \<open>C23: the engine charges the applicable rule with the least key \<open>(priority, specificity, id)\<close>, and
  charges nothing exactly when no rule applies: then the estimate is UNKNOWN without an amount,
  otherwise it is KNOWN with the amount of the winning rule on the clean notional.\<close>

theorem estimate_fee_best_rule:
  assumes "estimate_fee rules ctx = Inr f" and "money (fc_day_turnover ctx) = Inr t" and "0 \<le> t"
  shows "if \<exists>r \<in> set rules. rule_applies ctx t r
    then \<exists>r b a. r \<in> set rules \<and> rule_applies ctx t r \<and>
      (\<forall>r' \<in> set rules. rule_applies ctx t r' \<longrightarrow> rule_key r \<le> rule_key r') \<and>
      fee_base_notional ctx = Inr b \<and> compute_fee_amount r b = Inr a \<and>
      fe_status f = KNOWN \<and> fe_amount f = Some a \<and> fe_rule_id f = fr_id r
    else fe_status f = UNKNOWN \<and> fe_amount f = None \<and> fe_rule_id f = None"
proof (cases "match_rule rules ctx t")
  case None
  then have "f = \<lparr>fe_status = UNKNOWN, fe_amount = None, fe_rule_id = None,
                 fe_explanation = No_matching_rule, fe_exclude_from_turnover = False,
                 fe_matched_rule_code = None\<rparr>"
    using assms by (auto simp: estimate_fee_def exn_simps Let_def)
  moreover have "\<not> (\<exists>r \<in> set rules. rule_applies ctx t r)" using None by (auto simp: match_rule_None)
  ultimately show ?thesis by simp
next
  case (Some r)
  obtain b a where "fee_base_notional ctx = Inr b" "compute_fee_amount r b = Inr a"
      "fe_status f = KNOWN" "fe_amount f = Some a" "fe_rule_id f = fr_id r"
    using assms Some by (auto simp: estimate_fee_def exn_simps Let_def)
  then show ?thesis using match_rule_Some [OF Some] by auto
qed

definition plain_context :: fee_context where
  "plain_context = \<lparr>fc_as_of = date_of 2026 10 1, fc_side = ''BUY'', fc_notional = 1000, fc_nkd = 0, fc_market = ''MOEX'',
     fc_trading_system = None, fc_execution_channel = Some ''ONLINE'', fc_asset_class = None,
     fc_instrument_subtype = None, fc_instrument_id = Some 5, fc_instrument_symbol = Some ''GAZP'', fc_day_turnover = 0\<rparr>"

definition plain_estimate :: fee_estimate where
  "plain_estimate = \<lparr>fe_status = KNOWN, fe_amount = Some 3, fe_rule_id = Some 2,
     fe_explanation = Rule_text ''Default MOEX stock-market online trades: 0.3% of turnover'',
     fe_exclude_from_turnover = False, fe_matched_rule_code = Some ''SBER_MOEX_ONLINE_DEFAULT''\<rparr>"

lemma estimate_plain: "estimate_fee (sber_investment_builtin_rules Map.empty) plain_context = Inr plain_estimate"
  by code_simp

theorem estimate_fee_best_rule_witness:
  "\<exists>r \<in> set (sber_investment_builtin_rules Map.empty). rule_applies plain_context 0 r \<and>
     compute_fee_amount r 1000 = Inr 3"
proof -
  have q: "money (fc_day_turnover plain_context) = Inr 0" "fee_base_notional plain_context = Inr 1000"
    by code_simp+
  show ?thesis
    using estimate_fee_best_rule [OF estimate_plain q(1)] q(2)
    by (auto simp: plain_estimate_def split: if_splits)
qed

text \<open>Accrued interest is not charged: the estimate depends on the clean notional alone.\<close>

theorem estimate_fee_ignores_nkd: "estimate_fee rules (ctx\<lparr>fc_nkd := x\<rparr>) = estimate_fee rules ctx"
proof -
  have "fee_base_notional (ctx\<lparr>fc_nkd := x\<rparr>) = fee_base_notional ctx"
    "fc_day_turnover (ctx\<lparr>fc_nkd := x\<rparr>) = fc_day_turnover ctx"
    by (simp_all add: fee_base_notional_def)
  then show ?thesis by (simp only: estimate_fee_def match_rule_upd)
qed

text \<open>Inactive rules never influence an estimate.\<close>

theorem estimate_fee_ignores_inactive: "estimate_fee (filter fr_active rules) ctx = estimate_fee rules ctx"
  by (simp add: estimate_fee_def match_rule_active)

text \<open>Consecutive turnover tiers are half open: a turnover between the outer bounds belongs to exactly
  one of two adjacent tiers, and never to both.\<close>

theorem turnover_tiers_partition:
  assumes "lo \<le> mid" and "mid \<le> hi"
  shows "(turnover_matches t (Some lo) (Some hi) \<longleftrightarrow>
      turnover_matches t (Some lo) (Some mid) \<or> turnover_matches t (Some mid) (Some hi)) \<and>
    \<not> (turnover_matches t (Some lo) (Some mid) \<and> turnover_matches t (Some mid) (Some hi))"
  using assms by (auto simp: turnover_matches_def)

theorem turnover_tiers_partition_witness:
  "turnover_matches 100 (Some 0) (Some 500) \<and> \<not> turnover_matches 100 (Some 0) (Some 100)"
  using turnover_tiers_partition [of 0 100 500 100] by (simp add: turnover_matches_def)

text \<open>The built-in Sber tariff, on an online MOEX trade: from 2026-09-29 every trade pays 0.3 percent,
  except that SBFR is free between 2026-08-04 and 2026-12-31; on any other day the fee is UNKNOWN.\<close>

theorem sber_tariff:
  assumes ctx: "fc_market ctx = ''MOEX''" "fc_execution_channel ctx = Some ''ONLINE''"
    and n: "money (fc_notional ctx) = Inr n" "0 \<le> n" and t: "money (fc_day_turnover ctx) = Inr t"
    and fee: "money (dmul n (3/1000)) = Inr due" and e: "estimate_fee (sber_investment_builtin_rules ids) ctx = Inr f"
  shows "fe_amount f =
    (if norm_str (fc_instrument_symbol ctx) = Some ''SBFR'' \<and>
        date_of 2026 8 4 \<le> fc_as_of ctx \<and> fc_as_of ctx \<le> date_of 2026 12 31 then Some 0
     else if date_of 2026 9 29 \<le> fc_as_of ctx then Some due else None)"
proof -
  define z where "z = sber_investment_builtin_rules ids ! 0"
  define r where "r = sber_investment_builtin_rules ids ! 1"
  have rules: "sber_investment_builtin_rules ids = [z, r]"
    by (simp add: z_def r_def sber_investment_builtin_rules_def)
  have norms: "norm_str (Some ''MOEX'') = Some ''MOEX''" "norm_str (Some ''ONLINE'') = Some ''ONLINE''"
      "norm_str (Some ''ANY'') = Some ''ANY''" "norm_str (Some ''SBFR'') = Some ''SBFR''" "norm_str None = None"
      "norm_str (Some fee_type_percentage) = Some fee_type_percentage"
    by code_simp+
  note sel = sber_investment_builtin_rules_def default_rule_def side_matches_def dim_matches_def
    instrument_matches_def date_in_range_def turnover_matches_def
  have z: "rule_applies ctx d z \<longleftrightarrow> norm_str (fc_instrument_symbol ctx) = Some ''SBFR'' \<and>
        date_of 2026 8 4 \<le> fc_as_of ctx \<and> fc_as_of ctx \<le> date_of 2026 12 31" for d
    by (auto simp: rule_applies_def z_def sel norms ctx Let_def)
  have r: "rule_applies ctx d r \<longleftrightarrow> date_of 2026 9 29 \<le> fc_as_of ctx" for d
    by (auto simp: rule_applies_def r_def sel norms ctx Let_def)
  have keys: "rule_key z < rule_key r"
    by (simp add: rule_key_def z_def r_def sber_investment_builtin_rules_def default_rule_def less_prod_def)
  have sorted: "sort_key rule_key [z, r] = [z, r]" using keys by (simp add: less_imp_le)
  have m: "match_rule [z, r] ctx d = (if rule_applies ctx d z then Some z else if rule_applies ctx d r then Some r else None)" for d
    using sorted by (simp add: match_rule_def)
  have pct: "compute_fee_amount z n = money (dmul n 0)" "compute_fee_amount r n = money (dmul n (3/1000))"
    by (simp_all add: compute_fee_amount_def z_def r_def sber_investment_builtin_rules_def default_rule_def
        norms [unfolded fee_type_percentage_def] fee_type_percentage_def fee_type_fixed_def fee_type_both_def Let_def)
  have z0: "money (dmul n 0) = Inr 0" by (simp add: dmul_def money_def quantize_of_grid)
  have b: "fee_base_notional ctx = Inr n" using n by (simp add: fee_base_notional_def)
  show ?thesis using e by (auto simp: estimate_fee_def b t rules m z r pct z0 fee Let_def split: if_splits)
qed

theorem sber_tariff_witness: "fe_amount plain_estimate = Some 3"
proof -
  have q: "money (fc_notional plain_context) = Inr 1000" "money (fc_day_turnover plain_context) = Inr 0"
      "money (dmul 1000 (3/1000)) = Inr 3" "date_of 2026 9 29 \<le> fc_as_of plain_context"
      "norm_str (fc_instrument_symbol plain_context) = Some ''GAZP''"
    by code_simp+
  show ?thesis
    using sber_tariff [OF _ _ q(1) _ q(2) q(3) estimate_plain] q(4,5) by (simp add: plain_context_def)
qed

end
