(* ===== verification/Feeadapter.thy ===== *)
theory Feeadapter
  imports Fees
begin

text \<open>
  The fee adapter of the shadow portfolio, \<open>backend/app/modules/shadow/domain/fee_estimate.py\<close>:
  the three implementations of the \<open>BrokerFeeEstimator\<close> protocol as one datatype, their quotes,
  and the resolution of a fee profile. The locale \<open>broker_fee_estimator\<close> is the protocol's
  contract, which the sell gate and the lot planner rely on. A session is the list of stored
  fee profiles, or none.
\<close>

record shadow_fee_quote =
  sq_status :: fee_status
  sq_amount :: "decimal option"
  sq_rule_id :: "int option"
  sq_matched_rule_code :: "string option"
  sq_profile_code :: "string option"
  sq_profile_version :: "int option"
  sq_fee_date :: date
  sq_exclude_from_turnover :: bool

definition quote_is_unknown :: "shadow_fee_quote \<Rightarrow> bool" where
  "quote_is_unknown q \<longleftrightarrow> sq_status q = UNKNOWN \<or> sq_amount q = None"

definition sber_code :: string where "sber_code = ''SBER_INVESTMENT''"
definition sber_version :: int where "sber_version = 1"

definition normalize_profile_code :: "string option \<Rightarrow> string option" where
  "normalize_profile_code code =
     (let raw = upper (strip (opt_or code [])) in
      if raw = [] then None
      else let compact = filter (\<lambda>c. c \<noteq> CHR '' '' \<and> c \<noteq> CHR ''_'') raw in
        if compact \<in> {''SBERINVESTMENT'', ''SBER''} \<or> raw = sber_code then Some sber_code
        else Some raw)"

definition is_sber_investment :: "string option \<Rightarrow> bool" where
  "is_sber_investment code \<longleftrightarrow> normalize_profile_code code = Some sber_code"

section \<open>The estimators\<close>

record engine_estimator =
  ee_rules :: "fee_rule list"
  ee_profile_code :: "string option"
  ee_profile_version :: "int option"
  ee_asset_class :: "string option"
  ee_market :: string
  ee_execution_channel :: string

datatype estimator =
    FeeEngineEstimator engine_estimator
  | BpsFeeEstimator decimal
  | UnknownFeeEstimator "string option" "int option"

definition engine_context :: "engine_estimator \<Rightarrow> string \<Rightarrow> decimal \<Rightarrow> int \<Rightarrow> date \<Rightarrow> string option \<Rightarrow> fee_context" where
  "engine_context ee side notional iid as_of symb =
     \<lparr>fc_as_of = as_of, fc_side = upper side, fc_notional = notional, fc_nkd = 0,
      fc_market = ee_market ee, fc_trading_system = None,
      fc_execution_channel = Some (ee_execution_channel ee), fc_asset_class = ee_asset_class ee,
      fc_instrument_subtype = None, fc_instrument_id = Some iid, fc_instrument_symbol = symb,
      fc_day_turnover = 0\<rparr>"

definition engine_estimate ::
  "engine_estimator \<Rightarrow> string \<Rightarrow> decimal \<Rightarrow> int \<Rightarrow> date \<Rightarrow> string option \<Rightarrow> string option \<Rightarrow> shadow_fee_quote res" where
  "engine_estimate ee side notional iid as_of symb profile_code =
     (let code = (case normalize_profile_code profile_code of Some c \<Rightarrow> Some c | None \<Rightarrow> ee_profile_code ee) in
      bnd (estimate_fee (ee_rules ee) (engine_context ee side notional iid as_of symb)) (\<lambda>est.
      Inr \<lparr>sq_status = fe_status est, sq_amount = fe_amount est, sq_rule_id = fe_rule_id est,
           sq_matched_rule_code = fe_matched_rule_code est, sq_profile_code = code,
           sq_profile_version = ee_profile_version ee, sq_fee_date = as_of,
           sq_exclude_from_turnover = fe_exclude_from_turnover est\<rparr>))"

definition bps_fee :: "decimal \<Rightarrow> decimal \<Rightarrow> decimal" where
  "bps_fee broker_bps n = (if n \<le> 0 then 0 else ddiv (dmul n broker_bps) 10000)"

definition unknown_estimate ::
  "string option \<Rightarrow> int option \<Rightarrow> date \<Rightarrow> string option \<Rightarrow> shadow_fee_quote" where
  "unknown_estimate own_code own_version as_of profile_code =
     \<lparr>sq_status = UNKNOWN, sq_amount = None, sq_rule_id = None, sq_matched_rule_code = None,
      sq_profile_code = (case normalize_profile_code profile_code of Some c \<Rightarrow> Some c | None \<Rightarrow> own_code),
      sq_profile_version = own_version, sq_fee_date = as_of, sq_exclude_from_turnover = False\<rparr>"

text \<open>\<open>broker_fee_estimate\<close> of the three classes; \<open>None\<close> is an unknown fee.\<close>

fun broker_fee_estimate ::
  "estimator \<Rightarrow> string \<Rightarrow> decimal \<Rightarrow> int \<Rightarrow> date \<Rightarrow> string option \<Rightarrow> string option \<Rightarrow> decimal option res" where
  "broker_fee_estimate (FeeEngineEstimator ee) side notional iid as_of profile_code symb =
     bnd (engine_estimate ee side notional iid as_of symb profile_code) (\<lambda>q.
     Inr (if quote_is_unknown q then None else sq_amount q))"
| "broker_fee_estimate (BpsFeeEstimator bps) side notional iid as_of profile_code symb =
     Inr (Some (bps_fee bps notional))"
| "broker_fee_estimate (UnknownFeeEstimator c v) side notional iid as_of profile_code symb = Inr None"

definition estimate_shadow_fee ::
  "estimator \<Rightarrow> string \<Rightarrow> decimal \<Rightarrow> int \<Rightarrow> date \<Rightarrow> string option \<Rightarrow> int option \<Rightarrow> string option \<Rightarrow> shadow_fee_quote res" where
  "estimate_shadow_fee est side notional iid as_of profile_code profile_version symb =
     (case est of
        FeeEngineEstimator ee \<Rightarrow> engine_estimate ee side notional iid as_of symb profile_code
      | UnknownFeeEstimator c v \<Rightarrow> Inr (unknown_estimate c v as_of profile_code)
      | BpsFeeEstimator bps \<Rightarrow>
          bnd (broker_fee_estimate est side notional iid as_of profile_code symb) (\<lambda>a.
          Inr \<lparr>sq_status = (if a = None then UNKNOWN else KNOWN), sq_amount = a, sq_rule_id = None,
               sq_matched_rule_code = None, sq_profile_code = normalize_profile_code profile_code,
               sq_profile_version = profile_version, sq_fee_date = as_of,
               sq_exclude_from_turnover = False\<rparr>))"

definition domain_estimate_from_quote :: "shadow_fee_quote \<Rightarrow> fee_explanation \<Rightarrow> fee_estimate" where
  "domain_estimate_from_quote q text =
     \<lparr>fe_status = sq_status q, fe_amount = sq_amount q, fe_rule_id = sq_rule_id q,
      fe_explanation = text, fe_exclude_from_turnover = sq_exclude_from_turnover q,
      fe_matched_rule_code = sq_matched_rule_code q\<rparr>"

section \<open>Profile resolution\<close>

text \<open>A stored profile: code, version and its rule rows (\<open>portfolio.fee_profiles\<close>).\<close>

type_synonym fee_db = "(string \<times> int \<times> fee_rule list) list"

definition load_fee_engine_by_code_version :: "fee_db \<Rightarrow> string \<Rightarrow> int \<Rightarrow> fee_rule list option" where
  "load_fee_engine_by_code_version db code version =
     (case List.find (\<lambda>(c, v, rs). c = upper (strip code) \<and> v = version) db of
        None \<Rightarrow> None | Some (c, v, rs) \<Rightarrow> Some (map fee_rule_to_spec (filter fr_active rs)))"

definition load_fee_engine_for_profile ::
  "fee_db option \<Rightarrow> string option \<Rightarrow> int option \<Rightarrow> fee_rule list option \<times> string option \<times> int option" where
  "load_fee_engine_for_profile session profile_code profile_version =
     (case normalize_profile_code profile_code of
        None \<Rightarrow> (None, None, None)
      | Some code \<Rightarrow>
          let version = (case profile_version of Some v \<Rightarrow> if v = 0 then sber_version else v | None \<Rightarrow> sber_version) in
          (case Option.bind session (\<lambda>db. load_fee_engine_by_code_version db code version) of
             Some rules \<Rightarrow> (Some rules, Some code, Some version)
           | None \<Rightarrow>
               if is_sber_investment (Some code) \<and> version = sber_version
               then (Some (sber_investment_builtin_rules Map.empty), Some code, Some version)
               else (None, Some code, Some version)))"

definition resolve_fee_engine_estimator ::
  "string option \<Rightarrow> int option \<Rightarrow> pyfloat \<Rightarrow> fee_db option \<Rightarrow> bool \<Rightarrow> estimator" where
  "resolve_fee_engine_estimator profile_code profile_version commission_bps session allow_legacy =
     (case load_fee_engine_for_profile session profile_code profile_version of
        (Some rules, code, version) \<Rightarrow>
          FeeEngineEstimator \<lparr>ee_rules = rules, ee_profile_code = code, ee_profile_version = version,
            ee_asset_class = Some ''EQUITY'', ee_market = ''MOEX'', ee_execution_channel = ''ONLINE''\<rparr>
      | (None, code, version) \<Rightarrow>
          if allow_legacy then BpsFeeEstimator (dec_of_float commission_bps)
          else UnknownFeeEstimator code (if code \<noteq> None then version else profile_version))"

section \<open>The contract of the protocol\<close>

locale broker_fee_estimator =
  fixes fee :: "string \<Rightarrow> decimal \<Rightarrow> int \<Rightarrow> date \<Rightarrow> string option \<Rightarrow> string option \<Rightarrow> decimal option res"
  assumes fee_nonneg: "\<lbrakk>0 \<le> n; fee side n iid d code symb = Inr (Some f)\<rbrakk> \<Longrightarrow> 0 \<le> f"
begin

text \<open>What a sale leaves after the fee never exceeds its notional.\<close>

lemma proceeds_le_notional:
  "\<lbrakk>0 \<le> n; fee side n iid d code symb = Inr (Some f)\<rbrakk> \<Longrightarrow> dsub n f \<le> dround n"
  using fee_nonneg [of n side iid d code symb f] by (simp add: dsub_def dround_mono)

lemma cost_ge_notional:
  "\<lbrakk>0 \<le> n; fee side n iid d code symb = Inr (Some f)\<rbrakk> \<Longrightarrow> dround n \<le> dadd n f"
  using fee_nonneg [of n side iid d code symb f] by (simp add: dadd_def dround_mono)

end

text \<open>Any engine whose rules charge no negative rates meets it.\<close>

locale nonneg_engine =
  fixes ee :: engine_estimator
  assumes rules_nonneg: "r \<in> set (ee_rules ee) \<Longrightarrow> rule_nonneg r"

lemma engine_fee_nonneg:
  assumes rules: "\<And>r. r \<in> set rules \<Longrightarrow> rule_nonneg r" and e: "estimate_fee rules ctx = Inr f"
    and a: "fe_amount f = Some a"
  shows "0 \<le> a \<and> on_grid 6 a"
proof (rule estimate_fee_cases [OF e])
  fix t r b a'
  assume "fe_amount f = Some a'" and r: "match_rule rules ctx t = Some r"
    and b: "fee_base_notional ctx = Inr b" and c: "compute_fee_amount r b = Inr a'"
  then show ?thesis
    using a compute_fee_nonneg [OF rules [OF match_rule_Some(1) [OF r]] fee_base_nonneg [OF b] c] by simp
qed (use a in simp)

sublocale nonneg_engine \<subseteq> broker_fee_estimator "broker_fee_estimate (FeeEngineEstimator ee)"
proof
  fix n side iid d code symb f
  assume "0 \<le> n" and "broker_fee_estimate (FeeEngineEstimator ee) side n iid d code symb = Inr (Some f)"
  then obtain est where "estimate_fee (ee_rules ee) (engine_context ee side n iid d symb) = Inr est"
      and "fe_amount est = Some f"
    by (auto simp: engine_estimate_def exn_simps Let_def quote_is_unknown_def split: if_splits)
  then show "0 \<le> f" using engine_fee_nonneg [OF rules_nonneg] by blast
qed

context nonneg_engine
begin

lemma engine_fee_bounds:
  assumes "0 \<le> n" "broker_fee_estimate (FeeEngineEstimator ee) side n iid d code symb = Inr (Some f)"
  shows "0 \<le> f \<and> dsub n f \<le> dround n \<and> dround n \<le> dadd n f"
  using fee_nonneg [OF assms] proceeds_le_notional [OF assms] cost_ge_notional [OF assms] by blast

end

definition sber_estimator :: estimator where
  "sber_estimator = resolve_fee_engine_estimator (Some sber_code) None 0 None False"

definition sber_engine :: engine_estimator where
  "sber_engine = \<lparr>ee_rules = sber_investment_builtin_rules Map.empty, ee_profile_code = Some sber_code,
     ee_profile_version = Some sber_version, ee_asset_class = Some ''EQUITY'', ee_market = ''MOEX'',
     ee_execution_channel = ''ONLINE''\<rparr>"

interpretation sber: nonneg_engine sber_engine
  by unfold_locales
    (auto simp: sber_engine_def sber_investment_builtin_rules_def default_rule_def rule_nonneg_def)

interpretation unk: broker_fee_estimator "broker_fee_estimate (UnknownFeeEstimator c v)" for c v
  by unfold_locales simp

lemma bps_fee_nonneg: "0 \<le> bps \<Longrightarrow> 0 \<le> bps_fee bps n"
  by (auto simp: bps_fee_def ddiv_def dmul_def intro!: dround_nonneg)

interpretation free: broker_fee_estimator "broker_fee_estimate (BpsFeeEstimator 0)"
  by unfold_locales (auto simp: bps_fee_nonneg)

section \<open>Properties\<close>

text \<open>no fee is invented. Without the legacy switch, a profile that is neither stored nor the
  built-in Sber tariff of version 1 yields an estimator whose every answer is unknown, whatever the
  commission setting, and whose quote carries no amount.\<close>

theorem unresolved_profile_is_unknown:
  assumes "load_fee_engine_for_profile session code ver = (None, c, v)"
    and est: "est = resolve_fee_engine_estimator code ver bps session False"
  shows "broker_fee_estimate est side n iid d pc symb = Inr None \<and>
    (\<exists>q. estimate_shadow_fee est side n iid d pc pv symb = Inr q \<and> quote_is_unknown q)"
  using assms by (auto simp: resolve_fee_engine_estimator_def estimate_shadow_fee_def unknown_estimate_def quote_is_unknown_def)

theorem unresolved_profile_is_unknown_witness:
  "broker_fee_estimate (resolve_fee_engine_estimator (Some ''TINKOFF'') (Some 1) 5 None False)
     ''BUY'' 1000 7 (Ord 1) None None = Inr None"
proof -
  have "load_fee_engine_for_profile None (Some ''TINKOFF'') (Some 1) = (None, Some ''TINKOFF'', Some 1)"
    by code_simp
  from unresolved_profile_is_unknown [OF this refl] show ?thesis by blast
qed

lemma resolve_sber: "resolve_fee_engine_estimator (Some sber_code) None bps None legacy = FeeEngineEstimator sber_engine"
proof -
  have "load_fee_engine_for_profile None (Some sber_code) None =
      (Some (sber_investment_builtin_rules Map.empty), Some sber_code, Some sber_version)"
    by code_simp
  then show ?thesis by (simp add: resolve_fee_engine_estimator_def sber_engine_def)
qed

text \<open>What the shadow portfolio asks the engine about a trade.\<close>

definition shadow_context :: "string \<Rightarrow> decimal \<Rightarrow> int \<Rightarrow> date \<Rightarrow> string option \<Rightarrow> fee_context" where
  "shadow_context side n iid d symb =
     \<lparr>fc_as_of = d, fc_side = upper side, fc_notional = n, fc_nkd = 0, fc_market = ''MOEX'', fc_trading_system = None,
      fc_execution_channel = Some ''ONLINE'', fc_asset_class = Some ''EQUITY'', fc_instrument_subtype = None,
      fc_instrument_id = Some iid, fc_instrument_symbol = symb, fc_day_turnover = 0\<rparr>"

text \<open>The Sber profile of version 1 that the session stores, if it stores one.\<close>

definition stored_sber_rules :: "fee_db option \<Rightarrow> fee_rule list option" where
  "stored_sber_rules session = Option.bind session (\<lambda>db.
     map_option (\<lambda>(c, v, rs). map fee_rule_to_spec (filter fr_active rs)) (List.find (\<lambda>(c, v, rs). c = sber_code \<and> v = 1) db))"

lemma money_nothing: "money 0 = Inr 0"
  by (simp add: money_def quantize_of_grid)

lemma resolve_any_sber:
  assumes "is_sber_investment pc" "pv \<in> {None, Some 0, Some 1}"
  shows "resolve_fee_engine_estimator pc pv bps session legacy = FeeEngineEstimator
    (sber_engine\<lparr>ee_rules := opt_or (stored_sber_rules session) (sber_investment_builtin_rules Map.empty)\<rparr>)"
proof -
  have c: "upper (strip sber_code) = sber_code" "is_sber_investment (Some sber_code)" by code_simp+
  have v: "(case pv of Some v \<Rightarrow> if v = 0 then sber_version else v | None \<Rightarrow> sber_version) = 1"
    using assms(2) by (auto simp: sber_version_def)
  have "Option.bind session (\<lambda>db. load_fee_engine_by_code_version db sber_code 1) = stored_sber_rules session"
    by (cases session) (auto simp: stored_sber_rules_def load_fee_engine_by_code_version_def c split: option.split)
  then have "load_fee_engine_for_profile session pc pv =
      (Some (opt_or (stored_sber_rules session) (sber_investment_builtin_rules Map.empty)), Some sber_code, Some 1)"
    using assms(1) unfolding is_sber_investment_def load_fee_engine_for_profile_def
    by (simp add: v Let_def c(2) [unfolded is_sber_investment_def] is_sber_investment_def sber_version_def split: option.split)
  then show ?thesis by (simp add: resolve_fee_engine_estimator_def sber_engine_def sber_version_def)
qed

lemma engine_amount:
  assumes "broker_fee_estimate (FeeEngineEstimator (sber_engine\<lparr>ee_rules := rules\<rparr>)) side n iid d code symb = Inr a"
  obtains f where "estimate_fee rules (shadow_context side n iid d symb) = Inr f" "a = fe_amount f"
proof -
  have "engine_context (sber_engine\<lparr>ee_rules := rules\<rparr>) side n iid d symb = shadow_context side n iid d symb"
    by (simp add: engine_context_def shadow_context_def sber_engine_def)
  then obtain f where f: "estimate_fee rules (shadow_context side n iid d symb) = Inr f"
    and a: "a = (if fe_status f = UNKNOWN \<or> fe_amount f = None then None else fe_amount f)"
    using assms by (auto simp: engine_estimate_def exn_simps Let_def quote_is_unknown_def)
  have "a = fe_amount f" using estimate_fee_cases [OF f] a by (metis fee_status.distinct(1))
  with f show thesis by (rule that)
qed

text \<open>C24: the fee of the Sber profile, however its code is spelled, with or without a session. Without stored
  rules it is the built-in tariff in numbers: nothing for SBFR from 2026-08-04 to 2026-12-31, otherwise 0.3 percent
  of the notional from 2026-09-29 on, and before that no fee is known. With stored rules it is the amount of the
  applicable rule with the least key, and unknown exactly when none applies. Where no rule has a negative rate the
  fee is not negative, so a sale never yields more than its notional and a purchase never costs less.\<close>

theorem sber_fee_exact:
  assumes est: "est = resolve_fee_engine_estimator pc pv bps session legacy"
    and sber: "is_sber_investment pc" "pv \<in> {None, Some 0, Some 1}"
    and n: "money n = Inr b" "0 \<le> b" and due: "money (dmul b (3/1000)) = Inr due"
    and fee: "broker_fee_estimate est side n iid d code symb = Inr a"
  shows "(case stored_sber_rules session of
      None \<Rightarrow> a =
        (if norm_str symb = Some ''SBFR'' \<and> date_of 2026 8 4 \<le> d \<and> d \<le> date_of 2026 12 31 then Some 0
         else if date_of 2026 9 29 \<le> d then Some due else None)
    | Some rules \<Rightarrow>
        if \<exists>r \<in> set rules. rule_applies (shadow_context side n iid d symb) 0 r
        then \<exists>r \<in> set rules. rule_applies (shadow_context side n iid d symb) 0 r \<and>
          (\<forall>r' \<in> set rules. rule_applies (shadow_context side n iid d symb) 0 r' \<longrightarrow> rule_key r \<le> rule_key r') \<and>
          (\<exists>x. compute_fee_amount r b = Inr x \<and> a = Some x)
        else a = None) \<and>
    ((\<forall>rules. stored_sber_rules session = Some rules \<longrightarrow> (\<forall>r \<in> set rules. rule_nonneg r)) \<and> 0 \<le> n \<longrightarrow>
      (\<forall>f. a = Some f \<longrightarrow> 0 \<le> f \<and> dsub n f \<le> dround n \<and> dround n \<le> dadd n f))"
proof -
  define rules where "rules = opt_or (stored_sber_rules session) (sber_investment_builtin_rules Map.empty)"
  have e: "broker_fee_estimate (FeeEngineEstimator (sber_engine\<lparr>ee_rules := rules\<rparr>)) side n iid d code symb = Inr a"
    using fee unfolding est resolve_any_sber [OF sber] rules_def .
  then obtain f where f: "estimate_fee rules (shadow_context side n iid d symb) = Inr f" "a = fe_amount f"
    by (rule engine_amount)
  have ctx: "fc_market (shadow_context side n iid d symb) = ''MOEX''"
    "fc_execution_channel (shadow_context side n iid d symb) = Some ''ONLINE''"
    "fc_notional (shadow_context side n iid d symb) = n" "fc_day_turnover (shadow_context side n iid d symb) = 0"
    "fc_instrument_symbol (shadow_context side n iid d symb) = symb" "fc_as_of (shadow_context side n iid d symb) = d"
    by (simp_all add: shadow_context_def)
  have base: "fee_base_notional (shadow_context side n iid d symb) = Inr b"
    using n by (simp add: fee_base_notional_def ctx)
  have amount: "(case stored_sber_rules session of
      None \<Rightarrow> a =
        (if norm_str symb = Some ''SBFR'' \<and> date_of 2026 8 4 \<le> d \<and> d \<le> date_of 2026 12 31 then Some 0
         else if date_of 2026 9 29 \<le> d then Some due else None)
    | Some rules \<Rightarrow>
        if \<exists>r \<in> set rules. rule_applies (shadow_context side n iid d symb) 0 r
        then \<exists>r \<in> set rules. rule_applies (shadow_context side n iid d symb) 0 r \<and>
          (\<forall>r' \<in> set rules. rule_applies (shadow_context side n iid d symb) 0 r' \<longrightarrow> rule_key r \<le> rule_key r') \<and>
          (\<exists>x. compute_fee_amount r b = Inr x \<and> a = Some x)
        else a = None)"
  proof (cases "stored_sber_rules session")
    case None
    then have "estimate_fee (sber_investment_builtin_rules Map.empty) (shadow_context side n iid d symb) = Inr f"
      using f(1) by (simp add: rules_def)
    from sber_tariff [OF ctx(1,2) _ n(2) _ due this] n(1) f(2) None show ?thesis
      by (simp add: ctx money_nothing)
  next
    case (Some rs)
    then have r: "rules = rs" by (simp add: rules_def)
    have t: "money (fc_day_turnover (shadow_context side n iid d symb)) = Inr 0" by (simp add: ctx money_nothing)
    show ?thesis
    proof (cases "match_rule rs (shadow_context side n iid d symb) 0")
      case None
      then have "a = None" using f by (auto simp: estimate_fee_def base t r Let_def)
      then show ?thesis using Some None by (simp add: match_rule_None)
    next
      case (Some q)
      then obtain x where "compute_fee_amount q b = Inr x" "a = Some x"
        using f by (auto simp: estimate_fee_def base t r Let_def exn_simps)
      then show ?thesis using match_rule_Some [OF Some] \<open>stored_sber_rules session = Some rs\<close> by auto
    qed
  qed
  have "0 \<le> x \<and> dsub n x \<le> dround n \<and> dround n \<le> dadd n x"
    if rs: "\<forall>rules. stored_sber_rules session = Some rules \<longrightarrow> (\<forall>r \<in> set rules. rule_nonneg r)" and n0: "0 \<le> n" and x: "a = Some x" for x
  proof -
    have "nonneg_engine (sber_engine\<lparr>ee_rules := rules\<rparr>)"
    proof
      fix r assume "r \<in> set (ee_rules (sber_engine\<lparr>ee_rules := rules\<rparr>))"
      then show "rule_nonneg r"
        using rs sber.rules_nonneg [of r] by (cases "stored_sber_rules session") (auto simp: rules_def sber_engine_def)
    qed
    from nonneg_engine.engine_fee_bounds [OF this n0 e [unfolded x]] show ?thesis .
  qed
  with amount show ?thesis by blast
qed

definition fixed_sber_rules :: "fee_rule list" where
  "fixed_sber_rules = [default_rule\<lparr>fr_id := Some 4, fr_fee_type := fee_type_fixed, fr_fixed_amount := Some 9, fr_priority := 0\<rparr>,
     default_rule\<lparr>fr_id := Some 5, fr_percentage_rate := Some (1/100), fr_priority := 50\<rparr>]"

theorem sber_fee_exact_witness:
  "\<exists>a. broker_fee_estimate (resolve_fee_engine_estimator (Some ''sber'') None 0 (Some [(sber_code, 1, fixed_sber_rules)]) False)
      ''SELL'' 1000 5 (date_of 2026 10 1) None None = Inr (Some a) \<and> a = 10 \<and> dsub 1000 a \<le> dround 1000"
proof -
  have c: "is_sber_investment (Some ''sber'')" "money 1000 = Inr 1000" "money (dmul 1000 (3/1000)) = Inr 3" by code_simp+
  have e: "broker_fee_estimate (resolve_fee_engine_estimator (Some ''sber'') None 0 (Some [(sber_code, 1, fixed_sber_rules)]) False)
      ''SELL'' 1000 5 (date_of 2026 10 1) None None = Inr (Some 10)"
    by code_simp
  have r: "\<forall>rules. stored_sber_rules (Some [(sber_code, 1, fixed_sber_rules)]) = Some rules \<longrightarrow> (\<forall>r \<in> set rules. rule_nonneg r)"
    by (auto simp: stored_sber_rules_def fixed_sber_rules_def default_rule_def fee_rule_to_spec_def rule_nonneg_def)
  show ?thesis using sber_fee_exact [OF refl c(1) _ c(2) _ c(3) e] r e by simp
qed

end
