(* ===== verification/Bonds.thy ===== *)
theory Bonds
  imports Pyeval Pydate
begin

text \<open>
  Fixed-income primitives, \<open>backend/app/modules/investment/domain/fixed_income.py\<close> (bond purchase,
  transaction costs, affordable lots) and \<open>accounting.py\<close> (the hold-to-maturity preview).
  \<open>affordable_lots\<close> counts down from a quotient; its loop is a recursion on the counter.
\<close>

datatype bond_type = GOVERNMENT | CORPORATE | MUNICIPAL
datatype bond_support_status = SUPPORTED | RESEARCH_ONLY | UNSUPPORTED
datatype credit_quality_status = CQ_UNKNOWN | CQ_OBSERVED
datatype bond_cashflow_type = CF_COUPON | CF_AMORTIZATION | CF_REDEMPTION | CF_OFFER

definition real_portfolio_eligible :: "bond_type \<Rightarrow> credit_quality_status \<Rightarrow> bool" where
  "real_portfolio_eligible bond_type credit_quality =
     (\<not> (bond_type = CORPORATE \<and> credit_quality = CQ_UNKNOWN))"

record bond_purchase =
  bp_quantity :: int
  bp_nominal_total :: decimal
  bp_clean_total :: decimal
  bp_accrued_interest_total :: decimal
  bp_dirty_total :: decimal
  bp_fees :: decimal
  bp_cash_required :: decimal

definition calculate_bond_purchase ::
  "decimal \<Rightarrow> decimal \<Rightarrow> decimal \<Rightarrow> int \<Rightarrow> int \<Rightarrow> decimal \<Rightarrow> bond_purchase res" where
  "calculate_bond_purchase nominal clean_price_percent accrued_interest_per_bond lots lot_size fees =
     (if nominal \<le> 0 \<or> lot_size \<le> 0 \<or> lots < 0
      then Inl (ValueError ''nominal/lot_size must be positive and lots non-negative'') else
      let quantity = lots * lot_size;
          nominal_total = dmul nominal (of_int quantity);
          clean_total = ddiv (dmul nominal_total clean_price_percent) 100;
          nkd_total = dmul accrued_interest_per_bond (of_int quantity);
          dirty_total = dadd clean_total nkd_total
      in Inr \<lparr>bp_quantity = quantity, bp_nominal_total = nominal_total, bp_clean_total = clean_total,
              bp_accrued_interest_total = nkd_total, bp_dirty_total = dirty_total, bp_fees = fees,
              bp_cash_required = dadd dirty_total fees\<rparr>)"

section \<open>Transaction costs\<close>

record cost_profile =
  broker_bps :: decimal
  exchange_bps :: decimal
  slippage_bps :: decimal
  min_fee :: decimal

definition cost_fee :: "cost_profile \<Rightarrow> decimal \<Rightarrow> decimal" where
  "cost_fee c notional =
     (let variable = ddiv (dmul notional (dadd (broker_bps c) (exchange_bps c))) 10000
      in max (min_fee c) variable)"

definition execution_price :: "cost_profile \<Rightarrow> decimal \<Rightarrow> string \<Rightarrow> decimal res" where
  "execution_price c price side =
     (let shift = ddiv (slippage_bps c) 10000 in
      if upper side = ''BUY'' then Inr (dmul price (dadd 1 shift))
      else if upper side = ''SELL'' then Inr (dmul price (dsub 1 shift))
      else if upper side \<in> {''COUPON'', ''REDEMPTION'', ''AMORTIZATION''} then Inr price
      else Inl (ValueError ''Unsupported side''))"

text \<open>The loop \<open>while guess and guess * lot_notional + fee > cash: guess -= 1\<close>.\<close>

definition lots_cost :: "cost_profile \<Rightarrow> decimal \<Rightarrow> nat \<Rightarrow> decimal" where
  "lots_cost c lot_notional k =
     dadd (dmul (of_nat k) lot_notional) (cost_fee c (dmul (of_nat k) lot_notional))"

fun shrink_lots :: "cost_profile \<Rightarrow> decimal \<Rightarrow> decimal \<Rightarrow> nat \<Rightarrow> nat" where
  "shrink_lots c lot_notional cash 0 = 0"
| "shrink_lots c lot_notional cash (Suc k) =
     (if lots_cost c lot_notional (Suc k) > cash then shrink_lots c lot_notional cash k else Suc k)"

definition affordable_lots :: "decimal \<Rightarrow> decimal \<Rightarrow> cost_profile \<Rightarrow> int" where
  "affordable_lots cash lot_notional c =
     (if cash \<le> 0 \<or> lot_notional \<le> 0 then 0
      else int (shrink_lots c lot_notional cash (nat (dfloor (ddiv cash lot_notional)))))"

section \<open>Hold to maturity\<close>

record cashflow_leg =
  cl_date :: date
  cl_type :: string
  cl_amount :: decimal

record leg_totals =
  lt_coupon :: decimal
  lt_amort :: decimal
  lt_redeem :: decimal
  lt_offer :: decimal

definition add_leg :: "decimal \<Rightarrow> leg_totals \<Rightarrow> cashflow_leg \<Rightarrow> leg_totals" where
  "add_leg qty t leg =
     (let tot = dmul (cl_amount leg) qty in
      if cl_type leg = ''COUPON'' then t\<lparr>lt_coupon := dadd (lt_coupon t) tot\<rparr>
      else if cl_type leg = ''AMORTIZATION'' then t\<lparr>lt_amort := dadd (lt_amort t) tot\<rparr>
      else if cl_type leg = ''REDEMPTION'' then t\<lparr>lt_redeem := dadd (lt_redeem t) tot\<rparr>
      else if cl_type leg = ''OFFER'' then t\<lparr>lt_offer := dadd (lt_offer t) tot\<rparr>
      else t)"

record accounting_preview =
  ap_symbol :: string
  ap_lots :: int
  ap_quantity :: int
  ap_clean_price_percent :: decimal
  ap_nkd_per_bond :: decimal
  ap_clean_total :: decimal
  ap_nkd_total :: decimal
  ap_dirty_purchase :: decimal
  ap_fees :: decimal
  ap_cash_required :: decimal
  ap_totals :: leg_totals
  ap_total_inflows :: decimal
  ap_total_return_before_tax :: decimal
  ap_ytm_source :: "string option"
  ap_ytm_value :: "decimal option"
  ap_future_offer_noted :: bool
  ap_legs :: "cashflow_leg list"

definition preview_hold_to_maturity ::
  "string \<Rightarrow> decimal \<Rightarrow> decimal \<Rightarrow> decimal \<Rightarrow> int \<Rightarrow> int \<Rightarrow> cost_profile \<Rightarrow> cashflow_leg list \<Rightarrow>
   decimal option \<Rightarrow> string option \<Rightarrow> bool \<Rightarrow> accounting_preview res" where
  "preview_hold_to_maturity symbol nominal clean_price_percent nkd_per_bond lots lot_size costs future_legs
      ytm_value ytm_source has_future_offer =
     bnd (calculate_bond_purchase nominal clean_price_percent nkd_per_bond lots lot_size 0) (\<lambda>purchase.
     let fees = cost_fee costs (bp_dirty_total purchase);
         cash_required = dadd (bp_dirty_total purchase) fees;
         qty = of_int (bp_quantity purchase);
         t = foldl (add_leg qty) \<lparr>lt_coupon = 0, lt_amort = 0, lt_redeem = 0, lt_offer = 0\<rparr> future_legs;
         inflows = dadd (dadd (lt_coupon t) (lt_amort t)) (lt_redeem t)
     in Inr \<lparr>ap_symbol = symbol, ap_lots = lots, ap_quantity = bp_quantity purchase,
             ap_clean_price_percent = clean_price_percent, ap_nkd_per_bond = nkd_per_bond,
             ap_clean_total = bp_clean_total purchase, ap_nkd_total = bp_accrued_interest_total purchase,
             ap_dirty_purchase = bp_dirty_total purchase, ap_fees = fees, ap_cash_required = cash_required,
             ap_totals = t, ap_total_inflows = inflows,
             ap_total_return_before_tax = dsub inflows cash_required,
             ap_ytm_source = ytm_source, ap_ytm_value = ytm_value, ap_future_offer_noted = has_future_offer,
             ap_legs = map (\<lambda>leg. leg\<lparr>cl_amount := dmul (cl_amount leg) qty\<rparr>) future_legs\<rparr>)"

section \<open>Lemmas\<close>

definition costs_ok :: "cost_profile \<Rightarrow> bool" where
  "costs_ok c \<longleftrightarrow> 0 \<le> broker_bps c \<and> 0 \<le> exchange_bps c \<and> 0 \<le> min_fee c"

lemma cost_fee_nonneg: "costs_ok c \<Longrightarrow> 0 \<le> cost_fee c n"
  by (simp add: cost_fee_def costs_ok_def Let_def le_max_iff_disj)

lemma cost_fee_mono: "\<lbrakk>costs_ok c; m \<le> n\<rbrakk> \<Longrightarrow> cost_fee c m \<le> cost_fee c n"
proof -
  assume c: "costs_ok c" and mn: "m \<le> n"
  have "0 \<le> dadd (broker_bps c) (exchange_bps c)"
    using c by (auto simp: costs_ok_def dadd_def intro: dround_nonneg)
  then have "ddiv (dmul m (dadd (broker_bps c) (exchange_bps c))) 10000
      \<le> ddiv (dmul n (dadd (broker_bps c) (exchange_bps c))) 10000"
    using mn by (auto simp: ddiv_def dmul_def intro!: dround_mono divide_right_mono mult_right_mono)
  then show ?thesis unfolding cost_fee_def Let_def by (rule max.mono [OF order_refl])
qed

lemma lots_cost_mono: "\<lbrakk>costs_ok c; 0 \<le> lotn; j \<le> k\<rbrakk> \<Longrightarrow> lots_cost c lotn j \<le> lots_cost c lotn k"
proof -
  assume c: "costs_ok c" and lotn: "0 \<le> lotn" and jk: "j \<le> k"
  have "(of_nat j :: rat) \<le> of_nat k" using jk by simp
  then have "dmul (of_nat j) lotn \<le> dmul (of_nat k) lotn"
    using lotn by (auto simp: dmul_def intro!: dround_mono mult_right_mono)
  then show ?thesis using cost_fee_mono [OF c]
    by (auto simp: lots_cost_def dadd_def intro!: dround_mono add_mono)
qed

lemma shrink_lots_le: "shrink_lots c lotn cash k \<le> k"
  by (induction k) auto

lemma shrink_lots_affordable: "shrink_lots c lotn cash k = 0 \<or> lots_cost c lotn (shrink_lots c lotn cash k) \<le> cash"
  by (induction k) auto

lemma shrink_lots_max: "\<lbrakk>shrink_lots c lotn cash k < j; j \<le> k\<rbrakk> \<Longrightarrow> cash < lots_cost c lotn j"
proof (induction k)
  case (Suc k)
  show ?case
  proof (cases "cash < lots_cost c lotn (Suc k)")
    case True
    with Suc show ?thesis by (cases "j = Suc k") auto
  next
    case False
    then have "shrink_lots c lotn cash (Suc k) = Suc k" by simp
    with Suc.prems show ?thesis by linarith
  qed
qed simp

lemma affordable_lots_nonneg: "0 \<le> affordable_lots cash lotn c"
  by (simp add: affordable_lots_def)

text \<open>The rounded quotient never drops an affordable count: integers survive the rounding.\<close>

lemma quotient_guess:
  assumes "0 < lotn" and "k < 10 ^ 28" and "int k > dfloor (ddiv cash lotn)"
  shows "cash < of_nat k * lotn"
proof (rule ccontr)
  assume "\<not> ?thesis"
  then have "of_int (int k) \<le> cash / lotn" using assms(1) by (simp add: pos_le_divide_eq)
  then have "dround (of_int (int k)) \<le> ddiv cash lotn" unfolding ddiv_def by (rule dround_mono)
  moreover have "\<bar>int k\<bar> < 10 ^ 28" using assms(2) by simp
  ultimately have "of_int (int k) \<le> ddiv cash lotn" using dround_of_int by metis
  then have "int k \<le> dfloor (ddiv cash lotn)" by (simp add: dfloor_def le_floor_iff)
  with assms(3) show False by simp
qed


text \<open>The affordable count: it costs no more than the cash, and no larger count does.\<close>

lemma affordable_lots_ok:
  assumes c: "costs_ok c" and l: "0 < lot_notional"
  shows "affordable_lots cash lot_notional c = 0 \<or>
    lots_cost c lot_notional (nat (affordable_lots cash lot_notional c)) \<le> cash"
proof (cases "cash \<le> 0")
  case True
  then show ?thesis by (simp add: affordable_lots_def)
next
  case False
  then show ?thesis
    using shrink_lots_affordable [of c lot_notional cash "nat (dfloor (ddiv cash lot_notional))"] l
    by (simp add: affordable_lots_def)
qed

lemma affordable_lots_greater:
  assumes c: "costs_ok c" and l: "0 < lot_notional" and cash: "dround cash = cash"
    and k: "affordable_lots cash lot_notional c < int k" "k < 10 ^ 28"
  shows "cash < lots_cost c lot_notional k \<or> cash = lots_cost c lot_notional k \<and>
    \<not> of_nat k * lot_notional \<le> cash"
proof -
  define g where "g = nat (dfloor (ddiv cash lot_notional))"
  have k0: "0 < k" using k(1) affordable_lots_nonneg [of cash lot_notional c] by linarith
  have fee: "0 \<le> cost_fee c n" for n by (rule cost_fee_nonneg [OF c])
  have big: "dround (of_nat k * lot_notional) \<le> lots_cost c lot_notional k"
  proof -
    have "dround (of_nat k * lot_notional) = dround (dround (of_nat k * lot_notional))" by simp
    also have "\<dots> \<le> lots_cost c lot_notional k"
      unfolding lots_cost_def dadd_def dmul_def using fee by (intro dround_mono) (simp add: dmul_def)
    finally show ?thesis .
  qed
  show ?thesis
  proof (cases "0 < cash \<and> k \<le> g")
    case True
    then have "shrink_lots c lot_notional cash g < k"
      using k(1) l by (simp add: affordable_lots_def g_def)
    then show ?thesis using shrink_lots_max True by blast
  next
    case False
    have "cash < of_nat k * lot_notional"
    proof (cases "0 < cash")
      case True
      then have "dfloor (ddiv cash lot_notional) < int k" using False by (simp add: g_def)
      then show ?thesis by (rule quotient_guess [OF l k(2)])
    next
      case False
      then show ?thesis using l k0 by (intro order.strict_trans1 [of cash 0]) simp_all
    qed
    moreover then have "cash \<le> dround (of_nat k * lot_notional)"
      using dround_mono [of cash "of_nat k * lot_notional"] cash by simp
    ultimately show ?thesis using big by linarith
  qed
qed

section \<open>Properties\<close>

text \<open>C25: \<open>affordable_lots\<close> is the largest affordable number: what it returns costs at most the cash, fees
  included, and every larger number of lots costs at least the cash, and more whenever it is not
  saved by the rounding of the product.\<close>

theorem affordable_lots_maximal:
  assumes "costs_ok c" and "0 < lot_notional" and "dround cash = cash"
  shows "0 \<le> affordable_lots cash lot_notional c \<and>
    (affordable_lots cash lot_notional c = 0 \<or>
      lots_cost c lot_notional (nat (affordable_lots cash lot_notional c)) \<le> cash) \<and>
    (\<forall>k. affordable_lots cash lot_notional c < int k \<and> k < 10 ^ 28 \<longrightarrow>
      cash \<le> lots_cost c lot_notional k \<and>
      (of_nat k * lot_notional \<le> cash \<longrightarrow> cash < lots_cost c lot_notional k))"
  using affordable_lots_ok [OF assms(1,2)] affordable_lots_greater [OF assms] affordable_lots_nonneg
  by (metis order.order_iff_strict)

definition ten_bps :: cost_profile where
  "ten_bps = \<lparr>broker_bps = 6, exchange_bps = 4, slippage_bps = 5, min_fee = 1\<rparr>"

theorem affordable_lots_maximal_witness:
  "affordable_lots 1000 100 ten_bps = 9 \<and> lots_cost ten_bps 100 9 \<le> 1000 \<and> 1000 < lots_cost ten_bps 100 10"
proof -
  have a: "affordable_lots 1000 100 ten_bps = 9" "dround 1000 = 1000"
    by code_simp+
  have c: "costs_ok ten_bps" by (simp add: costs_ok_def ten_bps_def)
  note m = affordable_lots_maximal [OF c _ a(2), of 100, unfolded a(1)]
  have "1000 < lots_cost ten_bps 100 10" using conjunct2 [OF conjunct2 [OF m], rule_format, of 10] by simp
  then show ?thesis using m a(1) by simp
qed

definition same_income :: "leg_totals \<Rightarrow> leg_totals \<Rightarrow> bool" where
  "same_income t t' \<longleftrightarrow> lt_coupon t = lt_coupon t' \<and> lt_amort t = lt_amort t' \<and> lt_redeem t = lt_redeem t'"

lemma add_leg_income: "same_income t t' \<Longrightarrow> same_income (add_leg q t l) (add_leg q t' l)"
  and add_leg_offer: "same_income t t' \<Longrightarrow> cl_type l = ''OFFER'' \<Longrightarrow> same_income (add_leg q t l) t'"
  by (auto simp: same_income_def add_leg_def Let_def)

lemma add_leg_drop_offers:
  "same_income t t' \<Longrightarrow> same_income (foldl (add_leg q) t legs) (foldl (add_leg q) t' (filter (\<lambda>l. cl_type l \<noteq> ''OFFER'') legs))"
proof (induction legs arbitrary: t t')
  case (Cons l legs)
  show ?case
  proof (cases "cl_type l = ''OFFER''")
    case True
    then show ?thesis using Cons.IH [OF add_leg_offer [OF Cons.prems True]] by simp
  next
    case False
    then show ?thesis using Cons.IH [OF add_leg_income [OF Cons.prems]] by simp
  qed
qed simp

text \<open>A preview that is returned is for a positive nominal and lot size and a non-negative number of
  lots; its cash is the rounded sum of the dirty price and the fee, and its legs sum to the inflows:
  offers are noted but never counted as income.\<close>
theorem preview_ignores_offers:
  assumes "preview_hold_to_maturity sy nom pct nkd lt ls costs legs ytm src off = Inr r"
    and "preview_hold_to_maturity sy nom pct nkd lt ls costs (filter (\<lambda>l. cl_type l \<noteq> ''OFFER'') legs) ytm src off = Inr r'"
  shows "ap_total_inflows r = ap_total_inflows r' \<and> ap_total_return_before_tax r = ap_total_return_before_tax r' \<and>
    ap_cash_required r = dadd (ap_dirty_purchase r) (ap_fees r) \<and> ap_quantity r = lt * ls \<and> 0 \<le> ap_quantity r"
proof -
  obtain p where p: "calculate_bond_purchase nom pct nkd lt ls 0 = Inr p"
    using assms(1) by (auto simp: preview_hold_to_maturity_def exn_simps)
  have q: "bp_quantity p = lt * ls" "0 \<le> lt * ls"
    using p by (auto simp: calculate_bond_purchase_def Let_def split: if_splits)
  have "same_income (foldl (add_leg (of_int (bp_quantity p))) t legs)
      (foldl (add_leg (of_int (bp_quantity p))) t (filter (\<lambda>l. cl_type l \<noteq> ''OFFER'') legs))" for t
    by (rule add_leg_drop_offers) (simp add: same_income_def)
  then show ?thesis using assms q
    by (auto simp: preview_hold_to_maturity_def p Let_def same_income_def)
qed

definition two_legs :: "cashflow_leg list" where
  "two_legs = [\<lparr>cl_date = Ord 738000, cl_type = ''COUPON'', cl_amount = 35\<rparr>, \<lparr>cl_date = Ord 738100, cl_type = ''OFFER'', cl_amount = 1000\<rparr>]"

theorem preview_ignores_offers_witness:
  "\<exists>r. preview_hold_to_maturity ''OFZ'' 1000 95 12 2 1 ten_bps two_legs None None True = Inr r \<and>
     ap_quantity r = 2 \<and> ap_cash_required r = dadd (ap_dirty_purchase r) (ap_fees r)"
proof -
  have p: "calculate_bond_purchase 1000 95 12 2 1 0 = Inr \<lparr>bp_quantity = 2, bp_nominal_total = 2000, bp_clean_total = 1900,
      bp_accrued_interest_total = 24, bp_dirty_total = 1924, bp_fees = 0, bp_cash_required = 1924\<rparr>"
    by code_simp
  have e: "\<exists>r. preview_hold_to_maturity ''OFZ'' 1000 95 12 2 1 ten_bps legs None None True = Inr r" for legs
    by (simp only: preview_hold_to_maturity_def p bnd_Inr Let_def) blast
  obtain r where r: "preview_hold_to_maturity ''OFZ'' 1000 95 12 2 1 ten_bps two_legs None None True = Inr r"
    using e by blast
  obtain r' where r': "preview_hold_to_maturity ''OFZ'' 1000 95 12 2 1 ten_bps (filter (\<lambda>l. cl_type l \<noteq> ''OFFER'') two_legs) None None True = Inr r'"
    using e by blast
  show ?thesis using preview_ignores_offers [OF r r'] r by auto
qed

end
