(* ===== verification/Lotplan.thy ===== *)
theory Lotplan
  imports Feeadapter Bonds
begin

text \<open>
  The order planner of the shadow portfolio, \<open>backend/app/modules/shadow/domain/lot_plan.py\<close>:
  \<open>build_lot_order_plan\<close> walks over the instruments twice, first selling down to the target lots,
  then buying up to them with the cash that is left beside the reserve. The two loop bodies are
  \<open>sell_step\<close> and \<open>buy_step\<close> on the working state \<open>planning\<close> (the local variables \<open>units\<close>,
  \<open>working_cash\<close>, \<open>allocable\<close> and the plan under construction). The fee of an instrument comes
  from a callback that answers \<open>None\<close> when no rule is known; the locale \<open>plan_fee\<close> is what the
  planner needs of it.
\<close>

section \<open>Data\<close>

record plan_instrument =
  pi_id :: int
  pi_ticker :: string
  pi_target_weight :: decimal
  pi_current_units :: decimal
  pi_price :: "decimal option"
  pi_lot_size :: "int option"
  pi_rank :: "int option"
  pi_priority :: "int option"
  pi_sell_allowed :: bool
  pi_max_sell_units :: "decimal option"

datatype plan_action = PlanBuy | PlanSell | PlanSkip

record plan_row =
  pr_id :: int
  pr_ticker :: string
  pr_action :: plan_action
  pr_lots_delta :: int
  pr_units_delta :: decimal
  pr_target_weight :: decimal
  pr_current_weight :: decimal
  pr_price :: "decimal option"
  pr_notional :: decimal
  pr_fee :: decimal
  pr_lot_size :: "int option"
  pr_reason :: string
  pr_rank :: "int option"

record order_plan =
  pl_starting_cash :: decimal
  pl_reserve :: decimal
  pl_rows :: "plan_row list"
  pl_projected_cash :: decimal
  pl_fees_total :: decimal
  pl_sell_proceeds :: decimal
  pl_buy_notional :: decimal
  pl_remainder :: decimal

definition executable :: "order_plan \<Rightarrow> plan_row list" where
  "executable plan = filter (\<lambda>r. pr_action r \<in> {PlanBuy, PlanSell} \<and> pr_units_delta r > 0) (pl_rows plan)"

definition skipped :: "order_plan \<Rightarrow> plan_row list" where
  "skipped plan = filter (\<lambda>r. pr_action r = PlanSkip) (pl_rows plan)"

text \<open>\<open>InstrumentFeeFn\<close>: side, notional, instrument; \<open>None\<close> is an unknown rule.\<close>

type_synonym fee_fn = "string \<Rightarrow> decimal \<Rightarrow> plan_instrument \<Rightarrow> decimal option res"

section \<open>Helpers\<close>

definition plan_weight :: "decimal \<Rightarrow> decimal option \<Rightarrow> decimal \<Rightarrow> decimal" where
  "plan_weight u px nav = (case px of
     None \<Rightarrow> 0 | Some p \<Rightarrow> if p \<le> 0 \<or> nav \<le> 0 then 0 else ddiv (dmul u p) nav)"

definition floor_lots :: "decimal \<Rightarrow> int \<Rightarrow> int" where
  "floor_lots u lot_size = (if lot_size \<le> 0 then 0 else dfloor (ddiv u (of_int lot_size)))"

definition resolve_fee :: "cost_profile \<Rightarrow> fee_fn option \<Rightarrow> fee_fn" where
  "resolve_fee costs fee_for side notional inst = (case fee_for of
     Some f \<Rightarrow> f side notional inst | None \<Rightarrow> Inr (Some (cost_fee costs notional)))"

text \<open>The countdown of \<open>_affordable_lots_with_fee\<close>, from \<open>guess\<close>.\<close>

fun fee_lots :: "(decimal \<Rightarrow> decimal option res) \<Rightarrow> decimal \<Rightarrow> decimal \<Rightarrow> nat \<Rightarrow> int res" where
  "fee_lots fee funds lot_notional 0 = Inr 0"
| "fee_lots fee funds lot_notional (Suc k) =
     (let notional = dmul lot_notional (of_nat (Suc k)) in
      bnd (fee notional) (\<lambda>f. case f of
        None \<Rightarrow> Inr 0
      | Some x \<Rightarrow> if dadd notional x \<le> funds then Inr (int (Suc k)) else fee_lots fee funds lot_notional k))"

definition affordable_lots_with_fee ::
  "decimal \<Rightarrow> decimal \<Rightarrow> cost_profile \<Rightarrow> fee_fn option \<Rightarrow> string \<Rightarrow> plan_instrument \<Rightarrow> int res" where
  "affordable_lots_with_fee funds lot_notional costs fee_for side inst =
     (if funds \<le> 0 \<or> lot_notional \<le> 0 then Inr 0 else
      case fee_for of
        None \<Rightarrow> Inr (affordable_lots funds lot_notional costs)
      | Some f \<Rightarrow> fee_lots (\<lambda>n. f side n inst) funds lot_notional (nat (dfloor (ddiv funds lot_notional))))"

section \<open>The working state\<close>

record planning =
  ps_units :: "int \<rightharpoonup> decimal"
  ps_cash :: decimal
  ps_allocable :: decimal
  ps_plan :: order_plan

definition skip_row ::
  "plan_instrument \<Rightarrow> decimal \<Rightarrow> decimal option \<Rightarrow> int option \<Rightarrow> string \<Rightarrow> plan_row" where
  "skip_row inst cw est_price lot_size reason =
     \<lparr>pr_id = pi_id inst, pr_ticker = pi_ticker inst, pr_action = PlanSkip, pr_lots_delta = 0,
      pr_units_delta = 0, pr_target_weight = pi_target_weight inst, pr_current_weight = cw,
      pr_price = est_price, pr_notional = 0, pr_fee = 0, pr_lot_size = lot_size,
      pr_reason = reason, pr_rank = pi_rank inst\<rparr>"

definition add_row :: "planning \<Rightarrow> plan_row \<Rightarrow> planning" where
  "add_row st r = st\<lparr>ps_plan := (ps_plan st)\<lparr>pl_rows := pl_rows (ps_plan st) @ [r]\<rparr>\<rparr>"

text \<open>\<open>units[inst.instrument_id]\<close>.\<close>

definition units_of :: "planning \<Rightarrow> plan_instrument \<Rightarrow> decimal res" where
  "units_of st inst = (case ps_units st (pi_id inst) of None \<Rightarrow> Inl (KeyError ''instrument_id'') | Some u \<Rightarrow> Inr u)"

section \<open>Selling\<close>

text \<open>How many lots the sell loop wants to sell, or why it skips the instrument.\<close>

datatype sell_choice = NoSell | SkipSell string | SellLots int

definition target_lots :: "decimal \<Rightarrow> decimal \<Rightarrow> decimal \<Rightarrow> int \<Rightarrow> int" where
  "target_lots nav tw px lot_size = floor_lots (of_int (dfloor (ddiv (dmul nav tw) px))) lot_size"

definition choose_sell :: "plan_instrument \<Rightarrow> decimal \<Rightarrow> decimal \<Rightarrow> decimal \<Rightarrow> int \<Rightarrow> sell_choice" where
  "choose_sell inst nav cur px lot_size =
     (let desired = target_lots nav (pi_target_weight inst) px lot_size;
          sellable = floor_lots cur lot_size
      in if sellable \<le> desired then NoSell else
         let lots_delta = sellable - desired in
         case pi_max_sell_units inst of
           None \<Rightarrow> SellLots lots_delta
         | Some max_units \<Rightarrow>
             if max_units \<le> 0 then SkipSell ''SELL_CAP_ZERO'' else
             let max_lots = floor_lots max_units lot_size in
             if max_lots \<le> 0 then SkipSell ''SELL_CAP_BELOW_ONE_LOT''
             else SellLots (if max_lots < lots_delta then max_lots else lots_delta))"

definition sell_row :: "plan_instrument \<Rightarrow> decimal \<Rightarrow> int \<Rightarrow> int \<Rightarrow> decimal \<Rightarrow> decimal \<Rightarrow> decimal \<Rightarrow> plan_row" where
  "sell_row inst cw lots lot_size exec_px notional fee =
     \<lparr>pr_id = pi_id inst, pr_ticker = pi_ticker inst, pr_action = PlanSell, pr_lots_delta = lots,
      pr_units_delta = of_int (lots * lot_size), pr_target_weight = pi_target_weight inst,
      pr_current_weight = cw, pr_price = Some exec_px, pr_notional = notional, pr_fee = fee,
      pr_lot_size = Some lot_size, pr_reason = ''REBALANCE_SELL'', pr_rank = pi_rank inst\<rparr>"

definition record_sell :: "planning \<Rightarrow> plan_instrument \<Rightarrow> decimal \<Rightarrow> plan_row \<Rightarrow> planning" where
  "record_sell st inst cur r =
     (let proceeds = dsub (pr_notional r) (pr_fee r); plan = ps_plan st in
      \<lparr>ps_units = (ps_units st)(pi_id inst \<mapsto> dsub cur (pr_units_delta r)),
       ps_cash = dadd (ps_cash st) proceeds, ps_allocable = dadd (ps_allocable st) proceeds,
       ps_plan = plan\<lparr>pl_rows := pl_rows plan @ [r], pl_fees_total := dadd (pl_fees_total plan) (pr_fee r),
                     pl_sell_proceeds := dadd (pl_sell_proceeds plan) proceeds\<rparr>\<rparr>)"

definition sell_lots :: "cost_profile \<Rightarrow> fee_fn option \<Rightarrow> planning \<Rightarrow> plan_instrument \<Rightarrow> decimal \<Rightarrow> decimal \<Rightarrow> decimal \<Rightarrow> int \<Rightarrow> int \<Rightarrow> planning res" where
  "sell_lots costs fee_for st inst cur cw px lot_size lots =
     bnd (execution_price costs px ''SELL'') (\<lambda>exec_px.
     let notional = dmul exec_px (of_int (lots * lot_size)) in
     bnd (resolve_fee costs fee_for ''SELL'' notional inst) (\<lambda>f. case f of
       None \<Rightarrow> Inr (add_row st (skip_row inst cw (Some px) (Some lot_size) ''FEE_RULE_UNAVAILABLE''))
     | Some fee \<Rightarrow>
         if dsub notional fee < 0
         then Inr (add_row st (skip_row inst cw (Some px) (Some lot_size) ''INSUFFICIENT_CASH_AFTER_FEES''))
         else Inr (record_sell st inst cur (sell_row inst cw lots lot_size exec_px notional fee))))"

definition sell_step :: "cost_profile \<Rightarrow> fee_fn option \<Rightarrow> decimal \<Rightarrow> planning \<Rightarrow> plan_instrument \<Rightarrow> planning res" where
  "sell_step costs fee_for nav st inst =
     bnd (units_of st inst) (\<lambda>cur.
     let tw = pi_target_weight inst; cw = plan_weight cur (pi_price inst) nav in
     case pi_price inst of
       None \<Rightarrow> Inr (if cur > 0 \<and> tw \<le> 0 then add_row st (skip_row inst cw None (pi_lot_size inst) ''NO_EXECUTION_PRICE'') else st)
     | Some px \<Rightarrow>
       if px \<le> 0
       then Inr (if cur > 0 \<and> tw \<le> 0 then add_row st (skip_row inst cw None (pi_lot_size inst) ''NO_EXECUTION_PRICE'') else st)
       else (case pi_lot_size inst of
         None \<Rightarrow> Inr (if cur > 0 \<and> tw < cw then add_row st (skip_row inst cw (Some px) None ''UNKNOWN_LOT_SIZE'') else st)
       | Some lot_size \<Rightarrow>
         if lot_size \<le> 0
         then Inr (if cur > 0 \<and> tw < cw then add_row st (skip_row inst cw (Some px) None ''UNKNOWN_LOT_SIZE'') else st)
         else if \<not> pi_sell_allowed inst
         then Inr (if cur > 0 \<and> tw < cw then add_row st (skip_row inst cw (Some px) (Some lot_size) ''SELL_NOT_ALLOWED'') else st)
         else (case choose_sell inst nav cur px lot_size of
             NoSell \<Rightarrow> Inr st
           | SkipSell reason \<Rightarrow> Inr (add_row st (skip_row inst cw (Some px) (Some lot_size) reason))
           | SellLots lots \<Rightarrow> sell_lots costs fee_for st inst cur cw px lot_size lots)))"

section \<open>Buying\<close>

definition buy_row :: "plan_instrument \<Rightarrow> decimal \<Rightarrow> int \<Rightarrow> int \<Rightarrow> decimal \<Rightarrow> decimal \<Rightarrow> decimal \<Rightarrow> plan_row" where
  "buy_row inst cw lots lot_size exec_px notional fee =
     \<lparr>pr_id = pi_id inst, pr_ticker = pi_ticker inst, pr_action = PlanBuy, pr_lots_delta = lots,
      pr_units_delta = of_int (lots * lot_size), pr_target_weight = pi_target_weight inst,
      pr_current_weight = cw, pr_price = Some exec_px, pr_notional = notional, pr_fee = fee,
      pr_lot_size = Some lot_size, pr_reason = ''REBALANCE_BUY'', pr_rank = pi_rank inst\<rparr>"

definition record_buy :: "planning \<Rightarrow> plan_instrument \<Rightarrow> decimal \<Rightarrow> plan_row \<Rightarrow> planning" where
  "record_buy st inst cur r =
     (let used = dadd (pr_notional r) (pr_fee r); plan = ps_plan st in
      \<lparr>ps_units = (ps_units st)(pi_id inst \<mapsto> dadd cur (pr_units_delta r)),
       ps_cash = dsub (ps_cash st) used, ps_allocable = dsub (ps_allocable st) used,
       ps_plan = plan\<lparr>pl_rows := pl_rows plan @ [r], pl_fees_total := dadd (pl_fees_total plan) (pr_fee r),
                     pl_buy_notional := dadd (pl_buy_notional plan) (pr_notional r)\<rparr>\<rparr>)"

text \<open>Why not even one lot can be bought.\<close>

definition no_lot_reason :: "decimal option \<Rightarrow> decimal \<Rightarrow> decimal \<Rightarrow> string" where
  "no_lot_reason one_lot_fee lot_notional allocable = (case one_lot_fee of
     None \<Rightarrow> ''FEE_RULE_UNAVAILABLE''
   | Some f \<Rightarrow> if allocable < dadd lot_notional f then ''INSUFFICIENT_CASH_FOR_ONE_LOT'' else ''BELOW_ONE_LOT'')"

definition buy_lots :: "cost_profile \<Rightarrow> fee_fn option \<Rightarrow> planning \<Rightarrow> plan_instrument \<Rightarrow> decimal \<Rightarrow> decimal \<Rightarrow> decimal \<Rightarrow> int \<Rightarrow> int \<Rightarrow> planning res" where
  "buy_lots costs fee_for st inst cur cw exec_px lot_size lots =
     (let notional = dmul exec_px (of_int (lots * lot_size)) in
      bnd (resolve_fee costs fee_for ''BUY'' notional inst) (\<lambda>f. case f of
        None \<Rightarrow> Inr (add_row st (skip_row inst cw (Some exec_px) (Some lot_size) ''FEE_RULE_UNAVAILABLE''))
      | Some fee \<Rightarrow>
          if dadd (ps_allocable st) (1 / 10000000) < dadd notional fee
          then Inr (add_row st (skip_row inst cw (Some exec_px) (Some lot_size) ''INSUFFICIENT_CASH_AFTER_FEES''))
          else Inr (record_buy st inst cur (buy_row inst cw lots lot_size exec_px notional fee))))"

definition buy_capped :: "cost_profile \<Rightarrow> fee_fn option \<Rightarrow> planning \<Rightarrow> plan_instrument \<Rightarrow> decimal \<Rightarrow> decimal \<Rightarrow> decimal \<Rightarrow> int \<Rightarrow> int \<Rightarrow> planning res" where
  "buy_capped costs fee_for st inst cur cw px lot_size need_lots =
     bnd (execution_price costs px ''BUY'') (\<lambda>exec_px.
     let lot_notional = dmul exec_px (of_int lot_size) in
     bnd (if lot_notional > 0 \<and> ps_allocable st > 0
          then affordable_lots_with_fee (ps_allocable st) lot_notional costs fee_for ''BUY'' inst
          else Inr 0) (\<lambda>max_by_cash.
     let lots = min need_lots max_by_cash in
     if lots \<le> 0 then
       bnd (resolve_fee costs fee_for ''BUY'' lot_notional inst) (\<lambda>one_lot_fee.
       Inr (add_row st (skip_row inst cw (Some exec_px) (Some lot_size)
              (no_lot_reason one_lot_fee lot_notional (ps_allocable st)))))
     else buy_lots costs fee_for st inst cur cw exec_px lot_size lots))"

definition buy_step :: "cost_profile \<Rightarrow> fee_fn option \<Rightarrow> decimal \<Rightarrow> planning \<Rightarrow> plan_instrument \<Rightarrow> planning res" where
  "buy_step costs fee_for nav st inst =
     bnd (units_of st inst) (\<lambda>cur.
     let tw = pi_target_weight inst; cw = plan_weight cur (pi_price inst) nav in
     if tw \<le> 0 then Inr st else
     case pi_price inst of
       None \<Rightarrow> Inr (add_row st (skip_row inst cw None (pi_lot_size inst) ''NO_EXECUTION_PRICE''))
     | Some px \<Rightarrow>
       if px \<le> 0 then Inr (add_row st (skip_row inst cw None (pi_lot_size inst) ''NO_EXECUTION_PRICE'')) else
       (case pi_lot_size inst of
         None \<Rightarrow> Inr (add_row st (skip_row inst cw (Some px) None ''UNKNOWN_LOT_SIZE''))
       | Some lot_size \<Rightarrow>
         if lot_size \<le> 0 then Inr (add_row st (skip_row inst cw (Some px) None ''UNKNOWN_LOT_SIZE'')) else
         let target = target_lots nav tw px lot_size;
             current = floor_lots cur lot_size;
             need_lots = target - current
         in if need_lots \<le> 0
            then Inr (add_row st (skip_row inst cw (Some px) (Some lot_size)
                   (if target = current then ''NO_REBALANCE_REQUIRED'' else ''BELOW_ONE_LOT'')))
            else buy_capped costs fee_for st inst cur cw px lot_size need_lots))"

section \<open>The plan\<close>

definition sell_key :: "plan_instrument \<Rightarrow> string \<times> int" where
  "sell_key i = (upper (pi_ticker i), pi_id i)"

definition buy_key :: "plan_instrument \<Rightarrow> int \<times> decimal \<times> string \<times> int" where
  "buy_key i = ((case pi_priority i of Some p \<Rightarrow> p | None \<Rightarrow> opt_or (pi_rank i) (10 ^ 9)),
     dneg (pi_target_weight i), upper (pi_ticker i), pi_id i)"

definition start_planning :: "plan_instrument list \<Rightarrow> decimal \<Rightarrow> decimal \<Rightarrow> planning" where
  "start_planning instruments funds strategic_cash_reserve =
     \<lparr>ps_units = foldl (\<lambda>m i. m(pi_id i \<mapsto> pi_current_units i)) Map.empty instruments,
      ps_cash = funds, ps_allocable = dsub funds (min strategic_cash_reserve funds),
      ps_plan = \<lparr>pl_starting_cash = funds, pl_reserve = strategic_cash_reserve, pl_rows = [],
        pl_projected_cash = funds, pl_fees_total = 0, pl_sell_proceeds = 0, pl_buy_notional = 0,
        pl_remainder = 0\<rparr>\<rparr>"

definition row_aligned :: "plan_row \<Rightarrow> bool" where
  "row_aligned r = (case pr_lot_size r of None \<Rightarrow> False | Some l \<Rightarrow>
     l > 0 \<and> dtrunc (pr_units_delta r) mod l = 0 \<and> pr_units_delta r = of_int (pr_lots_delta r * l))"

definition finish_plan :: "decimal \<Rightarrow> decimal \<Rightarrow> planning \<Rightarrow> order_plan res" where
  "finish_plan funds strategic_cash_reserve st =
     (let reserved = min strategic_cash_reserve funds;
          plan = (ps_plan st)\<lparr>pl_projected_cash := ps_cash st,
                   pl_remainder := max 0 (dsub (ps_cash st) reserved)\<rparr>
      in if pl_projected_cash plan < 0
         then Inl (AssertionError ''lot plan invariant violated: negative projected cash'')
         else if list_all row_aligned (executable plan) then Inr plan else Inl (AssertionError ''''))"

definition build_lot_order_plan ::
  "plan_instrument list \<Rightarrow> decimal \<Rightarrow> decimal \<Rightarrow> cost_profile \<Rightarrow> decimal \<Rightarrow> fee_fn option \<Rightarrow> order_plan res" where
  "build_lot_order_plan instruments funds nav costs strategic_cash_reserve fee_for =
     (if funds < 0 then Inl (ValueError ''cash must be non-negative'') else
      if strategic_cash_reserve < 0 then Inl (ValueError ''strategic_cash_reserve must be non-negative'') else
      bnd (foldM (sell_step costs fee_for nav) (start_planning instruments funds strategic_cash_reserve)
             (sort_key sell_key instruments)) (\<lambda>sold.
      bnd (foldM (buy_step costs fee_for nav) sold (sort_key buy_key instruments)) (\<lambda>bought.
      finish_plan funds strategic_cash_reserve bought)))"

section \<open>Sizes\<close>

text \<open>A non-negative count of at most 27 digits.\<close>

definition sized :: "decimal \<Rightarrow> bool" where
  "sized u \<longleftrightarrow> 0 \<le> u \<and> (\<exists>k \<le> 28. on_grid k u \<and> u * 10 ^ k < 10 ^ 27)"

lemma sized_of_int: "\<lbrakk>0 \<le> n; n < 10 ^ 27\<rbrakk> \<Longrightarrow> sized (of_int n)"
proof -
  assume n: "0 \<le> n" "n < 10 ^ 27"
  then have "of_int n < (of_int (10 ^ 27) :: rat)" by (simp only: of_int_less_iff)
  with n show ?thesis by (auto simp: sized_def intro!: exI [of _ 0])
qed

text \<open>Whole lots never exceed the count they are taken from: the quotient is rounded, but a count of
  27 digits is too coarse for the rounding to cross a lot.\<close>

lemma floor_lots_le:
  assumes u: "sized u" and l: "0 < l" "l < 10 ^ 27"
  shows "of_int (floor_lots u l * l) \<le> u"
proof (rule ccontr)
  assume over: "\<not> of_int (floor_lots u l * l) \<le> u"
  define n where "n = floor_lots u l"
  define L where "L = (of_int l :: rat)"
  obtain k where k: "k \<le> 28" "on_grid k u" "u * 10 ^ k < 10 ^ 27" and u0: "0 \<le> u" using u by (auto simp: sized_def)
  obtain a where a: "u * 10 ^ k = of_int a" using k(2) by (auto simp: on_grid_def elim: Ints_cases)
  have "l < 10 ^ 27" by (rule l(2))
  then have "L < of_int (10 ^ 27)" unfolding L_def by (simp only: of_int_less_iff)
  then have L: "0 < L" "L < 10 ^ 27" using l(1) by (simp_all add: L_def)
  define t :: rat where "t = of_nat 10 powi (- 1000026)"
  have p: "of_int n \<le> dround (u / L)" using l by (simp add: n_def floor_lots_def dfloor_def ddiv_def L_def)
  have "\<bar>dround (u / L) - u / L\<bar> \<le> \<bar>u / L\<bar> * of_nat 10 powi (1 - int 28) / 2 + t / 2"
    unfolding dround_def t_def by (rule dec.rnd_rel_error)
  then have q: "\<bar>dround (u / L) - u / L\<bar> \<le> u / L * (1 / 10 ^ 27) / 2 + t / 2"
    using u0 L(1) by (simp add: power_int_minus)
  have "t \<le> of_nat 10 powi (- 56)" unfolding t_def by (rule dec.pw_mono) simp
  also have "of_nat 10 powi (- 56) = inverse ((10::rat) ^ 56)" by (simp only: power_int_minus of_nat_numeral power_int_numeral)
  finally have "t \<le> 1 / 10 ^ 56" by (simp only: inverse_eq_divide)
  moreover have "\<lbrakk>n' \<le> d; \<bar>d - x\<bar> \<le> w + t / 2; t \<le> s\<rbrakk> \<Longrightarrow> n' - x \<le> w + s / 2" for n' d x w s :: rat by linarith
  ultimately have "of_int n - u / L \<le> u / L * (1 / 10 ^ 27) / 2 + (1 / 10 ^ 56) / 2" using p q by blast
  then have "(of_int n - u / L) * L \<le> (u / L * (1 / 10 ^ 27) / 2 + (1 / 10 ^ 56) / 2) * L"
    using L by (intro mult_right_mono) auto
  then have e: "of_int n * L - u \<le> u / 10 ^ 27 / 2 + L * (1 / 10 ^ 56) / 2"
    using L by (simp add: algebra_simps)
  have "L * (1 / 10 ^ 56) \<le> 10 ^ 27 * (1 / 10 ^ 56)" using L by (intro mult_right_mono) auto
  also have "\<dots> = 1 / 10 ^ 29" by simp
  finally have s: "L * (1 / 10 ^ 56) \<le> 1 / 10 ^ 29" .
  have "of_int n * L - u \<le> u / 10 ^ 27 / 2 + (1 / 10 ^ 29) / 2"
    by (rule order_trans [OF e add_left_mono [OF divide_right_mono [OF s]]]) simp
  then have "(of_int n * L - u) * 10 ^ k \<le> (u / 10 ^ 27 / 2 + (1 / 10 ^ 29) / 2) * 10 ^ k"
    by (intro mult_right_mono) auto
  also have "\<dots> = u * 10 ^ k / 10 ^ 27 / 2 + 10 ^ k * (1 / 10 ^ 29) / 2" by (simp add: algebra_simps)
  also have "(10::rat) ^ k \<le> 10 ^ 28" using k(1) by (intro power_increasing) auto
  then have "(10::rat) ^ k * (1 / 10 ^ 29) \<le> 10 ^ 28 * (1 / 10 ^ 29)" by (intro mult_right_mono) auto
  also have "(10::rat) ^ 28 * (1 / 10 ^ 29) = 1 / 10" by simp
  finally have lt: "(of_int n * L - u) * 10 ^ k < 1" using k(3) by (simp add: field_simps)
  have eq: "(of_int n * L - u) * 10 ^ k = of_int (n * l * 10 ^ k - a)"
    using a by (simp add: L_def left_diff_distrib)
  have "0 < (of_int n * L - u) * 10 ^ k" using over by (simp add: n_def L_def)
  with lt have "0 < n * l * 10 ^ k - a \<and> n * l * 10 ^ k - a < 1"
    unfolding eq of_int_0_less_iff of_int_less_1_iff by simp
  then show False by linarith
qed

lemma floor_lots_ge: "\<lbrakk>0 < l; \<bar>n\<bar> < 10 ^ 28; of_int n * of_int l \<le> u\<rbrakk> \<Longrightarrow> n \<le> floor_lots u l"
proof -
  assume l: "0 < l" and n: "\<bar>n\<bar> < 10 ^ 28" and u: "of_int n * of_int l \<le> u"
  have "of_int n \<le> u / of_int l" using l u by (simp add: pos_le_divide_eq)
  then have "dround (of_int n) \<le> ddiv u (of_int l)" unfolding ddiv_def by (rule dround_mono)
  then have "of_int n \<le> ddiv u (of_int l)" using dround_of_int [OF n] by simp
  then show ?thesis using l by (simp add: floor_lots_def dfloor_def le_floor_iff)
qed

section \<open>What one step does\<close>

lemma choose_sell_ok:
  assumes "choose_sell inst nav cur px l = SellLots lots"
  shows "0 < lots \<and> lots \<le> floor_lots cur l - target_lots nav (pi_target_weight inst) px l \<and>
    (\<forall>m. pi_max_sell_units inst = Some m \<longrightarrow> lots \<le> floor_lots m l)"
  using assms by (auto simp: choose_sell_def Let_def split: if_splits option.splits)

lemma sell_lots_cases:
  assumes "sell_lots costs fee_for st inst cur cw px l lots = Inr st'"
  obtains (skip) r where "st' = add_row st r" "pr_action r = PlanSkip"
  | (sell) e fee where "resolve_fee costs fee_for ''SELL'' (dmul e (of_int (lots * l))) inst = Inr (Some fee)"
      "0 \<le> dsub (dmul e (of_int (lots * l))) fee"
      "st' = record_sell st inst cur (sell_row inst cw lots l e (dmul e (of_int (lots * l))) fee)"
proof -
  from assms obtain e f where e: "execution_price costs px ''SELL'' = Inr e"
    and f: "resolve_fee costs fee_for ''SELL'' (dmul e (of_int (lots * l))) inst = Inr f"
    by (auto simp: sell_lots_def exn_simps Let_def simp del: of_int_mult)
  show thesis
  proof (cases f)
    case None
    with assms e f show thesis by (intro skip) (auto simp: sell_lots_def skip_row_def Let_def simp del: of_int_mult)
  next
    case (Some fee)
    show thesis
    proof (cases "dsub (dmul e (of_int (lots * l))) fee < 0")
      case True
      with assms e f Some show thesis by (intro skip) (auto simp: sell_lots_def skip_row_def Let_def simp del: of_int_mult)
    next
      case False
      with assms e f Some show thesis by (intro sell [of e fee]) (auto simp: sell_lots_def Let_def simp del: of_int_mult)
    qed
  qed
qed

lemma sell_step_cases:
  assumes "sell_step costs fee_for nav st inst = Inr st'"
  obtains (keep) "st' = st"
  | (skip) r where "st' = add_row st r" "pr_action r = PlanSkip"
  | (sell) cur px l lots cw e fee where "ps_units st (pi_id inst) = Some cur" "pi_price inst = Some px"
      "0 < px" "pi_lot_size inst = Some l" "0 < l" "pi_sell_allowed inst" "choose_sell inst nav cur px l = SellLots lots"
      "0 \<le> dsub (dmul e (of_int (lots * l))) fee"
      "st' = record_sell st inst cur (sell_row inst cw lots l e (dmul e (of_int (lots * l))) fee)"
proof -
  from assms obtain cur where c: "ps_units st (pi_id inst) = Some cur"
    by (auto simp: sell_step_def units_of_def exn_simps split: option.splits)
  define cw where "cw = plan_weight cur (pi_price inst) nav"
  have u: "units_of st inst = Inr cur" using c by (simp add: units_of_def)
  show thesis
  proof (cases "\<exists>px l lots. pi_price inst = Some px \<and> 0 < px \<and> pi_lot_size inst = Some l \<and> 0 < l \<and> pi_sell_allowed inst \<and>
      choose_sell inst nav cur px l = SellLots lots")
    case True
    then obtain px l lots where x: "pi_price inst = Some px" "0 < px" "pi_lot_size inst = Some l" "0 < l" "pi_sell_allowed inst"
      "choose_sell inst nav cur px l = SellLots lots" by blast
    with assms u have "sell_lots costs fee_for st inst cur cw px l lots = Inr st'"
      by (simp add: sell_step_def cw_def Let_def)
    then show thesis
    proof (cases rule: sell_lots_cases)
      case (skip r)
      then show thesis using that(2) by blast
    next
      case (sell e fee)
      then show thesis using that(3) [OF c x] by blast
    qed
  next
    case False
    have k: "pr_action (skip_row inst cw' p lot reason) = PlanSkip" for cw' p lot reason by (simp add: skip_row_def)
    from False assms have "st' = st \<or> (\<exists>a p lot reason. st' = add_row st (skip_row inst a p lot reason))"
      unfolding sell_step_def u Let_def bnd_Inr
      by (fastforce simp: not_le split: option.splits if_splits sell_choice.splits)
    then show thesis using that(1,2) k by blast
  qed
qed

lemma buy_lots_cases:
  assumes "buy_lots costs fee_for st inst cur cw e l lots = Inr st'"
  obtains (skip) r where "st' = add_row st r" "pr_action r = PlanSkip"
  | (buy) fee where "resolve_fee costs fee_for ''BUY'' (dmul e (of_int (lots * l))) inst = Inr (Some fee)"
      "dadd (dmul e (of_int (lots * l))) fee \<le> dadd (ps_allocable st) (1 / 10000000)"
      "st' = record_buy st inst cur (buy_row inst cw lots l e (dmul e (of_int (lots * l))) fee)"
proof -
  define n where "n = dmul e (of_int (lots * l))"
  from assms obtain f where f: "resolve_fee costs fee_for ''BUY'' n inst = Inr f"
    by (auto simp: buy_lots_def exn_simps Let_def n_def simp del: of_int_mult)
  show thesis
  proof (cases "\<exists>fee. f = Some fee \<and> \<not> dadd (ps_allocable st) (1 / 10000000) < dadd n fee")
    case True
    then obtain fee where "f = Some fee" "\<not> dadd (ps_allocable st) (1 / 10000000) < dadd n fee" by blast
    with assms f show thesis unfolding n_def
      by (intro buy [of fee]) (auto simp: buy_lots_def Let_def simp del: of_int_mult)
  next
    case False
    with assms f show thesis unfolding buy_lots_def Let_def n_def [symmetric]
      by (cases f) (auto intro!: skip simp: skip_row_def)
  qed
qed

lemma buy_step_cases:
  assumes "buy_step costs fee_for nav st inst = Inr st'"
  obtains (keep) "st' = st"
  | (skip) r where "st' = add_row st r" "pr_action r = PlanSkip"
  | (buy) cur px l lots max_by_cash cw e fee where "ps_units st (pi_id inst) = Some cur" "pi_price inst = Some px" "0 < px"
      "pi_lot_size inst = Some l" "0 < l" "0 < pi_target_weight inst" "0 < lots"
      "lots \<le> target_lots nav (pi_target_weight inst) px l - floor_lots cur l"
      "execution_price costs px ''BUY'' = Inr e" "0 < dmul e (of_int l)"
      "affordable_lots_with_fee (ps_allocable st) (dmul e (of_int l)) costs fee_for ''BUY'' inst = Inr max_by_cash"
      "lots \<le> max_by_cash"
      "resolve_fee costs fee_for ''BUY'' (dmul e (of_int (lots * l))) inst = Inr (Some fee)"
      "dadd (dmul e (of_int (lots * l))) fee \<le> dadd (ps_allocable st) (1 / 10000000)"
      "st' = record_buy st inst cur (buy_row inst cw lots l e (dmul e (of_int (lots * l))) fee)"
proof -
  have k: "pr_action (skip_row inst cw' p lot reason) = PlanSkip" for cw' p lot reason by (simp add: skip_row_def)
  from assms obtain cur where c: "ps_units st (pi_id inst) = Some cur"
    by (auto simp: buy_step_def units_of_def exn_simps split: option.splits)
  define cw where "cw = plan_weight cur (pi_price inst) nav"
  have u: "units_of st inst = Inr cur" using c by (simp add: units_of_def)
  define need where "need = (\<lambda>px l. target_lots nav (pi_target_weight inst) px l - floor_lots cur l)"
  show thesis
  proof (cases "\<exists>px l. pi_price inst = Some px \<and> 0 < px \<and> pi_lot_size inst = Some l \<and> 0 < l \<and> 0 < pi_target_weight inst \<and>
      0 < need px l")
    case False
    from False assms have "st' = st \<or> (\<exists>a p lot reason. st' = add_row st (skip_row inst a p lot reason))"
      unfolding buy_step_def u Let_def bnd_Inr need_def
      by (auto simp: not_le split: option.splits if_splits)
    then show thesis using that(1,2) k by blast
  next
    case True
    then obtain px l where x: "pi_price inst = Some px" "0 < px" "pi_lot_size inst = Some l" "0 < l" "0 < pi_target_weight inst" "0 < need px l"
      by blast
    with assms u have b: "buy_capped costs fee_for st inst cur cw px l (need px l) = Inr st'"
      by (simp add: buy_step_def cw_def Let_def need_def)
    then obtain e where e: "execution_price costs px ''BUY'' = Inr e"
      by (auto simp: buy_capped_def exn_simps)
    define lotn where "lotn = dmul e (of_int l)"
    from b e obtain mc where mc: "(if lotn > 0 \<and> ps_allocable st > 0
          then affordable_lots_with_fee (ps_allocable st) lotn costs fee_for ''BUY'' inst else Inr 0) = Inr mc"
      unfolding buy_capped_def Let_def lotn_def by (auto simp only: bnd_Inr bnd_eq_Inr)
    show thesis
    proof (cases "min (need px l) mc \<le> 0")
      case True
      with b e mc have "\<exists>a p lot reason. st' = add_row st (skip_row inst a p lot reason)"
        unfolding buy_capped_def Let_def lotn_def by (auto simp: bnd_eq_Inr)
      then show thesis using that(2) k by blast
    next
      case False
      with b e mc have bl: "buy_lots costs fee_for st inst cur cw e l (min (need px l) mc) = Inr st'"
        unfolding buy_capped_def Let_def lotn_def by auto
      from False mc have m: "affordable_lots_with_fee (ps_allocable st) lotn costs fee_for ''BUY'' inst = Inr mc" "0 < lotn"
        by (auto split: if_splits)
      from bl show thesis
      proof (cases rule: buy_lots_cases)
        case (skip r)
        then show thesis using that(2) by blast
      next
        case (buy fee)
        then show thesis using that(3) [OF c x(1-5) _ _ e m(2) [unfolded lotn_def] m(1) [unfolded lotn_def] _ buy] False
          by (auto simp: need_def)
      qed
    qed
  qed
qed

section \<open>Sell permission\<close>

text \<open>What a SELL row must respect, and a BUY row, of its instrument.\<close>

definition lot_row :: "plan_instrument \<Rightarrow> plan_row \<Rightarrow> bool" where
  "lot_row i r \<longleftrightarrow> (\<exists>l. pi_lot_size i = Some l \<and> 0 < l \<and> pr_lot_size r = Some l \<and> 0 < pr_lots_delta r \<and>
     pr_units_delta r = of_int (pr_lots_delta r * l))"

definition sell_permitted :: "plan_instrument \<Rightarrow> plan_row \<Rightarrow> bool" where
  "sell_permitted i r \<longleftrightarrow> lot_row i r \<and> pi_sell_allowed i \<and> pr_units_delta r \<le> pi_current_units i \<and>
     (\<forall>m. pi_max_sell_units i = Some m \<longrightarrow> pr_units_delta r \<le> m)"

definition sized_inst :: "plan_instrument \<Rightarrow> bool" where
  "sized_inst i \<longleftrightarrow> sized (pi_current_units i) \<and> pred_option sized (pi_max_sell_units i) \<and>
     pred_option (\<lambda>l. l < 10 ^ 27) (pi_lot_size i) \<and> 0 \<le> pi_target_weight i"

definition rows_of :: "planning \<Rightarrow> plan_action \<Rightarrow> plan_instrument \<Rightarrow> bool" where
  "rows_of st a i \<longleftrightarrow> (\<exists>r \<in> set (pl_rows (ps_plan st)). pr_action r = a \<and> pr_id r = pi_id i)"

text \<open>The holding of a sold instrument still covers its target.\<close>

definition covered :: "decimal \<Rightarrow> planning \<Rightarrow> plan_instrument \<Rightarrow> bool" where
  "covered nav st i \<longleftrightarrow> (\<exists>u. ps_units st (pi_id i) = Some u \<and> (\<forall>px l. pi_price i = Some px \<longrightarrow> 0 < px \<longrightarrow>
     pi_lot_size i = Some l \<longrightarrow> 0 < l \<longrightarrow> target_lots nav (pi_target_weight i) px l \<le> floor_lots u l))"

definition permitted :: "plan_instrument list \<Rightarrow> planning \<Rightarrow> bool" where
  "permitted insts st \<longleftrightarrow> (\<forall>r \<in> set (pl_rows (ps_plan st)).
     (pr_action r = PlanSell \<longrightarrow> (\<exists>i \<in> set insts. pi_id i = pr_id r \<and> sell_permitted i r)) \<and>
     (pr_action r = PlanBuy \<longrightarrow> (\<exists>i \<in> set insts. pi_id i = pr_id r \<and> lot_row i r \<and> 0 < pi_target_weight i)))"

definition untouched :: "plan_instrument list \<Rightarrow> planning \<Rightarrow> bool" where
  "untouched rest st \<longleftrightarrow> distinct (map pi_id rest) \<and>
     (\<forall>i \<in> set rest. ps_units st (pi_id i) = Some (pi_current_units i) \<and> \<not> rows_of st PlanSell i)"

definition one_sided :: "decimal \<Rightarrow> plan_instrument list \<Rightarrow> planning \<Rightarrow> bool" where
  "one_sided nav insts st \<longleftrightarrow> (\<forall>i \<in> set insts. rows_of st PlanSell i \<longrightarrow> covered nav st i \<and> \<not> rows_of st PlanBuy i)"

lemma planning_simps [simp]:
  "ps_units (add_row st r) = ps_units st" "ps_cash (add_row st r) = ps_cash st" "ps_allocable (add_row st r) = ps_allocable st"
  "pl_rows (ps_plan (add_row st r)) = pl_rows (ps_plan st) @ [r]"
  "pl_rows (ps_plan (record_sell st i cur r)) = pl_rows (ps_plan st) @ [r]"
  "pl_rows (ps_plan (record_buy st i cur r)) = pl_rows (ps_plan st) @ [r]"
  "ps_units (record_sell st i cur r) = (ps_units st)(pi_id i \<mapsto> dsub cur (pr_units_delta r))"
  "ps_units (record_buy st i cur r) = (ps_units st)(pi_id i \<mapsto> dadd cur (pr_units_delta r))"
  "ps_cash (record_sell st i cur r) = dadd (ps_cash st) (dsub (pr_notional r) (pr_fee r))"
  "ps_cash (record_buy st i cur r) = dsub (ps_cash st) (dadd (pr_notional r) (pr_fee r))"
  "ps_allocable (record_sell st i cur r) = dadd (ps_allocable st) (dsub (pr_notional r) (pr_fee r))"
  "ps_allocable (record_buy st i cur r) = dsub (ps_allocable st) (dadd (pr_notional r) (pr_fee r))"
  by (simp_all add: add_row_def record_sell_def record_buy_def Let_def)

lemma row_simps [simp]:
  "pr_action (sell_row i cw lots l e n f) = PlanSell" "pr_id (sell_row i cw lots l e n f) = pi_id i"
  "pr_action (buy_row i cw lots l e n f) = PlanBuy" "pr_id (buy_row i cw lots l e n f) = pi_id i"
  "pr_notional (sell_row i cw lots l e n f) = n" "pr_fee (sell_row i cw lots l e n f) = f"
  "pr_notional (buy_row i cw lots l e n f) = n" "pr_fee (buy_row i cw lots l e n f) = f"
  "pr_units_delta (sell_row i cw lots l e n f) = of_int (lots * l)"
  "pr_units_delta (buy_row i cw lots l e n f) = of_int (lots * l)"
  "lot_row i (sell_row i cw lots l e n f) = (pi_lot_size i = Some l \<and> 0 < l \<and> 0 < lots)"
  "lot_row i (buy_row i cw lots l e n f) = (pi_lot_size i = Some l \<and> 0 < l \<and> 0 < lots)"
  by (auto simp: sell_row_def buy_row_def lot_row_def)

lemma rows_of_append:
  "rows_of (add_row st r) a i \<longleftrightarrow> rows_of st a i \<or> pr_action r = a \<and> pr_id r = pi_id i"
  "rows_of (record_sell st j cur r) a i \<longleftrightarrow> rows_of st a i \<or> pr_action r = a \<and> pr_id r = pi_id i"
  "rows_of (record_buy st j cur r) a i \<longleftrightarrow> rows_of st a i \<or> pr_action r = a \<and> pr_id r = pi_id i"
  by (auto simp: rows_of_def)

lemma target_nonneg: "\<lbrakk>0 \<le> nav; 0 \<le> tw; 0 < px\<rbrakk> \<Longrightarrow> 0 \<le> target_lots nav tw px l"
  by (auto simp: target_lots_def floor_lots_def dfloor_def ddiv_def dmul_def intro!: dround_nonneg divide_nonneg_nonneg)

text \<open>Selling down to the target leaves the target.\<close>

lemma covered_after_sale:
  assumes u: "sized cur" and l: "0 < l" "l < 10 ^ 27" and t: "0 \<le> t" and lots: "0 < lots" "lots \<le> floor_lots cur l - t"
  shows "t \<le> floor_lots (dsub cur (of_int (lots * l))) l"
proof -
  have "of_int (floor_lots cur l * l) \<le> cur" by (rule floor_lots_le [OF u l])
  moreover have "of_int ((t + lots) * l) \<le> (of_int (floor_lots cur l * l) :: rat)"
    using lots l by (simp only: of_int_le_iff) (intro mult_right_mono, auto)
  ultimately have le: "of_int (t * l) \<le> cur - of_int (lots * l)" by (simp add: algebra_simps)
  have c: "cur < 10 ^ 27"
  proof -
    obtain k where k: "cur * 10 ^ k < 10 ^ 27" using u by (auto simp: sized_def)
    have "0 \<le> cur" using u by (simp add: sized_def)
    then have "cur * 1 \<le> cur * 10 ^ k" by (intro mult_left_mono) auto
    with k show ?thesis by linarith
  qed
  have "0 \<le> (of_int (lots * l) :: rat)" using lots l by simp
  with le c have "of_int (t * l) < (10 ^ 27 :: rat)" by linarith
  then have "of_int (t * l) < (of_int (10 ^ 27) :: rat)" by simp
  then have b: "t * l < 10 ^ 27" by (simp only: of_int_less_iff)
  have tl: "0 \<le> t * l" "t \<le> t * l" using t l by (simp_all add: mult_le_cancel_left1)
  have "\<bar>t * l\<bar> < 10 ^ 28" using tl b by simp
  then have "of_int (t * l) = dround (of_int (t * l))" by (simp only: dround_of_int)
  also have "\<dots> \<le> dsub cur (of_int (lots * l))" unfolding dsub_def by (rule dround_mono [OF le])
  finally have "of_int t * of_int l \<le> dsub cur (of_int (lots * l))" by simp
  moreover have "\<bar>t\<bar> < 10 ^ 28" using tl b t by simp
  ultimately show ?thesis using floor_lots_ge [OF l(1)] by blast
qed

section \<open>The two loops\<close>

text \<open>Invariant rule for a loop whose invariant mentions the elements still to come.\<close>

lemma foldM_rest:
  assumes "foldM f s xs = Inr t" and "P s xs"
    and "\<And>s x ys s'. set (x # ys) \<subseteq> set xs \<Longrightarrow> P s (x # ys) \<Longrightarrow> f s x = Inr s' \<Longrightarrow> P s' ys"
  shows "P t []"
  using assms
proof (induction xs arbitrary: s)
  case (Cons x xs)
  then obtain s' where s': "f s x = Inr s'" and r: "foldM f s' xs = Inr t" by (auto simp: exn_simps)
  have "P s' xs" using Cons.prems(3) [OF _ Cons.prems(2) s'] by simp
  moreover have "P s'' ys" if "set (y # ys) \<subseteq> set xs" "P s (y # ys)" "f s y = Inr s''" for s y ys s''
    using Cons.prems(3) [of y ys s s''] that by auto
  ultimately show ?case using Cons.IH [OF r] by blast
qed simp

definition selling :: "decimal \<Rightarrow> plan_instrument list \<Rightarrow> planning \<Rightarrow> plan_instrument list \<Rightarrow> bool" where
  "selling nav insts st rest \<longleftrightarrow> permitted insts st \<and> untouched rest st \<and> one_sided nav insts st \<and>
     (\<forall>r \<in> set (pl_rows (ps_plan st)). pr_action r \<noteq> PlanBuy)"

lemma distinct_ids: "\<lbrakk>distinct (map pi_id xs); i \<in> set xs; j \<in> set xs; pi_id i = pi_id j\<rbrakk> \<Longrightarrow> i = j"
  by (metis distinct_map inj_onD)

lemma sell_step_selling:
  assumes nav: "0 \<le> nav" and i: "i \<in> set insts" and sz: "sized_inst i" and d: "distinct (map pi_id insts)"
    and inv: "selling nav insts st (i # rest)" and s: "sell_step costs fee_for nav st i = Inr st'"
  shows "selling nav insts st' rest"
  using s
proof (cases rule: sell_step_cases)
  case keep
  then show ?thesis using inv by (simp add: selling_def untouched_def)
next
  case (skip r)
  then show ?thesis using inv
    by (auto simp: selling_def untouched_def permitted_def one_sided_def covered_def rows_of_append)
next
  case (sell cur px l lots cw e fee)
  have cur: "cur = pi_current_units i" using inv sell(1) by (simp add: selling_def untouched_def)
  have lz: "l < 10 ^ 27" and uz: "sized cur" and mz: "pred_option sized (pi_max_sell_units i)" and tw: "0 \<le> pi_target_weight i"
    using sz sell(4) cur by (auto simp: sized_inst_def)
  note ch = choose_sell_ok [OF sell(7)]
  define t where "t = target_lots nav (pi_target_weight i) px l"
  have t: "0 \<le> t" unfolding t_def by (rule target_nonneg [OF nav tw sell(3)])
  have le: "of_int (lots * l) \<le> u" if "lots \<le> floor_lots u l" "sized u" for u
  proof -
    have "of_int (lots * l) \<le> (of_int (floor_lots u l * l) :: rat)"
      using that(1) sell(5) by (simp only: of_int_le_iff) (intro mult_right_mono, auto)
    then show ?thesis using floor_lots_le [OF that(2) sell(5) lz] by linarith
  qed
  define r where "r = sell_row i cw lots l e (dmul e (of_int (lots * l))) fee"
  have p: "sell_permitted i r" unfolding sell_permitted_def r_def
    using ch sell(4-6) le [of cur] le [of "the (pi_max_sell_units i)"] uz mz t cur unfolding t_def [symmetric]
    by (auto simp del: of_int_mult)
  have cov: "t \<le> floor_lots (dsub cur (of_int (lots * l))) l"
    using covered_after_sale [OF uz sell(5) lz t] ch by (simp add: t_def)
  have st': "st' = record_sell st i cur r" using sell(9) by (simp add: r_def)
  have a: "pr_action r = PlanSell" "pr_id r = pi_id i" by (simp_all add: r_def)
  have ci: "covered nav st' i" unfolding sell(9) covered_def
    using cov sell(2,4) by (auto simp: t_def simp del: of_int_mult)
  have other: "covered nav st' j \<longleftrightarrow> covered nav st j" if "j \<in> set insts" "j \<noteq> i" for j
    using distinct_ids [OF d that(1) i] that(2) unfolding st' covered_def by simp blast
  have nb: "\<not> rows_of st PlanBuy j" for j using inv by (auto simp: selling_def rows_of_def)
  have "one_sided nav insts st'" unfolding one_sided_def
  proof (intro ballI impI)
    fix j assume j: "j \<in> set insts" and sold: "rows_of st' PlanSell j"
    show "covered nav st' j \<and> \<not> rows_of st' PlanBuy j"
    proof (cases "j = i")
      case True
      then show ?thesis using ci nb a by (simp add: st' rows_of_append)
    next
      case False
      then have "pi_id j \<noteq> pi_id i" using distinct_ids [OF d j i] by blast
      then have "rows_of st PlanSell j" using sold a by (simp add: st' rows_of_append)
      then show ?thesis using other [OF j False] inv j nb a by (auto simp: selling_def one_sided_def st' rows_of_append)
    qed
  qed
  moreover have "permitted insts st'" using inv p i unfolding sell(9) selling_def permitted_def r_def by (auto simp del: of_int_mult)
  moreover have "untouched rest st'"
  proof -
    have "pi_id i \<notin> pi_id ` set rest" using inv by (simp add: selling_def untouched_def)
    then have "pi_id j \<noteq> pi_id i" if "j \<in> set rest" for j using that by (metis imageI)
    then show ?thesis using inv a unfolding st' selling_def untouched_def by (auto simp: rows_of_append)
  qed
  moreover have "\<forall>r \<in> set (pl_rows (ps_plan st')). pr_action r \<noteq> PlanBuy" using inv unfolding sell(9) selling_def by auto
  ultimately show ?thesis by (simp add: selling_def)
qed

definition buying :: "decimal \<Rightarrow> plan_instrument list \<Rightarrow> plan_row list \<Rightarrow> planning \<Rightarrow> bool" where
  "buying nav insts sold st \<longleftrightarrow> permitted insts st \<and> one_sided nav insts st \<and>
     (\<exists>bought. pl_rows (ps_plan st) = sold @ bought \<and> PlanSell \<notin> pr_action ` set bought)"

lemma buy_step_buying:
  assumes i: "i \<in> set insts" and d: "distinct (map pi_id insts)"
    and inv: "buying nav insts sold st" and s: "buy_step costs fee_for nav st i = Inr st'"
  shows "buying nav insts sold st'"
  using s
proof (cases rule: buy_step_cases)
  case keep
  then show ?thesis using inv by simp
next
  case (skip r)
  then show ?thesis using inv
    by (auto simp: buying_def permitted_def one_sided_def covered_def rows_of_append)
next
  case (buy cur px l lots mc cw e fee)
  define r where "r = buy_row i cw lots l e (dmul e (of_int (lots * l))) fee"
  have st': "st' = record_buy st i cur r" using buy(15) by (simp add: r_def)
  have a: "pr_action r = PlanBuy" "pr_id r = pi_id i" "lot_row i r" using buy(4,5,7) by (simp_all add: r_def)
  have ns: "\<not> rows_of st PlanSell i"
  proof
    assume "rows_of st PlanSell i"
    then have "covered nav st i" using inv i by (simp add: buying_def one_sided_def)
    then have "target_lots nav (pi_target_weight i) px l \<le> floor_lots cur l"
      using buy(1-5) by (auto simp: covered_def)
    with buy(7,8) show False by linarith
  qed
  have other: "covered nav st' j \<longleftrightarrow> covered nav st j" if "j \<in> set insts" "j \<noteq> i" for j
    using distinct_ids [OF d that(1) i] that(2) unfolding st' covered_def by simp blast
  have "one_sided nav insts st'" unfolding one_sided_def
  proof (intro ballI impI)
    fix j assume j: "j \<in> set insts" and sold: "rows_of st' PlanSell j"
    then have s: "rows_of st PlanSell j" using a by (simp add: st' rows_of_append)
    with ns have ji: "j \<noteq> i" by blast
    have "pi_id j \<noteq> pi_id i" using distinct_ids [OF d j i] ji by blast
    then show "covered nav st' j \<and> \<not> rows_of st' PlanBuy j"
      using s other [OF j ji] inv j a by (auto simp: buying_def one_sided_def st' rows_of_append)
  qed
  moreover have "permitted insts st'" using inv i a buy(6) unfolding st' buying_def permitted_def by auto
  ultimately show ?thesis using inv a(1) unfolding buying_def st' by auto
qed

lemma start_units:
  assumes "distinct (map pi_id insts)" and "i \<in> set insts"
  shows "ps_units (start_planning insts funds reserve) (pi_id i) = Some (pi_current_units i)"
proof -
  have "foldl (\<lambda>m i. m(pi_id i \<mapsto> pi_current_units i)) m insts (pi_id i) = Some (pi_current_units i)" for m
    using assms
  proof (induction insts rule: rev_induct)
    case (snoc j js)
    then show ?case by (auto simp: rev_image_eqI)
  qed simp
  then show ?thesis by (simp add: start_planning_def)
qed

lemma build_cases:
  assumes "build_lot_order_plan insts funds nav costs reserve fee_for = Inr plan"
  obtains sold bought where "0 \<le> funds" "0 \<le> reserve"
    "foldM (sell_step costs fee_for nav) (start_planning insts funds reserve) (sort_key sell_key insts) = Inr sold"
    "foldM (buy_step costs fee_for nav) sold (sort_key buy_key insts) = Inr bought"
    "finish_plan funds reserve bought = Inr plan"
  using assms by (auto simp: build_lot_order_plan_def exn_simps split: if_splits)

lemma finish_cases:
  assumes "finish_plan funds reserve st = Inr plan"
  shows "pl_rows plan = pl_rows (ps_plan st) \<and> pl_projected_cash plan = ps_cash st \<and> 0 \<le> ps_cash st \<and>
    list_all row_aligned (executable plan) \<and> pl_starting_cash plan = pl_starting_cash (ps_plan st) \<and>
    pl_fees_total plan = pl_fees_total (ps_plan st)"
  using assms by (auto simp: finish_plan_def Let_def split: if_splits)

lemma selling_start:
  assumes "distinct (map pi_id insts)"
  shows "selling nav insts (start_planning insts funds reserve) (sort_key sell_key insts)"
proof -
  have r: "pl_rows (ps_plan (start_planning insts funds reserve)) = []" by (simp add: start_planning_def)
  have "distinct (map pi_id (sort_key sell_key insts))"
    using assms by (metis distinct_map distinct_sort set_sort)
  then show ?thesis using start_units [OF assms] r
    by (simp add: selling_def permitted_def untouched_def one_sided_def rows_of_def)
qed

lemma phases:
  assumes d: "distinct (map pi_id insts)" and sz: "\<And>i. i \<in> set insts \<Longrightarrow> sized_inst i" and nav: "0 \<le> nav"
    and s: "foldM (sell_step costs fee_for nav) (start_planning insts funds reserve) (sort_key sell_key insts) = Inr sold"
    and b: "foldM (buy_step costs fee_for nav) sold (sort_key buy_key insts) = Inr bought"
  shows "selling nav insts sold []" and "buying nav insts (pl_rows (ps_plan sold)) bought"
proof -
  show sold: "selling nav insts sold []"
  proof (rule foldM_rest [where P = "selling nav insts", OF s selling_start [OF d]])
    fix st i rest st'
    assume sub: "set (i # rest) \<subseteq> set (sort_key sell_key insts)" and inv: "selling nav insts st (i # rest)"
      and st: "sell_step costs fee_for nav st i = Inr st'"
    have "i \<in> set insts" using sub by simp
    then show "selling nav insts st' rest" using sell_step_selling [OF nav _ sz d inv st] by blast
  qed
  have start: "buying nav insts (pl_rows (ps_plan sold)) sold" using sold by (simp add: selling_def buying_def)
  show "buying nav insts (pl_rows (ps_plan sold)) bought"
  proof (rule foldM_invariant [where P = "buying nav insts (pl_rows (ps_plan sold))", OF b start])
    fix st i st'
    assume "i \<in> set (sort_key buy_key insts)" "buying nav insts (pl_rows (ps_plan sold)) st"
      "buy_step costs fee_for nav st i = Inr st'"
    then show "buying nav insts (pl_rows (ps_plan sold)) st'" using buy_step_buying [OF _ d] by simp
  qed
qed

section \<open>Accounting\<close>

text \<open>What a row does to the cash.\<close>

definition row_cash :: "decimal \<Rightarrow> plan_row \<Rightarrow> decimal" where
  "row_cash c r = (case pr_action r of
     PlanSkip \<Rightarrow> c
   | PlanSell \<Rightarrow> dadd c (dsub (pr_notional r) (pr_fee r))
   | PlanBuy \<Rightarrow> dsub c (dadd (pr_notional r) (pr_fee r)))"

definition row_fee :: "decimal \<Rightarrow> plan_row \<Rightarrow> decimal" where
  "row_fee t r = (if pr_action r = PlanSkip then t else dadd t (pr_fee r))"

definition booked :: "decimal \<Rightarrow> planning \<Rightarrow> bool" where
  "booked funds st \<longleftrightarrow> ps_cash st = foldl row_cash funds (pl_rows (ps_plan st)) \<and>
     pl_fees_total (ps_plan st) = foldl row_fee 0 (pl_rows (ps_plan st)) \<and> pl_starting_cash (ps_plan st) = funds"

lemma plan_totals [simp]:
  "pl_fees_total (ps_plan (add_row st r)) = pl_fees_total (ps_plan st)"
  "pl_starting_cash (ps_plan (add_row st r)) = pl_starting_cash (ps_plan st)"
  "pl_fees_total (ps_plan (record_sell st i cur r)) = dadd (pl_fees_total (ps_plan st)) (pr_fee r)"
  "pl_starting_cash (ps_plan (record_sell st i cur r)) = pl_starting_cash (ps_plan st)"
  "pl_fees_total (ps_plan (record_buy st i cur r)) = dadd (pl_fees_total (ps_plan st)) (pr_fee r)"
  "pl_starting_cash (ps_plan (record_buy st i cur r)) = pl_starting_cash (ps_plan st)"
  by (simp_all add: add_row_def record_sell_def record_buy_def Let_def)

lemma sell_step_booked: "booked funds st \<Longrightarrow> sell_step costs fee_for nav st i = Inr st' \<Longrightarrow> booked funds st'"
  by (erule sell_step_cases) (auto simp: booked_def row_cash_def row_fee_def simp del: of_int_mult)

lemma buy_step_booked: "booked funds st \<Longrightarrow> buy_step costs fee_for nav st i = Inr st' \<Longrightarrow> booked funds st'"
  by (erule buy_step_cases) (auto simp: booked_def row_cash_def row_fee_def simp del: of_int_mult)

lemma booked_plan:
  assumes s: "foldM (sell_step costs fee_for nav) (start_planning insts funds reserve) (sort_key sell_key insts) = Inr sold"
    and b: "foldM (buy_step costs fee_for nav) sold (sort_key buy_key insts) = Inr bought"
  shows "booked funds bought"
proof -
  have "booked funds (start_planning insts funds reserve)" by (simp add: booked_def start_planning_def)
  then have "booked funds sold" by (rule foldM_invariant [OF s]) (rule sell_step_booked)
  then show ?thesis by (rule foldM_invariant [OF b]) (rule buy_step_booked)
qed

section \<open>Solvency\<close>

lemma fee_lots_ok:
  "fee_lots fee funds lotn k = Inr j \<Longrightarrow> 0 \<le> j \<and> (j = 0 \<or>
     (\<exists>x. fee (dmul lotn (of_int j)) = Inr (Some x) \<and> dadd (dmul lotn (of_int j)) x \<le> funds))"
proof (induction k)
  case (Suc k)
  then obtain f where f: "fee (dmul lotn (of_nat (Suc k))) = Inr f" by (auto simp: Let_def exn_simps simp del: of_nat_Suc)
  show ?case
  proof (cases "\<exists>x. f = Some x \<and> dadd (dmul lotn (of_nat (Suc k))) x \<le> funds")
    case True
    with Suc.prems f have "j = int (Suc k)" by (auto simp: Let_def simp del: of_nat_Suc)
    with True f show ?thesis by (simp del: of_nat_Suc)
  next
    case False
    with Suc.prems f have "j = 0 \<or> fee_lots fee funds lotn k = Inr j"
      by (cases f) (auto simp: Let_def simp del: of_nat_Suc)
    with Suc.IH show ?thesis by auto
  qed
qed simp

lemma fee_lots_Inl: "fee_lots fee funds lotn k = Inl e \<Longrightarrow> \<exists>n. fee n = Inl e"
  by (induction k) (auto simp: Let_def bnd_eq_Inl simp del: of_nat_Suc split: option.splits if_splits)

lemma affordable_with_fee_ok:
  assumes c: "costs_ok costs \<or> fee_for \<noteq> None" and l: "0 < lotn"
    and a: "affordable_lots_with_fee funds lotn costs fee_for side i = Inr j"
  shows "0 \<le> j \<and> (j = 0 \<or> (\<exists>x. resolve_fee costs fee_for side (dmul lotn (of_int j)) i = Inr (Some x) \<and>
    dadd (dmul lotn (of_int j)) x \<le> funds))"
proof (cases fee_for)
  case (Some f)
  then show ?thesis using a fee_lots_ok [of "\<lambda>n. f side n i" funds lotn _ j]
    by (auto simp: affordable_lots_with_fee_def resolve_fee_def split: if_splits)
next
  case None
  then have "j = affordable_lots funds lotn costs \<or> j = 0" using a by (auto simp: affordable_lots_with_fee_def split: if_splits)
  then show ?thesis using None c affordable_lots_ok [of costs lotn funds] l affordable_lots_nonneg [of funds lotn costs]
    by (auto simp: resolve_fee_def lots_cost_def mult.commute dmul_def)
qed
text \<open>
  What the planner needs of a fee: that a smaller purchase does not cost a larger fee. An optional
  callback beside a flat cost profile is resolved first.
\<close>

locale plan_fee =
  fixes costs :: cost_profile and fee_for :: "fee_fn option"
  assumes fee_mono: "\<lbrakk>0 \<le> m; m \<le> n; resolve_fee costs fee_for ''BUY'' n i = Inr (Some y)\<rbrakk>
      \<Longrightarrow> \<exists>x. resolve_fee costs fee_for ''BUY'' m i = Inr (Some x) \<and> x \<le> y"
    and flat_costs: "fee_for = None \<Longrightarrow> costs_ok costs"

definition solvent :: "planning \<Rightarrow> bool" where
  "solvent st \<longleftrightarrow> 0 \<le> ps_allocable st \<and> ps_allocable st \<le> ps_cash st"

text \<open>The price of one lot is a 28-digit number, so a multiple of it is rounded once.\<close>

definition exact_lot :: "cost_profile \<Rightarrow> plan_instrument \<Rightarrow> bool" where
  "exact_lot costs i \<longleftrightarrow> (\<forall>px l e. pi_price i = Some px \<longrightarrow> pi_lot_size i = Some l \<longrightarrow>
     execution_price costs px ''BUY'' = Inr e \<longrightarrow> dround (e * of_int l) = e * of_int l)"

lemma solvent_sell: "solvent st \<Longrightarrow> sell_step costs fee_for nav st i = Inr st' \<Longrightarrow> solvent st'"
proof (erule sell_step_cases)
  fix cur px l lots cw e fee
  assume s: "solvent st" and p: "0 \<le> dsub (dmul e (of_int (lots * l))) fee"
    and st': "st' = record_sell st i cur (sell_row i cw lots l e (dmul e (of_int (lots * l))) fee)"
  define q where "q = dsub (dmul e (of_int (lots * l))) fee"
  have "0 \<le> dadd (ps_allocable st) q" unfolding dadd_def using s p by (intro dround_nonneg) (simp add: solvent_def q_def)
  moreover have "dadd (ps_allocable st) q \<le> dadd (ps_cash st) q"
    unfolding dadd_def using s by (intro dround_mono) (simp add: solvent_def)
  ultimately show "solvent st'" by (simp add: solvent_def st' q_def [symmetric] del: of_int_mult)
qed (auto simp: solvent_def)

lemma solvent_start:
  assumes "0 \<le> funds" "0 \<le> reserve" "dround funds = funds"
  shows "solvent (start_planning insts funds reserve)"
proof -
  have "0 \<le> dsub funds (min reserve funds)" unfolding dsub_def by (intro dround_nonneg) simp
  moreover have "dsub funds (min reserve funds) \<le> dround funds"
    unfolding dsub_def using assms by (intro dround_mono) simp
  ultimately show ?thesis using assms by (simp add: solvent_def start_planning_def)
qed

context plan_fee begin

lemma used_within:
  assumes x: "exact_lot costs i" and px: "pi_price i = Some px" and l: "pi_lot_size i = Some l" "0 < l"
    and e: "execution_price costs px ''BUY'' = Inr e" and pos: "0 < dmul e (of_int l)"
    and a: "affordable_lots_with_fee b (dmul e (of_int l)) costs fee_for ''BUY'' i = Inr mc"
    and lots: "0 < lots" "lots \<le> mc"
    and f: "resolve_fee costs fee_for ''BUY'' (dmul e (of_int (lots * l))) i = Inr (Some fee)"
  shows "dadd (dmul e (of_int (lots * l))) fee \<le> b"
proof -
  define p where "p = e * of_int l"
  have p: "dmul e (of_int l) = p" using x px l e by (simp add: exact_lot_def dmul_def p_def)
  have p0: "0 < p" using pos p by simp
  have ok: "costs_ok costs \<or> fee_for \<noteq> None" using flat_costs by blast
  obtain y where y: "resolve_fee costs fee_for ''BUY'' (dmul p (of_int mc)) i = Inr (Some y)" "dadd (dmul p (of_int mc)) y \<le> b"
    using affordable_with_fee_ok [OF ok p0 a [unfolded p]] lots by auto
  have n1: "dmul e (of_int (lots * l)) = dmul p (of_int lots)" by (simp add: p_def dmul_def ac_simps)
  have "p * of_int lots \<le> p * of_int mc" using lots p0 by (intro mult_left_mono) auto
  then have le: "dmul p (of_int lots) \<le> dmul p (of_int mc)" unfolding dmul_def by (rule dround_mono)
  have "0 \<le> dmul p (of_int lots)" unfolding dmul_def using p0 lots by (intro dround_nonneg) simp
  from fee_mono [OF this le y(1)] f have "fee \<le> y" unfolding n1 by auto
  with le have "dadd (dmul p (of_int lots)) fee \<le> dadd (dmul p (of_int mc)) y"
    unfolding dadd_def by (intro dround_mono) linarith
  with y(2) show ?thesis unfolding n1 by simp
qed

lemma solvent_buy:
  assumes x: "exact_lot costs i" and s: "solvent st" and st: "buy_step costs fee_for nav st i = Inr st'"
  shows "solvent st'"
  using st
proof (cases rule: buy_step_cases)
  case (buy cur px l lots mc cw e fee)
  define n where "n = dadd (dmul e (of_int (lots * l))) fee"
  have n: "n \<le> ps_allocable st"
    unfolding n_def by (rule used_within [OF x buy(2,4,5,9,10,11,7,12,13)])
  have "0 \<le> dsub (ps_allocable st) n" unfolding dsub_def using n by (intro dround_nonneg) simp
  moreover have "dsub (ps_allocable st) n \<le> dsub (ps_cash st) n"
    unfolding dsub_def using s by (intro dround_mono) (simp add: solvent_def)
  ultimately show ?thesis by (simp add: solvent_def buy(15) n_def [symmetric] del: of_int_mult)
qed (use s in \<open>auto simp: solvent_def\<close>)

end

section \<open>Exceptions\<close>

lemma foldM_Inl:
  assumes "foldM f s xs = Inl e" and "P s" and "\<And>s x s'. x \<in> set xs \<Longrightarrow> P s \<Longrightarrow> f s x = Inr s' \<Longrightarrow> P s'"
  shows "\<exists>s x. x \<in> set xs \<and> P s \<and> f s x = Inl e"
  using assms
proof (induction xs arbitrary: s)
  case (Cons x xs)
  show ?case
  proof (cases "f s x")
    case (Inl e')
    with Cons.prems show ?thesis by auto
  next
    case (Inr s')
    with Cons.prems have "foldM f s' xs = Inl e" "P s'" by auto
    with Cons.IH [of s'] Cons.prems(3) show ?thesis by (metis list.set_intros(2))
  qed
qed simp

lemma execution_price_total: "side = ''BUY'' \<or> side = ''SELL'' \<Longrightarrow> \<exists>e. execution_price costs px side = Inr e"
proof -
  have "upper ''BUY'' = ''BUY''" "upper ''SELL'' = ''SELL''" by code_simp+
  then show "side = ''BUY'' \<or> side = ''SELL'' \<Longrightarrow> ?thesis" by (auto simp: execution_price_def Let_def)
qed

lemma sell_step_Inl:
  assumes "sell_step costs fee_for nav st i = Inl e"
  shows "ps_units st (pi_id i) = None \<or> (\<exists>n. resolve_fee costs fee_for ''SELL'' n i = Inl e)"
proof -
  have "\<exists>n. resolve_fee costs fee_for ''SELL'' n i = Inl e" if "sell_lots costs fee_for st i cur cw px l lots = Inl e" for cur cw px l lots
    using that execution_price_total [of "''SELL''" costs px]
    by (auto simp: sell_lots_def bnd_eq_Inl Let_def simp del: of_int_mult split: option.splits if_splits)
  with assms show ?thesis
    by (fastforce simp: sell_step_def units_of_def Let_def split: option.splits if_splits sell_choice.splits)
qed

lemma buy_step_Inl:
  assumes "buy_step costs fee_for nav st i = Inl e"
  shows "ps_units st (pi_id i) = None \<or> (\<exists>n. resolve_fee costs fee_for ''BUY'' n i = Inl e)"
proof -
  have l: "\<exists>n. resolve_fee costs fee_for ''BUY'' n i = Inl e" if "buy_lots costs fee_for st i cur cw x l lots = Inl e" for cur cw x l lots
    using that by (auto simp: buy_lots_def bnd_eq_Inl Let_def simp del: of_int_mult split: option.splits if_splits)
  have a: "\<exists>n. resolve_fee costs fee_for ''BUY'' n i = Inl e" if "affordable_lots_with_fee b x costs fee_for ''BUY'' i = Inl e" for b x
    using that fee_lots_Inl by (fastforce simp: affordable_lots_with_fee_def resolve_fee_def split: if_splits option.splits)
  have "\<exists>n. resolve_fee costs fee_for ''BUY'' n i = Inl e" if "buy_capped costs fee_for st i cur cw px l need = Inl e" for cur cw px l need
    using that execution_price_total [of "''BUY''" costs px] l a
    by (auto simp: buy_capped_def bnd_eq_Inl Let_def simp del: of_int_mult split: if_splits)
  with assms show ?thesis
    by (fastforce simp: buy_step_def units_of_def Let_def split: option.splits if_splits)
qed

section \<open>Fees that grow with the notional\<close>

lemma quantize_mono:
  assumes q: "quantize k x = Inr y" and z: "0 \<le> z" "z \<le> x"
  shows "\<exists>w. quantize k z = Inr w \<and> w \<le> y \<and> 0 \<le> w"
proof -
  have y: "y = of_int (rhu (x * 10 ^ k)) / 10 ^ k" and b: "\<bar>rhu (x * 10 ^ k)\<bar> < 10 ^ 28"
    using q by (auto simp: quantize_def Let_def split: if_splits)
  have "z * 10 ^ k \<le> x * 10 ^ k" using z by (intro mult_right_mono) auto
  then have m: "rhu (z * 10 ^ k) \<le> rhu (x * 10 ^ k)" by (rule rhu_mono)
  have "0 \<le> rhu (z * 10 ^ k)" using rhu_ge_of_int [of 0 "z * 10 ^ k"] z by simp
  with m b have "\<bar>rhu (z * 10 ^ k)\<bar> < 10 ^ 28" by linarith
  then have "quantize k z = Inr (of_int (rhu (z * 10 ^ k)) / 10 ^ k)" by (simp add: quantize_def)
  moreover have "of_int (rhu (z * 10 ^ k)) / 10 ^ k \<le> y" using m by (simp add: y divide_right_mono)
  ultimately show ?thesis using \<open>0 \<le> rhu (z * 10 ^ k)\<close> by simp
qed

lemma money_mono: "\<lbrakk>money x = Inr y; 0 \<le> z; z \<le> x\<rbrakk> \<Longrightarrow> \<exists>w. money z = Inr w \<and> w \<le> y \<and> 0 \<le> w"
  unfolding money_def by (rule quantize_mono)

lemma compute_fee_mono:
  assumes r: "rule_nonneg r" and a: "compute_fee_amount r b = Inr a" and m: "0 \<le> c" "c \<le> b"
  shows "\<exists>x. compute_fee_amount r c = Inr x \<and> x \<le> a"
proof -
  define pct where "pct = opt_or (fr_percentage_rate r) 0"
  obtain fixed where f: "(case fr_fixed_amount r of None \<Rightarrow> Inr 0 | Some f \<Rightarrow> money f) = Inr fixed"
    using a unfolding compute_fee_amount_def Let_def by (auto simp: bnd_eq_Inr)
  have p: "0 \<le> pct" using r by (simp add: rule_nonneg_def pct_def)
  have fx: "0 \<le> fixed" using f r by (auto simp: rule_nonneg_def split: option.splits intro: money_nonneg)
  have cb: "0 \<le> dmul c pct" "dmul c pct \<le> dmul b pct"
    using m p by (auto simp: dmul_def intro!: dround_nonneg dround_mono mult_right_mono)
  have cbf: "0 \<le> dadd (dmul c pct) fixed" "dadd (dmul c pct) fixed \<le> dadd (dmul b pct) fixed"
    using cb fx by (auto simp: dadd_def intro!: dround_nonneg dround_mono)
  have e: "compute_fee_amount r x = (let fee_type = opt_or (norm_str (Some (fr_fee_type r))) fee_type_percentage in
      if fee_type = fee_type_fixed then money fixed
      else if fee_type = fee_type_both then money (dadd (dmul x pct) fixed) else money (dmul x pct))" for x
    unfolding compute_fee_amount_def f pct_def by (simp add: Let_def)
  show ?thesis using a money_mono [OF _ cbf] money_mono [OF _ cb] unfolding e Let_def
    by (auto split: if_splits)
qed

lemma estimate_fee_mono:
  assumes rules: "\<And>r. r \<in> set rules \<Longrightarrow> rule_nonneg r" and m: "0 \<le> m" "m \<le> fc_notional ctx"
    and e: "estimate_fee rules ctx = Inr f" and y: "fe_amount f = Some y"
  shows "\<exists>g x. estimate_fee rules (ctx\<lparr>fc_notional := m\<rparr>) = Inr g \<and> fe_amount g = Some x \<and> x \<le> y"
proof -
  obtain b t where b: "fee_base_notional ctx = Inr b" and t: "money (fc_day_turnover ctx) = Inr t"
    using e by (auto simp: estimate_fee_def exn_simps)
  define u where "u = (if t < 0 then 0 else t)"
  obtain r where r: "match_rule rules ctx u = Some r" and c: "compute_fee_amount r b = Inr y"
    using e b t y by (auto simp: estimate_fee_def exn_simps u_def Let_def split: option.splits)
  obtain b0 where b0: "money (fc_notional ctx) = Inr b0" and bb: "b = (if b0 < 0 then 0 else b0)"
    using b by (auto simp: fee_base_notional_def exn_simps)
  obtain w where w: "money m = Inr w" "w \<le> b0" "0 \<le> w" using money_mono [OF b0 m] by blast
  have fb: "fee_base_notional (ctx\<lparr>fc_notional := m\<rparr>) = Inr w" using w by (simp add: fee_base_notional_def)
  have "rule_nonneg r" by (rule rules [OF match_rule_Some(1) [OF r]])
  moreover have "w \<le> b" using w bb by simp
  ultimately obtain x where x: "compute_fee_amount r w = Inr x" "x \<le> y"
    using compute_fee_mono c w(3) by blast
  have "match_rule rules (ctx\<lparr>fc_notional := m\<rparr>) (if t < 0 then 0 else t) = Some r" using r by (simp add: u_def)
  then show ?thesis using fb t x by (simp add: estimate_fee_def Let_def)
qed

text \<open>The callback the shadow service hands to the planner.\<close>

definition shadow_fee_for :: "estimator \<Rightarrow> date \<Rightarrow> string \<Rightarrow> int \<Rightarrow> fee_fn" where
  "shadow_fee_for est min_exec code version side notional inst =
     bnd (estimate_shadow_fee est side notional (pi_id inst) min_exec (Some code) (Some version) (Some (pi_ticker inst)))
       (\<lambda>q. Inr (sq_amount q))"

lemma engine_context_notional: "engine_context ee side n i d s = (engine_context ee side m i d s)\<lparr>fc_notional := n\<rparr>"
  by (simp add: engine_context_def)

sublocale nonneg_engine \<subseteq> plan_fee costs "Some (shadow_fee_for (FeeEngineEstimator ee) d code ver)" for costs d code ver
proof
  fix m n i y
  assume m: "0 \<le> m" "m \<le> n" and f: "resolve_fee costs (Some (shadow_fee_for (FeeEngineEstimator ee) d code ver)) ''BUY'' n i = Inr (Some y)"
  define ctx where "ctx = engine_context ee ''BUY'' n (pi_id i) d (Some (pi_ticker i))"
  have m': "m \<le> fc_notional ctx" using m by (simp add: ctx_def engine_context_def)
  from f obtain est where "estimate_fee (ee_rules ee) ctx = Inr est" "fe_amount est = Some y"
    by (auto simp: resolve_fee_def shadow_fee_for_def estimate_shadow_fee_def engine_estimate_def exn_simps Let_def ctx_def)
  from estimate_fee_mono [OF rules_nonneg m(1) m' this] obtain g x where
    g: "estimate_fee (ee_rules ee) (engine_context ee ''BUY'' m (pi_id i) d (Some (pi_ticker i))) = Inr g" "fe_amount g = Some x" "x \<le> y"
    unfolding ctx_def engine_context_notional [of ee "''BUY''" m "pi_id i" d "Some (pi_ticker i)" n] by blast
  then show "\<exists>x. resolve_fee costs (Some (shadow_fee_for (FeeEngineEstimator ee) d code ver)) ''BUY'' m i = Inr (Some x) \<and> x \<le> y"
    by (simp add: resolve_fee_def shadow_fee_for_def estimate_shadow_fee_def engine_estimate_def Let_def)
qed simp

locale flat_fee =
  fixes costs :: cost_profile
  assumes ok: "costs_ok costs"

sublocale flat_fee \<subseteq> plan_fee costs None
  by unfold_locales (use ok cost_fee_mono in \<open>auto simp: resolve_fee_def\<close>)

interpretation ten: flat_fee ten_bps
  by unfold_locales (simp add: ten_bps_def costs_ok_def)

section \<open>Totality\<close>

definition known :: "plan_instrument list \<Rightarrow> planning \<Rightarrow> bool" where
  "known insts st \<longleftrightarrow> (\<forall>i \<in> set insts. ps_units st (pi_id i) \<noteq> None)"

lemma known_start: "known insts (start_planning insts funds reserve)"
proof -
  have "foldl (\<lambda>m i. m(pi_id i \<mapsto> pi_current_units i)) m js (pi_id i) \<noteq> None" if "i \<in> set js" for i js m
    using that
  proof (induction js arbitrary: m rule: rev_induct)
    case (snoc j js)
    then show ?case by auto
  qed simp
  then show ?thesis by (simp only: known_def start_planning_def planning.simps) blast
qed

lemma known_sell: "known insts st \<Longrightarrow> sell_step costs fee_for nav st i = Inr st' \<Longrightarrow> known insts st'"
  by (erule sell_step_cases) (auto simp: known_def)

lemma known_buy: "known insts st \<Longrightarrow> buy_step costs fee_for nav st i = Inr st' \<Longrightarrow> known insts st'"
  by (erule buy_step_cases) (auto simp: known_def)

lemma lot_row_aligned: "lot_row i r \<Longrightarrow> row_aligned r"
proof -
  have "dtrunc (of_int n) = n" for n by (simp add: dtrunc_def)
  then show "lot_row i r \<Longrightarrow> row_aligned r" by (auto simp: lot_row_def row_aligned_def simp del: of_int_mult)
qed

definition aligned :: "planning \<Rightarrow> bool" where
  "aligned st \<longleftrightarrow> (\<forall>r \<in> set (pl_rows (ps_plan st)). pr_action r \<noteq> PlanSkip \<longrightarrow> row_aligned r)"

lemma aligned_sell: "aligned st \<Longrightarrow> sell_step costs fee_for nav st i = Inr st' \<Longrightarrow> aligned st'"
proof (erule sell_step_cases)
  fix cur px l lots cw e fee
  assume "aligned st" "pi_lot_size i = Some l" "0 < l" "choose_sell i nav cur px l = SellLots lots"
    and st': "st' = record_sell st i cur (sell_row i cw lots l e (dmul e (of_int (lots * l))) fee)"
  moreover have "lot_row i (sell_row i cw lots l e (dmul e (of_int (lots * l))) fee)"
    using calculation choose_sell_ok by (simp del: of_int_mult)
  ultimately show "aligned st'" using lot_row_aligned by (auto simp: aligned_def simp del: of_int_mult row_simps)
qed (auto simp: aligned_def)

lemma aligned_buy: "aligned st \<Longrightarrow> buy_step costs fee_for nav st i = Inr st' \<Longrightarrow> aligned st'"
proof (erule buy_step_cases)
  fix cur px l lots mc cw e fee
  assume "aligned st" "pi_lot_size i = Some l" "0 < l" "0 < lots"
    and st': "st' = record_buy st i cur (buy_row i cw lots l e (dmul e (of_int (lots * l))) fee)"
  moreover have "lot_row i (buy_row i cw lots l e (dmul e (of_int (lots * l))) fee)"
    using calculation by (simp del: of_int_mult)
  ultimately show "aligned st'" using lot_row_aligned by (auto simp: aligned_def simp del: of_int_mult row_simps)
qed (auto simp: aligned_def)

context plan_fee begin

text \<open>The planner's own assertions never fire: an exception is one of the fee callback.\<close>

lemma plan_returns:
  assumes f: "0 \<le> funds" "0 \<le> reserve" "dround funds = funds" and x: "\<And>i. i \<in> set insts \<Longrightarrow> exact_lot costs i"
  shows "(\<exists>plan. build_lot_order_plan insts funds nav costs reserve fee_for = Inr plan \<and> 0 \<le> pl_projected_cash plan) \<or>
    (\<exists>side n i e. i \<in> set insts \<and> resolve_fee costs fee_for side n i = Inl e \<and>
       build_lot_order_plan insts funds nav costs reserve fee_for = Inl e)"
proof -
  define P where "P = (\<lambda>st. known insts st \<and> solvent st \<and> aligned st)"
  define s0 where "s0 = start_planning insts funds reserve"
  have P0: "P s0" using known_start solvent_start [OF f] by (simp add: P_def s0_def aligned_def start_planning_def)
  have Ps: "P st'" if "P st" "sell_step costs fee_for nav st i = Inr st'" for st st' i
    using that known_sell solvent_sell aligned_sell unfolding P_def by blast
  have Pb: "P st'" if "i \<in> set insts" "P st" "buy_step costs fee_for nav st i = Inr st'" for st st' i
    using that known_buy solvent_buy [OF x] aligned_buy unfolding P_def by blast
  have b: "build_lot_order_plan insts funds nav costs reserve fee_for =
      bnd (foldM (sell_step costs fee_for nav) s0 (sort_key sell_key insts)) (\<lambda>sold.
      bnd (foldM (buy_step costs fee_for nav) sold (sort_key buy_key insts)) (finish_plan funds reserve))"
    using f by (simp add: build_lot_order_plan_def s0_def)
  show ?thesis
  proof (cases "foldM (sell_step costs fee_for nav) s0 (sort_key sell_key insts)")
    case (Inl e)
    have "\<exists>st i. i \<in> set (sort_key sell_key insts) \<and> P st \<and> sell_step costs fee_for nav st i = Inl e"
      by (rule foldM_Inl [where P = P, OF Inl P0]) (rule Ps)
    then obtain st i where i: "i \<in> set insts" "P st" "sell_step costs fee_for nav st i = Inl e" by auto
    with sell_step_Inl [OF i(3)] have "\<exists>n. resolve_fee costs fee_for ''SELL'' n i = Inl e" by (auto simp: P_def known_def)
    with i(1) b Inl show ?thesis by auto
  next
    case (Inr sold)
    have Psold: "P sold" by (rule foldM_invariant [where P = P, OF Inr P0]) (rule Ps)
    have Pb': "P st'" if "i \<in> set (sort_key buy_key insts)" "P st" "buy_step costs fee_for nav st i = Inr st'" for st st' i
      using Pb that by simp
    show ?thesis
    proof (cases "foldM (buy_step costs fee_for nav) sold (sort_key buy_key insts)")
      case (Inl e)
      have "\<exists>st i. i \<in> set (sort_key buy_key insts) \<and> P st \<and> buy_step costs fee_for nav st i = Inl e"
        by (rule foldM_Inl [where P = P, OF Inl Psold]) (rule Pb')
      then obtain st i where i: "i \<in> set insts" "P st" "buy_step costs fee_for nav st i = Inl e" by auto
      with buy_step_Inl [OF i(3)] have "\<exists>n. resolve_fee costs fee_for ''BUY'' n i = Inl e" by (auto simp: P_def known_def)
      with i(1) b Inr Inl show ?thesis by auto
    next
      case (Inr bought)
      have "P bought" by (rule foldM_invariant [where P = P, OF Inr Psold]) (rule Pb')
      then have "0 \<le> ps_cash bought" "aligned bought" by (auto simp: P_def solvent_def)
      then have "\<exists>plan. finish_plan funds reserve bought = Inr plan \<and> 0 \<le> pl_projected_cash plan"
        by (auto simp: finish_plan_def Let_def aligned_def executable_def list_all_iff)
      then show ?thesis using b Inr \<open>foldM (sell_step costs fee_for nav) s0 (sort_key sell_key insts) = Inr sold\<close> by auto
    qed
  qed
qed

end

section \<open>Properties\<close>

definition plan_sample :: "plan_instrument list" where
  "plan_sample =
     [\<lparr>pi_id = 1, pi_ticker = ''SBER'', pi_target_weight = 0, pi_current_units = 25, pi_price = Some 100, pi_lot_size = Some 10,
       pi_rank = Some 9, pi_priority = None, pi_sell_allowed = True, pi_max_sell_units = Some 15\<rparr>,
      \<lparr>pi_id = 2, pi_ticker = ''GAZP'', pi_target_weight = 1/2, pi_current_units = 0, pi_price = Some 50, pi_lot_size = Some 10,
       pi_rank = Some 1, pi_priority = None, pi_sell_allowed = False, pi_max_sell_units = None\<rparr>,
      \<lparr>pi_id = 3, pi_ticker = ''LKOH'', pi_target_weight = 0, pi_current_units = 4, pi_price = Some 7000, pi_lot_size = Some 1,
       pi_rank = Some 2, pi_priority = None, pi_sell_allowed = False, pi_max_sell_units = None\<rparr>]"

lemma flat_plan_fee: "costs_ok costs \<Longrightarrow> plan_fee costs None"
  by (unfold_locales) (auto simp: resolve_fee_def intro: cost_fee_mono)

lemma plan_sample_exact: "i \<in> set plan_sample \<Longrightarrow> exact_lot ten_bps i"
proof -
  have u: "upper ''BUY'' = ''BUY''" by code_simp
  have "dround (dmul 100 (dadd 1 (ddiv 5 10000)) * 10) = dmul 100 (dadd 1 (ddiv 5 10000)) * 10"
    "dround (dmul 50 (dadd 1 (ddiv 5 10000)) * 10) = dmul 50 (dadd 1 (ddiv 5 10000)) * 10"
    "dround (dmul 7000 (dadd 1 (ddiv 5 10000)) * 1) = dmul 7000 (dadd 1 (ddiv 5 10000)) * 1"
    by code_simp+
  then show "i \<in> set plan_sample \<Longrightarrow> exact_lot ten_bps i"
    by (auto simp: exact_lot_def plan_sample_def execution_price_def ten_bps_def u)
qed

lemma plan_sample_sized: "i \<in> set plan_sample \<Longrightarrow> sized_inst i"
  using sized_of_int [of 25] sized_of_int [of 15] sized_of_int [of 0] sized_of_int [of 4]
  by (auto simp: plan_sample_def sized_inst_def)

definition sample_plan :: "order_plan res" where
  "sample_plan = build_lot_order_plan plan_sample 1000 3500 ten_bps 200 None"

lemma sample_plan_rows:
  "map_sum id (\<lambda>p. map (\<lambda>r. (pr_id r, pr_action r, pr_lots_delta r)) (pl_rows p)) sample_plan =
     Inr [(3, PlanSkip, 0), (1, PlanSell, 1), (2, PlanBuy, 3)]"
  by code_simp

lemma sample_plan_returned:
  obtains plan where "sample_plan = Inr plan"
    "map (\<lambda>r. (pr_id r, pr_action r, pr_lots_delta r)) (pl_rows plan) = [(3, PlanSkip, 0), (1, PlanSell, 1), (2, PlanBuy, 3)]"
proof (cases sample_plan)
  case (Inl e)
  show thesis using sample_plan_rows unfolding Inl by simp
next
  case (Inr plan)
  have "map (\<lambda>r. (pr_id r, pr_action r, pr_lots_delta r)) (pl_rows plan) = [(3, PlanSkip, 0), (1, PlanSell, 1), (2, PlanBuy, 3)]"
    using sample_plan_rows unfolding Inr by simp
  then show thesis by (rule that [OF Inr])
qed
text \<open>C8: an order plan respects the authorisations it was given. With one entry per instrument, every
  SELL row belongs to an instrument whose sale is allowed, is a positive whole number of its lots and
  exceeds neither the holding nor the cap; every BUY row is a positive whole number of lots of an
  instrument with a positive target; no instrument is both sold and bought; and all sales stand
  before all purchases.\<close>

theorem lot_plan_respects_permissions:
  assumes "build_lot_order_plan insts funds nav costs reserve fee_for = Inr plan"
    and "distinct (map pi_id insts)" and "\<And>i. i \<in> set insts \<Longrightarrow> sized_inst i" and "0 \<le> nav"
  shows "(\<forall>r \<in> set (pl_rows plan).
      (pr_action r = PlanSell \<longrightarrow> (\<exists>i \<in> set insts. pi_id i = pr_id r \<and> sell_permitted i r)) \<and>
      (pr_action r = PlanBuy \<longrightarrow> (\<exists>i \<in> set insts. pi_id i = pr_id r \<and> lot_row i r \<and> 0 < pi_target_weight i))) \<and>
    (\<forall>r \<in> set (pl_rows plan). \<forall>r' \<in> set (pl_rows plan).
      pr_action r = PlanSell \<and> pr_action r' = PlanBuy \<longrightarrow> pr_id r \<noteq> pr_id r') \<and>
    (\<exists>sold bought. pl_rows plan = sold @ bought \<and> PlanBuy \<notin> pr_action ` set sold \<and> PlanSell \<notin> pr_action ` set bought)"
  using assms(1)
proof (rule build_cases)
  fix sold bought
  assume s: "foldM (sell_step costs fee_for nav) (start_planning insts funds reserve) (sort_key sell_key insts) = Inr sold"
    and b: "foldM (buy_step costs fee_for nav) sold (sort_key buy_key insts) = Inr bought"
    and f: "finish_plan funds reserve bought = Inr plan"
  note ph = phases [OF assms(2-4) s b]
  have rows: "pl_rows plan = pl_rows (ps_plan bought)" using finish_cases [OF f] by simp
  have p: "permitted insts bought" and o: "one_sided nav insts bought" using ph(2) by (auto simp: buying_def)
  have apart: "pr_id r \<noteq> pr_id r'" if "r \<in> set (pl_rows plan)" "r' \<in> set (pl_rows plan)" "pr_action r = PlanSell" "pr_action r' = PlanBuy" for r r'
  proof
    note h = that
    assume e: "pr_id r = pr_id r'"
    obtain i where i: "i \<in> set insts" "pi_id i = pr_id r" using p h(1,3) by (auto simp: permitted_def rows)
    then have "rows_of bought PlanSell i" "rows_of bought PlanBuy i" using h e by (auto simp: rows_of_def rows)
    with o i(1) show False by (simp add: one_sided_def)
  qed
  have "PlanBuy \<notin> pr_action ` set (pl_rows (ps_plan sold))" using ph(1) by (auto simp: selling_def)
  moreover obtain bs where "pl_rows plan = pl_rows (ps_plan sold) @ bs" "PlanSell \<notin> pr_action ` set bs"
    using ph(2) by (auto simp: buying_def rows)
  ultimately show ?thesis using p apart unfolding permitted_def rows by blast
qed

theorem lot_plan_respects_permissions_witness:
  "\<exists>plan r i. sample_plan = Inr plan \<and> r \<in> set (pl_rows plan) \<and> pr_action r = PlanSell \<and>
     i \<in> set plan_sample \<and> pi_id i = pr_id r \<and> sell_permitted i r"
proof -
  obtain plan where p: "sample_plan = Inr plan"
    and m: "map (\<lambda>r. (pr_id r, pr_action r, pr_lots_delta r)) (pl_rows plan) = [(3, PlanSkip, 0), (1, PlanSell, 1), (2, PlanBuy, 3)]"
    by (rule sample_plan_returned)
  obtain x r y where rs: "pl_rows plan = [x, r, y]" and "pr_action r = PlanSell" using m by (auto simp: map_eq_Cons_conv)
  then have r: "r \<in> set (pl_rows plan)" "pr_action r = PlanSell" by simp_all
  have d: "distinct (map pi_id plan_sample)" by (simp add: plan_sample_def)
  from lot_plan_respects_permissions [OF p [unfolded sample_plan_def] d plan_sample_sized]
  obtain i where "i \<in> set plan_sample" "pi_id i = pr_id r" "sell_permitted i r" using r by auto
  with p r show ?thesis by blast
qed

text \<open>C10: a plan accounts for the cash: the projected cash is the starting cash with every sale's proceeds
  added and every purchase's price and fee taken off, row by row in the order of the plan, the total of
  fees is the sum of the fees of the executed rows, and the projected cash is never negative.\<close>

theorem lot_plan_accounts_for_cash:
  assumes "build_lot_order_plan insts funds nav costs reserve fee_for = Inr plan"
  shows "pl_starting_cash plan = funds \<and> pl_projected_cash plan = foldl row_cash funds (pl_rows plan) \<and>
    pl_fees_total plan = foldl row_fee 0 (pl_rows plan) \<and> 0 \<le> pl_projected_cash plan"
  using assms
proof (rule build_cases)
  fix sold bought
  assume "foldM (sell_step costs fee_for nav) (start_planning insts funds reserve) (sort_key sell_key insts) = Inr sold"
    and "foldM (buy_step costs fee_for nav) sold (sort_key buy_key insts) = Inr bought"
    and f: "finish_plan funds reserve bought = Inr plan"
  then have "booked funds bought" by (intro booked_plan)
  with finish_cases [OF f] show ?thesis by (simp add: booked_def)
qed

theorem lot_plan_accounts_for_cash_witness:
  "\<exists>plan. sample_plan = Inr plan \<and> pl_projected_cash plan = foldl row_cash 1000 (pl_rows plan) \<and> 0 \<le> pl_projected_cash plan"
proof -
  obtain plan where p: "sample_plan = Inr plan" by (rule sample_plan_returned)
  from lot_plan_accounts_for_cash [OF p [unfolded sample_plan_def]] p show ?thesis by blast
qed

text \<open>C9: planning with a flat non-negative cost profile always returns: neither the check for negative
  cash nor the check for whole lots can fail, whatever the instruments, as long as the price of a lot
  has at most 28 digits.\<close>

theorem lot_plan_total:
  assumes "costs_ok costs" and "0 \<le> funds" and "0 \<le> reserve" and "dround funds = funds"
    and "\<And>i. i \<in> set insts \<Longrightarrow> exact_lot costs i"
  shows "\<exists>plan. build_lot_order_plan insts funds nav costs reserve None = Inr plan \<and> 0 \<le> pl_projected_cash plan"
  using plan_fee.plan_returns [OF flat_plan_fee [OF assms(1)] assms(2-5), of insts nav]
  by (auto simp: resolve_fee_def)

theorem lot_plan_total_witness: "\<exists>plan. sample_plan = Inr plan \<and> 0 \<le> pl_projected_cash plan"
proof -
  have "dround 1000 = 1000" by code_simp
  moreover have "costs_ok ten_bps" by (simp add: ten_bps_def costs_ok_def)
  ultimately show ?thesis using lot_plan_total [OF _ _ _ _ plan_sample_exact, of 1000 200] by (simp add: sample_plan_def)
qed

text \<open>planning with the fees of the built-in Sber tariff returns a plan with non-negative cash, or fails
  with the exception of a fee request; the planner's own assertions never fire.\<close>

theorem lot_plan_with_sber_fees:
  assumes "est = resolve_fee_engine_estimator (Some sber_code) None bps None legacy"
    and "0 \<le> funds" and "0 \<le> reserve" and "dround funds = funds"
    and "\<And>i. i \<in> set insts \<Longrightarrow> exact_lot costs i"
  shows "(\<exists>plan. build_lot_order_plan insts funds nav costs reserve (Some (shadow_fee_for est d code ver)) = Inr plan \<and>
      0 \<le> pl_projected_cash plan) \<or>
    (\<exists>side n i e. i \<in> set insts \<and> shadow_fee_for est d code ver side n i = Inl e \<and>
      build_lot_order_plan insts funds nav costs reserve (Some (shadow_fee_for est d code ver)) = Inl e)"
  using sber.plan_returns [where d = d and code = code and ver = ver and nav = nav, OF assms(2-5)] unfolding assms(1) resolve_sber
  by (simp add: resolve_fee_def)

theorem lot_plan_with_sber_fees_witness:
  "\<exists>r. build_lot_order_plan [] 1000 3500 ten_bps 200
     (Some (shadow_fee_for (resolve_fee_engine_estimator (Some sber_code) None 0 None False) (date_of 2026 10 1) sber_code 1)) = Inr r \<and>
     0 \<le> pl_projected_cash r"
proof -
  have "dround 1000 = 1000" by code_simp
  then show ?thesis using lot_plan_with_sber_fees [OF refl, of 1000 200 "[]" ten_bps 3500 0 False "date_of 2026 10 1" sber_code 1] by simp
qed

end
