(* ===== verification/Sellgate.thy ===== *)
theory Sellgate
  imports Feeadapter
begin

text \<open>
  The sell gate of the shadow portfolio, \<open>backend/app/modules/shadow/domain/sell_gate.py\<close>: which of
  the held names may be sold, which is rotated into which replacement, and the target weights that
  result. A rank that left the band only triggers a review: a rotation needs an expected return edge
  above both broker fees, the slippage of both sides and a margin. The gate's local variables are
  the record \<open>gate\<close>; its two loops over the held names are \<open>policy_step\<close> and \<open>review_step\<close>. The
  fee estimator is an argument, as in the code; \<open>today\<close> stands for \<open>date.today()\<close>, and \<open>set_iter\<close>
  for the order in which Python walks over a set of instrument ids (it orders the terms of one float
  sum). Dates in traces are kept as dates.
\<close>

section \<open>Codes and data\<close>

definition HOLD :: string where "HOLD = ''HOLD''"
definition REVIEW_HOLD :: string where "REVIEW_HOLD = ''REVIEW_HOLD''"
definition ROTATE :: string where "ROTATE = ''ROTATE''"
definition EXIT_TO_CASH :: string where "EXIT_TO_CASH = ''EXIT_TO_CASH''"
definition RISK_REDUCE :: string where "RISK_REDUCE = ''RISK_REDUCE''"
definition RISK_EXIT :: string where "RISK_EXIT = ''RISK_EXIT''"
definition DATA_HOLD :: string where "DATA_HOLD = ''DATA_HOLD''"
definition EXPECTED_RETURN :: string where "EXPECTED_RETURN = ''EXPECTED_RETURN''"

lemmas gate_codes = HOLD_def REVIEW_HOLD_def ROTATE_def EXIT_TO_CASH_def RISK_REDUCE_def RISK_EXIT_def DATA_HOLD_def

definition no_sell_actions :: "string list" where "no_sell_actions = [HOLD, REVIEW_HOLD, DATA_HOLD]"
definition full_sell_actions :: "string list" where "full_sell_actions = [ROTATE, RISK_EXIT, EXIT_TO_CASH]"

record held_name =
  hn_id :: int
  hn_ticker :: string
  hn_quantity :: pyfloat
  hn_current_weight :: pyfloat
  hn_rank :: "int option"
  hn_semantic :: string
  hn_expected_return :: "pyfloat option"
  hn_signal_as_of :: "date option"
  hn_price :: "pyfloat option"
  hn_avg_entry :: "pyfloat option"
  hn_unrealized_pnl :: "pyfloat option"
  hn_in_exit_band :: bool
  hn_signal_stale :: bool
  hn_review_trigger :: bool

record policy_target =
  pt_id :: int
  pt_ticker :: string
  pt_target_weight :: pyfloat
  pt_rank :: "int option"
  pt_semantic :: string
  pt_expected_return :: "pyfloat option"
  pt_action :: "string option"
  pt_price :: "pyfloat option"
  pt_signal_as_of :: "date option"
  pt_signal_stale :: bool

record replacement =
  rp_id :: int
  rp_ticker :: string
  rp_rank :: "int option"
  rp_semantic :: string
  rp_expected_return :: "pyfloat option"
  rp_price :: "pyfloat option"
  rp_signal_as_of :: "date option"
  rp_signal_stale :: bool

record gate_params =
  gp_slippage_bps :: pyfloat
  gp_min_edge_bps :: pyfloat
  gp_profile_code :: "string option"
  gp_k_entry :: "int option"
  gp_exposure_cap :: pyfloat
  gp_as_of :: "date option"

record final_target =
  ft_id :: int
  ft_ticker :: string
  ft_weight :: pyfloat
  ft_action :: string
  ft_rank :: "int option"
  ft_predicted :: "pyfloat option"
  ft_policy :: "string option"
  ft_gate_action :: string
  ft_rotate_from :: "int option"
  ft_rotate_to :: "int option"

record sell_permission =
  sp_id :: int
  sp_ticker :: string
  sp_allowed :: bool
  sp_action :: string
  sp_reason :: "string option"
  sp_max_units :: "decimal option"
  sp_max_fraction :: "pyfloat option"
  sp_rotate_to :: "int option"

text \<open>The economic facts a trace carries when a rotation was priced.\<close>

record edge_facts =
  ef_gross :: pyfloat
  ef_sell_fee :: pyfloat
  ef_buy_fee :: pyfloat
  ef_slippage :: pyfloat
  ef_net :: pyfloat
  ef_min_edge_bps :: pyfloat

record cand_trace =
  ct_id :: int
  ct_ticker :: string
  ct_action :: string
  ct_reasons :: "string list"
  ct_limits :: "string list"
  ct_signal_as_of :: "date option"
  ct_rank :: "int option"
  ct_eligible :: "int option"
  ct_semantic :: "string option"
  ct_value :: "pyfloat option"
  ct_held_before :: bool
  ct_quantity :: "pyfloat option"
  ct_weight :: "pyfloat option"
  ct_avg_entry :: "pyfloat option"
  ct_mark :: "pyfloat option"
  ct_pnl :: "pyfloat option"
  ct_in_exit_band :: "bool option"
  ct_review :: bool
  ct_target :: "pyfloat option"
  ct_replacement :: "(int \<times> string) option"
  ct_edge :: "edge_facts option"

section \<open>Helpers\<close>

definition truthy :: "string option \<Rightarrow> string option" where
  "truthy s = (case s of Some (c # cs) \<Rightarrow> Some (c # cs) | _ \<Rightarrow> None)"

text \<open>\<open>str(n)\<close>.\<close>

fun digits :: "nat \<Rightarrow> string" where
  "digits n = (if n < 10 then [char_of (48 + n)] else digits (n div 10) @ [char_of (48 + n mod 10)])"

declare digits.simps [simp del]

definition str_int :: "int \<Rightarrow> string" where
  "str_int n = (if n < 0 then CHR ''-'' # digits (nat (- n)) else digits (nat n))"

definition frac_bps :: "pyfloat \<Rightarrow> decimal" where
  "frac_bps bps = ddiv (dec_of_float bps) 10000"

record edge_costs =
  ec_sell :: decimal
  ec_buy :: decimal
  ec_slip :: decimal
  ec_margin :: decimal

definition edge_costs_of :: "decimal \<Rightarrow> decimal \<Rightarrow> decimal \<Rightarrow> decimal \<Rightarrow> pyfloat \<Rightarrow> pyfloat \<Rightarrow> edge_costs" where
  "edge_costs_of sell_fee buy_fee sell_notional buy_notional slippage min_edge =
     \<lparr>ec_sell = (if sell_notional > 0 then ddiv sell_fee sell_notional else 0),
      ec_buy = (if buy_notional > 0 then ddiv buy_fee buy_notional else 0),
      ec_slip = dmul (frac_bps slippage) 2, ec_margin = frac_bps min_edge\<rparr>"

definition entry_eligible :: "int list \<Rightarrow> int option \<Rightarrow> replacement \<Rightarrow> bool" where
  "entry_eligible exclude_ids k_entry c \<longleftrightarrow> rp_id c \<notin> set exclude_ids \<and> rp_expected_return c \<noteq> None \<and>
     rp_semantic c = EXPECTED_RETURN \<and> \<not> rp_signal_stale c \<and>
     (case k_entry of None \<Rightarrow> True | Some k \<Rightarrow> opt_sat (\<lambda>r. r \<le> k) (rp_rank c))"

definition best_replacement :: "replacement list \<Rightarrow> int list \<Rightarrow> int option \<Rightarrow> replacement option" where
  "best_replacement candidates exclude_ids k_entry =
     (let eligible = filter (entry_eligible exclude_ids k_entry) candidates in
      if eligible = [] then None
      else Some (hd (sort_key (\<lambda>c. (- opt_or (rp_expected_return c) 0, rp_id c)) eligible)))"

definition permission_for :: "held_name \<Rightarrow> string \<Rightarrow> string option \<Rightarrow> int option \<Rightarrow> pyfloat \<Rightarrow> sell_permission" where
  "permission_for h action reason rotate_to exposure_cap =
     (if action \<in> set no_sell_actions then
        \<lparr>sp_id = hn_id h, sp_ticker = hn_ticker h, sp_allowed = False, sp_action = action, sp_reason = reason,
         sp_max_units = None, sp_max_fraction = None, sp_rotate_to = None\<rparr>
      else if action = RISK_REDUCE then
        (let c = max 0 exposure_cap;
             max_frac = (if hn_current_weight h > 0 then max 0 (fsub 1 c) else 1)
         in \<lparr>sp_id = hn_id h, sp_ticker = hn_ticker h, sp_allowed = True, sp_action = action,
             sp_reason = Some (opt_or (truthy reason) RISK_REDUCE),
             sp_max_units = (if max_frac > 0 \<and> hn_quantity h > 0
                then Some (dmul (dec_of_float (hn_quantity h)) (dec_of_float max_frac)) else None),
             sp_max_fraction = Some (if max_frac > 0 then max_frac else 0), sp_rotate_to = None\<rparr>)
      else if action \<in> set full_sell_actions then
        (let sell_reason = (case (action = ROTATE, rotate_to, truthy reason) of
               (True, Some b, None) \<Rightarrow> Some (''ROTATE_TO_'' @ str_int b) | _ \<Rightarrow> reason)
         in \<lparr>sp_id = hn_id h, sp_ticker = hn_ticker h, sp_allowed = True, sp_action = action,
             sp_reason = Some (opt_or (truthy sell_reason) action), sp_max_units = None,
             sp_max_fraction = None, sp_rotate_to = rotate_to\<rparr>)
      else
        \<lparr>sp_id = hn_id h, sp_ticker = hn_ticker h, sp_allowed = False, sp_action = action, sp_reason = reason,
         sp_max_units = None, sp_max_fraction = None, sp_rotate_to = None\<rparr>)"

definition trace_held ::
  "held_name \<Rightarrow> string \<Rightarrow> string list \<Rightarrow> string list \<Rightarrow> int option \<Rightarrow> bool option \<Rightarrow> replacement option \<Rightarrow>
   pyfloat option \<Rightarrow> edge_facts option \<Rightarrow> cand_trace" where
  "trace_held h action reasons limits eligible_count review_trigger repl target edge =
     \<lparr>ct_id = hn_id h, ct_ticker = hn_ticker h, ct_action = action, ct_reasons = reasons, ct_limits = limits,
      ct_signal_as_of = hn_signal_as_of h, ct_rank = hn_rank h, ct_eligible = eligible_count,
      ct_semantic = Some (hn_semantic h),
      ct_value = (if hn_semantic h = EXPECTED_RETURN then hn_expected_return h else None),
      ct_held_before = True, ct_quantity = Some (hn_quantity h), ct_weight = Some (hn_current_weight h),
      ct_avg_entry = hn_avg_entry h, ct_mark = hn_price h, ct_pnl = hn_unrealized_pnl h,
      ct_in_exit_band = Some (hn_in_exit_band h), ct_review = opt_or review_trigger (hn_review_trigger h),
      ct_target = target, ct_replacement = map_option (\<lambda>r. (rp_id r, rp_ticker r)) repl, ct_edge = edge\<rparr>"

section \<open>Reviewing a held name\<close>

type_synonym fee_estimator = "string \<Rightarrow> decimal \<Rightarrow> int \<Rightarrow> date \<Rightarrow> string option \<Rightarrow> string option \<Rightarrow> decimal option res"

record rotation =
  ro_sell_notional :: decimal
  ro_sell_fee :: decimal
  ro_buy_fee :: decimal
  ro_costs :: edge_costs
  ro_gross :: decimal
  ro_net :: decimal

text \<open>The economics of selling \<open>h\<close> for \<open>b\<close>; \<open>None\<close> when a fee is unknown.\<close>

definition price_rotation ::
  "fee_estimator \<Rightarrow> gate_params \<Rightarrow> date \<Rightarrow> held_name \<Rightarrow> pyfloat \<Rightarrow> pyfloat \<Rightarrow> replacement \<Rightarrow> pyfloat \<Rightarrow> rotation option res" where
  "price_rotation fee params today h h_price h_return b b_return =
     (let sell_notional = dmul (dec_of_float (hn_quantity h)) (dec_of_float h_price);
          buy_notional = sell_notional;
          as_of = opt_or (gp_as_of params) (opt_or (hn_signal_as_of h) today) in
      bnd (fee ''SELL'' sell_notional (hn_id h) as_of (gp_profile_code params) (Some (hn_ticker h))) (\<lambda>sf.
      bnd (fee ''BUY'' buy_notional (rp_id b) as_of (gp_profile_code params) (Some (rp_ticker b))) (\<lambda>bf.
      Inr (case (sf, bf) of
        (Some sell_fee, Some buy_fee) \<Rightarrow>
          let c = edge_costs_of sell_fee buy_fee sell_notional buy_notional (gp_slippage_bps params) (gp_min_edge_bps params);
              costs = dadd (dadd (dadd (ec_sell c) (ec_buy c)) (ec_slip c)) (ec_margin c);
              gross = dsub (dec_of_float b_return) (dec_of_float h_return)
          in Some \<lparr>ro_sell_notional = sell_notional, ro_sell_fee = sell_fee, ro_buy_fee = buy_fee, ro_costs = c,
                  ro_gross = gross, ro_net = dsub gross costs\<rparr>
      | _ \<Rightarrow> None))))"

record reviewed_decision =
  rd_action :: string
  rd_replacement_id :: "int option"
  rd_trace :: cand_trace

definition edge_facts_of :: "gate_params \<Rightarrow> rotation \<Rightarrow> edge_facts" where
  "edge_facts_of params ro =
     \<lparr>ef_gross = fl (ro_gross ro), ef_sell_fee = fl (ro_sell_fee ro), ef_buy_fee = fl (ro_buy_fee ro),
      ef_slippage = fl (dmul (ec_slip (ro_costs ro)) (ro_sell_notional ro)), ef_net = fl (ro_net ro),
      ef_min_edge_bps = gp_min_edge_bps params\<rparr>"

text \<open>The common shape of the answers that keep the name.\<close>

definition keep_reviewed :: "held_name \<Rightarrow> int option \<Rightarrow> string \<Rightarrow> string \<Rightarrow> string \<Rightarrow> replacement option \<Rightarrow> edge_facts option \<Rightarrow> reviewed_decision" where
  "keep_reviewed h eligible_count action reason limit repl edge =
     \<lparr>rd_action = action, rd_replacement_id = None,
      rd_trace = trace_held h action [''REVIEW_TRIGGER'', reason] [limit] eligible_count (Some True) repl
        (Some (hn_current_weight h)) edge\<rparr>"

definition evaluate_reviewed ::
  "held_name \<Rightarrow> replacement list \<Rightarrow> int list \<Rightarrow> gate_params \<Rightarrow> fee_estimator \<Rightarrow> date \<Rightarrow> int option \<Rightarrow> reviewed_decision res" where
  "evaluate_reviewed h candidates exclude_ids params fee today eligible_count =
     (if hn_signal_stale h then Inr (keep_reviewed h eligible_count DATA_HOLD ''STALE_SIGNAL'' ''STALE_SIGNAL'' None None) else
      case (hn_semantic h = EXPECTED_RETURN, hn_expected_return h) of
        (True, Some h_return) \<Rightarrow>
          (case hn_price h of
             None \<Rightarrow> Inr (keep_reviewed h eligible_count DATA_HOLD ''MISSING_PRICE_OR_QTY'' ''MISSING_PRICE'' None None)
           | Some h_price \<Rightarrow>
             if h_price \<le> 0 \<or> hn_quantity h \<le> 0
             then Inr (keep_reviewed h eligible_count DATA_HOLD ''MISSING_PRICE_OR_QTY'' ''MISSING_PRICE'' None None) else
             (case best_replacement candidates (filter (\<lambda>i. i \<noteq> hn_id h) exclude_ids) (gp_k_entry params) of
                None \<Rightarrow> Inr (keep_reviewed h eligible_count REVIEW_HOLD ''NO_COMPARABLE_REPLACEMENT'' ''NO_REPLACEMENT'' None None)
              | Some b \<Rightarrow>
                (case (rp_signal_stale b, rp_price b, rp_expected_return b) of
                   (False, Some b_price, Some b_return) \<Rightarrow>
                     if b_price \<le> 0
                     then Inr (keep_reviewed h eligible_count DATA_HOLD ''REPLACEMENT_DATA_INCOMPLETE'' ''REPLACEMENT_DATA_INCOMPLETE'' (Some b) None) else
                     bnd (price_rotation fee params today h h_price h_return b b_return) (\<lambda>r. Inr (case r of
                       None \<Rightarrow> keep_reviewed h eligible_count DATA_HOLD ''FEE_MODEL_MISSING'' ''FEE_MODEL_MISSING'' (Some b) None
                     | Some ro \<Rightarrow>
                         if ro_net ro > 0 then
                           \<lparr>rd_action = ROTATE, rd_replacement_id = Some (rp_id b),
                            rd_trace = trace_held h ROTATE [''REVIEW_TRIGGER'', ''NET_EDGE_POSITIVE'', ''ROTATE_TO_'' @ rp_ticker b] []
                              eligible_count (Some True) (Some b) (Some 0) (Some (edge_facts_of params ro))\<rparr>
                         else keep_reviewed h eligible_count REVIEW_HOLD ''INSUFFICIENT_NET_EDGE'' ''INSUFFICIENT_NET_EDGE''
                                (Some b) (Some (edge_facts_of params ro))))
                 | _ \<Rightarrow> Inr (keep_reviewed h eligible_count DATA_HOLD ''REPLACEMENT_DATA_INCOMPLETE'' ''REPLACEMENT_DATA_INCOMPLETE'' (Some b) None))))
      | _ \<Rightarrow> Inr (keep_reviewed h eligible_count DATA_HOLD ''NON_COMPARABLE_PREDICTION'' ''NON_COMPARABLE_PREDICTION'' None None))"

section \<open>The two loops over the held names\<close>

record gate =
  g_traces :: "cand_trace list"
  g_permissions :: "sell_permission list"
  g_retained :: "int list"
  g_exited :: "int list"
  g_pairs :: "(int \<times> int) list"
  g_rotate_to :: "int list"
  g_actions :: "(int \<times> string) list"

definition empty_gate :: gate where
  "empty_gate = \<lparr>g_traces = [], g_permissions = [], g_retained = [], g_exited = [], g_pairs = [], g_rotate_to = [], g_actions = []\<rparr>"

text \<open>\<open>{int(h.instrument_id): h for h in held}\<close>, and the same of the policy targets.\<close>

definition held_by_id :: "held_name list \<Rightarrow> int \<rightharpoonup> held_name" where
  "held_by_id held = map_of (rev (map (\<lambda>h. (hn_id h, h)) held))"

definition policy_by_id :: "policy_target list \<Rightarrow> int \<rightharpoonup> policy_target" where
  "policy_by_id targets = map_of (rev (map (\<lambda>t. (pt_id t, t)) targets))"

definition id_set :: "int list \<Rightarrow> int list" where
  "id_set xs = sort (remdups xs)"

definition record_trace :: "cand_trace \<Rightarrow> sell_permission \<Rightarrow> string \<Rightarrow> gate \<Rightarrow> gate" where
  "record_trace t p action g = g\<lparr>g_traces := g_traces g @ [t], g_permissions := g_permissions g @ [p],
     g_actions := (sp_id p, action) # g_actions g\<rparr>"

definition retain :: "int \<Rightarrow> gate \<Rightarrow> gate" where
  "retain i g = g\<lparr>g_retained := g_retained g @ [i]\<rparr>"

definition exit_name :: "int \<Rightarrow> gate \<Rightarrow> gate" where
  "exit_name i g = g\<lparr>g_exited := g_exited g @ [i]\<rparr>"

text \<open>A name the policy still selects.\<close>

definition policy_step :: "(int \<rightharpoonup> string) \<Rightarrow> gate_params \<Rightarrow> int option \<Rightarrow> gate \<Rightarrow> held_name \<Rightarrow> gate" where
  "policy_step risk_forced params eligible_count g h =
     (let cap = gp_exposure_cap params; force = risk_forced (hn_id h) in
      if force = Some RISK_EXIT then
        exit_name (hn_id h) (record_trace
          (trace_held h RISK_EXIT [''RISK_FORCED_EXIT''] [] eligible_count None None (Some 0) None)
          (permission_for h RISK_EXIT (Some RISK_EXIT) None cap) RISK_EXIT g)
      else if force = Some RISK_REDUCE then
        retain (hn_id h) (record_trace
          (trace_held h RISK_REDUCE [''RISK_FORCED_REDUCE''] [] eligible_count None None (Some (fmul (hn_current_weight h) cap)) None)
          (permission_for h RISK_REDUCE (Some RISK_REDUCE) None cap) RISK_REDUCE g)
      else
        retain (hn_id h) (record_trace
          (trace_held h HOLD [''WITHIN_POLICY_SELECTION''] [] eligible_count None None (Some (hn_current_weight h)) None)
          (permission_for h HOLD (Some ''WITHIN_POLICY_SELECTION'') None cap) HOLD g))"

text \<open>What a decision of the review does to the gate.\<close>

definition apply_decision :: "replacement list \<Rightarrow> pyfloat \<Rightarrow> held_name \<Rightarrow> reviewed_decision \<Rightarrow> gate \<Rightarrow> gate" where
  "apply_decision candidates cap h d g =
     (let act = rd_action d; i = hn_id h; t = rd_trace d in
      if act \<in> {REVIEW_HOLD, DATA_HOLD, HOLD} then
        retain i (record_trace t (permission_for h act
          (Some (case ct_limits t of l # ls \<Rightarrow> l | [] \<Rightarrow> act)) None cap) act g)
      else case (act = ROTATE, rd_replacement_id d) of
        (True, Some b) \<Rightarrow>
          let reason = ''ROTATE_TO_'' @ (case List.find (\<lambda>c. rp_id c = b) candidates of Some r \<Rightarrow> rp_ticker r | None \<Rightarrow> str_int b);
              g' = exit_name i (record_trace t (permission_for h ROTATE (Some reason) (Some b) cap) act g)
          in g'\<lparr>g_pairs := g_pairs g' @ [(i, b)], g_rotate_to := g_rotate_to g' @ [b]\<rparr>
      | _ \<Rightarrow>
          if act \<in> {RISK_EXIT, EXIT_TO_CASH}
          then exit_name i (record_trace t (permission_for h act (Some act) None cap) act g)
          else retain i (record_trace t (permission_for h act (Some act) None cap) act g))"

text \<open>A held name that the policy dropped.\<close>

definition review_step ::
  "(int \<rightharpoonup> string) \<Rightarrow> replacement list \<Rightarrow> int list \<Rightarrow> gate_params \<Rightarrow> fee_estimator \<Rightarrow> date \<Rightarrow> int option \<Rightarrow> gate \<Rightarrow> held_name \<Rightarrow> gate res" where
  "review_step risk_forced candidates held_ids params fee today eligible_count g h =
     (let cap = gp_exposure_cap params; force = risk_forced (hn_id h) in
      if force = Some RISK_EXIT then
        Inr (exit_name (hn_id h) (record_trace
          (trace_held h RISK_EXIT [''RISK_FORCED_EXIT'', ''REVIEW_TRIGGER''] [] eligible_count (Some True) None (Some 0) None)
          (permission_for h RISK_EXIT (Some RISK_EXIT) None cap) RISK_EXIT g))
      else if force = Some RISK_REDUCE then
        Inr (retain (hn_id h) (record_trace
          (trace_held h RISK_REDUCE [''RISK_FORCED_REDUCE'', ''REVIEW_TRIGGER''] [] eligible_count (Some True) None
             (Some (fmul (hn_current_weight h) cap)) None)
          (permission_for h RISK_REDUCE (Some RISK_REDUCE) None cap) RISK_REDUCE g))
      else if force = Some EXIT_TO_CASH then
        Inr (exit_name (hn_id h) (record_trace
          (trace_held h EXIT_TO_CASH [''EXPLICIT_EXIT_TO_CASH'', ''REVIEW_TRIGGER''] [] eligible_count (Some True) None (Some 0) None)
          (permission_for h EXIT_TO_CASH (Some EXIT_TO_CASH) None cap) EXIT_TO_CASH g))
      else
        bnd (evaluate_reviewed h candidates (held_ids @ g_rotate_to g) params fee today eligible_count) (\<lambda>d.
        Inr (apply_decision candidates cap h d g)))"

section \<open>The final set and its weights\<close>

text \<open>New names enter while the capacity lasts.\<close>

fun enter_loop :: "nat \<Rightarrow> int list \<Rightarrow> int list \<Rightarrow> policy_target list \<Rightarrow> policy_target list" where
  "enter_loop remaining final_ids exited [] = []"
| "enter_loop remaining final_ids exited (t # ts) =
     (if remaining = 0 then []
      else if pt_id t \<in> set final_ids \<or> pt_id t \<in> set exited then enter_loop remaining final_ids exited ts
      else t # enter_loop (remaining - 1) (pt_id t # final_ids) exited ts)"

definition enter_trace :: "int option \<Rightarrow> policy_target \<Rightarrow> cand_trace" where
  "enter_trace eligible_count t =
     \<lparr>ct_id = pt_id t, ct_ticker = pt_ticker t, ct_action = opt_or (truthy (pt_action t)) ''ENTER'',
      ct_reasons = [''POLICY_ENTER_FREE_CAPACITY''], ct_limits = [], ct_signal_as_of = pt_signal_as_of t,
      ct_rank = pt_rank t, ct_eligible = eligible_count, ct_semantic = Some (pt_semantic t),
      ct_value = pt_expected_return t, ct_held_before = False, ct_quantity = None, ct_weight = None,
      ct_avg_entry = None, ct_mark = None, ct_pnl = None, ct_in_exit_band = None, ct_review = False,
      ct_target = None, ct_replacement = None, ct_edge = None\<rparr>"

definition fixed_weight :: "gate \<Rightarrow> (int \<rightharpoonup> held_name) \<Rightarrow> pyfloat \<Rightarrow> int \<Rightarrow> pyfloat" where
  "fixed_weight g by_id cap i = (case by_id i of
     None \<Rightarrow> 0
   | Some h \<Rightarrow> if opt_or (map_of (g_actions g) i) HOLD = RISK_REDUCE then fmul (hn_current_weight h) cap
              else hn_current_weight h)"

definition ticker_by_id :: "held_name list \<Rightarrow> policy_target list \<Rightarrow> replacement list \<Rightarrow> int \<rightharpoonup> string" where
  "ticker_by_id held targets candidates = map_of (rev (map (\<lambda>h. (hn_id h, hn_ticker h)) held @
     map (\<lambda>t. (pt_id t, pt_ticker t)) targets @ map (\<lambda>c. (rp_id c, rp_ticker c)) candidates))"

definition gate_action_of :: "gate \<Rightarrow> (int \<rightharpoonup> string) \<Rightarrow> held_name option \<Rightarrow> policy_target option \<Rightarrow> int \<Rightarrow> string" where
  "gate_action_of g risk_forced h pt i =
     (if i \<in> set (g_rotate_to g) then ROTATE
      else case (h, map_of (g_actions g) i) of
        (Some _, Some a) \<Rightarrow> a
      | _ \<Rightarrow> (case truthy (risk_forced i) of
          Some f \<Rightarrow> f
        | None \<Rightarrow> (case pt of Some t \<Rightarrow> opt_or (truthy (pt_action t)) HOLD | None \<Rightarrow> HOLD)))"

definition final_target_of ::
  "gate \<Rightarrow> (int \<rightharpoonup> string) \<Rightarrow> (int \<rightharpoonup> held_name) \<Rightarrow> (int \<rightharpoonup> policy_target) \<Rightarrow> (int \<rightharpoonup> string) \<Rightarrow> pyfloat \<Rightarrow> pyfloat \<Rightarrow>
   string option \<Rightarrow> int \<Rightarrow> final_target" where
  "final_target_of g risk_forced by_id pol tickers cap free_w policy_name i =
     (let pt = pol i; h = by_id i; act = gate_action_of g risk_forced h pt i in
      \<lparr>ft_id = i, ft_ticker = opt_or (tickers i) (str_int i),
       ft_weight = (if i \<in> set (g_retained g) then fixed_weight g by_id cap i else free_w),
       ft_action = (case pt of Some t \<Rightarrow> opt_or (pt_action t) ''None'' | None \<Rightarrow> act),
       ft_rank = (case pt of Some t \<Rightarrow> pt_rank t | None \<Rightarrow> Option.bind h hn_rank),
       ft_predicted = (case (pt, h) of
          (Some t, _) \<Rightarrow> if pt_semantic t = EXPECTED_RETURN then pt_expected_return t
            else (case h of Some x \<Rightarrow> if hn_semantic x = EXPECTED_RETURN then hn_expected_return x else None | None \<Rightarrow> None)
        | (None, Some x) \<Rightarrow> if hn_semantic x = EXPECTED_RETURN then hn_expected_return x else None
        | (None, None) \<Rightarrow> None),
       ft_policy = policy_name, ft_gate_action = act,
       ft_rotate_from = map_of (rev (map (\<lambda>(a, b). (b, a)) (g_pairs g))) i,
       ft_rotate_to = map_of (rev (g_pairs g)) i\<rparr>)"

record gate_result =
  gr_targets :: "final_target list"
  gr_traces :: "cand_trace list"
  gr_permissions :: "sell_permission list"
  gr_retained :: "int list"
  gr_exited :: "int list"
  gr_rotations :: "(int \<times> int) list"
  gr_final_n :: nat
  gr_fixed_weight_sum :: pyfloat
  gr_free_weight :: pyfloat
  gr_exposure_cap :: pyfloat
  gr_k_entry :: int

definition free_weight :: "pyfloat \<Rightarrow> pyfloat \<Rightarrow> nat \<Rightarrow> pyfloat" where
  "free_weight cap fixed_sum n = (if n = 0 then 0 else fdiv (max 0 (fsub cap fixed_sum)) (of_nat n))"

text \<open>The part of \<open>apply_sell_gate\<close> after the two loops.\<close>

definition finish_gate ::
  "(int list \<Rightarrow> int list) \<Rightarrow> held_name list \<Rightarrow> policy_target list \<Rightarrow> replacement list \<Rightarrow> gate_params \<Rightarrow> (int \<rightharpoonup> string) \<Rightarrow>
   int option \<Rightarrow> string option \<Rightarrow> gate \<Rightarrow> gate_result" where
  "finish_gate set_iter held targets candidates params risk_forced eligible_count policy_name g =
     (let by_id = held_by_id held; pol = policy_by_id targets;
          final0 = id_set (g_retained g @ g_rotate_to g);
          k_entry = (case gp_k_entry params of Some k \<Rightarrow> k
            | None \<Rightarrow> int (max (length (id_set (map pt_id targets))) (length final0)));
          candidates' = sort_key (\<lambda>t. (opt_or (pt_rank t) (10 ^ 9), pt_id t)) (filter (\<lambda>t. by_id (pt_id t) = None) targets);
          entered = enter_loop (nat (k_entry - int (length final0))) final0 (g_exited g) candidates';
          final_ids = id_set (final0 @ map pt_id entered);
          cap = max 0 (gp_exposure_cap params);
          fixed_sum = fsum (map (fixed_weight g by_id cap) (set_iter (id_set (g_retained g))));
          free_ids = filter (\<lambda>i. i \<notin> set (g_retained g)) final_ids;
          free_w = free_weight cap fixed_sum (length free_ids)
      in \<lparr>gr_targets = map (final_target_of g risk_forced by_id pol (ticker_by_id held targets candidates) cap free_w policy_name) final_ids,
          gr_traces = g_traces g @ map (enter_trace eligible_count) entered,
          gr_permissions = g_permissions g, gr_retained = id_set (g_retained g), gr_exited = id_set (g_exited g),
          gr_rotations = g_pairs g, gr_final_n = length final_ids, gr_fixed_weight_sum = fixed_sum,
          gr_free_weight = free_w, gr_exposure_cap = cap, gr_k_entry = k_entry\<rparr>)"

definition apply_sell_gate ::
  "(int list \<Rightarrow> int list) \<Rightarrow> date \<Rightarrow> held_name list \<Rightarrow> policy_target list \<Rightarrow> replacement list \<Rightarrow> gate_params \<Rightarrow> fee_estimator \<Rightarrow>
   (int \<rightharpoonup> string) \<Rightarrow> int option \<Rightarrow> string option \<Rightarrow> gate_result res" where
  "apply_sell_gate set_iter today held targets candidates params fee risk_forced eligible_count policy_name =
     (let by_id = held_by_id held;
          held_ids = id_set (map hn_id held);
          selected = List.map_filter by_id (filter (\<lambda>i. i \<in> pt_id ` set targets) held_ids);
          reviewed = List.map_filter by_id (filter (\<lambda>i. i \<notin> pt_id ` set targets) held_ids);
          g1 = foldl (policy_step risk_forced params eligible_count) empty_gate selected
      in bnd (foldM (review_step risk_forced candidates held_ids params fee today eligible_count) g1 reviewed) (\<lambda>g2.
         Inr (finish_gate set_iter held targets candidates params risk_forced eligible_count policy_name g2)))"

section \<open>What a review decides\<close>

definition rotation_pays ::
  "fee_estimator \<Rightarrow> gate_params \<Rightarrow> date \<Rightarrow> replacement list \<Rightarrow> int list \<Rightarrow> held_name \<Rightarrow> int \<Rightarrow> bool" where
  "rotation_pays fee params today candidates held_ids h b_id \<longleftrightarrow>
     (\<exists>b x y z ro. b \<in> set candidates \<and> rp_id b = b_id \<and>
        entry_eligible (filter (\<lambda>i. i \<noteq> hn_id h) held_ids) (gp_k_entry params) b \<and>
        hn_price h = Some x \<and> 0 < x \<and> 0 < hn_quantity h \<and> \<not> hn_signal_stale h \<and> hn_expected_return h = Some y \<and>
        rp_expected_return b = Some z \<and> price_rotation fee params today h x y b z = Inr (Some ro) \<and> 0 < ro_net ro)"

lemma best_replacement_in:
  assumes "best_replacement cs ex k = Some b"
  shows "b \<in> set cs \<and> entry_eligible ex k b"
proof -
  define el where "el = filter (entry_eligible ex k) cs"
  have "el \<noteq> []" and b: "b = hd (sort_key (\<lambda>c. (- opt_or (rp_expected_return c) 0, rp_id c)) el)"
    using assms by (auto simp: best_replacement_def Let_def el_def split: if_splits)
  then have "b \<in> set el" unfolding b by (intro hd_sort_key_in)
  then show ?thesis by (simp add: el_def)
qed

lemma entry_eligible_mono: "entry_eligible ex k b \<Longrightarrow> set ex' \<subseteq> set ex \<Longrightarrow> entry_eligible ex' k b"
  by (auto simp: entry_eligible_def)

lemma evaluate_reviewed_cases:
  assumes "evaluate_reviewed h candidates (held_ids @ rot) params fee today eligible_count = Inr d"
  obtains (keep) "rd_action d = DATA_HOLD \<or> rd_action d = REVIEW_HOLD" "rd_replacement_id d = None"
  | (rotate) b where "rd_action d = ROTATE" "rd_replacement_id d = Some (rp_id b)" "b \<in> set candidates"
      "rotation_pays fee params today candidates held_ids h (rp_id b)" "rp_id b = hn_id h \<or> rp_id b \<notin> set (held_ids @ rot)"
proof -
  have k: "rd_action (keep_reviewed h ec a r l re e) = a \<and> rd_replacement_id (keep_reviewed h ec a r l re e) = None" for ec a r l re e
    by (simp add: keep_reviewed_def)
  show thesis
  proof (cases "rd_action d = DATA_HOLD \<or> rd_action d = REVIEW_HOLD")
    case True
    then have "rd_replacement_id d = None" using assms k
      by (fastforce simp: evaluate_reviewed_def exn_simps gate_codes split: if_splits option.splits prod.splits bool.splits)
    with True show thesis by (rule keep)
  next
    case False
    obtain x y b z ro where 1: "hn_price h = Some x" "\<not> x \<le> 0" "\<not> hn_quantity h \<le> 0" "\<not> hn_signal_stale h" "hn_expected_return h = Some y"
      and b: "best_replacement candidates (filter (\<lambda>i. i \<noteq> hn_id h) (held_ids @ rot)) (gp_k_entry params) = Some b"
      and z: "rp_expected_return b = Some z" and r: "price_rotation fee params today h x y b z = Inr (Some ro)" "0 < ro_net ro"
      and d: "rd_action d = ROTATE" "rd_replacement_id d = Some (rp_id b)"
      using assms False
      by (auto simp: evaluate_reviewed_def exn_simps k simp del: filter_append split: if_splits option.splits prod.splits bool.splits)
    from best_replacement_in [OF b] have bi: "b \<in> set candidates"
      and el: "entry_eligible (filter (\<lambda>i. i \<noteq> hn_id h) (held_ids @ rot)) (gp_k_entry params) b" by auto
    have "rotation_pays fee params today candidates held_ids h (rp_id b)"
      unfolding rotation_pays_def using 1 bi z r entry_eligible_mono [OF el] by fastforce
    moreover have "rp_id b = hn_id h \<or> rp_id b \<notin> set (held_ids @ rot)" using el by (auto simp: entry_eligible_def)
    ultimately show thesis using rotate [OF d bi] by blast
  qed
qed

lemma permission_simps [simp]:
  "sp_id (permission_for h a r b c) = hn_id h" "sp_action (permission_for h a r b c) = a"
  by (simp_all add: permission_for_def Let_def split: prod.splits option.splits bool.splits)

lemma permission_allowed: "sp_allowed (permission_for h a r b c) \<longleftrightarrow> a \<in> {RISK_REDUCE, ROTATE, RISK_EXIT, EXIT_TO_CASH}"
  by (auto simp: permission_for_def Let_def no_sell_actions_def full_sell_actions_def gate_codes)

lemma permission_rotate_to: "sp_rotate_to (permission_for h a r b c) = (if a \<in> {ROTATE, RISK_EXIT, EXIT_TO_CASH} then b else None)"
  by (auto simp: permission_for_def Let_def no_sell_actions_def full_sell_actions_def gate_codes)

section \<open>The invariant of the gate\<close>

text \<open>Why a permission may allow a sale.\<close>

definition authorised ::
  "fee_estimator \<Rightarrow> gate_params \<Rightarrow> date \<Rightarrow> replacement list \<Rightarrow> int list \<Rightarrow> held_name list \<Rightarrow> int set \<Rightarrow> (int \<rightharpoonup> string) \<Rightarrow> sell_permission \<Rightarrow> bool" where
  "authorised fee params today candidates held_ids held pols forced p \<longleftrightarrow>
     forced (sp_id p) = Some RISK_EXIT \<or> forced (sp_id p) = Some RISK_REDUCE \<or>
     (forced (sp_id p) = Some EXIT_TO_CASH \<and> sp_id p \<notin> pols) \<or>
     (\<exists>h b. h \<in> set held \<and> hn_id h = sp_id p \<and> sp_rotate_to p = Some b \<and> sp_id p \<notin> pols \<and>
        rotation_pays fee params today candidates held_ids h b)"

text \<open>Where a held name may be rotated: to a candidate of the entry band that no other held name has.\<close>

definition may_rotate :: "replacement list \<Rightarrow> int list \<Rightarrow> gate_params \<Rightarrow> int \<Rightarrow> int \<Rightarrow> bool" where
  "may_rotate cs hs ps i b \<longleftrightarrow> (\<exists>c \<in> set cs. rp_id c = b \<and> entry_eligible (filter (\<lambda>j. j \<noteq> i) hs) (gp_k_entry ps) c)"

definition gate_inv :: "(sell_permission \<Rightarrow> bool) \<Rightarrow> (int \<rightharpoonup> string) \<Rightarrow> int list \<Rightarrow> (int \<Rightarrow> int \<Rightarrow> bool) \<Rightarrow> int list \<Rightarrow> gate \<Rightarrow> bool" where
  "gate_inv auth forced held_ids R seen g \<longleftrightarrow>
     map sp_id (g_permissions g) = seen \<and> set (g_retained g) \<union> set (g_exited g) = set seen \<and>
     distinct (g_retained g @ g_exited g) \<and>
     (\<forall>p \<in> set (g_permissions g). sp_allowed p \<longrightarrow> auth p) \<and>
     (\<forall>p \<in> set (g_permissions g). sp_id p \<in> set (g_retained g) \<longrightarrow> sp_allowed p \<longrightarrow> forced (sp_id p) = Some RISK_REDUCE) \<and>
     (\<forall>i. map_of (g_actions g) i = Some RISK_REDUCE \<longrightarrow> forced i = Some RISK_REDUCE) \<and>
     map snd (g_pairs g) = g_rotate_to g \<and> fst ` set (g_pairs g) \<subseteq> set (g_exited g) \<and>
     distinct (filter (\<lambda>b. b \<notin> set held_ids) (g_rotate_to g)) \<and> distinct (map fst (g_pairs g)) \<and>
     (\<forall>(i, b) \<in> set (g_pairs g). R i b)"

lemma gate_simps [simp]:
  "g_permissions (record_trace t p a g) = g_permissions g @ [p]" "g_retained (record_trace t p a g) = g_retained g"
  "g_exited (record_trace t p a g) = g_exited g" "g_pairs (record_trace t p a g) = g_pairs g"
  "g_rotate_to (record_trace t p a g) = g_rotate_to g" "g_actions (record_trace t p a g) = (sp_id p, a) # g_actions g"
  "g_retained (retain i g) = g_retained g @ [i]" "g_exited (retain i g) = g_exited g" "g_permissions (retain i g) = g_permissions g"
  "g_pairs (retain i g) = g_pairs g" "g_rotate_to (retain i g) = g_rotate_to g" "g_actions (retain i g) = g_actions g"
  "g_exited (exit_name i g) = g_exited g @ [i]" "g_retained (exit_name i g) = g_retained g" "g_permissions (exit_name i g) = g_permissions g"
  "g_pairs (exit_name i g) = g_pairs g" "g_rotate_to (exit_name i g) = g_rotate_to g" "g_actions (exit_name i g) = g_actions g"
  by (simp_all add: record_trace_def retain_def exit_name_def)

lemma gate_inv_retain:
  assumes "gate_inv auth forced hs R seen g" and "i \<notin> set seen" and "sp_id p = i"
    and "sp_allowed p \<Longrightarrow> auth p \<and> forced i = Some RISK_REDUCE" and "a = RISK_REDUCE \<Longrightarrow> forced i = Some RISK_REDUCE"
  shows "gate_inv auth forced hs R (seen @ [i]) (retain i (record_trace t p a g))"
proof -
  have "sp_id q \<noteq> i" if "q \<in> set (g_permissions g)" for q using assms(1,2) that by (auto simp: gate_inv_def)
  with assms show ?thesis by (auto simp: gate_inv_def)
qed

lemma gate_inv_exit:
  assumes "gate_inv auth forced hs R seen g" and "i \<notin> set seen" and "sp_id p = i"
    and "sp_allowed p \<Longrightarrow> auth p" and "a \<noteq> RISK_REDUCE"
  shows "gate_inv auth forced hs R (seen @ [i]) (exit_name i (record_trace t p a g))"
proof -
  have "sp_id q \<noteq> i" if "q \<in> set (g_permissions g)" for q using assms(1,2) that by (auto simp: gate_inv_def)
  with assms show ?thesis by (auto simp: gate_inv_def)
qed

lemma gate_inv_rotate:
  assumes "gate_inv auth forced hs R (seen @ [i]) g" and "i \<in> set (g_exited g)" and "b \<in> set hs \<or> b \<notin> set (g_rotate_to g)" and "R i b"
    and "i \<notin> fst ` set (g_pairs g)"
  shows "gate_inv auth forced hs R (seen @ [i]) (g\<lparr>g_pairs := g_pairs g @ [(i, b)], g_rotate_to := g_rotate_to g @ [b]\<rparr>)"
  using assms by (auto simp: gate_inv_def)

lemma gate_inv_fresh: "gate_inv auth forced hs R seen g \<Longrightarrow> i \<notin> set seen \<Longrightarrow> i \<notin> fst ` set (g_pairs g)"
  by (auto simp: gate_inv_def)

lemma policy_step_inv:
  assumes g: "gate_inv auth forced hs R seen g" and i: "hn_id h \<notin> set seen"
    and auth: "\<And>p. sp_id p = hn_id h \<Longrightarrow> forced (hn_id h) \<in> {Some RISK_EXIT, Some RISK_REDUCE} \<Longrightarrow> auth p"
  shows "gate_inv auth forced hs R (seen @ [hn_id h]) (policy_step forced params ec g h)"
proof -
  consider (x) "forced (hn_id h) = Some RISK_EXIT" | (r) "forced (hn_id h) \<noteq> Some RISK_EXIT" "forced (hn_id h) = Some RISK_REDUCE"
    | (k) "forced (hn_id h) \<noteq> Some RISK_EXIT" "forced (hn_id h) \<noteq> Some RISK_REDUCE" by blast
  then show ?thesis
  proof cases
    case x
    then show ?thesis unfolding policy_step_def Let_def
      by (auto intro!: gate_inv_exit g i auth simp: gate_codes)
  next
    case r
    then show ?thesis unfolding policy_step_def Let_def
      by (auto intro!: gate_inv_retain g i auth)
  next
    case k
    then show ?thesis unfolding policy_step_def Let_def
      by (auto intro!: gate_inv_retain g i simp: permission_allowed gate_codes)
  qed
qed

lemma apply_decision_inv:
  assumes g: "gate_inv auth forced hs (may_rotate candidates hs params) seen g" and i: "hn_id h \<notin> set seen" "hn_id h \<in> set hs"
    and e: "evaluate_reviewed h candidates (hs @ g_rotate_to g) params fee today ec = Inr d"
    and auth: "\<And>p b. sp_id p = hn_id h \<Longrightarrow> sp_rotate_to p = Some b \<Longrightarrow> rotation_pays fee params today candidates hs h b \<Longrightarrow> auth p"
  shows "gate_inv auth forced hs (may_rotate candidates hs params) (seen @ [hn_id h]) (apply_decision candidates cap h d g)"
  using e
proof (cases rule: evaluate_reviewed_cases)
  case keep
  then show ?thesis unfolding apply_decision_def Let_def
    by (auto intro!: gate_inv_retain g i simp: permission_allowed gate_codes)
next
  case (rotate b)
  define reason where "reason = ''ROTATE_TO_'' @ (case List.find (\<lambda>c. rp_id c = rp_id b) candidates of Some r \<Rightarrow> rp_ticker r | None \<Rightarrow> str_int (rp_id b))"
  define g' where "g' = exit_name (hn_id h) (record_trace (rd_trace d) (permission_for h ROTATE (Some reason) (Some (rp_id b)) cap) ROTATE g)"
  have "auth (permission_for h ROTATE (Some reason) (Some (rp_id b)) cap)"
    using rotate(4) by (intro auth) (auto simp: permission_rotate_to)
  then have "gate_inv auth forced hs (may_rotate candidates hs params) (seen @ [hn_id h]) g'"
    unfolding g'_def by (intro gate_inv_exit g i) (simp_all add: gate_codes)
  moreover have "may_rotate candidates hs params (hn_id h) (rp_id b)"
    using rotate(4) by (auto simp: may_rotate_def rotation_pays_def)
  moreover have "hn_id h \<notin> fst ` set (g_pairs g')"
    using gate_inv_fresh [OF g i(1)] by (simp add: g'_def)
  moreover have "hn_id h \<in> set (g_exited g')" "rp_id b \<in> set hs \<or> rp_id b \<notin> set (g_rotate_to g')"
    using rotate(5) i(2) by (auto simp: g'_def)
  ultimately have "gate_inv auth forced hs (may_rotate candidates hs params) (seen @ [hn_id h])
      (g'\<lparr>g_pairs := g_pairs g' @ [(hn_id h, rp_id b)], g_rotate_to := g_rotate_to g' @ [rp_id b]\<rparr>)"
    by (intro gate_inv_rotate) auto
  moreover have "rd_action d \<notin> {REVIEW_HOLD, DATA_HOLD, HOLD}" using rotate(1) by (simp add: gate_codes)
  ultimately show ?thesis unfolding apply_decision_def Let_def
    using rotate(1,2) by (simp add: g'_def [unfolded reason_def] Let_def)
qed

lemma review_step_inv:
  assumes g: "gate_inv auth forced hs (may_rotate candidates hs params) seen g" and i: "hn_id h \<notin> set seen" "hn_id h \<in> set hs"
    and s: "review_step forced candidates hs params fee today ec g h = Inr g'"
    and force: "\<And>p. sp_id p = hn_id h \<Longrightarrow> forced (hn_id h) \<in> {Some RISK_EXIT, Some RISK_REDUCE, Some EXIT_TO_CASH} \<Longrightarrow> auth p"
    and auth: "\<And>p b. sp_id p = hn_id h \<Longrightarrow> sp_rotate_to p = Some b \<Longrightarrow> rotation_pays fee params today candidates hs h b \<Longrightarrow> auth p"
  shows "gate_inv auth forced hs (may_rotate candidates hs params) (seen @ [hn_id h]) g'"
proof -
  consider (x) "forced (hn_id h) = Some RISK_EXIT" | (r) "forced (hn_id h) \<noteq> Some RISK_EXIT" "forced (hn_id h) = Some RISK_REDUCE"
    | (c) "forced (hn_id h) \<noteq> Some RISK_EXIT" "forced (hn_id h) \<noteq> Some RISK_REDUCE" "forced (hn_id h) = Some EXIT_TO_CASH"
    | (k) "forced (hn_id h) \<notin> {Some RISK_EXIT, Some RISK_REDUCE, Some EXIT_TO_CASH}" by blast
  then show ?thesis
  proof cases
    case x
    then show ?thesis using s unfolding review_step_def Let_def
      by (auto intro!: gate_inv_exit g i force simp: gate_codes)
  next
    case r
    then show ?thesis using s unfolding review_step_def Let_def
      by (auto intro!: gate_inv_retain g i force)
  next
    case c
    then show ?thesis using s unfolding review_step_def Let_def
      by (auto intro!: gate_inv_exit g i force simp: gate_codes)
  next
    case k
    then obtain d where "evaluate_reviewed h candidates (hs @ g_rotate_to g) params fee today ec = Inr d"
      and g': "g' = apply_decision candidates (gp_exposure_cap params) h d g"
      using s unfolding review_step_def Let_def by (auto simp: exn_simps)
    from apply_decision_inv [OF g i this(1) auth] show ?thesis by (simp add: g')
  qed
qed

lemma held_by_id_Some: "held_by_id held i = Some h \<Longrightarrow> h \<in> set held \<and> hn_id h = i"
  by (auto simp: held_by_id_def dest: map_of_SomeD)

lemma held_by_id_None: "held_by_id held i = None \<longleftrightarrow> i \<notin> hn_id ` set held"
  by (force simp: held_by_id_def map_of_eq_None_iff)

lemma map_filter_ids: "set ids \<subseteq> hn_id ` set held \<Longrightarrow> map hn_id (List.map_filter (held_by_id held) ids) = ids"
proof (induction ids)
  case (Cons i ids)
  then obtain h where "held_by_id held i = Some h" using held_by_id_None [of held i] by auto
  with Cons show ?case using held_by_id_Some by (simp add: List.map_filter_simps)
qed (simp add: List.map_filter_simps)

lemma map_filter_held: "h \<in> set (List.map_filter (held_by_id held) ids) \<Longrightarrow> h \<in> set held \<and> hn_id h \<in> set ids"
  using held_by_id_Some by (fastforce simp: List.map_filter_def split: option.splits)

lemma id_set_set [simp]: "set (id_set xs) = set xs" and id_set_distinct [simp]: "distinct (id_set xs)"
  by (simp_all add: id_set_def)

text \<open>The gate after both loops.\<close>

lemma gate_loops:
  assumes "foldM (review_step forced candidates (id_set (map hn_id held)) params fee today ec)
      (foldl (policy_step forced params ec) empty_gate
        (List.map_filter (held_by_id held) (filter (\<lambda>i. i \<in> pols) (id_set (map hn_id held)))))
      (List.map_filter (held_by_id held) (filter (\<lambda>i. i \<notin> pols) (id_set (map hn_id held)))) = Inr g"
  defines "auth \<equiv> authorised fee params today candidates (id_set (map hn_id held)) held pols forced"
  shows "gate_inv auth forced (id_set (map hn_id held)) (may_rotate candidates (id_set (map hn_id held)) params)
    (filter (\<lambda>i. i \<in> pols) (id_set (map hn_id held)) @ filter (\<lambda>i. i \<notin> pols) (id_set (map hn_id held))) g"
proof -
  define hs where "hs = id_set (map hn_id held)"
  define sel where "sel = List.map_filter (held_by_id held) (filter (\<lambda>i. i \<in> pols) hs)"
  define rev where "rev = List.map_filter (held_by_id held) (filter (\<lambda>i. i \<notin> pols) hs)"
  have ids: "map hn_id sel = filter (\<lambda>i. i \<in> pols) hs" "map hn_id rev = filter (\<lambda>i. i \<notin> pols) hs"
    unfolding sel_def rev_def by (rule map_filter_ids, auto simp: hs_def)+
  have dist: "distinct hs" by (simp add: hs_def)
  have a1: "auth p" if "sp_id p = i" "forced i \<in> {Some RISK_EXIT, Some RISK_REDUCE}" for p i
    using that by (auto simp: auth_def authorised_def)
  have a2: "auth p" if "sp_id p = i" "i \<notin> pols" "forced i \<in> {Some RISK_EXIT, Some RISK_REDUCE, Some EXIT_TO_CASH}" for p i
    using that by (auto simp: auth_def authorised_def)
  have a3: "auth p" if "sp_id p = hn_id h" "h \<in> set held" "hn_id h \<notin> pols" "sp_rotate_to p = Some b"
      "rotation_pays fee params today candidates hs h b" for p h b
    using that by (auto simp: auth_def authorised_def hs_def)
  have 1: "gate_inv auth forced hs (may_rotate candidates hs params) (seen @ map hn_id xs) (foldl (policy_step forced params ec) g0 xs)"
    if "gate_inv auth forced hs (may_rotate candidates hs params) seen g0" "distinct (seen @ map hn_id xs)" for seen g0 xs
    using that
  proof (induction xs arbitrary: seen g0)
    case (Cons h xs)
    then have "hn_id h \<notin> set seen" by simp
    then have "gate_inv auth forced hs (may_rotate candidates hs params) (seen @ [hn_id h]) (policy_step forced params ec g0 h)"
      by (rule policy_step_inv [OF Cons.prems(1)]) (rule a1)
    from Cons.IH [OF this] Cons.prems show ?case by simp
  qed simp
  have 2: "gate_inv auth forced hs (may_rotate candidates hs params) (seen @ map hn_id xs) g'"
    if "foldM (review_step forced candidates hs params fee today ec) g0 xs = Inr g'"
      "gate_inv auth forced hs (may_rotate candidates hs params) seen g0" "distinct (seen @ map hn_id xs)" "set xs \<subseteq> set rev" for seen g0 xs g'
    using that
  proof (induction xs arbitrary: seen g0)
    case (Cons h xs)
    then obtain g1 where g1: "review_step forced candidates hs params fee today ec g0 h = Inr g1"
      and r: "foldM (review_step forced candidates hs params fee today ec) g1 xs = Inr g'" by (auto simp: exn_simps)
    have h: "h \<in> set held" "hn_id h \<in> set hs" "hn_id h \<notin> pols" using Cons.prems(4) map_filter_held unfolding rev_def by fastforce+
    have "hn_id h \<notin> set seen" using Cons.prems(3) by simp
    then have "gate_inv auth forced hs (may_rotate candidates hs params) (seen @ [hn_id h]) g1"
      by (rule review_step_inv [OF Cons.prems(2) _ h(2) g1]) (erule a2 [OF _ h(3)], assumption, erule a3 [OF _ h(1,3)])
    from Cons.IH [OF r this] Cons.prems show ?case by simp
  qed simp
  have "gate_inv auth forced hs (may_rotate candidates hs params) [] empty_gate" by (simp add: gate_inv_def empty_gate_def)
  from 1 [OF this, of sel] have "gate_inv auth forced hs (may_rotate candidates hs params) (map hn_id sel) (foldl (policy_step forced params ec) empty_gate sel)"
    using dist by (simp add: ids)
  moreover have "distinct (map hn_id sel @ map hn_id rev)" unfolding ids using dist by auto
  ultimately show ?thesis
    using 2 [OF assms(1) [folded hs_def, folded sel_def rev_def]] by (simp add: ids hs_def)
qed

section \<open>The final set\<close>

lemma enter_loop_props:
  "length (enter_loop n fin ex ts) \<le> n \<and> set (enter_loop n fin ex ts) \<subseteq> set ts \<and>
   (\<forall>t \<in> set (enter_loop n fin ex ts). pt_id t \<notin> set ex \<and> pt_id t \<notin> set fin)"
proof (induction n fin ex ts rule: enter_loop.induct)
  case (2 n fin ex t ts)
  show ?case
  proof (cases "n = 0")
    case False
    show ?thesis
    proof (cases "pt_id t \<in> set fin \<or> pt_id t \<in> set ex")
      case True
      then show ?thesis using 2(1) [OF False True] False by auto
    next
      case out: False
      have "enter_loop n fin ex (t # ts) = t # enter_loop (n - 1) (pt_id t # fin) ex ts" using False out by simp
      moreover have "Suc (n - 1) = n" using False by simp
      ultimately show ?thesis using 2(2) [OF False out] out
        by (simp only: length_Cons list.set ball_simps) auto
    qed
  qed simp
qed simp

lemma length_id_set: "length (id_set xs) = card (set xs)"
  by (simp add: id_set_def length_remdups_card_conv)

text \<open>What the result says of the gate it was finished from.\<close>

lemma finish_gate_simps:
  "gr_permissions (finish_gate si held ts cs ps fo ec pn g) = g_permissions g"
  "gr_retained (finish_gate si held ts cs ps fo ec pn g) = id_set (g_retained g)"
  "gr_exited (finish_gate si held ts cs ps fo ec pn g) = id_set (g_exited g)"
  "gr_rotations (finish_gate si held ts cs ps fo ec pn g) = g_pairs g"
  "gr_exposure_cap (finish_gate si held ts cs ps fo ec pn g) = max 0 (gp_exposure_cap ps)"
  by (simp_all add: finish_gate_def Let_def)

lemma finish_gate_targets:
  fixes si held ts cs ps fo ec pn g
  defines "r \<equiv> finish_gate si held ts cs ps fo ec pn g"
  obtains new where "set (map ft_id (gr_targets r)) = set (g_retained g) \<union> set (g_rotate_to g) \<union> set new"
    "set new \<inter> set (g_exited g) = {}" "set new \<inter> (set (g_retained g) \<union> set (g_rotate_to g)) = {}" "set new \<subseteq> pt_id ` set ts"
    "set new \<inter> hn_id ` set held = {}" "distinct (map ft_id (gr_targets r))"
    "length (gr_targets r) \<le> max (nat (gr_k_entry r)) (card (set (g_retained g) \<union> set (g_rotate_to g)))"
proof -
  define final0 where "final0 = id_set (g_retained g @ g_rotate_to g)"
  define k where "k = gr_k_entry r"
  define cand where "cand = sort_key (\<lambda>t. (opt_or (pt_rank t) (10 ^ 9), pt_id t)) (filter (\<lambda>t. held_by_id held (pt_id t) = None) ts)"
  define ent where "ent = enter_loop (nat (k - int (length final0))) final0 (g_exited g) cand"
  have ids: "map ft_id (gr_targets r) = id_set (final0 @ map pt_id ent)"
    by (simp add: r_def finish_gate_def Let_def ent_def cand_def final0_def k_def comp_def final_target_of_def)
  note e = enter_loop_props [of "nat (k - int (length final0))" final0 "g_exited g" cand, folded ent_def]
  have "set cand \<subseteq> set ts" "\<And>t. t \<in> set cand \<Longrightarrow> pt_id t \<notin> hn_id ` set held"
    by (auto simp: cand_def held_by_id_None)
  then have c: "pt_id ` set ent \<subseteq> pt_id ` set ts" "pt_id ` set ent \<inter> hn_id ` set held = {}" using e by blast+
  have "card (set final0 \<union> pt_id ` set ent) \<le> card (set final0) + card (pt_id ` set ent)" by (rule card_Un_le)
  also have "card (pt_id ` set ent) \<le> length ent" using card_image_le [of "set ent" pt_id] card_length [of ent] by simp
  also have "length ent \<le> nat (k - int (length final0))" using e by simp
  finally have "card (set final0 \<union> pt_id ` set ent) \<le> card (set final0) + nat (k - int (length final0))" by simp
  moreover have f0: "length final0 = card (set final0)" by (simp add: final0_def length_id_set)
  ultimately have l: "card (set final0 \<union> pt_id ` set ent) \<le> max (nat k) (card (set final0))" by linarith
  have "length (gr_targets r) = length (id_set (final0 @ map pt_id ent))" using ids by (metis length_map)
  also have "\<dots> = card (set final0 \<union> pt_id ` set ent)" by (simp add: length_id_set)
  finally have len: "length (gr_targets r) \<le> max (nat k) (card (set (g_retained g) \<union> set (g_rotate_to g)))"
    using l by (simp add: final0_def)
  show thesis
  proof (rule that [of "map pt_id ent"])
    show "set (map ft_id (gr_targets r)) = set (g_retained g) \<union> set (g_rotate_to g) \<union> set (map pt_id ent)"
      unfolding ids by (simp add: final0_def)
    show "distinct (map ft_id (gr_targets r))" unfolding ids by simp
  qed (use e c len in \<open>auto simp: k_def final0_def\<close>)
qed

lemma apply_sell_gate_cases:
  assumes "apply_sell_gate si today held ts cs ps fee fo ec pn = Inr r"
  obtains g where "r = finish_gate si held ts cs ps fo ec pn g"
    "gate_inv (authorised fee ps today cs (id_set (map hn_id held)) held (pt_id ` set ts) fo) fo (id_set (map hn_id held)) (may_rotate cs (id_set (map hn_id held)) ps)
      (filter (\<lambda>i. i \<in> pt_id ` set ts) (id_set (map hn_id held)) @ filter (\<lambda>i. i \<notin> pt_id ` set ts) (id_set (map hn_id held))) g"
proof -
  from assms obtain g where r: "r = finish_gate si held ts cs ps fo ec pn g" and
    "foldM (review_step fo cs (id_set (map hn_id held)) ps fee today ec)
      (foldl (policy_step fo ps ec) empty_gate
        (List.map_filter (held_by_id held) (filter (\<lambda>i. i \<in> pt_id ` set ts) (id_set (map hn_id held)))))
      (List.map_filter (held_by_id held) (filter (\<lambda>i. i \<notin> pt_id ` set ts) (id_set (map hn_id held)))) = Inr g"
    unfolding apply_sell_gate_def Let_def bnd_eq_Inr by auto
  from that [OF r gate_loops [OF this(2)]] show thesis .
qed

definition gate_held :: "held_name list" where
  "gate_held =
     [\<lparr>hn_id = 1, hn_ticker = ''SBER'', hn_quantity = 10, hn_current_weight = 1/4, hn_rank = Some 2, hn_semantic = EXPECTED_RETURN,
       hn_expected_return = Some (1/16), hn_signal_as_of = Some (date_of 2026 10 1), hn_price = Some 100, hn_avg_entry = None,
       hn_unrealized_pnl = None, hn_in_exit_band = True, hn_signal_stale = False, hn_review_trigger = False\<rparr>,
      \<lparr>hn_id = 2, hn_ticker = ''GAZP'', hn_quantity = 10, hn_current_weight = 1/4, hn_rank = Some 30, hn_semantic = EXPECTED_RETURN,
       hn_expected_return = Some (1/16), hn_signal_as_of = Some (date_of 2026 10 1), hn_price = Some 50, hn_avg_entry = None,
       hn_unrealized_pnl = None, hn_in_exit_band = False, hn_signal_stale = False, hn_review_trigger = False\<rparr>]"

definition gate_policy :: "policy_target list" where
  "gate_policy =
     [\<lparr>pt_id = 1, pt_ticker = ''SBER'', pt_target_weight = 1/2, pt_rank = Some 2, pt_semantic = EXPECTED_RETURN,
       pt_expected_return = Some (1/16), pt_action = Some ''HOLD_WITHIN_EXIT_BAND'', pt_price = Some 100,
       pt_signal_as_of = Some (date_of 2026 10 1), pt_signal_stale = False\<rparr>]"

definition gate_candidates :: "replacement list" where
  "gate_candidates =
     [\<lparr>rp_id = 7, rp_ticker = ''LKOH'', rp_rank = Some 1, rp_semantic = EXPECTED_RETURN, rp_expected_return = Some (1/8),
       rp_price = Some 7000, rp_signal_as_of = None, rp_signal_stale = False\<rparr>]"

definition gate_limits :: gate_params where
  "gate_limits = \<lparr>gp_slippage_bps = 5, gp_min_edge_bps = 0, gp_profile_code = Some sber_code, gp_k_entry = Some 5,
     gp_exposure_cap = 1, gp_as_of = None\<rparr>"

definition gate_sample :: "gate_result res" where
  "gate_sample = apply_sell_gate id (Ord 1) gate_held gate_policy gate_candidates gate_limits
     (broker_fee_estimate (FeeEngineEstimator sber_engine)) Map.empty (Some 40) (Some ''top20'')"

lemma gate_sample_result:
  "map_sum id (\<lambda>r. (map ft_id (gr_targets r), map (\<lambda>p. (sp_id p, sp_allowed p)) (gr_permissions r), gr_retained r)) gate_sample =
     Inr ([1, 7], [(1, False), (2, True)], [1])"
  by code_simp

lemma gate_sample_returned:
  obtains r where "gate_sample = Inr r" "map ft_id (gr_targets r) = [1, 7]"
    "map (\<lambda>p. (sp_id p, sp_allowed p)) (gr_permissions r) = [(1, False), (2, True)]" "gr_retained r = [1]"
proof (cases gate_sample)
  case (Inl e)
  show thesis using gate_sample_result unfolding Inl by simp
next
  case (Inr r)
  have "map ft_id (gr_targets r) = [1, 7] \<and> map (\<lambda>p. (sp_id p, sp_allowed p)) (gr_permissions r) = [(1, False), (2, True)] \<and>
      gr_retained r = [1]"
    using gate_sample_result unfolding Inr by simp
  then show thesis by (elim conjE) (rule that [OF Inr])
qed

text \<open>Rotations out of distinct names are distinct when the held ones among them go to themselves.\<close>

lemma distinct_rotations:
  assumes "distinct (filter (\<lambda>b. b \<notin> H) (map snd ps))" "distinct (map fst ps)" "\<And>i b. (i, b) \<in> set ps \<Longrightarrow> b \<notin> H \<or> b = i"
    and "fst ` set ps \<subseteq> H"
  shows "distinct (map snd ps)"
  using assms
proof (induction ps)
  case (Cons x ps)
  obtain i b where x: "x = (i, b)" by (cases x)
  have "b \<notin> snd ` set ps"
  proof
    assume "b \<in> snd ` set ps"
    then obtain j where j: "(j, b) \<in> set ps" by force
    show False
    proof (cases "b \<in> H")
      case True
      then have "b = i" "b = j" using Cons.prems(3) [of i b] Cons.prems(3) [of j b] j by (auto simp: x)
      then show False using Cons.prems(2) j by (force simp: x)
    next
      case False
      then show False using Cons.prems(1) j by (force simp: x)
    qed
  qed
  moreover have "distinct (map snd ps)"
    using Cons.prems by (intro Cons.IH) (auto split: if_splits)
  ultimately show ?case by (simp add: x)
qed simp

section \<open>Properties\<close>

text \<open>C7: no sale without authorisation. The gate emits exactly one permission for every held instrument,
  and one that allows a sale was forced by a risk decision, or was an explicit exit of a name that the
  policy dropped, or names a replacement for which the rotation pays: both fees are known and the
  expected return gained exceeds them, the slippage of both sides and the margin. A retained name may
  be sold only under a forced risk reduction.\<close>

theorem sell_gate_authorises:
  assumes "apply_sell_gate si today held ts cs ps fee forced ec pn = Inr r"
  shows "distinct (map sp_id (gr_permissions r)) \<and> set (map sp_id (gr_permissions r)) = hn_id ` set held \<and>
    (\<forall>p \<in> set (gr_permissions r).
      (sp_allowed p \<longrightarrow> authorised fee ps today cs (id_set (map hn_id held)) held (pt_id ` set ts) forced p) \<and>
      (sp_id p \<in> set (gr_retained r) \<and> sp_allowed p \<longrightarrow> forced (sp_id p) = Some RISK_REDUCE))"
  using assms
proof (rule apply_sell_gate_cases)
  fix g
  define hs where "hs = id_set (map hn_id held)"
  define seen where "seen = filter (\<lambda>i. i \<in> pt_id ` set ts) hs @ filter (\<lambda>i. i \<notin> pt_id ` set ts) hs"
  assume r: "r = finish_gate si held ts cs ps forced ec pn g"
    and inv: "gate_inv (authorised fee ps today cs (id_set (map hn_id held)) held (pt_id ` set ts) forced) forced (id_set (map hn_id held)) (may_rotate cs (id_set (map hn_id held)) ps)
      (filter (\<lambda>i. i \<in> pt_id ` set ts) (id_set (map hn_id held)) @ filter (\<lambda>i. i \<notin> pt_id ` set ts) (id_set (map hn_id held))) g"
  have "map sp_id (gr_permissions r) = seen"
    using inv unfolding r finish_gate_simps gate_inv_def hs_def [symmetric] seen_def [symmetric] by blast
  moreover have "distinct seen" "set seen = hn_id ` set held" by (auto simp: seen_def hs_def)
  ultimately show ?thesis using inv unfolding r finish_gate_simps gate_inv_def id_set_set by metis
qed

theorem sell_gate_authorises_witness:
  "\<exists>r p. gate_sample = Inr r \<and> p \<in> set (gr_permissions r) \<and> sp_id p = 2 \<and> sp_allowed p \<and>
     authorised (broker_fee_estimate (FeeEngineEstimator sber_engine)) gate_limits (Ord 1) gate_candidates
       (id_set (map hn_id gate_held)) gate_held (pt_id ` set gate_policy) Map.empty p"
proof -
  obtain r where r: "gate_sample = Inr r" and m: "map (\<lambda>p. (sp_id p, sp_allowed p)) (gr_permissions r) = [(1, False), (2, True)]"
    by (rule gate_sample_returned)
  obtain q p where "gr_permissions r = [q, p]" "sp_id p = 2" "sp_allowed p" using m by (auto simp: map_eq_Cons_conv)
  with sell_gate_authorises [OF r [unfolded gate_sample_def]] r show ?thesis by fastforce
qed

text \<open>C21: the gate splits the holdings into retained and exited names, without overlap. Each rotation leaves an
  exited name, no name twice, for a candidate with a fresh expected return and a rank within the entry limit, and no
  two rotations go to the same instrument; that instrument is not held, unless the caller offers a held name as its
  own replacement. The targets are the retained names, the instruments rotated into and further policy targets that
  are not held, each once; they name an exited instrument only if it was rotated into itself, and new names enter only
  while the number of targets is within the entry limit.\<close>

theorem sell_gate_partitions:
  assumes "apply_sell_gate si today held ts cs ps fee forced ec pn = Inr r"
  shows "set (gr_retained r) \<union> set (gr_exited r) = hn_id ` set held \<and> set (gr_retained r) \<inter> set (gr_exited r) = {} \<and>
    distinct (map fst (gr_rotations r)) \<and> distinct (map snd (gr_rotations r)) \<and>
    (\<forall>(i, b) \<in> set (gr_rotations r). i \<in> set (gr_exited r) \<and> (b \<notin> hn_id ` set held \<or> b = i) \<and>
      (\<exists>c \<in> set cs. rp_id c = b \<and> rp_expected_return c \<noteq> None \<and> \<not> rp_signal_stale c \<and>
        (\<forall>k. gp_k_entry ps = Some k \<longrightarrow> (\<exists>n. rp_rank c = Some n \<and> n \<le> k)))) \<and>
    distinct (map ft_id (gr_targets r)) \<and>
    set (gr_retained r) \<union> snd ` set (gr_rotations r) \<subseteq> ft_id ` set (gr_targets r) \<and>
    ft_id ` set (gr_targets r) \<subseteq> set (gr_retained r) \<union> snd ` set (gr_rotations r) \<union> (pt_id ` set ts - hn_id ` set held) \<and>
    (\<forall>i \<in> ft_id ` set (gr_targets r) \<inter> set (gr_exited r). (i, i) \<in> set (gr_rotations r)) \<and>
    length (gr_targets r) \<le> max (nat (gr_k_entry r)) (card (set (gr_retained r) \<union> snd ` set (gr_rotations r)))"
  using assms(1)
proof (rule apply_sell_gate_cases)
  fix g
  define hs where "hs = id_set (map hn_id held)"
  define seen where "seen = filter (\<lambda>i. i \<in> pt_id ` set ts) hs @ filter (\<lambda>i. i \<notin> pt_id ` set ts) hs"
  define auth where "auth = authorised fee ps today cs hs held (pt_id ` set ts) forced"
  assume r: "r = finish_gate si held ts cs ps forced ec pn g"
    and "gate_inv (authorised fee ps today cs (id_set (map hn_id held)) held (pt_id ` set ts) forced) forced (id_set (map hn_id held)) (may_rotate cs (id_set (map hn_id held)) ps)
      (filter (\<lambda>i. i \<in> pt_id ` set ts) (id_set (map hn_id held)) @ filter (\<lambda>i. i \<notin> pt_id ` set ts) (id_set (map hn_id held))) g"
  then have inv: "gate_inv auth forced hs (may_rotate cs hs ps) seen g" by (simp add: auth_def hs_def seen_def)
  have hs: "set seen = hn_id ` set held" "set hs = hn_id ` set held" by (auto simp: seen_def hs_def)
  have split: "set (g_retained g) \<union> set (g_exited g) = hn_id ` set held" "set (g_retained g) \<inter> set (g_exited g) = {}"
    and pairs: "fst ` set (g_pairs g) \<subseteq> set (g_exited g)" "distinct (map fst (g_pairs g))"
    using inv hs by (auto simp: gate_inv_def)
  have rot: "(b \<notin> hn_id ` set held \<or> b = i) \<and> (\<exists>c \<in> set cs. rp_id c = b \<and> rp_expected_return c \<noteq> None \<and> \<not> rp_signal_stale c \<and>
      (\<forall>k. gp_k_entry ps = Some k \<longrightarrow> (\<exists>n. rp_rank c = Some n \<and> n \<le> k)))" if "(i, b) \<in> set (g_pairs g)" for i b
  proof -
    have "may_rotate cs hs ps i b" using inv that by (auto simp: gate_inv_def)
    then obtain c where c: "c \<in> set cs" "rp_id c = b" and e: "entry_eligible (filter (\<lambda>j. j \<noteq> i) hs) (gp_k_entry ps) c"
      by (auto simp: may_rotate_def)
    from e have k: "\<exists>n. rp_rank c = Some n \<and> n \<le> k" if "gp_k_entry ps = Some k" for k
      using that by (cases "rp_rank c") (auto simp: entry_eligible_def)
    from e c(2) have "b \<notin> hn_id ` set held \<or> b = i" and "rp_expected_return c \<noteq> None" "\<not> rp_signal_stale c"
      by (auto simp: entry_eligible_def hs)
    with c k show ?thesis by blast
  qed
  have to: "map snd (g_pairs g) = g_rotate_to g" using inv by (simp add: gate_inv_def)
  have snd: "snd ` set (g_pairs g) = set (g_rotate_to g)" using to by (metis set_map)
  have dist: "distinct (map snd (g_pairs g))"
  proof (rule distinct_rotations [of "hn_id ` set held"])
    show "distinct (filter (\<lambda>b. b \<notin> hn_id ` set held) (map snd (g_pairs g)))"
      using inv unfolding gate_inv_def hs(2) to [symmetric] by blast
    show "fst ` set (g_pairs g) \<subseteq> hn_id ` set held" using pairs(1) split(1) by blast
  qed (use pairs(2) rot in blast)+
  obtain new where ids: "set (map ft_id (gr_targets r)) = set (g_retained g) \<union> set (g_rotate_to g) \<union> set new"
    and new: "set new \<inter> hn_id ` set held = {}" "set new \<subseteq> pt_id ` set ts" and dt: "distinct (map ft_id (gr_targets r))"
    and len: "length (gr_targets r) \<le> max (nat (gr_k_entry r)) (card (set (g_retained g) \<union> set (g_rotate_to g)))"
    unfolding r by (rule finish_gate_targets)
  have ft: "ft_id ` set (gr_targets r) = set (g_retained g) \<union> set (g_rotate_to g) \<union> set new" using ids by simp
  have self: "(i, i) \<in> set (g_pairs g)" if i: "i \<in> ft_id ` set (gr_targets r)" "i \<in> set (g_exited g)" for i
  proof -
    have "i \<in> set (g_rotate_to g)" using i split new(1) unfolding ft by blast
    then obtain j where j: "(j, i) \<in> set (g_pairs g)" using snd by force
    then show ?thesis using rot [OF j] i(2) split by blast
  qed
  have gr: "gr_retained r = id_set (g_retained g)" "gr_exited r = id_set (g_exited g)" "gr_rotations r = g_pairs g"
    by (simp_all add: r finish_gate_simps)
  have rotations: "\<forall>(i, b) \<in> set (g_pairs g). i \<in> set (g_exited g) \<and> (b \<notin> hn_id ` set held \<or> b = i) \<and>
      (\<exists>c \<in> set cs. rp_id c = b \<and> rp_expected_return c \<noteq> None \<and> \<not> rp_signal_stale c \<and>
        (\<forall>k. gp_k_entry ps = Some k \<longrightarrow> (\<exists>n. rp_rank c = Some n \<and> n \<le> k)))"
    using rot pairs(1) by fastforce
  have selves: "\<forall>i \<in> ft_id ` set (gr_targets r) \<inter> set (g_exited g). (i, i) \<in> set (g_pairs g)" using self by blast
  have sub: "set (g_retained g) \<union> set (g_rotate_to g) \<subseteq> ft_id ` set (gr_targets r)" unfolding ft by blast
  have sup: "ft_id ` set (gr_targets r) \<subseteq> set (g_retained g) \<union> set (g_rotate_to g) \<union> (pt_id ` set ts - hn_id ` set held)"
    unfolding ft using new by blast
  show ?thesis unfolding gr id_set_set snd
    using split pairs(2) dist rotations sub sup dt selves len by (intro conjI)
qed

theorem sell_gate_partitions_witness:
  "\<exists>r. gate_sample = Inr r \<and> set (gr_retained r) \<union> set (gr_exited r) = {1, 2} \<and> length (gr_targets r) = 2 \<and>
     (\<forall>(i, b) \<in> set (gr_rotations r). i \<in> set (gr_exited r))"
proof -
  obtain r where r: "gate_sample = Inr r" and m: "map ft_id (gr_targets r) = [1, 7]" by (rule gate_sample_returned)
  note p = sell_gate_partitions [OF r [unfolded gate_sample_def]]
  have "set (gr_retained r) \<union> set (gr_exited r) = {1, 2}" using p by (simp add: gate_held_def)
  moreover have "\<forall>(i, b) \<in> set (gr_rotations r). i \<in> set (gr_exited r)" using p by fast
  moreover have "length (map ft_id (gr_targets r)) = 2" unfolding m by simp
  ultimately show ?thesis using r by auto
qed

text \<open>the weights. A retained name keeps exactly its current weight unless a risk reduction is forced;
  what the retained names leave of the exposure cap is shared equally by the others, so retained capital
  never funds a purchase: when the retained weights reach the cap, every other target has weight zero.\<close>

theorem sell_gate_weights:
  assumes "apply_sell_gate si today held ts cs ps fee forced ec pn = Inr r" and "t \<in> set (gr_targets r)"
  shows "(ft_id t \<in> set (gr_retained r) \<and> forced (ft_id t) \<noteq> Some RISK_REDUCE \<longrightarrow>
      (\<exists>h \<in> set held. hn_id h = ft_id t \<and> ft_weight t = hn_current_weight h)) \<and>
    (ft_id t \<notin> set (gr_retained r) \<longrightarrow> ft_weight t = gr_free_weight r \<and> 0 \<le> ft_weight t) \<and>
    (gr_exposure_cap r \<le> gr_fixed_weight_sum r \<longrightarrow> gr_free_weight r = 0)"
  using assms(1)
proof (rule apply_sell_gate_cases)
  fix g
  define seen where "seen = filter (\<lambda>i. i \<in> pt_id ` set ts) (id_set (map hn_id held)) @ filter (\<lambda>i. i \<notin> pt_id ` set ts) (id_set (map hn_id held))"
  assume r: "r = finish_gate si held ts cs ps forced ec pn g"
    and "gate_inv (authorised fee ps today cs (id_set (map hn_id held)) held (pt_id ` set ts) forced) forced (id_set (map hn_id held)) (may_rotate cs (id_set (map hn_id held)) ps)
      (filter (\<lambda>i. i \<in> pt_id ` set ts) (id_set (map hn_id held)) @ filter (\<lambda>i. i \<notin> pt_id ` set ts) (id_set (map hn_id held))) g"
  then have ret: "set (g_retained g) \<subseteq> set seen" and act: "\<And>i. map_of (g_actions g) i = Some RISK_REDUCE \<Longrightarrow> forced i = Some RISK_REDUCE"
    unfolding gate_inv_def seen_def by blast+
  have seen: "set seen = hn_id ` set held" by (auto simp: seen_def)
  define cap fw where "cap = gr_exposure_cap r" and "fw = gr_free_weight r"
  obtain n where fw: "fw = free_weight cap (gr_fixed_weight_sum r) n"
    by (simp add: fw_def r finish_gate_def Let_def cap_def)
  have w: "ft_weight t = (if ft_id t \<in> set (g_retained g) then fixed_weight g (held_by_id held) cap (ft_id t) else fw)"
    using assms(2) by (auto simp: r finish_gate_def Let_def final_target_of_def cap_def fw_def)
  have z: "fw = 0" if "cap \<le> gr_fixed_weight_sum r"
  proof -
    have "fsub cap (gr_fixed_weight_sum r) \<le> 0" unfolding fsub_def using that by (intro fl_nonpos) simp
    then show ?thesis by (simp add: fw free_weight_def fdiv_def max_def)
  qed
  have nn: "0 \<le> fw" by (auto simp: fw free_weight_def fdiv_def intro!: fl_nonneg divide_nonneg_nonneg)
  have keep: "\<exists>h \<in> set held. hn_id h = i \<and> fixed_weight g (held_by_id held) cap i = hn_current_weight h"
    if i: "i \<in> set (g_retained g)" "forced i \<noteq> Some RISK_REDUCE" for i
  proof -
    have "held_by_id held i \<noteq> None" using i(1) ret seen by (auto simp: held_by_id_None)
    then obtain h where h: "held_by_id held i = Some h" by blast
    have "map_of (g_actions g) i \<noteq> Some RISK_REDUCE" using act i(2) by blast
    then have "opt_or (map_of (g_actions g) i) HOLD \<noteq> RISK_REDUCE"
      by (cases "map_of (g_actions g) i") (simp_all add: gate_codes)
    then have "fixed_weight g (held_by_id held) cap i = hn_current_weight h" by (simp add: fixed_weight_def h)
    with held_by_id_Some [OF h] show ?thesis by blast
  qed
  have gr: "set (gr_retained r) = set (g_retained g)" by (simp add: r finish_gate_simps)
  show ?thesis unfolding gr cap_def [symmetric] fw_def [symmetric] using w keep nn z by auto
qed

theorem sell_gate_weights_witness:
  "\<exists>r t. gate_sample = Inr r \<and> t \<in> set (gr_targets r) \<and> ft_id t = 7 \<and> ft_weight t = gr_free_weight r \<and> 0 \<le> ft_weight t"
proof -
  obtain r where r: "gate_sample = Inr r" and m: "map ft_id (gr_targets r) = [1, 7]" and k: "gr_retained r = [1]"
    by (rule gate_sample_returned)
  obtain x t where t: "gr_targets r = [x, t]" "ft_id t = 7" using m by (auto simp: map_eq_Cons_conv)
  then have "t \<in> set (gr_targets r)" by simp
  with sell_gate_weights [OF r [unfolded gate_sample_def] this] r t(2) k show ?thesis by auto
qed

end
