(* ===== verification/Session.thy ===== *)
theory Session
  imports Prelude
begin

text \<open>
  A database session as the services use it: a state that a call reads and writes, and a result or
  an exception. A raise keeps what was written before it; \<open>savepoint\<close> is
  \<open>with session.begin_nested()\<close>, which undoes the writes of a body that raises, and
  \<open>on_integrity\<close> is \<open>except IntegrityError\<close> around it.
\<close>

type_synonym ('s, 'a) st = "'s \<Rightarrow> 'a res \<times> 's"

definition ret :: "'a \<Rightarrow> ('s, 'a) st" where "ret x s = (Inr x, s)"
definition raise :: "pyexn \<Rightarrow> ('s, 'a) st" where "raise e s = (Inl e, s)"
definition lift :: "'a res \<Rightarrow> ('s, 'a) st" where "lift r s = (r, s)"
definition gets :: "('s \<Rightarrow> 'a) \<Rightarrow> ('s, 'a) st" where "gets f s = (Inr (f s), s)"
definition modify :: "('s \<Rightarrow> 's) \<Rightarrow> ('s, unit) st" where "modify f s = (Inr (), f s)"

definition bind_st :: "('s, 'a) st \<Rightarrow> ('a \<Rightarrow> ('s, 'b) st) \<Rightarrow> ('s, 'b) st" where
  "bind_st m f s = (case m s of (Inl e, s') \<Rightarrow> (Inl e, s') | (Inr x, s') \<Rightarrow> f x s')"

definition savepoint :: "('s, 'a) st \<Rightarrow> ('s, 'a) st" where
  "savepoint m s = (case m s of (Inl e, s') \<Rightarrow> (Inl e, s) | (Inr x, s') \<Rightarrow> (Inr x, s'))"

definition on_integrity :: "('s, 'a) st \<Rightarrow> ('s, 'a) st \<Rightarrow> ('s, 'a) st" where
  "on_integrity m h s = (case m s of (Inl IntegrityError, s') \<Rightarrow> h s' | r \<Rightarrow> r)"

text \<open>\<open>raise ... from exc\<close> that renames an exception.\<close>

definition map_exn :: "(pyexn \<Rightarrow> pyexn) \<Rightarrow> 'a res \<Rightarrow> 'a res" where
  "map_exn f r = (case r of Inl e \<Rightarrow> Inl (f e) | Inr x \<Rightarrow> Inr x)"

lemmas st_defs = ret_def raise_def lift_def gets_def modify_def

lemma bind_ret [simp]: "bind_st (ret x) f = f x"
  by (rule ext) (simp add: bind_st_def ret_def)

lemma bind_raise [simp]: "bind_st (raise e) f = raise e"
  by (rule ext) (simp add: bind_st_def raise_def)

lemma bind_gets: "bind_st (gets g) f s = f (g s) s"
  by (simp add: bind_st_def gets_def)

lemma bind_modify: "bind_st (modify g) f s = f () (g s)"
  by (simp add: bind_st_def modify_def)

lemma bind_lift: "bind_st (lift r) f s = (case r of Inl e \<Rightarrow> (Inl e, s) | Inr x \<Rightarrow> f x s)"
  by (simp add: bind_st_def lift_def split: sum.splits)

lemmas bind_simps = bind_gets bind_modify bind_lift

lemma map_exn_Inr [exn_simps]: "map_exn f r = Inr x \<longleftrightarrow> r = Inr x"
  by (cases r) (auto simp: map_exn_def)

section \<open>Predicates that a call keeps\<close>

text \<open>
  \<open>keeps P m\<close>: the call leaves a state with \<open>P\<close> whether it returns or raises. The rules below
  follow the constructors, so that a service is checked call by call.
\<close>

definition keeps :: "('s \<Rightarrow> bool) \<Rightarrow> ('s, 'a) st \<Rightarrow> bool" where
  "keeps P m \<longleftrightarrow> (\<forall>s. P s \<longrightarrow> P (snd (m s)))"

lemma keepsD: "keeps P m \<Longrightarrow> P s \<Longrightarrow> P (snd (m s))"
  by (simp add: keeps_def)

lemma keeps_pure [intro, simp]:
  "keeps P (ret x)" "keeps P (raise e)" "keeps P (lift r)" "keeps P (gets g)"
  by (simp_all add: keeps_def st_defs)

lemma keeps_bind [intro]:
  "keeps P m \<Longrightarrow> (\<And>x. keeps P (f x)) \<Longrightarrow> keeps P (bind_st m f)"
  by (auto simp: keeps_def bind_st_def split: sum.splits prod.splits)

lemma keeps_bind_gets:
  "(\<And>s. P s \<Longrightarrow> P (snd (f (g s) s))) \<Longrightarrow> keeps P (bind_st (gets g) f)"
  by (simp add: keeps_def bind_gets)

lemma keeps_savepoint:
  assumes "\<And>s x s'. P s \<Longrightarrow> m s = (Inr x, s') \<Longrightarrow> P s'"
  shows "keeps P (savepoint m)"
  using assms by (auto simp: keeps_def savepoint_def split: sum.splits prod.splits)

lemma keeps_on_integrity:
  "keeps P m \<Longrightarrow> keeps P h \<Longrightarrow> keeps P (on_integrity m h)"
proof -
  have "on_integrity m h s = (if fst (m s) = Inl IntegrityError then h (snd (m s)) else m s)" for s
    by (cases "m s"; cases "fst (m s)") (simp_all add: on_integrity_def split: pyexn.split)
  then show "keeps P m \<Longrightarrow> keeps P h \<Longrightarrow> ?thesis" by (simp add: keeps_def)
qed

lemma keeps_if [intro]: "(c \<Longrightarrow> keeps P m) \<Longrightarrow> (\<not> c \<Longrightarrow> keeps P m') \<Longrightarrow> keeps P (if c then m else m')"
  by simp

lemma savepoint_raise: "savepoint m s = (Inl e, s') \<Longrightarrow> s' = s"
  by (auto simp: savepoint_def split: sum.splits prod.splits)

lemma savepoint_return: "savepoint m s = (Inr x, s') \<longleftrightarrow> m s = (Inr x, s')"
  by (auto simp: savepoint_def split: sum.splits prod.splits)

lemma bind_return [exn_simps]:
  "bind_st m f s = (Inr y, t) \<longleftrightarrow> (\<exists>x s'. m s = (Inr x, s') \<and> f x s' = (Inr y, t))"
  by (auto simp: bind_st_def split: sum.splits prod.splits)

lemma st_return [exn_simps]:
  "ret x s = (Inr y, t) \<longleftrightarrow> y = x \<and> t = s"
  "raise e s = (Inr y, t) \<longleftrightarrow> False"
  "lift r s = (Inr y, t) \<longleftrightarrow> r = Inr y \<and> t = s"
  "gets g s = (Inr z, t) \<longleftrightarrow> z = g s \<and> t = s"
  "modify h s = (Inr u, t) \<longleftrightarrow> t = h s"
  by (auto simp: st_defs)

section \<open>Calls that undo their writes\<close>

text \<open>\<open>pure_st m\<close>: a read; \<open>undoes m\<close>: a call that raises leaves the state as it found it.\<close>

definition pure_st :: "('s, 'a) st \<Rightarrow> bool" where
  "pure_st m \<longleftrightarrow> (\<forall>s. snd (m s) = s)"

definition undoes :: "('s, 'a) st \<Rightarrow> bool" where
  "undoes m \<longleftrightarrow> (\<forall>s e s'. m s = (Inl e, s') \<longrightarrow> s' = s)"

lemma undoesD: "undoes m \<Longrightarrow> m s = (Inl e, s') \<Longrightarrow> s' = s"
  by (simp add: undoes_def)

lemma pure_st_simps [simp]: "pure_st (ret x)" "pure_st (raise e)" "pure_st (lift r)" "pure_st (gets g)"
  by (simp_all add: pure_st_def st_defs)

lemma pure_undoes: "pure_st m \<Longrightarrow> undoes m"
  by (auto simp: pure_st_def undoes_def) (metis snd_conv)

lemma undoes_bind: "pure_st m \<Longrightarrow> (\<And>x. undoes (f x)) \<Longrightarrow> undoes (bind_st m f)"
  unfolding pure_st_def undoes_def bind_st_def
  by (auto split: prod.splits sum.splits) (metis snd_conv)+

lemma undoes_savepoint: "undoes (savepoint m)"
  by (simp add: undoes_def savepoint_raise)

lemma undoes_on_integrity: "undoes m \<Longrightarrow> undoes h \<Longrightarrow> undoes (on_integrity m h)"
  unfolding undoes_def on_integrity_def
  by (auto split: prod.splits sum.splits pyexn.splits) blast

lemma undoes_simps [simp]: "undoes (ret x)" "undoes (raise e)" "undoes (lift r)" "undoes (gets g)"
  by (simp_all add: pure_undoes)

lemmas undoes_intros = undoes_bind undoes_savepoint undoes_on_integrity pure_st_simps undoes_simps

end
