(* ===== verification/Store.thy ===== *)
theory Store
  imports Ledger Fees Session
begin

text \<open>
  The tables of \<open>backend/app/modules/portfolio/infrastructure/models.py\<close> that the services read and
  write, and the functions of \<open>personal_portfolio_service.py\<close> that connect the journal with its
  projection: \<open>_active_operations\<close>, \<open>rebuild_ledger_from_journal\<close>, \<open>project_portfolio\<close> and
  \<open>reconcile\<close>. A table is the list of its rows in id order. A position row is identified by its
  unique key \<open>(portfolio_id, instrument_id)\<close>. Column widths (\<open>Numeric(20, 6)\<close>) are not modelled.
\<close>

section \<open>Tables\<close>

definition LIFECYCLE_DRAFT :: string where "LIFECYCLE_DRAFT = ''DRAFT''"
definition LIFECYCLE_ACTIVE :: string where "LIFECYCLE_ACTIVE = ''ACTIVE''"

record manual_portfolio =
  mp_id :: int
  mp_name :: string
  mp_source :: string
  mp_cash :: decimal
  mp_status :: string
  mp_note :: "string option"
  mp_is_test :: bool
  mp_contributed :: decimal
  mp_withdrawn :: decimal
  mp_realized :: decimal
  mp_broker_account :: "int option"
  mp_updated_at :: instant
  mp_version :: int

record manual_position =
  pos_portfolio :: int
  pos_instrument :: int
  pos_units :: decimal
  pos_average_price :: "decimal option"
  pos_note :: "string option"
  pos_non_standard_lot :: bool
  pos_updated_at :: instant

datatype op_status = OP_ACTIVE | OP_CANCELLED | OP_SUPERSEDED

datatype commission_source = CS_MANUAL | CS_PROFILE_ESTIMATE | CS_NONE

record personal_operation =
  op_id :: int
  op_portfolio :: int
  op_type :: operation_type
  op_status :: op_status
  op_occurred_at :: instant
  op_instrument :: "int option"
  op_lots :: "decimal option"
  op_units :: "decimal option"
  op_price :: "decimal option"
  op_amount :: "decimal option"
  op_commission :: decimal
  op_source :: string
  op_note :: "string option"
  op_key :: string
  op_supersedes :: "int option"
  op_reason :: "string option"
  op_broker_account :: "int option"
  op_fee_rule :: "int option"
  op_commission_source :: "commission_source option"

record instrument_row =
  in_id :: int
  in_symbol :: string
  in_asset_class :: string

text \<open>An \<open>instrument_sources\<close> row of source MOEX; \<open>is_lotsize\<close> is \<open>int(meta['LOTSIZE'])\<close> when it parses.\<close>

record instrument_source =
  is_instrument :: int
  is_board :: "string option"
  is_lotsize :: "int option"

record pdb =
  db_portfolios :: "manual_portfolio list"
  db_positions :: "manual_position list"
  db_ops :: "personal_operation list"
  db_instruments :: "instrument_row list"
  db_sources :: "instrument_source list"
  db_bond_terms :: "(int \<times> int option) list"
  db_accounts :: "(int \<times> int) list"
  db_rules :: "(int \<times> fee_rule) list"
  db_next :: int

section \<open>Row access\<close>

definition find_portfolio :: "pdb \<Rightarrow> int \<Rightarrow> manual_portfolio option" where
  "find_portfolio d pid = List.find (\<lambda>p. mp_id p = pid) (db_portfolios d)"

definition ops_of :: "pdb \<Rightarrow> int \<Rightarrow> personal_operation list" where
  "ops_of d pid = filter (\<lambda>r. op_portfolio r = pid) (db_ops d)"

definition positions_of :: "pdb \<Rightarrow> int \<Rightarrow> manual_position list" where
  "positions_of d pid = filter (\<lambda>r. pos_portfolio r = pid) (db_positions d)"

definition find_op :: "pdb \<Rightarrow> int \<Rightarrow> personal_operation option" where
  "find_op d i = List.find (\<lambda>r. op_id r = i) (db_ops d)"

definition find_key :: "pdb \<Rightarrow> int \<Rightarrow> string \<Rightarrow> personal_operation option" where
  "find_key d pid key = List.find (\<lambda>r. op_portfolio r = pid \<and> op_key r = key) (db_ops d)"

definition find_position :: "pdb \<Rightarrow> int \<Rightarrow> int \<Rightarrow> manual_position option" where
  "find_position d pid iid = List.find (\<lambda>r. pos_portfolio r = pid \<and> pos_instrument r = iid) (db_positions d)"

definition find_instrument :: "pdb \<Rightarrow> int \<Rightarrow> instrument_row option" where
  "find_instrument d iid = List.find (\<lambda>r. in_id r = iid) (db_instruments d)"

definition upd_portfolio :: "int \<Rightarrow> (manual_portfolio \<Rightarrow> manual_portfolio) \<Rightarrow> pdb \<Rightarrow> pdb" where
  "upd_portfolio pid f d = d\<lparr>db_portfolios := map (\<lambda>p. if mp_id p = pid then f p else p) (db_portfolios d)\<rparr>"

definition upd_op :: "int \<Rightarrow> (personal_operation \<Rightarrow> personal_operation) \<Rightarrow> pdb \<Rightarrow> pdb" where
  "upd_op i f d = d\<lparr>db_ops := map (\<lambda>r. if op_id r = i then f r else r) (db_ops d)\<rparr>"

text \<open>\<open>session.add(row); session.flush()\<close>: the id comes from the sequence; the unique key is checked.\<close>

definition insert_op :: "personal_operation \<Rightarrow> (pdb, personal_operation) st" where
  "insert_op r = bind_st (gets id) (\<lambda>d.
     if find_key d (op_portfolio r) (op_key r) \<noteq> None then raise IntegrityError else
     let row = r\<lparr>op_id := db_next d\<rparr> in
     bind_st (modify (\<lambda>d. d\<lparr>db_ops := db_ops d @ [row], db_next := db_next d + 1\<rparr>)) (\<lambda>_. ret row))"

text \<open>The common tail of every service: \<open>updated_at = now; version = int(version or 1) + 1\<close>.\<close>

definition touch :: "instant \<Rightarrow> manual_portfolio \<Rightarrow> manual_portfolio" where
  "touch now p = p\<lparr>mp_updated_at := now, mp_version := (if mp_version p = 0 then 1 else mp_version p) + 1\<rparr>"

section \<open>Locking\<close>

definition get_portfolio_for_update :: "int \<Rightarrow> bool \<Rightarrow> (pdb, manual_portfolio) st" where
  "get_portfolio_for_update pid allow_test = bind_st (gets (\<lambda>d. find_portfolio d pid)) (\<lambda>row.
     case row of
       None \<Rightarrow> raise (PersonalPortfolioError ''PORTFOLIO_NOT_FOUND'')
     | Some p \<Rightarrow> if mp_is_test p \<and> \<not> allow_test then raise (PersonalPortfolioError ''PORTFOLIO_NOT_FOUND'') else ret p)"

definition lock_portfolio :: "manual_portfolio \<Rightarrow> (pdb, manual_portfolio) st" where
  "lock_portfolio portfolio = get_portfolio_for_update (mp_id portfolio) (mp_is_test portfolio)"

section \<open>Journal and projection\<close>

definition active_operations :: "pdb \<Rightarrow> int \<Rightarrow> personal_operation list" where
  "active_operations d pid =
     sort_key (\<lambda>r. (op_occurred_at r, op_id r)) (filter (\<lambda>r. op_status r = OP_ACTIVE) (ops_of d pid))"

definition event_of :: "personal_operation \<Rightarrow> ledger_event" where
  "event_of r = \<lparr>operation_type = op_type r, instrument_id = op_instrument r,
     ev_units = opt_or (op_units r) 0, price = op_price r, amount = opt_or (op_amount r) 0,
     commission = op_commission r\<rparr>"

definition rebuild_ledger_from_journal :: "pdb \<Rightarrow> int \<Rightarrow> ledger_state res" where
  "rebuild_ledger_from_journal d pid =
     foldM (\<lambda>s r. apply_event s (event_of r)) empty_ledger (active_operations d pid)"

text \<open>The loops over \<open>state.positions\<close> and \<open>existing\<close>: update, insert, delete.\<close>

definition project_row :: "instant \<Rightarrow> ledger_state \<Rightarrow> manual_position \<Rightarrow> manual_position" where
  "project_row now state r = (case map_of (books state) (pos_instrument r) of
     None \<Rightarrow> r
   | Some b \<Rightarrow> r\<lparr>pos_units := units b, pos_average_price := average_cost b, pos_updated_at := now\<rparr>)"

definition new_row :: "instant \<Rightarrow> int \<Rightarrow> int \<times> position_book \<Rightarrow> manual_position" where
  "new_row now pid ib = \<lparr>pos_portfolio = pid, pos_instrument = fst ib, pos_units = units (snd ib),
     pos_average_price = average_cost (snd ib), pos_note = None, pos_non_standard_lot = False, pos_updated_at = now\<rparr>"

definition project_positions :: "instant \<Rightarrow> int \<Rightarrow> ledger_state \<Rightarrow> manual_position list \<Rightarrow> manual_position list" where
  "project_positions now pid state rows =
     (let existing = map pos_instrument (filter (\<lambda>r. pos_portfolio r = pid) rows);
          keep = map fst (books state)
      in map (\<lambda>r. if pos_portfolio r = pid then project_row now state r else r)
           (filter (\<lambda>r. pos_portfolio r \<noteq> pid \<or> pos_instrument r \<in> set keep) rows) @
         map (new_row now pid) (filter (\<lambda>ib. fst ib \<notin> set existing) (books state)))"

definition project_portfolio :: "instant \<Rightarrow> int \<Rightarrow> ledger_state \<Rightarrow> (pdb, unit) st" where
  "project_portfolio now pid state =
     bind_st (lift (money (cash state))) (\<lambda>c.
     bind_st (lift (money (contributed state))) (\<lambda>k.
     bind_st (lift (money (withdrawn state))) (\<lambda>w.
     bind_st (lift (money (realized_pnl state))) (\<lambda>r.
     bind_st (modify (upd_portfolio pid (\<lambda>p. touch now
       (p\<lparr>mp_cash := c, mp_contributed := k, mp_withdrawn := w, mp_realized := r\<rparr>)))) (\<lambda>_.
     modify (\<lambda>d. d\<lparr>db_positions := project_positions now pid state (db_positions d)\<rparr>))))))"

section \<open>Reconciliation\<close>

record reconcile_report =
  rc_ok :: bool
  rc_cash_ok :: bool
  rc_contributed_ok :: bool
  rc_withdrawn_ok :: bool
  rc_realized_ok :: bool
  rc_positions_ok :: bool

definition money_eq :: "decimal \<Rightarrow> decimal \<Rightarrow> bool res" where
  "money_eq x y = bnd (money x) (\<lambda>a. bnd (money y) (\<lambda>b. Inr (a = b)))"

definition norm_holding :: "decimal \<Rightarrow> decimal option \<Rightarrow> (decimal \<times> decimal option) res" where
  "norm_holding u a = bnd (units_q u) (\<lambda>u'.
     case a of None \<Rightarrow> Inr (u', None) | Some p \<Rightarrow> bnd (money p) (\<lambda>p'. Inr (u', Some p')))"

fun mapM :: "('a \<Rightarrow> 'b res) \<Rightarrow> 'a list \<Rightarrow> 'b list res" where
  "mapM f [] = Inr []"
| "mapM f (x # xs) = bnd (f x) (\<lambda>y. bnd (mapM f xs) (\<lambda>ys. Inr (y # ys)))"

definition normalize_items :: "(int \<times> decimal \<times> decimal option) list \<Rightarrow> (int \<times> decimal \<times> decimal option) list res" where
  "normalize_items = mapM (\<lambda>(i, u, a). bnd (norm_holding u a) (\<lambda>v. Inr (i, v)))"

text \<open>Equality of two dicts given by their items.\<close>

definition same_dict :: "('k \<times> 'v) list \<Rightarrow> ('k \<times> 'v) list \<Rightarrow> bool" where
  "same_dict xs ys \<longleftrightarrow> list_all (\<lambda>k. map_of xs k = map_of ys k) (map fst xs @ map fst ys)"

definition reconcile :: "pdb \<Rightarrow> manual_portfolio \<Rightarrow> reconcile_report res" where
  "reconcile d p =
     bnd (rebuild_ledger_from_journal d (mp_id p)) (\<lambda>state.
     bnd (money_eq (mp_cash p) (cash state)) (\<lambda>cash_ok.
     bnd (money_eq (mp_contributed p) (contributed state)) (\<lambda>contributed_ok.
     bnd (money_eq (mp_withdrawn p) (withdrawn state)) (\<lambda>withdrawn_ok.
     bnd (money_eq (mp_realized p) (realized_pnl state)) (\<lambda>realized_ok.
     bnd (normalize_items (map (\<lambda>r. (pos_instrument r, pos_units r, pos_average_price r)) (positions_of d (mp_id p)))) (\<lambda>projected.
     bnd (normalize_items (map (\<lambda>(i, b). (i, units b, average_cost b)) (books state))) (\<lambda>ledger_pos.
     let positions_ok = same_dict projected ledger_pos
     in Inr \<lparr>rc_ok = (cash_ok \<and> contributed_ok \<and> withdrawn_ok \<and> realized_ok \<and> positions_ok),
             rc_cash_ok = cash_ok, rc_contributed_ok = contributed_ok, rc_withdrawn_ok = withdrawn_ok,
             rc_realized_ok = realized_ok, rc_positions_ok = positions_ok\<rparr>)))))))"

section \<open>The ledger stays on its grid\<close>

text \<open>Every value of a ledger that events built is a value \<open>money\<close> or \<open>units_q\<close> returned.\<close>

definition book_fits :: "position_book \<Rightarrow> bool" where
  "book_fits b \<longleftrightarrow> units_q (units b) = Inr (units b) \<and> (\<forall>a. average_cost b = Some a \<longrightarrow> money a = Inr a)"

definition ledger_fits :: "ledger_state \<Rightarrow> bool" where
  "ledger_fits s \<longleftrightarrow> money (cash s) = Inr (cash s) \<and> money (contributed s) = Inr (contributed s) \<and>
     money (withdrawn s) = Inr (withdrawn s) \<and> money (realized_pnl s) = Inr (realized_pnl s) \<and>
     distinct (map fst (books s)) \<and> (\<forall>i b. positions s i = Some b \<longrightarrow> book_fits b)"

lemma quantize_fix: "quantize k x = Inr y \<Longrightarrow> quantize k y = Inr y"
  using quantize_grid [of k x y] quantize_bound [of k x y] by (simp add: quantize_of_grid)

lemma money_fix: "money x = Inr y \<Longrightarrow> money y = Inr y"
  unfolding money_def by (rule quantize_fix)

lemma units_fix: "units_q x = Inr y \<Longrightarrow> units_q y = Inr y"
  unfolding units_q_def by (rule quantize_fix)

lemma money_0: "money 0 = Inr 0"
  by (simp add: money_def quantize_of_grid)

lemma fits_empty: "ledger_fits empty_ledger"
  by (simp add: ledger_fits_def money_0) (simp add: empty_ledger_def money_0)

lemma books_upd [simp]:
  "books (put_book s i b) = AList.update i b (books s)"
  by (simp add: put_book_def)

lemma fits_put:
  assumes "ledger_fits s" and "book_fits b"
  shows "ledger_fits (put_book s i b)"
  using assms by (auto simp: ledger_fits_def distinct_update)

lemma fits_delete: "ledger_fits s \<Longrightarrow> ledger_fits (s\<lparr>books := AList.delete i (books s)\<rparr>)"
  by (auto simp: ledger_fits_def distinct_delete)

lemma fits_cash: "ledger_fits s \<Longrightarrow> money x = Inr c \<Longrightarrow> ledger_fits (s\<lparr>cash := c\<rparr>)"
  and fits_contributed: "ledger_fits s \<Longrightarrow> money x = Inr c \<Longrightarrow> ledger_fits (s\<lparr>contributed := c\<rparr>)"
  and fits_withdrawn: "ledger_fits s \<Longrightarrow> money x = Inr c \<Longrightarrow> ledger_fits (s\<lparr>withdrawn := c\<rparr>)"
  and fits_realized: "ledger_fits s \<Longrightarrow> money x = Inr c \<Longrightarrow> ledger_fits (s\<lparr>realized_pnl := c\<rparr>)"
  and fits_incomplete: "ledger_fits s \<Longrightarrow> ledger_fits (s\<lparr>cost_basis_incomplete := f\<rparr>)"
  by (auto simp: ledger_fits_def intro: money_fix)

lemmas fits_intros = fits_put fits_delete fits_cash fits_contributed fits_withdrawn fits_realized fits_incomplete

lemma contribute_fits: "ledger_fits s \<Longrightarrow> contribute s u p = Inr s' \<Longrightarrow> ledger_fits s'"
  by (auto simp: contribute_def exn_simps intro: fits_intros)

lemma open_into_book_fits:
  assumes s: "ledger_fits s" and u: "units_q u = Inr u" and px: "\<And>p. px = Some p \<Longrightarrow> money p = Inr p"
    and r: "open_into_book s i u px = Inr s'"
  shows "ledger_fits s'"
  using r s u px unfolding open_into_book_def Let_def
  by (auto simp: exn_simps book_fits_def split: if_splits option.splits
      intro!: fits_put fits_incomplete intro: contribute_fits units_fix money_fix)

lemma buy_into_book_fits: "buy_into_book b u v c = Inr b' \<Longrightarrow> book_fits b'"
  by (auto simp: buy_into_book_def exn_simps book_fits_def units_fix money_fix split: if_splits)

lemma event_sell_fits:
  assumes s: "ledger_fits s" and r: "event_sell s e comm = Inr s'"
  shows "ledger_fits s'"
proof -
  from r obtain iid u px where ta: "trade_args e = Inr (iid, u, px)"
    by (auto simp: event_sell_def exn_simps)
  with r obtain book where p: "positions s iid = Some book" and le: "u \<le> units book"
    by (auto simp: event_sell_def split: option.splits if_splits)
  from r ta p le obtain v pr rem s1 c' where
      rem: "units_q (dsub (units book) u) = Inr rem"
    and s1: "(case average_cost book of None \<Rightarrow> Inr (s\<lparr>cost_basis_incomplete := True\<rparr>)
            | Some avg \<Rightarrow> bnd (money (dmul u avg)) (\<lambda>cost.
                bnd (money (dsub pr cost)) (\<lambda>realized.
                bnd (money (dadd (realized_pnl s) realized)) (\<lambda>r. Inr (s\<lparr>realized_pnl := r\<rparr>))))) = Inr s1"
    and c': "money (dadd (cash s) pr) = Inr c'"
    and s': "s' = (if rem = 0 then s1\<lparr>books := AList.delete iid (books s1)\<rparr>
                 else put_book s1 iid (book\<lparr>units := rem\<rparr>))\<lparr>cash := c'\<rparr>"
    by (auto simp: event_sell_def exn_simps Let_def)
  have "ledger_fits s1"
    using s1 s by (auto simp: exn_simps split: option.splits intro: fits_intros)
  moreover have "book_fits (book\<lparr>units := rem\<rparr>)"
    using s p units_fix [OF rem] by (auto simp: ledger_fits_def book_fits_def)
  ultimately show ?thesis
    using fits_cash [OF _ c'] fits_put fits_delete by (auto simp: s')
qed

lemma event_buy_fits: "ledger_fits s \<Longrightarrow> event_buy s e comm = Inr s' \<Longrightarrow> ledger_fits s'"
  unfolding event_buy_def Let_def
  by (auto simp: exn_simps intro!: fits_put fits_incomplete fits_cash buy_into_book_fits)

lemma event_opening_fits:
  assumes s: "ledger_fits s" and r: "event_opening_position s e = Inr s'"
  shows "ledger_fits s'"
proof (cases "price e")
  case None
  then obtain iid u where u: "units_q (ev_units e) = Inr u" and o: "open_into_book s iid u None = Inr s'"
    using r by (auto simp: event_opening_position_def exn_simps split: option.splits)
  show ?thesis by (rule open_into_book_fits [OF s units_fix [OF u] _ o]) simp
next
  case (Some p)
  then obtain iid u px where u: "units_q (ev_units e) = Inr u" and px: "money p = Inr px"
      and o: "open_into_book s iid u (Some px) = Inr s'"
    using r by (auto simp: event_opening_position_def exn_simps split: option.splits)
  show ?thesis by (rule open_into_book_fits [OF s units_fix [OF u] _ o]) (simp add: money_fix [OF px])
qed

lemma event_cash_fits:
  assumes s: "ledger_fits s"
  shows "event_deposit s e = Inr s' \<Longrightarrow> ledger_fits s'"
    and "event_withdrawal s e = Inr s' \<Longrightarrow> ledger_fits s'"
    and "event_fee s v = Inr s' \<Longrightarrow> ledger_fits s'"
    and "event_income s e = Inr s' \<Longrightarrow> ledger_fits s'"
  using s unfolding event_deposit_def event_withdrawal_def event_fee_def event_income_def
  by (auto simp: exn_simps intro!: fits_contributed fits_withdrawn fits_cash)

lemma apply_event_fits:
  assumes s: "ledger_fits s" and r: "apply_event s e = Inr s'"
  shows "ledger_fits s'"
proof -
  note fits = event_cash_fits [OF s] event_opening_fits [OF s] event_buy_fits [OF s] event_sell_fits [OF s]
  from r obtain comm where "money (commission e) = Inr comm" "0 \<le> comm"
    by (auto simp: apply_event_def exn_simps)
  with r show ?thesis
    by (cases "operation_type e") (auto simp only: apply_event_def bnd_Inr operation_type.case not_less [symmetric] if_False intro: fits)
qed

lemma rebuild_ok:
  assumes "rebuild_ledger_from_journal d pid = Inr s"
  shows "ledger_inv s" and "ledger_fits s"
proof -
  have "ledger_inv s \<and> ledger_fits s"
    using assms unfolding rebuild_ledger_from_journal_def
  proof (rule foldM_invariant)
    show "ledger_inv empty_ledger \<and> ledger_fits empty_ledger"
      using ledger_inv_empty fits_empty by simp
  qed (auto dest: apply_event_effect apply_event_fits simp: event_effect_def)
  then show "ledger_inv s" and "ledger_fits s" by simp_all
qed

section \<open>The projection\<close>

text \<open>The position rows of a book hold what the ledger holds, row by row and without omissions.\<close>

definition rows_match :: "manual_position list \<Rightarrow> ledger_state \<Rightarrow> bool" where
  "rows_match rows s \<longleftrightarrow>
     (\<forall>r \<in> set rows. positions s (pos_instrument r) = Some \<lparr>units = pos_units r, average_cost = pos_average_price r\<rparr>) \<and>
     (\<forall>i. positions s i \<noteq> None \<longrightarrow> i \<in> pos_instrument ` set rows)"

definition projected :: "manual_portfolio \<Rightarrow> manual_position list \<Rightarrow> ledger_state \<Rightarrow> bool" where
  "projected p rows s \<longleftrightarrow> mp_cash p = cash s \<and> mp_contributed p = contributed s \<and>
     mp_withdrawn p = withdrawn s \<and> mp_realized p = realized_pnl s \<and> rows_match rows s"

lemma project_positions_other:
  "q \<noteq> pid \<Longrightarrow> filter (\<lambda>r. pos_portfolio r = q) (project_positions now pid s rows) =
     filter (\<lambda>r. pos_portfolio r = q) rows"
proof -
  assume q: "q \<noteq> pid"
  have "filter (\<lambda>r. pos_portfolio r = q) (map (\<lambda>r. if pos_portfolio r = pid then project_row now s r else r)
      (filter (\<lambda>r. pos_portfolio r \<noteq> pid \<or> pos_instrument r \<in> A) rows)) =
     filter (\<lambda>r. pos_portfolio r = q) rows" for A
    using q by (induction rows) (auto simp: project_row_def split: option.splits)
  moreover have "filter (\<lambda>r. pos_portfolio r = q) (map (new_row now pid) xs) = []" for xs
    using q by (induction xs) (auto simp: new_row_def)
  ultimately show ?thesis by (simp add: project_positions_def)
qed

lemma project_positions_match:
  assumes f: "distinct (map fst (books s))"
  shows "rows_match (filter (\<lambda>r. pos_portfolio r = pid) (project_positions now pid s rows)) s"
proof -
  define old where "old = filter (\<lambda>r. pos_portfolio r = pid) rows"
  have mo: "i \<in> fst ` set (books s) \<longleftrightarrow> positions s i \<noteq> None" for i
    by (metis domIff dom_map_of_conv_image_fst positions_def)
  have rows: "set (filter (\<lambda>r. pos_portfolio r = pid) (project_positions now pid s rows)) =
      project_row now s ` {r \<in> set old. positions s (pos_instrument r) \<noteq> None} \<union>
      new_row now pid ` {ib \<in> set (books s). fst ib \<notin> pos_instrument ` set old}"
    by (auto simp: project_positions_def Let_def old_def project_row_def new_row_def mo positions_def [symmetric]
        split: option.splits if_splits)
  have pr: "positions s (pos_instrument (project_row now s r)) =
      Some \<lparr>units = pos_units (project_row now s r), average_cost = pos_average_price (project_row now s r)\<rparr> \<and>
      pos_instrument (project_row now s r) = pos_instrument r"
    if "positions s (pos_instrument r) = Some b" for r b
    using that by (cases b) (simp add: project_row_def positions_def)
  have nr: "positions s (fst ib) = Some \<lparr>units = pos_units (new_row now pid ib), average_cost = pos_average_price (new_row now pid ib)\<rparr>"
    if "ib \<in> set (books s)" for ib
  proof -
    have "positions s (fst ib) = Some (snd ib)" using that f by (simp add: positions_def)
    then show ?thesis by (cases "snd ib") (simp add: new_row_def)
  qed
  show ?thesis unfolding rows_match_def rows
  proof (intro conjI ballI allI impI)
    fix r
    assume "r \<in> project_row now s ` {r \<in> set old. positions s (pos_instrument r) \<noteq> None} \<union>
      new_row now pid ` {ib \<in> set (books s). fst ib \<notin> pos_instrument ` set old}"
    then show "positions s (pos_instrument r) = Some \<lparr>units = pos_units r, average_cost = pos_average_price r\<rparr>"
    proof
      assume "r \<in> project_row now s ` {r \<in> set old. positions s (pos_instrument r) \<noteq> None}"
      then show ?thesis using pr by blast
    next
      assume "r \<in> new_row now pid ` {ib \<in> set (books s). fst ib \<notin> pos_instrument ` set old}"
      then show ?thesis using nr by (auto simp: new_row_def)
    qed
  next
    fix i assume "positions s i \<noteq> None"
    then obtain b where b: "positions s i = Some b" by auto
    show "i \<in> pos_instrument ` (project_row now s ` {r \<in> set old. positions s (pos_instrument r) \<noteq> None} \<union>
      new_row now pid ` {ib \<in> set (books s). fst ib \<notin> pos_instrument ` set old})"
    proof (cases "i \<in> pos_instrument ` set old")
      case True
      then obtain r where r: "r \<in> set old" "i = pos_instrument r" by auto
      then have "pos_instrument (project_row now s r) = i" using pr b by simp
      then show ?thesis using r b by (intro image_eqI [of _ _ "project_row now s r"]) auto
    next
      case False
      have "(i, b) \<in> set (books s)" using b by (simp add: positions_def map_of_SomeD)
      then have "new_row now pid (i, b) \<in> new_row now pid ` {ib \<in> set (books s). fst ib \<notin> pos_instrument ` set old}"
        using False by (intro imageI) simp
      then show ?thesis by (intro image_eqI [of _ _ "new_row now pid (i, b)"]) (simp_all add: new_row_def)
    qed
  qed
qed

lemma find_map_upd:
  assumes "\<And>p. mp_id (f p) = mp_id p"
  shows "List.find (\<lambda>p. mp_id p = q) (map (\<lambda>p. if mp_id p = pid then f p else p) ps) =
    map_option (\<lambda>p. if q = pid then f p else p) (List.find (\<lambda>p. mp_id p = q) ps)"
  using assms by (induction ps) auto

lemma find_upd_portfolio:
  "(\<And>p. mp_id (f p) = mp_id p) \<Longrightarrow> find_portfolio (upd_portfolio pid f d) q =
    map_option (\<lambda>p. if q = pid then f p else p) (find_portfolio d q)"
  by (simp add: find_portfolio_def upd_portfolio_def find_map_upd)

lemma find_portfolio_id: "find_portfolio d pid = Some p \<Longrightarrow> mp_id p = pid"
  by (auto simp: find_portfolio_def find_Some_iff)

text \<open>What \<open>project_portfolio\<close> leaves, when it does not raise.\<close>

lemma project_portfolio_spec:
  assumes r: "project_portfolio now pid s d = (Inr u, d')" and inv: "ledger_fits s"
    and p: "find_portfolio d pid = Some p"
  shows "\<exists>p'. find_portfolio d' pid = Some p' \<and> projected p' (positions_of d' pid) s \<and> mp_status p' = mp_status p"
    and "\<And>q. q \<noteq> pid \<Longrightarrow> find_portfolio d' q = find_portfolio d q \<and> positions_of d' q = positions_of d q"
    and "db_ops d' = db_ops d" and "db_next d' = db_next d"
    and "\<And>row. row \<in> set (db_positions d') \<Longrightarrow> pos_portfolio row \<in> insert pid (pos_portfolio ` set (db_positions d))"
    and "map mp_id (db_portfolios d') = map mp_id (db_portfolios d)"
proof -
  have m: "money (cash s) = Inr (cash s)" "money (contributed s) = Inr (contributed s)"
      "money (withdrawn s) = Inr (withdrawn s)" "money (realized_pnl s) = Inr (realized_pnl s)"
    using inv by (simp_all add: ledger_fits_def)
  define f where "f = (\<lambda>p. touch now (p\<lparr>mp_cash := cash s, mp_contributed := contributed s,
    mp_withdrawn := withdrawn s, mp_realized := realized_pnl s\<rparr>))"
  have d': "d' = (upd_portfolio pid f d)\<lparr>db_positions := project_positions now pid s (db_positions d)\<rparr>"
    using r m by (auto simp: project_portfolio_def exn_simps f_def upd_portfolio_def)
  have fid: "mp_id (f p) = mp_id p" for p by (simp add: f_def touch_def)
  have fp: "find_portfolio d' q = map_option (\<lambda>p. if q = pid then f p else p) (find_portfolio d q)" for q
    using find_upd_portfolio [of f pid d q] fid by (simp add: d' find_portfolio_def)
  have po: "positions_of d' q = filter (\<lambda>r. pos_portfolio r = q) (project_positions now pid s (db_positions d))" for q
    by (simp add: positions_of_def d')
  have ma: "rows_match (positions_of d' pid) s"
    using inv by (simp add: po project_positions_match ledger_fits_def)
  show "\<exists>p'. find_portfolio d' pid = Some p' \<and> projected p' (positions_of d' pid) s \<and> mp_status p' = mp_status p"
    using fp [of pid] p ma by (simp add: projected_def f_def touch_def)
  show "find_portfolio d' q = find_portfolio d q \<and> positions_of d' q = positions_of d q" if "q \<noteq> pid" for q
  proof -
    have "map_option (\<lambda>p. if q = pid then f p else p) x = x" for x using that by (cases x) auto
    then show ?thesis using fp [of q] po [of q] project_positions_other [OF that]
      by (simp add: positions_of_def)
  qed
  show "db_ops d' = db_ops d" "db_next d' = db_next d" by (simp_all add: d' upd_portfolio_def)
  show "pos_portfolio row \<in> insert pid (pos_portfolio ` set (db_positions d))" if "row \<in> set (db_positions d')" for row
    using that by (auto simp: d' project_positions_def Let_def new_row_def project_row_def split: if_splits option.splits)
  show "map mp_id (db_portfolios d') = map mp_id (db_portfolios d)"
    using fid by (simp add: d' upd_portfolio_def)
qed

section \<open>Reconciliation\<close>

lemma mapM_Inr: "(\<And>x. x \<in> set xs \<Longrightarrow> f x = Inr (g x)) \<Longrightarrow> mapM f xs = Inr (map g xs)"
  by (induction xs) auto

lemma rows_dict:
  assumes m: "rows_match rows s" and f: "ledger_fits s"
  shows "normalize_items (map (\<lambda>r. (pos_instrument r, pos_units r, pos_average_price r)) rows) =
      Inr (map (\<lambda>r. (pos_instrument r, pos_units r, pos_average_price r)) rows)"
    and "normalize_items (map (\<lambda>(i, b). (i, units b, average_cost b)) (books s)) =
      Inr (map (\<lambda>(i, b). (i, units b, average_cost b)) (books s))"
    and "same_dict (map (\<lambda>r. (pos_instrument r, pos_units r, pos_average_price r)) rows)
      (map (\<lambda>(i, b). (i, units b, average_cost b)) (books s))"
proof -
  have ok: "norm_holding (units b) (average_cost b) = Inr (units b, average_cost b)" if "positions s i = Some b" for i b
    using f that by (auto simp: ledger_fits_def book_fits_def norm_holding_def split: option.splits)
  have row: "norm_holding (pos_units r) (pos_average_price r) = Inr (pos_units r, pos_average_price r)"
    if "r \<in> set rows" for r
    using ok [of "pos_instrument r" "\<lparr>units = pos_units r, average_cost = pos_average_price r\<rparr>"] m that
    by (simp add: rows_match_def)
  have bk: "positions s i = Some b" if "(i, b) \<in> set (books s)" for i b
    using that f by (simp add: ledger_fits_def positions_def)
  show "normalize_items (map (\<lambda>r. (pos_instrument r, pos_units r, pos_average_price r)) rows) =
      Inr (map (\<lambda>r. (pos_instrument r, pos_units r, pos_average_price r)) rows)"
    unfolding normalize_items_def by (subst mapM_Inr [where g = id]) (auto simp: row)
  show "normalize_items (map (\<lambda>(i, b). (i, units b, average_cost b)) (books s)) =
      Inr (map (\<lambda>(i, b). (i, units b, average_cost b)) (books s))"
    unfolding normalize_items_def by (subst mapM_Inr [where g = id]) (auto simp: ok [OF bk])
  define val where "val = (\<lambda>i. map_option (\<lambda>b. (units b, average_cost b)) (positions s i))"
  have l: "map_of (map (\<lambda>(i, b). (i, units b, average_cost b)) (books s)) i = val i" for i
  proof -
    have "map_of (map (\<lambda>(i, b). (i, units b, average_cost b)) bs) i =
        map_option (\<lambda>b. (units b, average_cost b)) (map_of bs i)" for bs
      by (induction bs) auto
    then show ?thesis by (simp add: val_def positions_def)
  qed
  have r: "map_of (map (\<lambda>r. (pos_instrument r, pos_units r, pos_average_price r)) rows) i =
      (if i \<in> pos_instrument ` set rows then val i else None)" for i
  proof -
    have "\<forall>r \<in> set rows. positions s (pos_instrument r) = Some \<lparr>units = pos_units r, average_cost = pos_average_price r\<rparr>"
      using m by (simp add: rows_match_def)
    then show ?thesis by (induction rows) (auto simp: val_def)
  qed
  have "val i = None" if "i \<notin> pos_instrument ` set rows" for i
    using m that by (auto simp: rows_match_def val_def)
  then show "same_dict (map (\<lambda>r. (pos_instrument r, pos_units r, pos_average_price r)) rows)
      (map (\<lambda>(i, b). (i, units b, average_cost b)) (books s))"
    unfolding same_dict_def list_all_iff l r by auto
qed

lemma reconcile_ok:
  assumes s: "rebuild_ledger_from_journal d (mp_id p) = Inr s" and pr: "projected p (positions_of d (mp_id p)) s"
  shows "reconcile d p = Inr \<lparr>rc_ok = True, rc_cash_ok = True, rc_contributed_ok = True, rc_withdrawn_ok = True,
    rc_realized_ok = True, rc_positions_ok = True\<rparr>"
proof -
  have f: "ledger_fits s" by (rule rebuild_ok [OF s])
  have m: "money (cash s) = Inr (cash s)" "money (contributed s) = Inr (contributed s)"
      "money (withdrawn s) = Inr (withdrawn s)" "money (realized_pnl s) = Inr (realized_pnl s)"
    using f by (simp_all add: ledger_fits_def)
  have rm: "rows_match (positions_of d (mp_id p)) s" using pr by (simp add: projected_def)
  show ?thesis using pr m
    by (simp add: reconcile_def s projected_def money_eq_def rows_dict [OF rm f])
qed

end
