(* ===== verification/Commission.thy ===== *)
theory Commission
  imports Store
begin

text \<open>
  The commission of a journal operation, \<open>backend/app/modules/portfolio/application/broker_fee_service.py\<close>:
  the day turnover of a broker account across its portfolios, the fee preview of a portfolio, and
  the provenance order MANUAL, PROFILE_ESTIMATE, NONE. All are reads of the session.
\<close>

definition load_fee_engine :: "pdb \<Rightarrow> int \<Rightarrow> fee_rule list" where
  "load_fee_engine d profile_id =
     map fee_rule_to_spec (filter fr_active (map snd (filter (\<lambda>pr. fst pr = profile_id) (db_rules d))))"

definition trade_notional :: "personal_operation \<Rightarrow> decimal res" where
  "trade_notional r = (case (op_units r, op_price r) of
     (Some u, Some p) \<Rightarrow> money (dmul u p)
   | _ \<Rightarrow> (case op_amount r of Some a \<Rightarrow> money a | None \<Rightarrow> Inr 0))"

definition day_trades :: "pdb \<Rightarrow> int \<Rightarrow> date \<Rightarrow> personal_operation list" where
  "day_trades d account_id as_of =
     (let start = combine_utc as_of 0 0; stop = start + day_us - 1
      in filter (\<lambda>r. op_broker_account r = Some account_id \<and> op_status r = OP_ACTIVE \<and>
           op_type r \<in> {BUY, SELL} \<and> start \<le> op_occurred_at r \<and> op_occurred_at r \<le> stop) (db_ops d))"

definition rule_excluded :: "pdb \<Rightarrow> int \<Rightarrow> bool" where
  "rule_excluded d rid = list_ex (\<lambda>pr. fr_id (snd pr) = Some rid \<and> fr_exclude_from_turnover (snd pr)) (db_rules d)"

definition broker_account_day_turnover :: "pdb \<Rightarrow> int \<Rightarrow> date \<Rightarrow> int option \<Rightarrow> decimal res" where
  "broker_account_day_turnover d account_id as_of exclude_operation_id =
     foldM (\<lambda>acc r.
       if exclude_operation_id = Some (op_id r) then Inr acc
       else if opt_sat (rule_excluded d) (op_fee_rule r) then Inr acc
       else bnd (trade_notional r) (\<lambda>n. if n > 0 then money (dadd acc n) else Inr acc))
     0 (day_trades d account_id as_of)"

record fee_preview =
  pv_status :: fee_status
  pv_amount :: "decimal option"
  pv_fee_rule_id :: "int option"
  pv_commission_source :: commission_source
  pv_broker_account_id :: "int option"
  pv_limitation :: "string option"
  pv_matched_rule_code :: "string option"
  pv_exclude_from_turnover :: bool

definition non_empty :: "string \<Rightarrow> string option" where
  "non_empty s = (if s = [] then None else Some s)"

definition estimate_fee_for_portfolio ::
  "pdb \<Rightarrow> manual_portfolio \<Rightarrow> string \<Rightarrow> decimal \<Rightarrow> int option \<Rightarrow> string option \<Rightarrow> date \<Rightarrow> decimal \<Rightarrow> fee_preview res" where
  "estimate_fee_for_portfolio d portfolio side notional iid symb as_of nkd =
     (let side_u = upper (strip side) in
      if side_u \<notin> {''BUY'', ''SELL''} then Inl (BrokerFeeError ''INVALID_SIDE'') else
      let symbol0 = non_empty (upper (strip (opt_or symb []))) in
      bnd (case iid of
             None \<Rightarrow> Inr (symbol0, None)
           | Some i \<Rightarrow> (case find_instrument d i of
               None \<Rightarrow> Inl (BrokerFeeError ''INSTRUMENT_NOT_FOUND'')
             | Some inst \<Rightarrow> Inr (case symbol0 of Some s \<Rightarrow> Some s | None \<Rightarrow> non_empty (upper (in_symbol inst)),
                               non_empty (upper (in_asset_class inst))))) (\<lambda>(symbol, asset_class).
      case mp_broker_account portfolio of
        None \<Rightarrow> Inr \<lparr>pv_status = UNKNOWN, pv_amount = None, pv_fee_rule_id = None,
          pv_commission_source = CS_NONE, pv_broker_account_id = None,
          pv_limitation = Some ''BROKER_FEE_PROFILE_MISSING'', pv_matched_rule_code = None,
          pv_exclude_from_turnover = False\<rparr>
      | Some bid \<Rightarrow>
          (case map_of (db_accounts d) bid of
             None \<Rightarrow> Inl (BrokerFeeError ''BROKER_ACCOUNT_NOT_FOUND'')
           | Some profile_id \<Rightarrow>
               bnd (broker_account_day_turnover d bid as_of None) (\<lambda>day_to.
               bnd (money notional) (\<lambda>n.
               bnd (money nkd) (\<lambda>k.
               bnd (estimate_fee (load_fee_engine d profile_id)
                      \<lparr>fc_as_of = as_of, fc_side = side_u, fc_notional = n, fc_nkd = k, fc_market = ''MOEX'',
                       fc_trading_system = None, fc_execution_channel = Some ''ONLINE'',
                       fc_asset_class = asset_class, fc_instrument_subtype = None, fc_instrument_id = iid,
                       fc_instrument_symbol = symbol, fc_day_turnover = day_to\<rparr>) (\<lambda>est.
               Inr \<lparr>pv_status = fe_status est, pv_amount = fe_amount est, pv_fee_rule_id = fe_rule_id est,
                    pv_commission_source = (if fe_status est = KNOWN then CS_PROFILE_ESTIMATE else CS_NONE),
                    pv_broker_account_id = Some bid,
                    pv_limitation = (if fe_status est = KNOWN then None else Some ''FEE_RULE_UNMATCHED''),
                    pv_matched_rule_code = fe_matched_rule_code est,
                    pv_exclude_from_turnover = fe_exclude_from_turnover est\<rparr>)))))))"

definition side_name :: "operation_type \<Rightarrow> string" where
  "side_name t = (if t = BUY then ''BUY'' else ''SELL'')"

definition resolve_operation_commission ::
  "pdb \<Rightarrow> manual_portfolio \<Rightarrow> operation_type \<Rightarrow> decimal option \<Rightarrow> bool \<Rightarrow> decimal option \<Rightarrow> decimal option \<Rightarrow>
   decimal option \<Rightarrow> int option \<Rightarrow> instant \<Rightarrow> (decimal \<times> commission_source \<times> int option \<times> int option) res" where
  "resolve_operation_commission d portfolio t comm provided us px amt iid occurred =
     (let broker_id = mp_broker_account portfolio in
      if provided \<or> comm \<noteq> None then bnd (money (opt_or comm 0)) (\<lambda>c. Inr (c, CS_MANUAL, broker_id, None))
      else if t \<notin> {BUY, SELL} then Inr (0, CS_NONE, broker_id, None)
      else if broker_id = None then Inr (0, CS_NONE, None, None)
      else
        bnd (case (us, px) of
               (Some u, Some p) \<Rightarrow> money (dmul u p)
             | _ \<Rightarrow> (case amt of Some a \<Rightarrow> money a | None \<Rightarrow> Inr 0)) (\<lambda>notional.
        if notional \<le> 0 then Inr (0, CS_NONE, broker_id, None) else
        bnd (estimate_fee_for_portfolio d portfolio (side_name t) notional iid None (instant_date occurred) 0) (\<lambda>preview.
        case (pv_status preview, pv_amount preview) of
          (KNOWN, Some a) \<Rightarrow> bnd (money a) (\<lambda>c. Inr (c, CS_PROFILE_ESTIMATE, broker_id, pv_fee_rule_id preview))
        | _ \<Rightarrow> Inr (0, CS_NONE, broker_id, None))))"

text \<open>An amount the caller gave is recorded as given; the engine never overrides it.\<close>

lemma commission_manual:
  "resolve_operation_commission d p t (Some c) prov us px amt iid occ =
     bnd (money c) (\<lambda>c'. Inr (c', CS_MANUAL, mp_broker_account p, None))"
  by (simp add: resolve_operation_commission_def)

lemma estimate_preview_cases:
  assumes "estimate_fee_for_portfolio d p side n iid symb as_of nkd = Inr pv"
  shows "pv_status pv = KNOWN \<longrightarrow> pv_commission_source pv = CS_PROFILE_ESTIMATE \<and> pv_limitation pv = None"
    and "pv_status pv = UNKNOWN \<longrightarrow> pv_amount pv = None \<and> pv_limitation pv \<noteq> None"
proof -
  have "(pv_status pv = KNOWN \<longrightarrow> pv_commission_source pv = CS_PROFILE_ESTIMATE \<and> pv_limitation pv = None) \<and>
    (pv_status pv = UNKNOWN \<longrightarrow> pv_amount pv = None \<and> pv_limitation pv \<noteq> None)"
  proof (cases "mp_broker_account p")
    case None
    then show ?thesis using assms
      by (auto simp: estimate_fee_for_portfolio_def Let_def exn_simps split: if_splits)
  next
    case (Some b)
    then obtain rules ctx est where e: "estimate_fee rules ctx = Inr est" and
      pv: "pv_status pv = fe_status est" "pv_amount pv = fe_amount est"
        "pv_commission_source pv = (if fe_status est = KNOWN then CS_PROFILE_ESTIMATE else CS_NONE)"
        "pv_limitation pv = (if fe_status est = KNOWN then None else Some ''FEE_RULE_UNMATCHED'')"
      using assms
      by (auto simp: estimate_fee_for_portfolio_def Let_def exn_simps split: if_splits option.splits)
    show ?thesis by (rule estimate_fee_cases [OF e]) (use pv in simp_all)
  qed
  then show "pv_status pv = KNOWN \<longrightarrow> pv_commission_source pv = CS_PROFILE_ESTIMATE \<and> pv_limitation pv = None"
    and "pv_status pv = UNKNOWN \<longrightarrow> pv_amount pv = None \<and> pv_limitation pv \<noteq> None" by simp_all
qed

text \<open>The turnover counts only the trades of that day and account; it is never negative.\<close>

lemma turnover_nonneg: "broker_account_day_turnover d bid as_of ex = Inr t \<Longrightarrow> 0 \<le> t"
  unfolding broker_account_day_turnover_def
proof (erule foldM_invariant)
qed (auto split: if_splits simp: exn_simps dadd_def intro!: dround_nonneg elim!: money_nonneg)

end
