(* ===== verification/Bookinv.thy ===== *)
theory Bookinv
  imports Store
begin

text \<open>
  The invariant of the portfolio store and the contract of its services. An active book's row and
  positions are what its journal rebuilds to; a draft has no journal. The locale \<open>book_service\<close>
  states what every service promises: the invariant, whether it returns or raises, and no change
  to any other book. Each service's theory interprets it.
\<close>

section \<open>The invariant\<close>

definition ids_ok :: "pdb \<Rightarrow> bool" where
  "ids_ok d \<longleftrightarrow> distinct (map op_id (db_ops d)) \<and>
     (\<forall>r \<in> set (db_ops d). op_id r < db_next d \<and> op_portfolio r < db_next d) \<and>
     (\<forall>r \<in> set (db_positions d). pos_portfolio r < db_next d) \<and>
     (\<forall>p \<in> set (db_portfolios d). mp_id p < db_next d)"

definition keys_unique :: "pdb \<Rightarrow> bool" where
  "keys_unique d \<longleftrightarrow> distinct (map (\<lambda>r. (op_portfolio r, op_key r)) (db_ops d))"

definition draft_ok :: "pdb \<Rightarrow> manual_portfolio \<Rightarrow> bool" where
  "draft_ok d p \<longleftrightarrow> mp_status p = LIFECYCLE_DRAFT \<and> ops_of d (mp_id p) = [] \<and> on_grid 6 (mp_cash p) \<and> 0 \<le> mp_cash p \<and>
     mp_contributed p = 0 \<and> mp_withdrawn p = 0 \<and> mp_realized p = 0"

definition active_ok :: "pdb \<Rightarrow> manual_portfolio \<Rightarrow> bool" where
  "active_ok d p \<longleftrightarrow> mp_status p = LIFECYCLE_ACTIVE \<and>
     (\<exists>s. rebuild_ledger_from_journal d (mp_id p) = Inr s \<and> projected p (positions_of d (mp_id p)) s)"

definition db_inv :: "pdb \<Rightarrow> bool" where
  "db_inv d \<longleftrightarrow> ids_ok d \<and> keys_unique d \<and>
     (\<forall>pid p. find_portfolio d pid = Some p \<longrightarrow> draft_ok d p \<or> active_ok d p)"

definition empty_db :: "instrument_row list \<Rightarrow> instrument_source list \<Rightarrow> (int \<times> int option) list \<Rightarrow>
    (int \<times> int) list \<Rightarrow> (int \<times> fee_rule) list \<Rightarrow> pdb" where
  "empty_db ins srcs terms accounts rules = \<lparr>db_portfolios = [], db_positions = [], db_ops = [],
     db_instruments = ins, db_sources = srcs, db_bond_terms = terms, db_accounts = accounts,
     db_rules = rules, db_next = 1\<rparr>"

lemma db_inv_cases: "db_inv d \<Longrightarrow> find_portfolio d pid = Some p \<Longrightarrow> draft_ok d p \<or> active_ok d p"
  by (auto simp: db_inv_def)

lemma db_inv_empty: "db_inv (empty_db i s t a r)"
  by (simp add: db_inv_def ids_ok_def keys_unique_def empty_db_def find_portfolio_def)

text \<open>What one book consists of.\<close>

definition book_view :: "pdb \<Rightarrow> int \<Rightarrow> manual_portfolio option \<times> personal_operation list \<times> manual_position list" where
  "book_view d q = (find_portfolio d q, ops_of d q, positions_of d q)"

lemma rebuild_cong: "ops_of d' pid = ops_of d pid \<Longrightarrow> rebuild_ledger_from_journal d' pid = rebuild_ledger_from_journal d pid"
  by (simp add: rebuild_ledger_from_journal_def active_operations_def)

lemma book_ok_view:
  assumes "find_portfolio d q = Some p" and "book_view d' q = book_view d q"
  shows "draft_ok d' p = draft_ok d p" and "active_ok d' p = active_ok d p"
  using assms find_portfolio_id [OF assms(1)] rebuild_cong [of d' q d]
  by (auto simp: draft_ok_def active_ok_def book_view_def)

text \<open>A mutation of one book keeps the invariant when that book ends well.\<close>

lemma db_inv_mutate:
  assumes d: "db_inv d" and ids: "ids_ok d'" and keys: "keys_unique d'"
    and others: "\<And>q. q \<noteq> pid \<Longrightarrow> book_view d' q = book_view d q"
    and own: "\<And>p. find_portfolio d' pid = Some p \<Longrightarrow> draft_ok d' p \<or> active_ok d' p"
  shows "db_inv d'"
proof -
  have "draft_ok d' p \<or> active_ok d' p" if f: "find_portfolio d' q = Some p" and q: "q \<noteq> pid" for q p
  proof -
    have v: "book_view d' q = book_view d q" by (rule others [OF q])
    then have "find_portfolio d q = Some p" using f by (simp add: book_view_def)
    then show ?thesis using d book_ok_view [OF _ v] by (auto simp: db_inv_def)
  qed
  with assms show ?thesis by (auto simp: db_inv_def)
qed

section \<open>Journal mutations\<close>

text \<open>
  \<open>journal_pre pid d0 d\<close>: from \<open>d0\<close> only the journal of the book \<open>pid\<close> was edited.
\<close>

definition journal_pre :: "int \<Rightarrow> pdb \<Rightarrow> pdb \<Rightarrow> bool" where
  "journal_pre pid d0 d \<longleftrightarrow> ids_ok d \<and> keys_unique d \<and> db_portfolios d = db_portfolios d0 \<and>
     db_positions d = db_positions d0 \<and> (\<forall>q. q \<noteq> pid \<longrightarrow> ops_of d q = ops_of d0 q)"

lemma journal_pre_refl: "db_inv d \<Longrightarrow> journal_pre pid d d"
  by (simp add: journal_pre_def db_inv_def)

lemma find_op_Some: "find_op d i = Some r \<Longrightarrow> r \<in> set (db_ops d) \<and> op_id r = i"
  by (auto simp: find_op_def find_Some_iff)

lemma unique_op:
  assumes "ids_ok d" and "r \<in> set (db_ops d)" and "r' \<in> set (db_ops d)" and "op_id r = op_id r'"
  shows "r = r'"
  using assms by (auto simp: ids_ok_def distinct_map dest: inj_onD)

lemma upd_op_pre:
  assumes pre: "journal_pre pid d0 d" and r: "find_op d i = Some r" and pid: "op_portfolio r = pid"
    and f: "\<And>r. op_id (f r) = op_id r \<and> op_portfolio (f r) = op_portfolio r \<and> op_key (f r) = op_key r"
  shows "journal_pre pid d0 (upd_op i f d)"
proof -
  define g where "g = (\<lambda>r. if op_id r = i then f r else r)"
  have g: "op_id (g r) = op_id r" "op_portfolio (g r) = op_portfolio r" "op_key (g r) = op_key r" for r
    using f by (simp_all add: g_def)
  have ops: "db_ops (upd_op i f d) = map g (db_ops d)" by (simp add: upd_op_def g_def)
  have ids: "ids_ok d" and keys: "keys_unique d" using pre by (simp_all add: journal_pre_def)
  have other: "g s = s" if "s \<in> set (db_ops d)" "op_portfolio s \<noteq> pid" for s
    using unique_op [OF ids] find_op_Some [OF r] that pid by (auto simp: g_def)
  have "filter (\<lambda>r. op_portfolio r = q) (map g (db_ops d)) = filter (\<lambda>r. op_portfolio r = q) (db_ops d)" if "q \<noteq> pid" for q
    using other that by (induction "db_ops d" arbitrary: d) (auto simp: g filter_map o_def intro!: map_idI)
  then have "ops_of (upd_op i f d) q = ops_of d q" if "q \<noteq> pid" for q
    using that by (simp add: ops_of_def ops)
  moreover have "ids_ok (upd_op i f d)"
    using ids unfolding ids_ok_def ops by (simp add: g o_def) (simp add: upd_op_def)
  moreover have "keys_unique (upd_op i f d)"
    using keys by (simp add: keys_unique_def ops g o_def)
  ultimately show ?thesis using pre by (simp add: journal_pre_def upd_op_def)
qed

lemma find_key_None: "find_key d pid key = None \<longleftrightarrow> (\<forall>r \<in> set (db_ops d). \<not> (op_portfolio r = pid \<and> op_key r = key))"
  by (auto simp: find_key_def find_None_iff)

lemma insert_op_pre:
  assumes pre: "journal_pre pid d0 d" and r: "insert_op row d = (Inr stored, d')"
    and pid: "op_portfolio row = pid" "pid < db_next d"
  shows "journal_pre pid d0 d'" and "stored = row\<lparr>op_id := db_next d\<rparr>"
    and "ops_of d' pid = ops_of d pid @ [stored]" and "find_key d' pid (op_key row) = Some stored"
proof -
  have n: "find_key d pid (op_key row) = None" and st: "stored = row\<lparr>op_id := db_next d\<rparr>"
    and d': "d' = d\<lparr>db_ops := db_ops d @ [stored], db_next := db_next d + 1\<rparr>"
    using r pid by (auto simp: insert_op_def bind_gets exn_simps Let_def split: if_splits)
  have k: "\<not> (op_portfolio r = pid \<and> op_key r = op_key row)" if "r \<in> set (db_ops d)" for r
    using n that by (simp add: find_key_None)
  have "ids_ok d'" using pre pid st
    by (force simp: journal_pre_def ids_ok_def d')
  moreover have "keys_unique d'" using pre k st pid
    by (force simp: journal_pre_def keys_unique_def d')
  ultimately show "journal_pre pid d0 d'"
    using pre st pid by (auto simp: journal_pre_def d' ops_of_def)
  show "stored = row\<lparr>op_id := db_next d\<rparr>" by (rule st)
  show "ops_of d' pid = ops_of d pid @ [stored]" using st pid by (simp add: ops_of_def d')
  have "List.find P (xs @ [x]) = (case List.find P xs of None \<Rightarrow> if P x then Some x else None | Some y \<Rightarrow> Some y)"
    for P xs and x :: personal_operation by (induction xs) auto
  then show "find_key d' pid (op_key row) = Some stored"
    using n st pid by (simp add: find_key_def d')
qed

text \<open>Rebuilding and projecting closes the mutation.\<close>

lemma project_effect:
  assumes pre: "journal_pre pid d0 d" and d0: "db_inv d0" and p: "find_portfolio d0 pid = Some p"
    and s: "rebuild_ledger_from_journal d pid = Inr s" and r: "project_portfolio now pid s d = (Inr u, d')"
  shows "ids_ok d'" and "keys_unique d'" and "\<And>q. q \<noteq> pid \<Longrightarrow> book_view d' q = book_view d0 q"
    and "db_ops d' = db_ops d"
    and "\<exists>p'. find_portfolio d' pid = Some p' \<and> mp_status p' = mp_status p \<and>
      rebuild_ledger_from_journal d' pid = Inr s \<and> projected p' (positions_of d' pid) s"
proof -
  have fd: "find_portfolio d q = find_portfolio d0 q" for q using pre by (simp add: journal_pre_def find_portfolio_def)
  note sp = project_portfolio_spec [OF r rebuild_ok(2) [OF s] trans [OF fd p]]
  have o: "ops_of d' q = ops_of d q" for q using sp(3) by (simp add: ops_of_def)
  have pd: "positions_of d q = positions_of d0 q" for q using pre by (simp add: journal_pre_def positions_of_def)
  show "book_view d' q = book_view d0 q" if "q \<noteq> pid" for q
    using sp(2) [OF that] fd o pre that pd by (simp add: book_view_def journal_pre_def)
  show "\<exists>p'. find_portfolio d' pid = Some p' \<and> mp_status p' = mp_status p \<and>
      rebuild_ledger_from_journal d' pid = Inr s \<and> projected p' (positions_of d' pid) s"
    using sp(1) rebuild_cong [OF o [of pid]] s by auto
  show "db_ops d' = db_ops d" by (rule sp(3))
  show "keys_unique d'" using pre sp(3) by (simp add: journal_pre_def keys_unique_def)
  have port: "mp_id ` set (db_portfolios d') = mp_id ` set (db_portfolios d)"
    using arg_cong [OF sp(6), of set] by simp
  have "pid < db_next d" using pre p fd [of pid]
    by (auto simp: journal_pre_def ids_ok_def find_portfolio_def find_Some_iff)
  moreover have "\<forall>p \<in> set (db_portfolios d'). mp_id p < db_next d"
  proof
    fix p assume "p \<in> set (db_portfolios d')"
    then have "mp_id p \<in> mp_id ` set (db_portfolios d)" using port by blast
    then show "mp_id p < db_next d" using pre by (auto simp: journal_pre_def ids_ok_def)
  qed
  moreover have "\<forall>r \<in> set (db_positions d'). pos_portfolio r < db_next d"
    using sp(5) pre calculation(1) by (force simp: journal_pre_def ids_ok_def)
  ultimately show "ids_ok d'" using pre sp(3,4) by (simp add: journal_pre_def ids_ok_def)
qed

lemma project_closes:
  assumes pre: "journal_pre pid d0 d" and d0: "db_inv d0" and p: "find_portfolio d0 pid = Some p"
    and act: "mp_status p = LIFECYCLE_ACTIVE" and s: "rebuild_ledger_from_journal d pid = Inr s"
    and r: "project_portfolio now pid s d = (Inr u, d')"
  shows "db_inv d' \<and> (\<forall>q. q \<noteq> pid \<longrightarrow> book_view d' q = book_view d0 q) \<and> db_ops d' = db_ops d \<and>
    (\<exists>p'. find_portfolio d' pid = Some p' \<and> active_ok d' p')"
proof -
  note e = project_effect [OF pre d0 p s r]
  obtain p' where p': "find_portfolio d' pid = Some p'" "active_ok d' p'"
    using e(5) act find_portfolio_id by (fastforce simp: active_ok_def)
  have "db_inv d'" using p' by (intro db_inv_mutate [OF d0 e(1,2,3)]) auto
  then show ?thesis using e p' by blast
qed

text \<open>An edit of the row of a draft, or of its positions, that keeps it a draft.\<close>

lemma draft_edit:
  assumes d0: "db_inv d0" and ids: "ids_ok d" and ops: "db_ops d = db_ops d0"
    and others: "\<And>q. q \<noteq> pid \<Longrightarrow> book_view d q = book_view d0 q"
    and own: "\<And>p. find_portfolio d pid = Some p \<Longrightarrow> draft_ok d p"
  shows "db_inv d"
  using d0 ops own by (intro db_inv_mutate [OF d0 ids _ others]) (auto simp: db_inv_def keys_unique_def)

lemma reconcile_active:
  assumes "db_inv d" and "find_portfolio d q = Some b" and "mp_status b = LIFECYCLE_ACTIVE"
  shows "\<exists>rep. reconcile d b = Inr rep \<and> rc_ok rep"
proof -
  have "draft_ok d b \<or> active_ok d b" using assms by (simp add: db_inv_def)
  then have "active_ok d b"
    using assms(3) by (auto simp: draft_ok_def LIFECYCLE_ACTIVE_def LIFECYCLE_DRAFT_def)
  then show ?thesis using reconcile_ok by (fastforce simp: active_ok_def)
qed

section \<open>The contract of a service\<close>

locale book_service =
  fixes run :: "manual_portfolio \<Rightarrow> (pdb, 'a) st"
  assumes keeps_inv: "db_inv d \<Longrightarrow> db_inv (snd (run p d))"
    and frame: "db_inv d \<Longrightarrow> q \<noteq> mp_id p \<Longrightarrow> book_view (snd (run p d)) q = book_view d q"
begin

text \<open>After any call, reconciling an active book finds no mismatch.\<close>

lemma reconciles:
  assumes "db_inv d" and "find_portfolio (snd (run p d)) q = Some b" and "mp_status b = LIFECYCLE_ACTIVE"
  shows "\<exists>rep. reconcile (snd (run p d)) b = Inr rep \<and> rc_ok rep"
  using reconcile_active [OF keeps_inv [OF assms(1)] assms(2,3)] .

lemma other_reconciles:
  assumes "db_inv d" and "q \<noteq> mp_id p"
  shows "find_portfolio (snd (run p d)) q = find_portfolio d q" and "ops_of (snd (run p d)) q = ops_of d q"
  using frame [OF assms] by (simp_all add: book_view_def)

end

end
