(* ===== verification/Position.thy ===== *)
theory Position
  imports Pyeval
begin

text \<open>
  Lot rules and cost-basis bookkeeping: \<open>backend/app/modules/portfolio/domain/lots.py\<close>
  (\<open>assert_lot_compatible\<close>) and \<open>backend/app/modules/shadow/domain/accounting.py\<close>
  (\<open>PositionState\<close>, \<open>empty_position\<close>, \<open>apply_buy\<close>, \<open>apply_sell\<close>).
\<close>

section \<open>Lot validation\<close>

definition assert_lot_compatible :: "decimal \<Rightarrow> int option \<Rightarrow> bool \<Rightarrow> unit res" where
  "assert_lot_compatible units lot_size non_standard_lot =
     (if non_standard_lot then Inr () else
      case lot_size of
        None \<Rightarrow> Inl (LotValidationError ''UNKNOWN_LOTSIZE'')
      | Some l \<Rightarrow>
          if l \<le> 0 then Inl (LotValidationError ''UNKNOWN_LOTSIZE'') else
          let units_int = dtrunc units in
          if of_int units_int \<noteq> units then Inl (LotValidationError ''NON_INTEGER_UNITS'') else
          if units_int mod l \<noteq> 0 then Inl (LotValidationError ''LOT_MISMATCH'') else Inr ())"

lemma assert_lot_compatible_iff:
  "assert_lot_compatible u lot ns = Inr () \<longleftrightarrow>
     ns \<or> (\<exists>l n. lot = Some l \<and> 0 < l \<and> u = of_int (n * l))"
proof (cases "ns \<or> lot = None \<or> the lot \<le> 0")
  case True
  then show ?thesis by (auto simp: assert_lot_compatible_def split: option.splits)
next
  case False
  then obtain l where l: "\<not> ns" "lot = Some l" "0 < l" by auto
  have t: "dtrunc (of_int k) = k" for k by (simp add: dtrunc_def)
  have "of_int (dtrunc u) = u \<and> dtrunc u mod l = 0 \<longleftrightarrow> (\<exists>n. u = of_int (n * l))"
  proof
    assume "of_int (dtrunc u) = u \<and> dtrunc u mod l = 0"
    then show "\<exists>n. u = of_int (n * l)" by (metis div_mult_mod_eq add.right_neutral)
  next
    assume "\<exists>n. u = of_int (n * l)"
    then show "of_int (dtrunc u) = u \<and> dtrunc u mod l = 0" using t by (metis mod_mult_self2_is_0)
  qed
  then show ?thesis using l by (auto simp: assert_lot_compatible_def Let_def)
qed

section \<open>Positions\<close>

record position_state =
  quantity :: decimal
  lots :: int
  lot_size :: int
  avg_entry :: decimal
  cost_basis :: decimal
  ps_realized_pnl :: decimal

definition empty_position :: "int \<Rightarrow> position_state res" where
  "empty_position l = (if l \<le> 0 then Inl (ValueError ''lot_size must be positive'')
     else Inr \<lparr>quantity = 0, lots = 0, lot_size = l, avg_entry = 0, cost_basis = 0, ps_realized_pnl = 0\<rparr>)"

definition apply_buy ::
  "position_state option \<Rightarrow> decimal \<Rightarrow> decimal \<Rightarrow> decimal \<Rightarrow> int \<Rightarrow> position_state res" where
  "apply_buy state units fill_price fee l =
     (if units \<le> 0 \<or> fill_price \<le> 0 \<or> l \<le> 0
      then Inl (ValueError ''buy requires positive units, price, lot_size'') else
      if dtrunc units mod l \<noteq> 0 then Inl (ValueError ''units must be divisible by lot_size'') else
      let spend = dadd (dmul units fill_price) fee;
          fresh = \<lparr>quantity = units, lots = dtrunc units div l, lot_size = l,
                   avg_entry = (if fee = 0 then fill_price else ddiv spend units),
                   cost_basis = spend, ps_realized_pnl = 0\<rparr>
      in case state of
        None \<Rightarrow> Inr fresh
      | Some s \<Rightarrow>
          if quantity s \<le> 0 then Inr fresh else
          if lot_size s \<noteq> l then Inl (ValueError ''lot_size mismatch on existing position'') else
          let new_qty = dadd (quantity s) units; new_cost = dadd (cost_basis s) spend in
          bnd (ddivE new_cost new_qty) (\<lambda>avg.
          Inr \<lparr>quantity = new_qty, lots = dtrunc new_qty div l, lot_size = l, avg_entry = avg,
               cost_basis = new_cost, ps_realized_pnl = ps_realized_pnl s\<rparr>))"

definition apply_sell ::
  "position_state \<Rightarrow> decimal \<Rightarrow> decimal \<Rightarrow> decimal \<Rightarrow> (position_state \<times> decimal) res" where
  "apply_sell state units fill_price fee =
     (if units \<le> 0 \<or> fill_price \<le> 0 then Inl (ValueError ''sell requires positive units and price'') else
      if quantity state < units then Inl (ValueError ''cannot sell more than held'') else
      if lot_size state = 0 then Inl ZeroDivisionError else
      if dtrunc units mod lot_size state \<noteq> 0 then Inl (ValueError ''units must be divisible by lot_size'') else
      let cost_removed = dmul (avg_entry state) units;
          proceeds = dsub (dmul units fill_price) fee;
          realized = dsub proceeds cost_removed;
          remaining = dsub (quantity state) units
      in if remaining \<le> 0 then
           Inr (\<lparr>quantity = 0, lots = 0, lot_size = lot_size state, avg_entry = 0, cost_basis = 0,
                 ps_realized_pnl = dadd (ps_realized_pnl state) realized\<rparr>, realized)
         else
           Inr (\<lparr>quantity = remaining, lots = dtrunc remaining div lot_size state,
                 lot_size = lot_size state, avg_entry = avg_entry state,
                 cost_basis = dsub (cost_basis state) cost_removed,
                 ps_realized_pnl = dadd (ps_realized_pnl state) realized\<rparr>, realized))"

section \<open>The invariant of a position\<close>

definition position_inv :: "position_state \<Rightarrow> bool" where
  "position_inv s \<longleftrightarrow> 0 \<le> quantity s \<and> 0 < lot_size s \<and> 0 \<le> avg_entry s \<and>
     lots s = dtrunc (quantity s) div lot_size s"

lemma position_inv_empty: "empty_position l = Inr s \<Longrightarrow> position_inv s"
  by (auto simp: empty_position_def position_inv_def dtrunc_def split: if_splits)

lemma apply_buy_inv:
  assumes r: "apply_buy state u p fee l = Inr s'" and fee: "0 \<le> fee"
    and cost: "\<And>s. state = Some s \<Longrightarrow> 0 \<le> cost_basis s"
  shows "position_inv s'" and "0 \<le> cost_basis s'"
proof -
  from r have g: "0 < u" "0 < p" "0 < l"
    by (auto simp: apply_buy_def split: if_splits)
  have spend: "0 \<le> dadd (dmul u p) fee"
    using g fee by (auto simp: dadd_def dmul_def intro!: dround_nonneg add_nonneg_nonneg)
  have fresh: "0 \<le> (if fee = 0 then p else ddiv (dadd (dmul u p) fee) u)"
    using g spend by (auto simp: ddiv_def intro!: dround_nonneg)
  have upd: "0 \<le> dadd (quantity s) u" "0 \<le> dadd (cost_basis s) (dadd (dmul u p) fee)"
    if "state = Some s" "0 < quantity s" for s
    using that g spend cost [OF that(1)] by (auto simp: dadd_def intro!: dround_nonneg)
  show "position_inv s'" and "0 \<le> cost_basis s'"
    using r g spend fresh upd
    by (auto simp: apply_buy_def position_inv_def Let_def exn_simps ddivE_def ddiv_def
        intro!: dround_nonneg split: if_splits option.splits)
qed

lemma apply_sell_inv:
  assumes s: "position_inv s" and r: "apply_sell s u p fee = Inr (s', pnl)"
  shows "position_inv s'" and "lot_size s' = lot_size s" and "u \<le> quantity s"
    and "ps_realized_pnl s' = dadd (ps_realized_pnl s) pnl"
  using s r by (auto simp: apply_sell_def position_inv_def Let_def dtrunc_def split: if_splits)

section \<open>The life of a position\<close>

text \<open>
  From the purchase that opens a position on, \<open>position_life M n paid pnl s\<close> says that \<open>n\<close> accepted
  trades led to the state \<open>s\<close>, that they paid \<open>paid\<close> in total (the purchases with their fees, less what
  the sales brought after fees, in exact arithmetic) and that the sales returned the realised results
  \<open>pnl\<close> in total. \<open>M\<close> bounds every amount involved.
\<close>

definition trade_within :: "rat \<Rightarrow> decimal \<Rightarrow> decimal \<Rightarrow> decimal \<Rightarrow> bool" where
  "trade_within M u p fee \<longleftrightarrow> u \<le> M \<and> u * p \<le> M \<and> 0 \<le> fee \<and> fee \<le> M"

definition state_within :: "rat \<Rightarrow> position_state \<Rightarrow> bool" where
  "state_within M s \<longleftrightarrow> quantity s \<le> M \<and> avg_entry s \<le> M \<and> avg_entry s * quantity s \<le> M \<and> \<bar>cost_basis s\<bar> \<le> M \<and>
     \<bar>ps_realized_pnl s\<bar> \<le> M"

inductive position_life :: "rat \<Rightarrow> nat \<Rightarrow> rat \<Rightarrow> rat \<Rightarrow> position_state \<Rightarrow> bool" for M where
  opened: "\<lbrakk>apply_buy st u p fee l = Inr s; \<forall>t. st = Some t \<longrightarrow> quantity t \<le> 0; trade_within M u p fee\<rbrakk> \<Longrightarrow>
     position_life M 1 (u * p + fee) 0 s"
| bought: "\<lbrakk>position_life M n paid pnl s; 0 < quantity s; 0 \<le> cost_basis s; state_within M s; apply_buy (Some s) u p fee l = Inr s';
     trade_within M u p fee\<rbrakk> \<Longrightarrow> position_life M (n + 1) (paid + (u * p + fee)) pnl s'"
| sold: "\<lbrakk>position_life M n paid pnl s; state_within M s; apply_sell s u p fee = Inr (s', r); trade_within M u p fee\<rbrakk> \<Longrightarrow>
     position_life M (n + 1) (paid - (u * p - fee)) (pnl + r) s'"

text \<open>The book is in step when the realised result, the cost of what is held and the cash paid agree, the
  average price times the quantity is that cost, and the state's own total is what the sales returned.\<close>

definition life_gap :: "rat \<Rightarrow> rat \<Rightarrow> position_state \<Rightarrow> rat" where
  "life_gap paid pnl s = \<bar>pnl - (cost_basis s - paid)\<bar> + \<bar>cost_basis s - avg_entry s * quantity s\<bar> + \<bar>ps_realized_pnl s - pnl\<bar>"

lemma tenth_powi_small: "k \<le> - 27 \<Longrightarrow> (of_nat 10 :: rat) powi k \<le> 1 / 10 ^ 27"
proof -
  assume "k \<le> - 27"
  then have "(of_nat 10 :: rat) powi k \<le> of_nat 10 powi (- 27)" by (rule power_int_increasing) simp_all
  also have "\<dots> = 1 / 10 ^ 27" by (simp add: power_int_def power_divide)
  finally show ?thesis .
qed

lemma dround_rel_err: "\<bar>dround x - x\<bar> \<le> \<bar>x\<bar> * (1 / 10 ^ 27) / 2 + 1 / 10 ^ 27 / 2"
proof -
  have k: "(- 1000026 :: int) \<le> - 27" "1 - int 28 \<le> - 27" by simp_all
  have "\<bar>dround x - x\<bar> \<le> \<bar>x\<bar> * of_nat 10 powi (1 - int 28) / 2 + of_nat 10 powi (- 1000026) / 2"
    unfolding dround_def by (rule dec.rnd_rel_error)
  also have "\<dots> \<le> \<bar>x\<bar> * (1 / 10 ^ 27) / 2 + 1 / 10 ^ 27 / 2"
    by (rule add_mono [OF divide_right_mono [OF mult_left_mono [OF tenth_powi_small [OF k(2)] abs_ge_zero]]
          divide_right_mono [OF tenth_powi_small [OF k(1)]]]) (rule zero_le_numeral)+
  finally show ?thesis .
qed

lemma dround_err:
  assumes "\<bar>x\<bar> \<le> c * M" and "1 \<le> M"
  shows "\<bar>dround x - x\<bar> \<le> (c + 1) / 2 * (M / 10 ^ 27)"
proof -
  have "\<bar>x\<bar> * (1 / 10 ^ 27) / 2 + 1 / 10 ^ 27 / 2 \<le> (c + 1) / 2 * (M / 10 ^ 27)" using assms by (simp add: field_simps)
  with dround_rel_err [of x] show ?thesis by linarith
qed

text \<open>A rounded product is exact up to the rounding; so is a rounded quotient after multiplying it back.\<close>

lemma ddiv_err:
  assumes "0 < q" and "q \<le> c * M" and "\<bar>x\<bar> \<le> c * M" and "1 \<le> M"
  shows "\<bar>x - ddiv x q * q\<bar> \<le> c * (M / 10 ^ 27)"
proof -
  have "\<bar>ddiv x q - x / q\<bar> \<le> \<bar>x / q\<bar> * (1 / 10 ^ 27) / 2 + 1 / 10 ^ 27 / 2"
    using dround_rel_err [of "x / q"] by (simp add: ddiv_def)
  then have "\<bar>ddiv x q - x / q\<bar> * q \<le> (\<bar>x / q\<bar> * (1 / 10 ^ 27) / 2 + 1 / 10 ^ 27 / 2) * q"
    using assms(1) by (intro mult_right_mono) auto
  moreover have "\<bar>ddiv x q - x / q\<bar> * q = \<bar>x - ddiv x q * q\<bar>"
    using assms(1) by (simp add: abs_minus_commute [of x] abs_mult_pos left_diff_distrib)
  moreover have "(\<bar>x / q\<bar> * (1 / 10 ^ 27) / 2 + 1 / 10 ^ 27 / 2) * q = (\<bar>x\<bar> + q) * (1 / 10 ^ 27) / 2"
    using assms(1) by (simp add: abs_divide field_simps)
  moreover have "(\<bar>x\<bar> + q) * (1 / 10 ^ 27) / 2 \<le> c * (M / 10 ^ 27)" using assms(2,3) by (simp add: field_simps)
  ultimately show ?thesis by simp
qed

text \<open>What a purchase costs and what a sale brings, up to rounding.\<close>

lemma spend_err:
  assumes "trade_within M u p fee" and "1 \<le> M" and "0 < u" and "0 < p"
  shows "\<bar>dadd (dmul u p) fee - (u * p + fee)\<bar> \<le> 3 * (M / 10 ^ 27)" and "\<bar>dsub (dmul u p) fee - (u * p - fee)\<bar> \<le> 3 * (M / 10 ^ 27)"
proof -
  have up: "0 \<le> u * p" "u * p \<le> M" and fee: "0 \<le> fee" "fee \<le> M" using assms by (auto simp: trade_within_def)
  have e: "0 \<le> M / 10 ^ 27" "M / 10 ^ 27 \<le> M" using assms(2) by (auto simp: field_simps)
  have m: "\<bar>dmul u p - u * p\<bar> \<le> M / 10 ^ 27" using dround_err [of "u * p" 1 M] up assms(2) by (simp add: dmul_def)
  have "\<bar>dmul u p + fee\<bar> \<le> 3 * M" "\<bar>dmul u p - fee\<bar> \<le> 3 * M" using m up fee e by linarith+
  then have "\<bar>dadd (dmul u p) fee - (dmul u p + fee)\<bar> \<le> 2 * (M / 10 ^ 27)" "\<bar>dsub (dmul u p) fee - (dmul u p - fee)\<bar> \<le> 2 * (M / 10 ^ 27)"
    using dround_err [of _ 3 M] assms(2) by (simp_all add: dadd_def dsub_def)
  then show "\<bar>dadd (dmul u p) fee - (u * p + fee)\<bar> \<le> 3 * (M / 10 ^ 27)" "\<bar>dsub (dmul u p) fee - (u * p - fee)\<bar> \<le> 3 * (M / 10 ^ 27)"
    using m by linarith+
qed

subsection \<open>One trade\<close>

text \<open>A purchase adds its cost to the cost of the position and sets the average to that cost per unit.\<close>

definition cost_held :: "position_state option \<Rightarrow> rat" where
  "cost_held st = (case st of None \<Rightarrow> 0 | Some s \<Rightarrow> if quantity s \<le> 0 then 0 else cost_basis s)"

definition pnl_held :: "position_state option \<Rightarrow> rat" where
  "pnl_held st = (case st of None \<Rightarrow> 0 | Some s \<Rightarrow> if quantity s \<le> 0 then 0 else ps_realized_pnl s)"

lemma apply_buy_books:
  assumes r: "apply_buy st u p fee l = Inr s'" and t: "trade_within M u p fee" and M: "1 \<le> M"
    and held: "\<forall>s. st = Some s \<and> 0 < quantity s \<longrightarrow> state_within M s"
  shows "\<bar>cost_basis s' - (cost_held st + (u * p + fee))\<bar> \<le> 6 * (M / 10 ^ 27)"
    and "\<bar>cost_basis s' - avg_entry s' * quantity s'\<bar> \<le> 5 * (M / 10 ^ 27)"
    and "ps_realized_pnl s' = pnl_held st" and "0 < quantity s'"
proof -
  define e where "e = M / 10 ^ 27"
  have e: "0 \<le> e" "100 * e \<le> M" using M by (auto simp: e_def field_simps)
  from r have g: "0 < u" "0 < p" "0 < l" by (auto simp: apply_buy_def split: if_splits)
  have up: "0 \<le> u * p" "u * p \<le> M" "0 \<le> fee" "fee \<le> M" "u \<le> M" using g t by (auto simp: trade_within_def)
  define spend where "spend = dadd (dmul u p) fee"
  have sp: "\<bar>spend - (u * p + fee)\<bar> \<le> 3 * e" using spend_err(1) [OF t M g(1,2)] by (simp add: spend_def e_def)
  then have spM: "\<bar>spend\<bar> \<le> 3 * M" using up e by linarith
  have all: "\<bar>cost_basis s' - (cost_held st + (u * p + fee))\<bar> \<le> 6 * e \<and>
    \<bar>cost_basis s' - avg_entry s' * quantity s'\<bar> \<le> 5 * e \<and> ps_realized_pnl s' = pnl_held st \<and> 0 < quantity s'"
  proof (cases "\<exists>s. st = Some s \<and> 0 < quantity s")
    case False
    have "dmul u p = dadd (dmul u p) 0" by (simp add: darith_defs)
    then have "\<bar>spend - p * u\<bar> \<le> 5 * e" if "fee = 0" using that sp e by (simp add: mult.commute)
    moreover have "\<bar>spend - ddiv spend u * u\<bar> \<le> 5 * e" using ddiv_err [of u 3 M spend] g(1) up spM M e by (simp add: e_def)
    ultimately show ?thesis
      using r sp e False g
      by (auto simp: apply_buy_def Let_def spend_def [symmetric] cost_held_def pnl_held_def split: if_splits option.splits)
  next
    case True
    then obtain s where s: "st = Some s" "0 < quantity s" by blast
    define q c where "q = dadd (quantity s) u" and "c = dadd (cost_basis s) spend"
    have s': "cost_basis s' = c" "quantity s' = q" "avg_entry s' = ddiv c q" "ps_realized_pnl s' = ps_realized_pnl s" "q \<noteq> 0"
      using r s g by (auto simp: apply_buy_def Let_def exn_simps ddivE_def spend_def q_def c_def split: if_splits)
    have h: "\<bar>cost_basis s\<bar> \<le> M" "quantity s \<le> M" using held s by (auto simp: state_within_def)
    have "\<bar>cost_basis s + spend\<bar> \<le> 4 * M" using h spM by linarith
    from dround_err [OF this M] have c: "\<bar>c - (cost_basis s + spend)\<bar> \<le> 5 / 2 * e" by (simp add: c_def dadd_def e_def)
    then have cM: "\<bar>c\<bar> \<le> 5 * M" using h spM e by linarith
    have "\<bar>quantity s + u\<bar> \<le> 2 * M" using h s g up by linarith
    from dround_err [OF this M] have qe: "\<bar>q - (quantity s + u)\<bar> \<le> 3 / 2 * e" by (simp add: q_def dadd_def e_def)
    then have qM: "q \<le> 5 * M" using h up e by linarith
    have "0 \<le> q" using s g by (simp add: q_def dadd_def dround_nonneg)
    with s'(5) have q0: "0 < q" by simp
    have "\<bar>c - ddiv c q * q\<bar> \<le> 5 * e" using ddiv_err [OF q0 qM cM M] by (simp add: e_def)
    moreover have "\<bar>c - (cost_basis s + (u * p + fee))\<bar> \<le> 6 * e" using c sp e by linarith
    ultimately show ?thesis using q0 s s' by (simp add: cost_held_def pnl_held_def)
  qed
  show "\<bar>cost_basis s' - (cost_held st + (u * p + fee))\<bar> \<le> 6 * (M / 10 ^ 27)" "\<bar>cost_basis s' - avg_entry s' * quantity s'\<bar> \<le> 5 * (M / 10 ^ 27)"
    using all by (simp_all add: e_def)
  show "ps_realized_pnl s' = pnl_held st" "0 < quantity s'" using all by simp_all
qed

text \<open>A sale realises what it brings less the average cost of what it sells. A part sold takes that cost out
  of the position and leaves the average; the last units sold leave nothing.\<close>

lemma apply_sell_books:
  assumes r: "apply_sell s u p fee = Inr (s', pnl)" and t: "trade_within M u p fee" and M: "1 \<le> M" and w: "state_within M s"
    and inv: "position_inv s"
  shows "\<bar>pnl - ((u * p - fee) - avg_entry s * u)\<bar> \<le> 7 * (M / 10 ^ 27)"
    and "ps_realized_pnl s' = dadd (ps_realized_pnl s) pnl" and "\<bar>pnl\<bar> \<le> 6 * M"
    and "quantity s' = 0 \<and> cost_basis s' = 0 \<and> avg_entry s' = 0 \<and> \<bar>avg_entry s * quantity s - avg_entry s * u\<bar> \<le> M / 10 ^ 27 \<or>
      0 < quantity s' \<and> avg_entry s' = avg_entry s \<and> \<bar>cost_basis s' - (cost_basis s - avg_entry s * u)\<bar> \<le> 4 * (M / 10 ^ 27) \<and>
      \<bar>avg_entry s * quantity s' - (avg_entry s * quantity s - avg_entry s * u)\<bar> \<le> M / 10 ^ 27"
proof -
  define e where "e = M / 10 ^ 27"
  have e: "0 \<le> e" "100 * e \<le> M" using M by (auto simp: e_def field_simps)
  define a where "a = avg_entry s"
  from r have g: "0 < u" "0 < p" "u \<le> quantity s" by (auto simp: apply_sell_def split: if_splits)
  have up: "0 \<le> u * p" "u * p \<le> M" "0 \<le> fee" "fee \<le> M" using g t by (auto simp: trade_within_def)
  have a: "0 \<le> a" "a \<le> M" "a * quantity s \<le> M" "\<bar>cost_basis s\<bar> \<le> M" using inv w by (auto simp: a_def position_inv_def state_within_def)
  have au: "0 \<le> a * u" "a * u \<le> a * quantity s" using a(1) g by (auto intro: mult_left_mono)
  then have auM: "\<bar>a * u\<bar> \<le> 1 * M" using a(3) by simp
  define cr pr where "cr = dmul a u" and "pr = dsub (dmul u p) fee"
  have cr: "\<bar>cr - a * u\<bar> \<le> e" using dround_err [OF auM M] by (simp add: cr_def dmul_def e_def)
  have pr: "\<bar>pr - (u * p - fee)\<bar> \<le> 3 * e" using spend_err(2) [OF t M g(1,2)] by (simp add: pr_def e_def)
  have pnl: "pnl = dsub pr cr" and ps: "ps_realized_pnl s' = dadd (ps_realized_pnl s) pnl"
    using r by (auto simp: apply_sell_def Let_def cr_def pr_def a_def split: if_splits)
  have "\<bar>pr - cr\<bar> \<le> 4 * M" using cr pr up auM e by linarith
  from dround_err [OF this M] have p2: "\<bar>pnl - (pr - cr)\<bar> \<le> 5 / 2 * e" by (simp add: pnl dsub_def e_def)
  show "\<bar>pnl - ((u * p - fee) - avg_entry s * u)\<bar> \<le> 7 * (M / 10 ^ 27)"
    using p2 cr pr e unfolding a_def [symmetric] e_def [symmetric] by linarith
  show "ps_realized_pnl s' = dadd (ps_realized_pnl s) pnl" by (rule ps)
  show "\<bar>pnl\<bar> \<le> 6 * M" using p2 \<open>\<bar>pr - cr\<bar> \<le> 4 * M\<close> e by linarith
  define rem where "rem = dsub (quantity s) u"
  have rel: "\<bar>rem - (quantity s - u)\<bar> \<le> \<bar>quantity s - u\<bar> * (1 / 10 ^ 27) / 2 + 1 / 10 ^ 27 / 2"
    using dround_rel_err [of "quantity s - u"] by (simp add: rem_def dsub_def)
  have "\<bar>a * rem - a * (quantity s - u)\<bar> = a * \<bar>rem - (quantity s - u)\<bar>" using a(1) by (simp add: abs_mult flip: right_diff_distrib)
  also have "\<dots> \<le> a * (\<bar>quantity s - u\<bar> * (1 / 10 ^ 27) / 2 + 1 / 10 ^ 27 / 2)" by (rule mult_left_mono [OF rel a(1)])
  also have "\<dots> = (a * quantity s - a * u + a) / 10 ^ 27 / 2" using g by (simp add: field_simps)
  also have "\<dots> \<le> e" using a(2,3) au by (simp add: e_def field_simps)
  finally have d: "\<bar>a * rem - (a * quantity s - a * u)\<bar> \<le> e" by (simp add: right_diff_distrib)
  have "\<bar>cost_basis s - cr\<bar> \<le> 3 * M" using a(4) cr auM e by linarith
  from dround_err [OF this M] have c: "\<bar>dsub (cost_basis s) cr - (cost_basis s - cr)\<bar> \<le> 2 * e" by (simp add: dsub_def e_def)
  show "quantity s' = 0 \<and> cost_basis s' = 0 \<and> avg_entry s' = 0 \<and> \<bar>avg_entry s * quantity s - avg_entry s * u\<bar> \<le> M / 10 ^ 27 \<or>
      0 < quantity s' \<and> avg_entry s' = avg_entry s \<and> \<bar>cost_basis s' - (cost_basis s - avg_entry s * u)\<bar> \<le> 4 * (M / 10 ^ 27) \<and>
      \<bar>avg_entry s * quantity s' - (avg_entry s * quantity s - avg_entry s * u)\<bar> \<le> M / 10 ^ 27"
  proof (cases "rem \<le> 0")
    case True
    moreover have "0 \<le> rem" using g by (simp add: rem_def dsub_def dround_nonneg)
    ultimately have z: "rem = 0" by simp
    then have "quantity s' = 0 \<and> cost_basis s' = 0 \<and> avg_entry s' = 0"
      using r by (auto simp: apply_sell_def Let_def rem_def split: if_splits)
    then show ?thesis using d z unfolding a_def [symmetric] e_def [symmetric] by (simp add: abs_minus_commute)
  next
    case False
    then have "quantity s' = rem \<and> avg_entry s' = a \<and> cost_basis s' = dsub (cost_basis s) cr"
      using r by (auto simp: apply_sell_def Let_def rem_def a_def cr_def split: if_splits)
    then show ?thesis using d c cr e False unfolding a_def [symmetric] e_def [symmetric] by simp
  qed
qed

subsection \<open>A whole life\<close>

definition closed_is_empty :: "position_state \<Rightarrow> bool" where
  "closed_is_empty s \<longleftrightarrow> (quantity s = 0 \<longrightarrow> cost_basis s = 0 \<and> avg_entry s = 0)"

lemma life_gapI:
  assumes "\<bar>pnl' - (cost_basis s' - paid')\<bar> \<le> \<bar>pnl - (cost_basis s - paid)\<bar> + x"
    and "\<bar>cost_basis s' - avg_entry s' * quantity s'\<bar> \<le> y" and "\<bar>ps_realized_pnl s' - pnl'\<bar> \<le> \<bar>ps_realized_pnl s - pnl\<bar> + z"
    and "x + y + z \<le> \<bar>cost_basis s - avg_entry s * quantity s\<bar> + 20 * e"
  shows "life_gap paid' pnl' s' \<le> life_gap paid pnl s + 20 * e"
proof -
  have "a' + b' + c' \<le> a + b + c + 20 * e" if "a' \<le> a + x" "b' \<le> y" "c' \<le> c + z" "x + y + z \<le> b + 20 * e" for a b c a' b' c' :: rat
    using that by linarith
  from this [OF assms] show ?thesis by (simp add: life_gap_def)
qed

lemma life_slack: "0 \<le> e \<Longrightarrow> 0 \<le> b \<Longrightarrow> 6 * e + 5 * e + 0 \<le> b + 20 * e" for b e :: rat
  by linarith

lemma life_gap_opened:
  assumes "apply_buy st u p fee l = Inr s" and "\<forall>t. st = Some t \<longrightarrow> quantity t \<le> 0" and "trade_within M u p fee" and "1 \<le> M"
  shows "position_inv s \<and> closed_is_empty s \<and> life_gap (u * p + fee) 0 s \<le> 20 * (M / 10 ^ 27)"
proof -
  have h: "cost_held st = 0" "pnl_held st = 0" using assms(2) by (auto simp: cost_held_def pnl_held_def split: option.splits)
  have e: "0 \<le> M / 10 ^ 27" using assms(4) by simp
  have nh: "\<forall>t. st = Some t \<and> 0 < quantity t \<longrightarrow> state_within M t" using assms(2) by auto
  note B = apply_buy_books [OF assms(1,3,4) nh, unfolded h]
  have "position_inv s"
  proof (cases st)
    case None
    then show ?thesis using apply_buy_inv(1) [OF assms(1)] assms(3) by (simp add: trade_within_def)
  next
    case (Some t)
    then have "apply_buy st u p fee l = apply_buy None u p fee l" using assms(2) by (simp add: apply_buy_def)
    then show ?thesis using apply_buy_inv(1) [of None u p fee l s] assms(1,3) by (simp add: trade_within_def)
  qed
  then show ?thesis using B e unfolding life_gap_def closed_is_empty_def by linarith
qed

lemma life_gap_bought:
  assumes "0 < quantity s" and "0 \<le> cost_basis s" and "state_within M s" and "apply_buy (Some s) u p fee l = Inr s'"
    and "trade_within M u p fee" and "1 \<le> M"
  shows "position_inv s' \<and> closed_is_empty s' \<and> life_gap (paid + (u * p + fee)) pnl s' \<le> life_gap paid pnl s + 20 * (M / 10 ^ 27)"
proof -
  have h: "cost_held (Some s) = cost_basis s" "pnl_held (Some s) = ps_realized_pnl s" using assms(1) by (simp_all add: cost_held_def pnl_held_def)
  have e: "0 \<le> M / 10 ^ 27" using assms(6) by simp
  have w: "\<forall>t. Some s = Some t \<and> 0 < quantity t \<longrightarrow> state_within M t" using assms(3) by auto
  note B = apply_buy_books [OF assms(4,5,6) w, unfolded h]
  have "position_inv s'" using apply_buy_inv(1) [OF assms(4)] assms(2,5) by (auto simp: trade_within_def)
  moreover have "closed_is_empty s'" using B(4) by (simp add: closed_is_empty_def)
  moreover have q: "\<bar>ps_realized_pnl s' - pnl\<bar> \<le> \<bar>ps_realized_pnl s - pnl\<bar> + 0" using B(3) by simp
  have "\<bar>pnl - (cost_basis s' - (paid + (u * p + fee)))\<bar> \<le> \<bar>pnl - (cost_basis s - paid)\<bar> + 6 * (M / 10 ^ 27)"
    using B(1) by linarith
  then have "life_gap (paid + (u * p + fee)) pnl s' \<le> life_gap paid pnl s + 20 * (M / 10 ^ 27)"
    by (rule life_gapI [OF _ B(2) q life_slack [OF e abs_ge_zero]])
  ultimately show ?thesis by simp
qed

lemma life_gap_sold:
  assumes "position_inv s" and "state_within M s" and "apply_sell s u p fee = Inr (s', r)" and "trade_within M u p fee" and "1 \<le> M"
  shows "position_inv s' \<and> closed_is_empty s' \<and> life_gap (paid - (u * p - fee)) (pnl + r) s' \<le> life_gap paid pnl s + 20 * (M / 10 ^ 27)"
proof -
  define e where "e = M / 10 ^ 27"
  have e: "0 \<le> e" using assms(5) by (simp add: e_def)
  note S = apply_sell_books [OF assms(3,4,5,2,1)]
  have "\<bar>ps_realized_pnl s\<bar> \<le> M" using assms(2) by (simp add: state_within_def)
  then have "\<bar>ps_realized_pnl s + r\<bar> \<le> 7 * M" using S(3) by linarith
  from dround_err [OF this assms(5)] have ps: "\<bar>ps_realized_pnl s' - (ps_realized_pnl s + r)\<bar> \<le> 4 * e"
    unfolding S(2) by (simp add: dadd_def e_def)
  have psg: "\<bar>ps_realized_pnl s' - (pnl + r)\<bar> \<le> \<bar>ps_realized_pnl s - pnl\<bar> + 4 * e" using ps by linarith
  note r = S(1) [folded e_def]
  have g: "life_gap (paid - (u * p - fee)) (pnl + r) s' \<le> life_gap paid pnl s + 20 * e \<and> closed_is_empty s'"
  proof (rule disjE [OF S(4) [folded e_def]], goal_cases)
    case 1
    then have "cost_basis s' = 0" "avg_entry s' * quantity s' = 0" "closed_is_empty s'"
      "\<bar>avg_entry s * quantity s - avg_entry s * u\<bar> \<le> e" by (simp_all add: closed_is_empty_def)
    then have p: "\<bar>(pnl + r) - (cost_basis s' - (paid - (u * p - fee)))\<bar> \<le> \<bar>pnl - (cost_basis s - paid)\<bar> +
        (8 * e + \<bar>cost_basis s - avg_entry s * quantity s\<bar>)" and q: "\<bar>cost_basis s' - avg_entry s' * quantity s'\<bar> \<le> 0"
      using r by linarith+
    show ?case using life_gapI [OF p q psg] e \<open>closed_is_empty s'\<close> by simp
  next
    case 2
    then have c: "closed_is_empty s'" and a: "avg_entry s' * quantity s' = avg_entry s * quantity s'" by (auto simp: closed_is_empty_def)
    have b: "\<bar>cost_basis s' - (cost_basis s - avg_entry s * u)\<bar> \<le> 4 * e"
      "\<bar>avg_entry s * quantity s' - (avg_entry s * quantity s - avg_entry s * u)\<bar> \<le> e" using 2 by simp_all
    have p: "\<bar>(pnl + r) - (cost_basis s' - (paid - (u * p - fee)))\<bar> \<le> \<bar>pnl - (cost_basis s - paid)\<bar> + 11 * e"
      using r b(1) by linarith
    have q: "\<bar>cost_basis s' - avg_entry s' * quantity s'\<bar> \<le> \<bar>cost_basis s - avg_entry s * quantity s\<bar> + 5 * e"
      unfolding a using b by linarith
    show ?case using life_gapI [OF p q psg] e c by simp
  qed
  then show ?thesis using apply_sell_inv(1) [OF assms(1,3)] by (simp add: e_def)
qed

lemma position_life_books:
  assumes "position_life M n paid pnl s" and M: "1 \<le> M"
  shows "position_inv s \<and> closed_is_empty s \<and> life_gap paid pnl s \<le> 20 * of_nat n * (M / 10 ^ 27)"
  using assms(1)
proof induction
  case (opened st u p fee l s)
  then show ?case using life_gap_opened [OF _ _ _ M] by simp
next
  case (bought n paid pnl s u p fee l s')
  then have "life_gap paid pnl s \<le> 20 * of_nat n * (M / 10 ^ 27)" by simp
  with life_gap_bought [OF bought.hyps(2,3,4,5,6) M, of paid pnl] show ?case by (simp add: algebra_simps add_divide_distrib)
next
  case (sold n paid pnl s u p fee s' r)
  then have "position_inv s" "life_gap paid pnl s \<le> 20 * of_nat n * (M / 10 ^ 27)" by simp_all
  with life_gap_sold [OF _ sold.hyps(2,3,4) M, of paid pnl] show ?case by (simp add: algebra_simps add_divide_distrib)
qed

section \<open>Properties\<close>

text \<open>a quantity passes the lot check exactly when it is marked non-standard or the lot size is known
  and positive and the quantity is a whole number of lots.\<close>

theorem lot_check_exact:
  "assert_lot_compatible u lot ns = Inr () \<longleftrightarrow> ns \<or> (\<exists>l n. lot = Some l \<and> 0 < l \<and> u = of_int (n * l))"
  by (rule assert_lot_compatible_iff)

text \<open>C26: the book of a position stays in step with its trades. Whatever accepted purchases and sales made up
  its life, its quantity and average price are not negative, its lots are the whole lots of its quantity, and a
  sold-out position carries no cost. The realised result (as returned by the sales, and as summed in the
  position) is the cost of what is still held less the net cash paid, fees included, and the average price
  times the quantity is that cost: each up to the 28-digit rounding, together at most \<open>20 M / 10\<^sup>2\<^sup>7\<close> per trade when no
  amount exceeds \<open>M\<close> and no purchase meets a held position of negative cost. A sale takes at most what is held.\<close>

theorem position_bookkeeping_sound:
  assumes "position_life M n paid pnl s" and "1 \<le> M"
  shows "position_inv s \<and> (quantity s = 0 \<longrightarrow> cost_basis s = 0 \<and> avg_entry s = 0) \<and>
    \<bar>pnl - (cost_basis s - paid)\<bar> + \<bar>cost_basis s - avg_entry s * quantity s\<bar> + \<bar>ps_realized_pnl s - pnl\<bar> \<le> 20 * of_nat n * (M / 10 ^ 27) \<and>
    (\<forall>u p fee s' r. apply_sell s u p fee = Inr (s', r) \<longrightarrow> u \<le> quantity s)"
  using position_life_books [OF assms] apply_sell_inv(3) by (simp add: life_gap_def closed_is_empty_def)

definition ten_lots :: position_state where
  "ten_lots = \<lparr>quantity = 100, lots = 10, lot_size = 10, avg_entry = 7, cost_basis = 700, ps_realized_pnl = 0\<rparr>"

lemma buy_ten_lots: "apply_buy None 100 7 0 10 = Inr ten_lots"
  by code_simp

lemma sell_ten_lots: "apply_sell ten_lots 30 8 1 = Inr (\<lparr>quantity = 70, lots = 7, lot_size = 10, avg_entry = 7, cost_basis = 490,
    ps_realized_pnl = 29\<rparr>, 29)"
  by code_simp

theorem position_bookkeeping_sound_witness:
  "\<exists>s paid pnl. position_life 1000 2 paid pnl s \<and> position_inv s \<and> lots s = 7 \<and> paid = 461 \<and> pnl = 29 \<and> cost_basis s = 490 \<and>
     \<bar>pnl - (cost_basis s - paid)\<bar> \<le> 40 * (1000 / 10 ^ 27)"
proof -
  define s where "s = \<lparr>quantity = 70, lots = 7, lot_size = 10, avg_entry = 7, cost_basis = 490, ps_realized_pnl = 29\<rparr>"
  have "position_life 1000 1 (100 * 7 + 0) 0 ten_lots"
    by (rule position_life.opened [OF buy_ten_lots]) (simp_all add: trade_within_def)
  from position_life.sold [OF this _ sell_ten_lots, folded s_def]
  have "position_life 1000 (1 + 1) (100 * 7 + 0 - (30 * 8 - 1)) (0 + 29) s"
    by (simp add: state_within_def trade_within_def ten_lots_def)
  then have l: "position_life 1000 2 461 29 s" by (simp add: numeral_2_eq_2)
  have "cost_basis s = 490" "lots s = 7" by (simp_all add: s_def)
  moreover from position_bookkeeping_sound [OF l] have "position_inv s" by simp
  ultimately show ?thesis using l by (intro exI [of _ s] exI [of _ 461] exI [of _ 29]) simp
qed

text \<open>Buying into an empty position without a fee and selling all of it at the same price realises
  exactly nothing and leaves the empty position.\<close>

theorem buy_sell_same_price_is_neutral:
  assumes b: "apply_buy None u p 0 l = Inr s"
  shows "apply_sell s u p 0 = Inr (\<lparr>quantity = 0, lots = 0, lot_size = l, avg_entry = 0, cost_basis = 0,
    ps_realized_pnl = 0\<rparr>, 0)"
proof -
  have g: "0 < u" "0 < p" "0 < l" "dtrunc u mod l = 0" and
    s: "s = \<lparr>quantity = u, lots = dtrunc u div l, lot_size = l, avg_entry = p, cost_basis = dadd (dmul u p) 0, ps_realized_pnl = 0\<rparr>"
    using b by (auto simp: apply_buy_def Let_def split: if_splits)
  show ?thesis using g by (simp add: apply_sell_def s Let_def darith_defs mult.commute)
qed

theorem buy_sell_same_price_is_neutral_witness: "\<exists>s'. apply_sell ten_lots 100 7 0 = Inr (s', 0) \<and> quantity s' = 0"
  using buy_sell_same_price_is_neutral [OF buy_ten_lots] by simp

text \<open>
  The divisibility check of a purchase reads \<open>int(units)\<close> only: 10.5 units pass with a lot of 10
  and are booked as one lot, a quantity the lot check of the same code base refuses.\<close>

theorem fractional_lot_is_accepted:
  "(\<exists>s. apply_buy None (21/2) 100 0 10 = Inr s \<and> quantity s = 21/2 \<and> lots s = 1) \<and>
   assert_lot_compatible (21/2) (Some 10) False = Inl (LotValidationError ''NON_INTEGER_UNITS'')"
proof -
  have "apply_buy None (21/2) 100 0 10 = Inr \<lparr>quantity = 21/2, lots = 1, lot_size = 10, avg_entry = 100,
      cost_basis = 1050, ps_realized_pnl = 0\<rparr>"
    "assert_lot_compatible (21/2) (Some 10) False = Inl (LotValidationError ''NON_INTEGER_UNITS'')"
    by code_simp+
  then show ?thesis by simp
qed

end
