(* ===== verification/Journal.thy ===== *)
theory Journal
  imports Commission Bookinv Position
begin

text \<open>
  The journal services of \<open>backend/app/modules/portfolio/application/personal_portfolio_service.py\<close>:
  \<open>create_operation\<close> and \<open>cancel_operation\<close> with their helpers, as calls of a session. The clock,
  the fresh key of \<open>uuid4\<close> and the caller's portfolio are arguments. The lemmas show that each
  keeps the store's invariant and touches no other book.
\<close>

section \<open>Lifecycle\<close>

definition lifecycle_state :: "manual_portfolio \<Rightarrow> string" where
  "lifecycle_state p = (let status = upper (if mp_status p = [] then LIFECYCLE_DRAFT else mp_status p)
     in if status = LIFECYCLE_ACTIVE then LIFECYCLE_ACTIVE else LIFECYCLE_DRAFT)"

definition journal_operation_count :: "pdb \<Rightarrow> int \<Rightarrow> nat" where
  "journal_operation_count d pid = length (ops_of d pid)"

definition has_legacy_snapshot :: "pdb \<Rightarrow> manual_portfolio \<Rightarrow> bool res" where
  "has_legacy_snapshot d p =
     bnd (money (mp_cash p)) (\<lambda>c. Inr (c \<noteq> 0 \<or> length (positions_of d (mp_id p)) > 0))"

definition journal_state :: "pdb \<Rightarrow> manual_portfolio \<Rightarrow> string res" where
  "journal_state d p =
     (if lifecycle_state p = LIFECYCLE_ACTIVE \<or> journal_operation_count d (mp_id p) > 0 then Inr LIFECYCLE_ACTIVE else
      bnd (has_legacy_snapshot d p) (\<lambda>b. Inr (if b then LIFECYCLE_DRAFT else ''EMPTY'')))"

definition LEGACY_BOOTSTRAP_SOURCE :: string where "LEGACY_BOOTSTRAP_SOURCE = ''LEGACY_BOOTSTRAP''"
definition OPENING_SOURCE :: string where "OPENING_SOURCE = ''OPENING_SNAPSHOT''"

definition journal_cutover_at :: "pdb \<Rightarrow> int \<Rightarrow> instant option" where
  "journal_cutover_at d pid =
     (case map op_occurred_at (filter (\<lambda>r. op_source r \<in> {LEGACY_BOOTSTRAP_SOURCE, OPENING_SOURCE}) (ops_of d pid)) of
        [] \<Rightarrow> None | t # ts \<Rightarrow> Some (foldl min t ts))"

section \<open>Lot size\<close>

definition lot_from_meta :: "instrument_source \<Rightarrow> int option" where
  "lot_from_meta src = (case is_lotsize src of Some l \<Rightarrow> if l > 0 then Some l else None | None \<Rightarrow> None)"

text \<open>\<open>_pick_source\<close> of \<open>equity_lot_size.py\<close>; the last row of a board wins in \<open>by_board\<close>.\<close>

definition pick_source :: "instrument_source list \<Rightarrow> instrument_source option" where
  "pick_source sources =
     (let by_board = (\<lambda>b. List.find (\<lambda>s. upper (opt_or (is_board s) []) = b) (rev sources)) in
      case List.find (\<lambda>b. by_board b \<noteq> None) [''TQBR'', ''TQTF'', ''SMAL''] of
        Some b \<Rightarrow> by_board b
      | None \<Rightarrow> (case List.find (\<lambda>s. lot_from_meta s \<noteq> None) sources of
          Some s \<Rightarrow> Some s
        | None \<Rightarrow> (case sources of [] \<Rightarrow> None | s # _ \<Rightarrow> Some s)))"

definition is_bond :: "instrument_row \<Rightarrow> bool" where
  "is_bond i \<longleftrightarrow> lower (in_asset_class i) = ''bond''"

definition resolve_lot_size :: "pdb \<Rightarrow> instrument_row \<Rightarrow> int option" where
  "resolve_lot_size d i =
     (if is_bond i then Option.bind (map_of (db_bond_terms d) (in_id i)) (\<lambda>l. l)
      else Option.bind (pick_source (filter (\<lambda>s. is_instrument s = in_id i) (db_sources d))) lot_from_meta)"

section \<open>Idempotency\<close>

datatype occurred = OccDatetime pydatetime | OccDate date

definition utc_of :: "pydatetime \<Rightarrow> instant" where
  "utc_of t = (case t of Naive l \<Rightarrow> l | Aware l off \<Rightarrow> l - off)"

definition parse_occurred_at :: "occurred \<Rightarrow> instant" where
  "parse_occurred_at v = (case v of OccDatetime t \<Rightarrow> utc_of t | OccDate d \<Rightarrow> combine_utc d 0 0)"

definition minute_us :: int where "minute_us = 60000000"

record fingerprint =
  fp_type :: operation_type
  fp_minute :: int
  fp_instrument :: "int option"
  fp_units :: "decimal option"
  fp_lots :: "decimal option"
  fp_price :: "decimal option"
  fp_amount :: "decimal option"
  fp_commission :: decimal
  fp_note :: "string option"
  fp_supersedes :: "int option"

definition opt_res :: "('a \<Rightarrow> 'b res) \<Rightarrow> 'a option \<Rightarrow> 'b option res" where
  "opt_res f v = (case v of None \<Rightarrow> Inr None | Some x \<Rightarrow> bnd (f x) (\<lambda>y. Inr (Some y)))"

definition positive_only :: "decimal option \<Rightarrow> decimal option" where
  "positive_only v = (case v of Some x \<Rightarrow> if x > 0 then Some x else None | None \<Rightarrow> None)"

definition idempotency_fingerprint ::
  "operation_type \<Rightarrow> instant \<Rightarrow> int option \<Rightarrow> decimal option \<Rightarrow> decimal option \<Rightarrow> decimal option \<Rightarrow>
   decimal option \<Rightarrow> decimal \<Rightarrow> string option \<Rightarrow> int option \<Rightarrow> fingerprint res" where
  "idempotency_fingerprint t occurred iid us ls px amt comm note supersedes =
     bnd (opt_res units_q (positive_only us)) (\<lambda>us'.
     bnd (opt_res units_q ls) (\<lambda>ls'.
     bnd (opt_res money px) (\<lambda>px'.
     bnd (opt_res money amt) (\<lambda>amt'.
     bnd (money comm) (\<lambda>comm'.
     Inr \<lparr>fp_type = t, fp_minute = occurred div minute_us, fp_instrument = iid, fp_units = us',
          fp_lots = ls', fp_price = px', fp_amount = amt', fp_commission = comm',
          fp_note = non_empty (strip (opt_or note [])), fp_supersedes = supersedes\<rparr>)))))"

definition operation_fingerprint :: "personal_operation \<Rightarrow> fingerprint res" where
  "operation_fingerprint r = idempotency_fingerprint (op_type r) (op_occurred_at r) (op_instrument r) (op_units r)
     (op_lots r) (op_price r) (op_amount r) (op_commission r) (op_note r) (op_supersedes r)"

definition assert_idempotency_match :: "personal_operation \<Rightarrow> fingerprint \<Rightarrow> unit res" where
  "assert_idempotency_match existing expected =
     bnd (operation_fingerprint existing) (\<lambda>fp.
     if fp \<noteq> expected then Inl (PersonalPortfolioError ''IDEMPOTENCY_KEY_REUSED'') else Inr ())"

section \<open>Creating an operation\<close>

text \<open>\<open>OperationType(operation_type)\<close> has happened here; an unknown string is \<open>None\<close>.\<close>

record op_request =
  rq_type :: "operation_type option"
  rq_occurred :: occurred
  rq_key :: "string option"
  rq_instrument :: "int option"
  rq_lots :: "decimal option"
  rq_units :: "decimal option"
  rq_price :: "decimal option"
  rq_amount :: "decimal option"
  rq_commission :: "decimal option"
  rq_commission_provided :: bool
  rq_note :: "string option"
  rq_non_standard_lot :: bool
  rq_supersedes :: "int option"
  rq_reason :: "string option"
  rq_system :: bool

text \<open>An empty book starts its journal with the first operation; the status is written here.\<close>

definition ensure_active :: "manual_portfolio \<Rightarrow> (pdb, unit) st" where
  "ensure_active p = bind_st (gets (\<lambda>d. journal_state d p)) (\<lambda>js. bind_st (lift js) (\<lambda>jstate.
     if jstate \<noteq> LIFECYCLE_ACTIVE then
       bind_st (gets (\<lambda>d. has_legacy_snapshot d p)) (\<lambda>hl. bind_st (lift hl) (\<lambda>legacy.
       if jstate = ''EMPTY'' \<and> \<not> legacy
       then modify (upd_portfolio (mp_id p) (\<lambda>q. q\<lparr>mp_status := LIFECYCLE_ACTIVE\<rparr>))
       else raise (PersonalPortfolioError ''PORTFOLIO_NOT_ACTIVE'')))
     else ret ()))"

definition check_occurred :: "pdb \<Rightarrow> int \<Rightarrow> instant \<Rightarrow> instant \<Rightarrow> unit res" where
  "check_occurred d pid now occurred =
     (if instant_date now < instant_date occurred then Inl (PersonalPortfolioError ''FUTURE_DATED_OPERATION'')
      else if opt_sat (\<lambda>c. occurred \<le> c) (journal_cutover_at d pid)
      then Inl (PersonalPortfolioError ''OPERATION_BEFORE_JOURNAL_CUTOVER'') else Inr ())"

definition rename_lot_error :: "pyexn \<Rightarrow> pyexn" where
  "rename_lot_error e = (case e of LotValidationError c \<Rightarrow> PersonalPortfolioError c | _ \<Rightarrow> e)"

definition rename_ledger_error :: "pyexn \<Rightarrow> pyexn" where
  "rename_ledger_error e = (case e of LedgerError c \<Rightarrow> PersonalPortfolioError c | _ \<Rightarrow> e)"

text \<open>The checks of a trade: instrument, asset class, lots to units, lot compatibility.\<close>

definition resolve_trade_units :: "pdb \<Rightarrow> op_request \<Rightarrow> instrument_row option \<Rightarrow> decimal \<Rightarrow> decimal res" where
  "resolve_trade_units d rq inst us =
     (case inst of
        None \<Rightarrow> Inl (PersonalPortfolioError ''INSTRUMENT_REQUIRED'')
      | Some i \<Rightarrow>
          if is_bond i then Inl (PersonalPortfolioError ''BOND_TRADE_ACCOUNTING_NOT_READY'') else
          let lot = resolve_lot_size d i in
          bnd (if opt_sat (\<lambda>l. l > 0) (rq_lots rq) then
                 (case lot of None \<Rightarrow> Inl (PersonalPortfolioError ''LOT_SIZE_UNKNOWN'')
                  | Some l \<Rightarrow> lots_to_units (opt_or (rq_lots rq) 0) l)
               else Inr us) (\<lambda>u.
          if u \<le> 0 then Inl (PersonalPortfolioError ''INVALID_UNITS'') else
          bnd (map_exn rename_lot_error (assert_lot_compatible u lot (rq_non_standard_lot rq))) (\<lambda>_. Inr u)))"

definition resolve_units :: "pdb \<Rightarrow> op_request \<Rightarrow> operation_type \<Rightarrow> decimal res" where
  "resolve_units d rq t =
     bnd (case rq_units rq of Some u \<Rightarrow> units_q u | None \<Rightarrow> Inr 0) (\<lambda>us.
     bnd (case rq_instrument rq of
            None \<Rightarrow> Inr None
          | Some i \<Rightarrow> (case find_instrument d i of
              None \<Rightarrow> Inl (PersonalPortfolioError ''INSTRUMENT_NOT_FOUND'') | Some inst \<Rightarrow> Inr (Some inst))) (\<lambda>inst.
     if t \<in> {BUY, SELL, OPENING_POSITION} then resolve_trade_units d rq inst us else Inr us))"

text \<open>The body of the savepoint: supersede, append, rebuild, project.\<close>

definition supersede :: "int \<Rightarrow> int option \<Rightarrow> string option \<Rightarrow> (pdb, unit) st" where
  "supersede pid target reason = (case target of
     None \<Rightarrow> ret ()
   | Some i \<Rightarrow> bind_st (gets (\<lambda>d. find_op d i)) (\<lambda>old. case old of
       None \<Rightarrow> raise (PersonalPortfolioError ''OPERATION_NOT_FOUND'')
     | Some r \<Rightarrow>
         if op_portfolio r \<noteq> pid then raise (PersonalPortfolioError ''OPERATION_NOT_FOUND'') else
         if op_status r \<noteq> OP_ACTIVE then raise (PersonalPortfolioError ''OPERATION_NOT_ACTIVE'') else
         modify (upd_op i (\<lambda>r. r\<lparr>op_status := OP_SUPERSEDED,
           op_reason := (case Option.bind reason non_empty of Some x \<Rightarrow> Some x | None \<Rightarrow> op_reason r)\<rparr>))))"

definition reproject :: "instant \<Rightarrow> int \<Rightarrow> (pdb, unit) st" where
  "reproject now pid =
     bind_st (gets (\<lambda>d. rebuild_ledger_from_journal d pid)) (\<lambda>r.
     bind_st (lift (map_exn rename_ledger_error r)) (\<lambda>state. project_portfolio now pid state))"

definition append_operation :: "instant \<Rightarrow> int \<Rightarrow> int option \<Rightarrow> string option \<Rightarrow> personal_operation res \<Rightarrow> (pdb, personal_operation) st" where
  "append_operation now pid target reason row =
     bind_st (supersede pid target reason) (\<lambda>_.
     bind_st (lift row) (\<lambda>r.
     bind_st (insert_op r) (\<lambda>stored.
     bind_st (reproject now pid) (\<lambda>_. ret stored))))"

definition operation_row ::
  "int \<Rightarrow> op_request \<Rightarrow> operation_type \<Rightarrow> instant \<Rightarrow> string \<Rightarrow> decimal \<Rightarrow>
   decimal \<times> commission_source \<times> int option \<times> int option \<Rightarrow> personal_operation res" where
  "operation_row pid rq t occurred key us comm =
     bnd (opt_res money (rq_price rq)) (\<lambda>px.
     bnd (opt_res money (rq_amount rq)) (\<lambda>amt.
     Inr \<lparr>op_id = 0, op_portfolio = pid, op_type = t, op_status = OP_ACTIVE, op_occurred_at = occurred,
          op_instrument = rq_instrument rq, op_lots = rq_lots rq,
          op_units = positive_only (Some us), op_price = px, op_amount = amt, op_commission = fst comm,
          op_source = ''MANUAL'', op_note = rq_note rq, op_key = key, op_supersedes = rq_supersedes rq,
          op_reason = rq_reason rq, op_broker_account = fst (snd (snd comm)),
          op_fee_rule = snd (snd (snd comm)), op_commission_source = Some (fst (snd comm))\<rparr>))"

definition replay_or_conflict :: "int \<Rightarrow> string \<Rightarrow> fingerprint \<Rightarrow> (pdb, personal_operation) st" where
  "replay_or_conflict pid key fp =
     bind_st (gets (\<lambda>d. find_key d pid key)) (\<lambda>raced. case raced of
       None \<Rightarrow> raise (PersonalPortfolioError ''IDEMPOTENCY_CONFLICT'')
     | Some r \<Rightarrow> bind_st (lift (assert_idempotency_match r fp)) (\<lambda>_. ret r))"

text \<open>The part after the lifecycle check, then the whole.\<close>

definition create_active ::
  "instant \<Rightarrow> manual_portfolio \<Rightarrow> op_request \<Rightarrow> operation_type \<Rightarrow> string \<Rightarrow> personal_operation option \<Rightarrow>
   (pdb, personal_operation) st" where
  "create_active now p rq t key existing =
     (let pid = mp_id p; occurred = parse_occurred_at (rq_occurred rq) in
      bind_st (gets (\<lambda>d. check_occurred d pid now occurred)) (\<lambda>checked.
      bind_st (lift checked) (\<lambda>_.
      bind_st (gets (\<lambda>d. resolve_units d rq t)) (\<lambda>resolved.
      bind_st (lift resolved) (\<lambda>us.
      bind_st (gets (\<lambda>d. resolve_operation_commission d p t (rq_commission rq) (rq_commission_provided rq)
                       (positive_only (Some us)) (rq_price rq) (rq_amount rq) (rq_instrument rq) occurred)) (\<lambda>priced.
      bind_st (lift priced) (\<lambda>comm.
      bind_st (lift (idempotency_fingerprint t occurred (rq_instrument rq) (positive_only (Some us)) (rq_lots rq)
                       (rq_price rq) (rq_amount rq) (fst comm) (rq_note rq) (rq_supersedes rq))) (\<lambda>fp.
      case existing of
        Some r \<Rightarrow> bind_st (lift (assert_idempotency_match r fp)) (\<lambda>_. ret r)
      | None \<Rightarrow>
          on_integrity
            (savepoint (append_operation now pid (rq_supersedes rq) (rq_reason rq) (operation_row pid rq t occurred key us comm)))
            (replay_or_conflict pid key fp)))))))))"

definition create_operation ::
  "instant \<Rightarrow> string \<Rightarrow> manual_portfolio \<Rightarrow> op_request \<Rightarrow> (pdb, personal_operation) st" where
  "create_operation now uuid portfolio rq =
     bind_st (lock_portfolio portfolio) (\<lambda>p.
     let key = opt_or (non_empty (strip (opt_or (rq_key rq) []))) uuid in
     bind_st (gets (\<lambda>d. find_key d (mp_id p) key)) (\<lambda>existing.
     case rq_type rq of
       None \<Rightarrow> raise (PersonalPortfolioError ''UNSUPPORTED_OPERATION'')
     | Some t \<Rightarrow>
         if \<not> rq_system rq \<and> t \<in> {OPENING_CASH, OPENING_POSITION}
         then raise (PersonalPortfolioError ''OPENING_OPERATION_SYSTEM_ONLY'')
         else bind_st (ensure_active p) (\<lambda>_. create_active now p rq t key existing)))"

section \<open>Cancelling an operation\<close>

definition cancel_fingerprint :: "int \<Rightarrow> string option \<Rightarrow> int option \<times> string option" where
  "cancel_fingerprint operation_id reason = (Some operation_id, non_empty (strip (opt_or reason [])))"

definition cancel_fingerprint_from_marker :: "personal_operation \<Rightarrow> int option \<times> string option" where
  "cancel_fingerprint_from_marker marker = (case op_supersedes marker of
     None \<Rightarrow> (None, non_empty (strip (opt_or (op_reason marker) [])))
   | Some i \<Rightarrow> cancel_fingerprint i (op_reason marker))"

definition cancel_marker :: "personal_operation \<Rightarrow> string option \<Rightarrow> string \<Rightarrow> personal_operation" where
  "cancel_marker r reason key =
     r\<lparr>op_id := 0, op_status := OP_CANCELLED, op_source := ''MANUAL'', op_note := Some ''CANCEL'', op_key := key,
       op_supersedes := Some (op_id r), op_reason := reason, op_broker_account := None, op_fee_rule := None,
       op_commission_source := None\<rparr>"

definition replay_cancel :: "int option \<times> string option \<Rightarrow> personal_operation \<Rightarrow> (pdb, personal_operation) st" where
  "replay_cancel expected existing =
     (if cancel_fingerprint_from_marker existing \<noteq> expected
      then raise (PersonalPortfolioError ''IDEMPOTENCY_KEY_REUSED'') else
      bind_st (gets (\<lambda>d. Option.bind (op_supersedes existing) (find_op d))) (\<lambda>original.
      ret (opt_or original existing)))"

definition cancel_body :: "instant \<Rightarrow> int \<Rightarrow> int \<Rightarrow> string option \<Rightarrow> string \<Rightarrow> (pdb, personal_operation) st" where
  "cancel_body now pid operation_id reason key =
     bind_st (gets (\<lambda>d. find_op d operation_id)) (\<lambda>found. case found of
       None \<Rightarrow> raise (PersonalPortfolioError ''OPERATION_NOT_FOUND'')
     | Some r \<Rightarrow>
         if op_portfolio r \<noteq> pid then raise (PersonalPortfolioError ''OPERATION_NOT_FOUND'') else
         if op_status r \<noteq> OP_ACTIVE then raise (PersonalPortfolioError ''OPERATION_NOT_ACTIVE'') else
         bind_st (modify (upd_op operation_id (\<lambda>r. r\<lparr>op_status := OP_CANCELLED, op_reason := reason\<rparr>))) (\<lambda>_.
         bind_st (insert_op (cancel_marker r reason key)) (\<lambda>_.
         bind_st (reproject now pid) (\<lambda>_. ret (r\<lparr>op_status := OP_CANCELLED, op_reason := reason\<rparr>)))))"

definition cancel_raced :: "int \<Rightarrow> string \<Rightarrow> int option \<times> string option \<Rightarrow> (pdb, personal_operation) st" where
  "cancel_raced pid key expected =
     bind_st (gets (\<lambda>d. find_key d pid key)) (\<lambda>raced.
     case raced of None \<Rightarrow> raise IntegrityError | Some r \<Rightarrow> replay_cancel expected r)"

definition cancel_operation ::
  "instant \<Rightarrow> string \<Rightarrow> manual_portfolio \<Rightarrow> int \<Rightarrow> string option \<Rightarrow> string option \<Rightarrow> (pdb, personal_operation) st" where
  "cancel_operation now fresh portfolio operation_id reason idempotency_key =
     bind_st (lock_portfolio portfolio) (\<lambda>p.
     let pid = mp_id p;
         key = opt_or (non_empty (strip (opt_or idempotency_key []))) fresh;
         expected = cancel_fingerprint operation_id reason in
     bind_st (gets (\<lambda>d. find_key d pid key)) (\<lambda>existing.
     case existing of
       Some r \<Rightarrow> replay_cancel expected r
     | None \<Rightarrow>
         on_integrity (savepoint (cancel_body now pid operation_id reason key))
           (cancel_raced pid key expected)))"

section \<open>What the calls keep\<close>

text \<open>\<open>live pid d0 d\<close>: the store is sound, only the book \<open>pid\<close> differs from \<open>d0\<close>, and it is active.\<close>

definition live :: "int \<Rightarrow> pdb \<Rightarrow> pdb \<Rightarrow> bool" where
  "live pid d0 d \<longleftrightarrow> db_inv d \<and> (\<forall>q. q \<noteq> pid \<longrightarrow> book_view d q = book_view d0 q) \<and>
     (\<exists>p. find_portfolio d pid = Some p \<and> mp_status p = LIFECYCLE_ACTIVE)"

lemma lock_run:
  "bind_st (lock_portfolio po) f d =
     (case find_portfolio d (mp_id po) of
        None \<Rightarrow> (Inl (PersonalPortfolioError ''PORTFOLIO_NOT_FOUND''), d)
      | Some p \<Rightarrow> if mp_is_test p \<and> \<not> mp_is_test po then (Inl (PersonalPortfolioError ''PORTFOLIO_NOT_FOUND''), d) else f p d)"
  by (simp add: lock_portfolio_def get_portfolio_for_update_def bind_st_def gets_def ret_def raise_def split: option.splits)

lemma upper_active: "upper LIFECYCLE_ACTIVE = LIFECYCLE_ACTIVE" and upper_draft: "upper LIFECYCLE_DRAFT = LIFECYCLE_DRAFT"
  and active_not_draft: "LIFECYCLE_ACTIVE \<noteq> LIFECYCLE_DRAFT" and status_ne: "LIFECYCLE_ACTIVE \<noteq> []" "LIFECYCLE_DRAFT \<noteq> []"
  by (simp_all add: LIFECYCLE_ACTIVE_def LIFECYCLE_DRAFT_def upper_def up_char_def)

lemmas status_simps = upper_active upper_draft active_not_draft active_not_draft [symmetric] status_ne

lemma money_zero: "money x = Inr 0 \<Longrightarrow> on_grid 6 x \<Longrightarrow> x = 0"
  by (auto simp: money_def quantize_of_grid split: if_splits)

lemma upd_portfolio_simps [simp]:
  "db_ops (upd_portfolio pid f d) = db_ops d" "db_positions (upd_portfolio pid f d) = db_positions d"
  "db_next (upd_portfolio pid f d) = db_next d" "ops_of (upd_portfolio pid f d) q = ops_of d q"
  "positions_of (upd_portfolio pid f d) q = positions_of d q"
  by (simp_all add: upd_portfolio_def ops_of_def positions_of_def)

lemma upd_portfolio_ids:
  "(\<And>p. mp_id (f p) = mp_id p) \<Longrightarrow> ids_ok d \<Longrightarrow> ids_ok (upd_portfolio pid f d)"
  by (auto simp: ids_ok_def upd_portfolio_def)

lemma upd_portfolio_view:
  "(\<And>p. mp_id (f p) = mp_id p) \<Longrightarrow> q \<noteq> pid \<Longrightarrow> book_view (upd_portfolio pid f d) q = book_view d q"
  by (cases "find_portfolio d q") (auto simp: book_view_def find_upd_portfolio)

lemma projected_empty: "\<lbrakk>mp_cash p = 0; mp_contributed p = 0; mp_withdrawn p = 0; mp_realized p = 0\<rbrakk> \<Longrightarrow>
  projected p [] empty_ledger"
  by (simp add: projected_def rows_match_def) (simp add: empty_ledger_def)

lemma ensure_active_keeps:
  assumes d: "db_inv d" and p: "find_portfolio d pid = Some p" and r: "ensure_active p d = (res, d1)"
  shows "(\<exists>e. res = Inl e) \<and> d1 = d \<or> live pid d d1 \<and> (mp_status p = LIFECYCLE_ACTIVE \<longrightarrow> d1 = d) \<and> db_ops d1 = db_ops d"
proof -
  have id: "mp_id p = pid" using p by (rule find_portfolio_id)
  consider "active_ok d p" | "draft_ok d p" using d p by (auto simp: db_inv_def)
  then show ?thesis
  proof cases
    case 1
    then have "ensure_active p d = (Inr (), d)"
      by (simp add: ensure_active_def bind_gets bind_lift journal_state_def lifecycle_state_def active_ok_def status_simps Let_def ret_def)
    then show ?thesis using r 1 d p by (auto simp: live_def active_ok_def)
  next
    case 2
    have js: "journal_state d p = bnd (has_legacy_snapshot d p) (\<lambda>b. Inr (if b then LIFECYCLE_DRAFT else ''EMPTY''))"
      using 2 by (simp add: journal_state_def lifecycle_state_def draft_ok_def status_simps Let_def journal_operation_count_def)
    have ne: "''EMPTY'' \<noteq> LIFECYCLE_ACTIVE" "''EMPTY'' \<noteq> LIFECYCLE_DRAFT"
      by (simp_all add: LIFECYCLE_ACTIVE_def LIFECYCLE_DRAFT_def)
    show ?thesis
    proof (cases "has_legacy_snapshot d p = Inr False")
      case False
      then have "(\<exists>e. res = Inl e) \<and> d1 = d"
        using r js ne by (cases "has_legacy_snapshot d p")
          (auto simp: ensure_active_def bind_gets bind_lift status_simps raise_def split: if_splits)
      then show ?thesis by simp
    next
      case True
      define f :: "manual_portfolio \<Rightarrow> manual_portfolio" where "f = (\<lambda>q. q\<lparr>mp_status := LIFECYCLE_ACTIVE\<rparr>)"
      have d1: "d1 = upd_portfolio pid f d"
        using r js ne True id by (auto simp: ensure_active_def bind_gets bind_lift modify_def f_def)
      have c: "mp_cash p = 0" "positions_of d pid = []"
        using True 2 id by (auto simp: has_legacy_snapshot_def exn_simps draft_ok_def intro: money_zero)
      have fid: "mp_id (f q) = mp_id q" for q by (simp add: f_def)
      have fp: "find_portfolio d1 pid = Some (f p)" using p by (simp add: d1 find_upd_portfolio [OF fid])
      have act: "active_ok d1 (f p)"
        unfolding active_ok_def
      proof (intro conjI exI)
        show "rebuild_ledger_from_journal d1 (mp_id (f p)) = Inr empty_ledger"
          using 2 id by (simp add: rebuild_ledger_from_journal_def active_operations_def d1 draft_ok_def f_def)
        show "projected (f p) (positions_of d1 (mp_id (f p))) empty_ledger"
          using 2 c id by (simp add: d1 f_def draft_ok_def projected_empty)
      qed (simp add: f_def)
      have v: "book_view d1 q = book_view d q" if "q \<noteq> pid" for q
        unfolding d1 by (rule upd_portfolio_view [OF fid that])
      have "db_inv d1"
        by (rule db_inv_mutate [OF d _ _ v])
          (use d fp act in \<open>auto simp: d1 db_inv_def keys_unique_def intro: upd_portfolio_ids [OF fid]\<close>)
      then show ?thesis using v fp act 2 by (auto simp: live_def active_ok_def d1 draft_ok_def status_simps)
    qed
  qed
qed

lemma supersede_pre:
  assumes "journal_pre pid d0 d" and "supersede pid target reason d = (Inr u, d')"
  shows "journal_pre pid d0 d' \<and> db_next d' = db_next d \<and>
    map (\<lambda>r. (op_portfolio r, op_key r)) (db_ops d') = map (\<lambda>r. (op_portfolio r, op_key r)) (db_ops d)"
proof (cases target)
  case None
  then show ?thesis using assms by (simp add: supersede_def exn_simps)
next
  case (Some i)
  then obtain r f where r: "find_op d i = Some r" "op_portfolio r = pid" and d': "d' = upd_op i f d" and
     f: "\<And>r. op_id (f r) = op_id r \<and> op_portfolio (f r) = op_portfolio r \<and> op_key (f r) = op_key r"
    using assms(2) by (auto simp: supersede_def exn_simps bind_gets split: option.splits if_splits)
  show ?thesis using upd_op_pre [OF assms(1) r f] f by (auto simp: d' upd_op_def)
qed

lemma reproject_closes:
  assumes pre: "journal_pre pid d0 d" and l: "live pid dd d0" and r: "reproject now pid d = (Inr u, d')"
  shows "live pid dd d' \<and> db_ops d' = db_ops d"
proof -
  from r obtain s where s: "rebuild_ledger_from_journal d pid = Inr s" and pr: "project_portfolio now pid s d = (Inr u, d')"
    by (auto simp: reproject_def bind_gets exn_simps)
  obtain p where p: "db_inv d0" "find_portfolio d0 pid = Some p" "mp_status p = LIFECYCLE_ACTIVE"
    using l by (auto simp: live_def)
  show ?thesis using project_closes [OF pre p s pr] l by (auto simp: live_def active_ok_def)
qed

lemma live_next: "live pid d0 d \<Longrightarrow> pid < db_next d"
  by (auto simp: live_def db_inv_def ids_ok_def find_portfolio_def find_Some_iff)

lemma append_operation_closes:
  assumes l: "live pid d0 d" and r: "append_operation now pid target reason row d = (Inr stored, d')"
    and row: "\<And>x. row = Inr x \<Longrightarrow> op_portfolio x = pid"
  shows "live pid d0 d' \<and> (\<exists>x i. row = Inr x \<and> stored = x\<lparr>op_id := i\<rparr> \<and> find_key d' pid (op_key x) = Some stored)"
proof -
  from r obtain d1 d2 x where s: "supersede pid target reason d = (Inr (), d1)" and x: "row = Inr x"
    and i: "insert_op x d1 = (Inr stored, d2)" and p: "reproject now pid d2 = (Inr (), d')"
    by (auto simp: append_operation_def exn_simps)
  have pre: "journal_pre pid d d1" and nx: "db_next d1 = db_next d"
    using supersede_pre [OF journal_pre_refl s] l by (auto simp: live_def)
  have pid: "pid < db_next d1" using live_next [OF l] nx by simp
  note ins = insert_op_pre [OF pre i row [OF x] pid]
  have "live pid d0 d' \<and> db_ops d' = db_ops d2" by (rule reproject_closes [OF ins(1) l p])
  then show ?thesis using ins x by (auto simp: find_key_def)
qed

lemma cancel_body_closes:
  assumes l: "live pid d0 d" and r: "cancel_body now pid i reason key d = (Inr x, d')"
  shows "live pid d0 d'"
proof -
  define f :: "personal_operation \<Rightarrow> personal_operation" where "f = (\<lambda>r. r\<lparr>op_status := OP_CANCELLED, op_reason := reason\<rparr>)"
  from r obtain old st d2 where old: "find_op d i = Some old" "op_portfolio old = pid"
    and ins: "insert_op (cancel_marker old reason key) (upd_op i f d) = (Inr st, d2)"
    and p: "reproject now pid d2 = (Inr (), d')"
    by (auto simp: cancel_body_def bind_gets exn_simps f_def split: option.splits if_splits)
  have pre: "journal_pre pid d (upd_op i f d)"
    using l by (intro upd_op_pre [OF journal_pre_refl old]) (auto simp: live_def f_def)
  have "pid < db_next (upd_op i f d)" using live_next [OF l] by (simp add: upd_op_def)
  then have "journal_pre pid d d2"
    using insert_op_pre(1) [OF pre ins] old(2) by (simp add: cancel_marker_def)
  then show ?thesis using reproject_closes [OF _ l p] by blast
qed

lemma operation_row_portfolio: "operation_row pid rq t o' key us comm = Inr x \<Longrightarrow>
    op_portfolio x = pid \<and> op_key x = key"
  by (auto simp: operation_row_def exn_simps)

lemma keeps_append:
  "keeps (live pid d0) (on_integrity
     (savepoint (append_operation now pid tgt reason (operation_row pid rq t occ key us comm)))
     (replay_or_conflict pid key fp))"
proof (rule keeps_on_integrity)
  show "keeps (live pid d0) (savepoint (append_operation now pid tgt reason (operation_row pid rq t occ key us comm)))"
    by (rule keeps_savepoint) (use append_operation_closes operation_row_portfolio in blast)
  show "keeps (live pid d0) (replay_or_conflict pid key fp)"
    unfolding replay_or_conflict_def by (intro keeps_bind) (auto split: option.splits)
qed

lemma create_active_keeps: "keeps (live (mp_id p) d0) (create_active now p rq t key existing)"
  unfolding create_active_def Let_def
  by (intro keeps_bind) (auto split: option.splits intro!: keeps_bind keeps_append)

lemma create_operation_state:
  assumes d: "db_inv d"
  shows "snd (create_operation now uuid po rq d) = d \<or> live (mp_id po) d (snd (create_operation now uuid po rq d))"
proof (cases "find_portfolio d (mp_id po)")
  case None
  then show ?thesis by (simp add: create_operation_def lock_run)
next
  case (Some p)
  have id: "mp_id p = mp_id po" using Some by (rule find_portfolio_id)
  have rest: "snd (bind_st (ensure_active p) f d) = d \<or> live (mp_id po) d (snd (bind_st (ensure_active p) f d))"
    if "keeps (live (mp_id po) d) (f ())" for f :: "unit \<Rightarrow> (pdb, personal_operation) st"
    using ensure_active_keeps [OF d Some, of "fst (ensure_active p d)" "snd (ensure_active p d)"] keepsD [OF that]
    by (auto simp: bind_st_def split: prod.splits sum.splits)
  show ?thesis
    unfolding create_operation_def lock_run Some Let_def bind_gets
    by (auto simp: raise_def id [symmetric] split: option.splits intro!: rest [unfolded id [symmetric]] create_active_keeps)
qed

lemma keeps_cancel:
  "keeps (live pid d0) (savepoint (cancel_body now pid i reason key))"
  by (rule keeps_savepoint) (use cancel_body_closes in blast)

text \<open>Cancelling needs an active operation, so the book is live already.\<close>

lemma live_self: "\<lbrakk>db_inv d; find_portfolio d pid = Some p; ops_of d pid \<noteq> []\<rbrakk> \<Longrightarrow> live pid d d"
  using find_portfolio_id [of d pid p] by (auto simp: live_def db_inv_def draft_ok_def active_ok_def)

lemma cancel_operation_state:
  assumes d: "db_inv d"
  shows "snd (cancel_operation now fresh po i reason key d) = d \<or>
    live (mp_id po) d (snd (cancel_operation now fresh po i reason key d))"
proof (cases "find_portfolio d (mp_id po)")
  case None
  then show ?thesis by (simp add: cancel_operation_def lock_run)
next
  case (Some p)
  have id: "mp_id p = mp_id po" using Some by (rule find_portfolio_id)
  define pid where "pid = mp_id po"
  have rp: "keeps Q (replay_cancel e r)" for Q e r
    unfolding replay_cancel_def by (auto intro!: keeps_bind)
  have pure: "snd (replay_cancel e r d) = d" for e r
    using keepsD [OF rp [of "\<lambda>s. s = d"]] by blast
  show ?thesis
  proof (cases "ops_of d pid = []")
    case True
    have nf: "find_op d i = Some r \<Longrightarrow> op_portfolio r \<noteq> pid" for r
      using True find_op_Some [of d i r] by (auto simp: ops_of_def filter_empty_conv)
    have "\<exists>c. cancel_body now pid i reason k d = (Inl (PersonalPortfolioError c), d)" for k
      using nf by (auto simp: cancel_body_def bind_gets raise_def split: option.splits)
    then have "\<exists>c. savepoint (cancel_body now pid i reason k) d = (Inl (PersonalPortfolioError c), d)" for k
      by (metis (mono_tags, lifting) case_prod_conv old.sum.simps(5) savepoint_def)
    then have "snd (on_integrity (savepoint (cancel_body now pid i reason k)) h d) = d" for k h
      by (metis (mono_tags, lifting) case_prod_conv old.sum.simps(5) on_integrity_def pyexn.simps snd_conv)
    then show ?thesis
      by (auto simp: cancel_operation_def lock_run Some Let_def bind_gets id pure pid_def split: option.splits)
  next
    case False
    have l: "live pid d d" using live_self [OF d _ False] Some by (simp add: pid_def)
    have K: "keeps (live pid d) (on_integrity (savepoint (cancel_body now pid i reason k)) (cancel_raced pid k e))" for k e
      unfolding cancel_raced_def
      by (rule keeps_on_integrity [OF keeps_cancel]) (auto intro!: keeps_bind rp split: option.splits)
    show ?thesis unfolding cancel_operation_def lock_run Some Let_def bind_gets id
      unfolding pid_def [symmetric]
      by (auto simp: pure id pid_def [symmetric] split: option.split intro!: disjI2 [OF keepsD [OF K l]])
  qed
qed

lemma live_facts: "live pid d0 d \<Longrightarrow> db_inv d" "live pid d0 d \<Longrightarrow> q \<noteq> pid \<Longrightarrow> book_view d q = book_view d0 q"
  by (simp_all add: live_def)

interpretation creating: book_service "\<lambda>po. create_operation now uuid po rq" for now uuid rq
proof
  fix d po q
  assume d: "db_inv d"
  show "db_inv (snd (create_operation now uuid po rq d))"
    using create_operation_state [OF d, of now uuid po rq] d live_facts by auto
  show "q \<noteq> mp_id po \<Longrightarrow> book_view (snd (create_operation now uuid po rq d)) q = book_view d q"
    using create_operation_state [OF d, of now uuid po rq] live_facts by auto
qed

interpretation cancelling: book_service "\<lambda>po. cancel_operation now fresh po i reason key" for now fresh i reason key
proof
  fix d po q
  assume d: "db_inv d"
  show "db_inv (snd (cancel_operation now fresh po i reason key d))"
    using cancel_operation_state [OF d, of now fresh po i reason key] d live_facts by auto
  show "q \<noteq> mp_id po \<Longrightarrow> book_view (snd (cancel_operation now fresh po i reason key d)) q = book_view d q"
    using cancel_operation_state [OF d, of now fresh po i reason key] live_facts by auto
qed

end
