(* ===== verification/Lifecycle.thy ===== *)
theory Lifecycle
  imports Journal
begin

text \<open>
  The life of a portfolio, \<open>backend/app/modules/portfolio/application/user_portfolio_service.py\<close>:
  creation, the editing of a draft, activation, reset and deletion. Every service but the creation
  and the renaming locks a book, and interprets \<open>book_service\<close>. \<open>api_step\<close> is one request of the
  HTTP layer: \<open>core_session\<close> commits what a service that returned wrote and rolls back one that
  raised. Summaries that the services return for display are not modelled.
\<close>

section \<open>Drafts\<close>

definition require_draft :: "manual_portfolio \<Rightarrow> (pdb, unit) st" where
  "require_draft p = (if upper (mp_status p) \<noteq> LIFECYCLE_DRAFT
     then raise (PersonalPortfolioError ''PORTFOLIO_NOT_DRAFT'') else ret ())"

definition set_draft_cash :: "instant \<Rightarrow> decimal \<Rightarrow> manual_portfolio \<Rightarrow> (pdb, unit) st" where
  "set_draft_cash now cash_rub po =
     bind_st (lock_portfolio po) (\<lambda>p. bind_st (require_draft p) (\<lambda>_.
     if cash_rub < 0 then raise (PersonalPortfolioError ''INVALID_AMOUNT'') else
     bind_st (lift (money cash_rub)) (\<lambda>c.
     modify (upd_portfolio (mp_id p) (\<lambda>p. touch now (p\<lparr>mp_cash := c\<rparr>))))))"

definition avg_from_total :: "decimal \<Rightarrow> decimal \<Rightarrow> decimal res" where
  "avg_from_total basis us = bnd (ddivE basis us) money"

definition checked_money :: "string \<Rightarrow> decimal \<Rightarrow> decimal res" where
  "checked_money code v = bnd (money v) (\<lambda>x. if x < 0 then Inl (PersonalPortfolioError code) else Inr x)"

definition draft_average :: "bool \<Rightarrow> decimal \<Rightarrow> decimal option \<Rightarrow> decimal option \<Rightarrow> decimal option res" where
  "draft_average bond us average_price cost_basis_total =
     (if bond then
        (case cost_basis_total of
           None \<Rightarrow> Inr None
         | Some v \<Rightarrow> bnd (checked_money ''INVALID_AMOUNT'' v) (\<lambda>t.
             if us > 0 then bnd (avg_from_total t us) (\<lambda>a. Inr (Some a)) else Inr None))
      else
        (case average_price of
           Some v \<Rightarrow> bnd (checked_money ''INVALID_PRICE'' v) (\<lambda>px. Inr (Some px))
         | None \<Rightarrow> (case cost_basis_total of
             None \<Rightarrow> Inr None
           | Some v \<Rightarrow> bnd (checked_money ''INVALID_AMOUNT'' v) (\<lambda>t. bnd (avg_from_total t us) (\<lambda>a. Inr (Some a))))))"

definition upd_position :: "int \<Rightarrow> int \<Rightarrow> (manual_position \<Rightarrow> manual_position) \<Rightarrow> pdb \<Rightarrow> pdb" where
  "upd_position pid iid f d = d\<lparr>db_positions :=
     map (\<lambda>r. if pos_portfolio r = pid \<and> pos_instrument r = iid then f r else r) (db_positions d)\<rparr>"

definition add_position :: "manual_position \<Rightarrow> pdb \<Rightarrow> pdb" where
  "add_position r d = d\<lparr>db_positions := db_positions d @ [r]\<rparr>"

definition draft_units :: "decimal option \<Rightarrow> decimal option \<Rightarrow> int option \<Rightarrow> bool \<Rightarrow> decimal res" where
  "draft_units us ls lot ns =
     bnd (case us of Some u \<Rightarrow> units_q u | None \<Rightarrow> Inr 0) (\<lambda>u0.
     bnd (if opt_sat (\<lambda>l. l > 0) ls then
            (case lot of None \<Rightarrow> Inl (PersonalPortfolioError ''LOT_SIZE_UNKNOWN'') | Some l \<Rightarrow> lots_to_units (opt_or ls 0) l)
          else Inr u0) (\<lambda>u.
     if u \<le> 0 then Inl (PersonalPortfolioError ''INVALID_UNITS'') else
     bnd (map_exn rename_lot_error (assert_lot_compatible u lot ns)) (\<lambda>_. Inr u)))"

definition add_draft_position ::
  "instant \<Rightarrow> int \<Rightarrow> decimal option \<Rightarrow> decimal option \<Rightarrow> decimal option \<Rightarrow> decimal option \<Rightarrow> string option \<Rightarrow> bool \<Rightarrow>
   manual_portfolio \<Rightarrow> (pdb, unit) st" where
  "add_draft_position now iid us ls average_price cost_basis_total note ns po =
     bind_st (lock_portfolio po) (\<lambda>p. bind_st (require_draft p) (\<lambda>_.
     bind_st (gets (\<lambda>d. (find_instrument d iid, d))) (\<lambda>(found, d).
     case found of
       None \<Rightarrow> raise (PersonalPortfolioError ''INSTRUMENT_NOT_FOUND'')
     | Some inst \<Rightarrow>
         bind_st (lift (draft_units us ls (resolve_lot_size d inst) ns)) (\<lambda>u.
         bind_st (lift (draft_average (is_bond inst) u average_price cost_basis_total)) (\<lambda>avg.
         bind_st (modify (if find_position d (mp_id p) iid \<noteq> None
           then upd_position (mp_id p) iid (\<lambda>r. r\<lparr>pos_units := u, pos_average_price := avg, pos_note := note,
                  pos_non_standard_lot := ns, pos_updated_at := now\<rparr>)
           else add_position \<lparr>pos_portfolio = mp_id p, pos_instrument = iid, pos_units = u, pos_average_price = avg,
                  pos_note = note, pos_non_standard_lot = ns, pos_updated_at = now\<rparr>)) (\<lambda>_.
         modify (upd_portfolio (mp_id p) (touch now))))))))"

text \<open>\<open>patch_draft_position\<close>; a position is named by its portfolio and instrument.\<close>

definition patched_units :: "manual_position \<Rightarrow> decimal option \<Rightarrow> decimal option \<Rightarrow> int option \<Rightarrow> bool option \<Rightarrow> decimal res" where
  "patched_units pos us ls lot ns =
     bnd (case ls of
            Some l \<Rightarrow> (case lot of None \<Rightarrow> Inl (PersonalPortfolioError ''LOT_SIZE_UNKNOWN'') | Some k \<Rightarrow> lots_to_units l k)
          | None \<Rightarrow> (case us of Some u \<Rightarrow> units_q u | None \<Rightarrow> units_q (pos_units pos))) (\<lambda>u.
     if u \<le> 0 then Inl (PersonalPortfolioError ''INVALID_UNITS'') else
     bnd (map_exn rename_lot_error (assert_lot_compatible u lot (opt_or ns (pos_non_standard_lot pos)))) (\<lambda>_. Inr u))"

definition patched_average ::
  "bool \<Rightarrow> manual_position \<Rightarrow> decimal \<Rightarrow> decimal option \<Rightarrow> decimal option \<Rightarrow> bool \<Rightarrow> decimal option res" where
  "patched_average bond pos us average_price cost_basis_total clear_cost_basis =
     (if clear_cost_basis then Inr None
      else case (bond, cost_basis_total, average_price) of
        (True, Some v, _) \<Rightarrow> bnd (checked_money ''INVALID_AMOUNT'' v) (\<lambda>t. bnd (avg_from_total t us) (\<lambda>a. Inr (Some a)))
      | (False, _, Some v) \<Rightarrow> bnd (checked_money ''INVALID_PRICE'' v) (\<lambda>px. Inr (Some px))
      | (False, Some v, None) \<Rightarrow> bnd (money v) (\<lambda>t. bnd (avg_from_total t us) (\<lambda>a. Inr (Some a)))
      | _ \<Rightarrow> Inr (pos_average_price pos))"

definition patch_draft_position ::
  "instant \<Rightarrow> int \<times> int \<Rightarrow> decimal option \<Rightarrow> decimal option \<Rightarrow> decimal option \<Rightarrow> decimal option \<Rightarrow> bool \<Rightarrow>
   string option option \<Rightarrow> bool option \<Rightarrow> manual_portfolio \<Rightarrow> (pdb, unit) st" where
  "patch_draft_position now position_id us ls average_price cost_basis_total clear_cost_basis note ns po =
     bind_st (lock_portfolio po) (\<lambda>p. bind_st (require_draft p) (\<lambda>_.
     bind_st (gets (\<lambda>d. (find_position d (fst position_id) (snd position_id), d))) (\<lambda>(found, d).
     case found of
       None \<Rightarrow> raise (PersonalPortfolioError ''POSITION_NOT_FOUND'')
     | Some pos \<Rightarrow>
         if pos_portfolio pos \<noteq> mp_id p then raise (PersonalPortfolioError ''POSITION_NOT_FOUND'') else
         (case find_instrument d (pos_instrument pos) of
            None \<Rightarrow> raise (PersonalPortfolioError ''INSTRUMENT_NOT_FOUND'')
          | Some inst \<Rightarrow>
              bind_st (lift (patched_units pos us ls (resolve_lot_size d inst) ns)) (\<lambda>u.
              bind_st (modify (upd_position (mp_id p) (pos_instrument pos) (\<lambda>r. r\<lparr>pos_units := u\<rparr>))) (\<lambda>_.
              bind_st (lift (patched_average (is_bond inst) pos u average_price cost_basis_total clear_cost_basis)) (\<lambda>avg.
              bind_st (modify (upd_position (mp_id p) (pos_instrument pos) (\<lambda>r. r\<lparr>pos_average_price := avg,
                 pos_note := opt_or note (pos_note r), pos_non_standard_lot := opt_or ns (pos_non_standard_lot r),
                 pos_updated_at := now\<rparr>))) (\<lambda>_.
              modify (upd_portfolio (mp_id p) (touch now))))))))))"

definition delete_positions :: "(manual_position \<Rightarrow> bool) \<Rightarrow> pdb \<Rightarrow> pdb" where
  "delete_positions sel d = d\<lparr>db_positions := filter (\<lambda>r. \<not> sel r) (db_positions d)\<rparr>"

definition delete_draft_position :: "instant \<Rightarrow> int \<times> int \<Rightarrow> manual_portfolio \<Rightarrow> (pdb, unit) st" where
  "delete_draft_position now position_id po =
     bind_st (lock_portfolio po) (\<lambda>p. bind_st (require_draft p) (\<lambda>_.
     bind_st (gets (\<lambda>d. find_position d (fst position_id) (snd position_id))) (\<lambda>found.
     case found of
       None \<Rightarrow> raise (PersonalPortfolioError ''POSITION_NOT_FOUND'')
     | Some pos \<Rightarrow>
         if pos_portfolio pos \<noteq> mp_id p then raise (PersonalPortfolioError ''POSITION_NOT_FOUND'') else
         bind_st (modify (delete_positions (\<lambda>r. pos_portfolio r = mp_id p \<and> pos_instrument r = pos_instrument pos))) (\<lambda>_.
         modify (upd_portfolio (mp_id p) (touch now))))))"

definition zero_totals :: "manual_portfolio \<Rightarrow> manual_portfolio" where
  "zero_totals p = p\<lparr>mp_cash := 0, mp_contributed := 0, mp_withdrawn := 0, mp_realized := 0\<rparr>"

definition clear_draft_portfolio :: "instant \<Rightarrow> manual_portfolio \<Rightarrow> (pdb, unit) st" where
  "clear_draft_portfolio now po =
     bind_st (lock_portfolio po) (\<lambda>p. bind_st (require_draft p) (\<lambda>_.
     bind_st (modify (delete_positions (\<lambda>r. pos_portfolio r = mp_id p))) (\<lambda>_.
     modify (upd_portfolio (mp_id p) (\<lambda>p. touch now (zero_totals p))))))"

section \<open>Reset, deletion, creation\<close>

definition delete_ops :: "int \<Rightarrow> pdb \<Rightarrow> pdb" where
  "delete_ops pid d = d\<lparr>db_ops := filter (\<lambda>r. op_portfolio r \<noteq> pid) (db_ops d)\<rparr>"

definition reset_portfolio :: "instant \<Rightarrow> manual_portfolio \<Rightarrow> (pdb, unit) st" where
  "reset_portfolio now po =
     bind_st (lock_portfolio po) (\<lambda>p.
     bind_st (modify (delete_ops (mp_id p))) (\<lambda>_.
     bind_st (modify (delete_positions (\<lambda>r. pos_portfolio r = mp_id p))) (\<lambda>_.
     modify (upd_portfolio (mp_id p) (\<lambda>p. touch now ((zero_totals p)\<lparr>mp_status := LIFECYCLE_DRAFT\<rparr>))))))"

definition delete_user_portfolio :: "manual_portfolio \<Rightarrow> (pdb, unit) st" where
  "delete_user_portfolio po =
     bind_st (lock_portfolio po) (\<lambda>p.
     bind_st (modify (delete_ops (mp_id p))) (\<lambda>_.
     bind_st (modify (delete_positions (\<lambda>r. pos_portfolio r = mp_id p))) (\<lambda>_.
     modify (\<lambda>d. d\<lparr>db_portfolios := filter (\<lambda>q. mp_id q \<noteq> mp_id p) (db_portfolios d)\<rparr>))))"

text \<open>The unique index on \<open>lower(btrim(name))\<close> of the books that are no tests.\<close>

definition name_taken :: "pdb \<Rightarrow> string \<Rightarrow> bool" where
  "name_taken d name = list_ex (\<lambda>p. \<not> mp_is_test p \<and> lower (strip (mp_name p)) = lower (strip name)) (db_portfolios d)"

definition validate_name :: "string \<Rightarrow> string res" where
  "validate_name name = (let cleaned = strip name in
     if cleaned = [] then Inl (PersonalPortfolioError ''PORTFOLIO_NAME_REQUIRED'')
     else if length cleaned > 120 then Inl (PersonalPortfolioError ''PORTFOLIO_NAME_REQUIRED'') else Inr cleaned)"

definition insert_portfolio :: "manual_portfolio \<Rightarrow> (pdb, manual_portfolio) st" where
  "insert_portfolio row = bind_st (gets id) (\<lambda>d.
     if \<not> mp_is_test row \<and> name_taken d (mp_name row) then raise IntegrityError else
     let p = row\<lparr>mp_id := db_next d\<rparr> in
     bind_st (modify (\<lambda>d. d\<lparr>db_portfolios := db_portfolios d @ [p], db_next := db_next d + 1\<rparr>)) (\<lambda>_. ret p))"

definition create_user_portfolio ::
  "instant \<Rightarrow> string \<Rightarrow> string option \<Rightarrow> bool \<Rightarrow> string \<Rightarrow> (pdb, manual_portfolio) st" where
  "create_user_portfolio now name description is_test source =
     bind_st (lift (validate_name name)) (\<lambda>cleaned.
     on_integrity (savepoint (insert_portfolio
       \<lparr>mp_id = 0, mp_name = cleaned, mp_source = opt_or (non_empty (strip source)) ''MANUAL'', mp_cash = 0,
        mp_status = LIFECYCLE_DRAFT, mp_note = non_empty (strip (opt_or description [])), mp_is_test = is_test,
        mp_contributed = 0, mp_withdrawn = 0, mp_realized = 0, mp_broker_account = None, mp_updated_at = now,
        mp_version = 1\<rparr>))
       (raise (PersonalPortfolioError ''PORTFOLIO_NAME_EXISTS'')))"

section \<open>Activation\<close>

function digits :: "int \<Rightarrow> string" where
  "digits n = (if n < 10 then [char_of (48 + nat n)] else digits (n div 10) @ [char_of (48 + nat (n mod 10))])"
  by auto
termination by (relation "measure nat") auto

definition str_int :: "int \<Rightarrow> string" where
  "str_int n = (if n < 0 then CHR ''-'' # digits (- n) else digits n)"

definition opening_row :: "instant \<Rightarrow> int \<Rightarrow> string \<Rightarrow> personal_operation" where
  "opening_row cutover pid key = \<lparr>op_id = 0, op_portfolio = pid, op_type = OPENING_CASH, op_status = OP_ACTIVE,
     op_occurred_at = cutover, op_instrument = None, op_lots = None, op_units = None, op_price = None,
     op_amount = None, op_commission = 0, op_source = OPENING_SOURCE, op_note = None, op_key = key,
     op_supersedes = None, op_reason = None, op_broker_account = None, op_fee_rule = None,
     op_commission_source = None\<rparr>"

definition insert_missing :: "int \<Rightarrow> string \<Rightarrow> personal_operation res \<Rightarrow> (pdb, unit) st" where
  "insert_missing pid key row =
     bind_st (gets (\<lambda>d. find_key d pid key)) (\<lambda>existing.
     if existing \<noteq> None then ret () else
     bind_st (lift row) (\<lambda>r. bind_st (insert_op r) (\<lambda>_. ret ())))"

definition opening_cash :: "instant \<Rightarrow> int \<Rightarrow> decimal \<Rightarrow> (pdb, unit) st" where
  "opening_cash cutover pid c =
     (let key = ''opening:'' @ str_int pid @ '':cash'' in
      if c > 0 then insert_missing pid key (Inr ((opening_row cutover pid key)
        \<lparr>op_amount := Some c, op_note := Some ''Opening cash''\<rparr>)) else ret ())"

definition opening_position :: "instant \<Rightarrow> int \<Rightarrow> manual_position \<Rightarrow> (pdb, unit) st" where
  "opening_position cutover pid pos =
     (let key = ''opening:'' @ str_int pid @ '':position:'' @ str_int (pos_instrument pos) in
      insert_missing pid key
        (bnd (units_q (pos_units pos)) (\<lambda>u.
         bnd (opt_res money (pos_average_price pos)) (\<lambda>px.
         Inr ((opening_row cutover pid key)\<lparr>op_type := OPENING_POSITION, op_instrument := Some (pos_instrument pos),
           op_units := Some u, op_price := px, op_note := Some ''Opening position''\<rparr>)))))"

fun each :: "('a \<Rightarrow> ('s, unit) st) \<Rightarrow> 'a list \<Rightarrow> ('s, unit) st" where
  "each f [] = ret ()"
| "each f (x # xs) = bind_st (f x) (\<lambda>_. each f xs)"

definition project_current :: "instant \<Rightarrow> int \<Rightarrow> (pdb, unit) st" where
  "project_current now pid =
     bind_st (gets (\<lambda>d. rebuild_ledger_from_journal d pid)) (\<lambda>r.
     bind_st (lift r) (\<lambda>state. project_portfolio now pid state))"

definition activation_body :: "instant \<Rightarrow> manual_portfolio \<Rightarrow> manual_position list \<Rightarrow> (pdb, unit) st" where
  "activation_body now p rows =
     bind_st (lift (money (mp_cash p))) (\<lambda>c.
     bind_st (opening_cash now (mp_id p) c) (\<lambda>_.
     bind_st (each (opening_position now (mp_id p)) rows) (\<lambda>_.
     bind_st (project_current now (mp_id p)) (\<lambda>_.
     modify (upd_portfolio (mp_id p) (\<lambda>p. p\<lparr>mp_status := LIFECYCLE_ACTIVE, mp_updated_at := now\<rparr>))))))"

text \<open>The \<open>except IntegrityError\<close> clause: the refreshed row decides.\<close>

definition activation_conflict :: "int \<Rightarrow> (pdb, unit) st" where
  "activation_conflict pid = bind_st (gets (\<lambda>d. find_portfolio d pid)) (\<lambda>again.
     case again of
       Some q \<Rightarrow> if upper (mp_status q) = LIFECYCLE_ACTIVE then ret ()
                 else raise (PersonalPortfolioError ''IDEMPOTENCY_CONFLICT'')
     | None \<Rightarrow> raise (PersonalPortfolioError ''IDEMPOTENCY_CONFLICT''))"

definition activate_portfolio :: "instant \<Rightarrow> manual_portfolio \<Rightarrow> (pdb, unit) st" where
  "activate_portfolio now po =
     bind_st (lock_portfolio po) (\<lambda>p.
     if upper (mp_status p) = LIFECYCLE_ACTIVE then
       bind_st (gets (\<lambda>d. ops_of d (mp_id p))) (\<lambda>ops. if ops \<noteq> [] then project_current now (mp_id p) else ret ())
     else
       bind_st (require_draft p) (\<lambda>_.
       bind_st (gets (\<lambda>d. positions_of d (mp_id p))) (\<lambda>rows.
       on_integrity (savepoint (activation_body now p rows))
         (activation_conflict (mp_id p)))))"

section \<open>Draft services\<close>

text \<open>\<open>drafted pid d0 d\<close>: the store is sound, only the book \<open>pid\<close> differs from \<open>d0\<close>, and it is a draft.\<close>

definition drafted :: "int \<Rightarrow> pdb \<Rightarrow> pdb \<Rightarrow> bool" where
  "drafted pid d0 d \<longleftrightarrow> db_inv d \<and> (\<forall>q. q \<noteq> pid \<longrightarrow> book_view d q = book_view d0 q) \<and>
     (\<exists>p. find_portfolio d pid = Some p \<and> draft_ok d p)"

lemma drafted_next: "drafted pid d0 d \<Longrightarrow> pid < db_next d"
  by (auto simp: drafted_def db_inv_def ids_ok_def find_portfolio_def find_Some_iff)

lemma drafted_edit:
  assumes d: "drafted pid d0 d" and ids: "ids_ok d'" and ops: "db_ops d' = db_ops d"
    and others: "\<And>q. q \<noteq> pid \<Longrightarrow> book_view d' q = book_view d q"
    and p': "find_portfolio d' pid = Some p'" "draft_ok d' p'"
  shows "drafted pid d0 d'"
proof -
  have "db_inv d'" using d p' by (intro draft_edit [OF _ ids ops others]) (auto simp: drafted_def)
  then show ?thesis using d others p' by (auto simp: drafted_def)
qed

lemma drafted_row:
  assumes d: "drafted pid d0 d"
    and f: "\<And>p. mp_id (f p) = mp_id p" "\<And>p. draft_ok d p \<Longrightarrow> draft_ok d (f p)"
  shows "drafted pid d0 (upd_portfolio pid f d)"
proof -
  obtain p where p: "find_portfolio d pid = Some p" "draft_ok d p" using d by (auto simp: drafted_def)
  have "draft_ok (upd_portfolio pid f d) q = draft_ok d q" for q by (simp add: draft_ok_def)
  then show ?thesis
    using d p f
    by (intro drafted_edit [OF d _ _ upd_portfolio_view [OF f(1)], where p' = "f p"])
      (auto simp: find_upd_portfolio [OF f(1)] drafted_def db_inv_def intro!: upd_portfolio_ids)
qed

lemma drafted_rows:
  assumes d: "drafted pid d0 d" and d': "d' = d\<lparr>db_positions := rows\<rparr>"
    and other: "\<And>q. q \<noteq> pid \<Longrightarrow> filter (\<lambda>r. pos_portfolio r = q) rows = positions_of d q"
    and ids: "\<And>r. r \<in> set rows \<Longrightarrow> pos_portfolio r \<in> insert pid (pos_portfolio ` set (db_positions d))"
  shows "drafted pid d0 d'"
proof -
  obtain p where p: "find_portfolio d pid = Some p" "draft_ok d p" using d by (auto simp: drafted_def)
  have i: "ids_ok d" and n: "pid < db_next d" using d drafted_next by (auto simp: drafted_def db_inv_def)
  have "\<forall>r \<in> set rows. pos_portfolio r < db_next d"
    using ids i n by (fastforce simp: ids_ok_def)
  then have "ids_ok d'" using i by (simp add: ids_ok_def d')
  then show ?thesis using p
    by (intro drafted_edit [OF d])
      (auto simp: d' book_view_def find_portfolio_def ops_of_def positions_of_def draft_ok_def other [unfolded positions_of_def])
qed

lemma drafted_upd_position:
  assumes "drafted pid d0 d" and f: "\<And>r. pos_portfolio (f r) = pos_portfolio r"
  shows "drafted pid d0 (upd_position pid iid f d)"
proof (rule drafted_rows [OF assms(1) upd_position_def])
  show "filter (\<lambda>r. pos_portfolio r = q) (map (\<lambda>r. if pos_portfolio r = pid \<and> pos_instrument r = iid then f r else r) (db_positions d)) =
      positions_of d q" if "q \<noteq> pid" for q
  proof -
    have "filter (\<lambda>r. pos_portfolio r = q) (map (\<lambda>r. if pos_portfolio r = pid \<and> pos_instrument r = iid then f r else r) rows) =
        filter (\<lambda>r. pos_portfolio r = q) rows" for rows
      using that f by (induction rows) auto
    then show ?thesis by (simp add: positions_of_def)
  qed
qed (use f in auto)

lemma drafted_add_position:
  "drafted pid d0 d \<Longrightarrow> pos_portfolio r = pid \<Longrightarrow> drafted pid d0 (add_position r d)"
  by (erule drafted_rows [OF _ add_position_def]) (auto simp: positions_of_def)

lemma drafted_delete_positions:
  "drafted pid d0 d \<Longrightarrow> (\<And>r. sel r \<Longrightarrow> pos_portfolio r = pid) \<Longrightarrow> drafted pid d0 (delete_positions sel d)"
  by (erule drafted_rows [OF _ delete_positions_def])
    (auto simp: positions_of_def intro!: filter_cong)

lemma drafted_touch: "drafted pid d0 d \<Longrightarrow> drafted pid d0 (upd_portfolio pid (touch now) d)"
  by (rule drafted_row) (auto simp: touch_def draft_ok_def)

lemma keeps_modify: "(\<And>s. P s \<Longrightarrow> P (f s)) \<Longrightarrow> keeps P (modify f)"
  by (simp add: keeps_def modify_def)

lemma require_draft_run:
  assumes "db_inv d" and "find_portfolio d pid = Some p"
  shows "bind_st (require_draft p) f d = (if mp_status p = LIFECYCLE_ACTIVE
    then (Inl (PersonalPortfolioError ''PORTFOLIO_NOT_DRAFT''), d) else f () d)"
    and "mp_status p \<noteq> LIFECYCLE_ACTIVE \<Longrightarrow> drafted pid d d"
proof -
  have "draft_ok d p \<or> active_ok d p" using assms by (auto simp: db_inv_def)
  then show "bind_st (require_draft p) f d = (if mp_status p = LIFECYCLE_ACTIVE
      then (Inl (PersonalPortfolioError ''PORTFOLIO_NOT_DRAFT''), d) else f () d)"
    and "mp_status p \<noteq> LIFECYCLE_ACTIVE \<Longrightarrow> drafted pid d d"
    using assms by (auto simp: require_draft_def draft_ok_def active_ok_def status_simps raise_def drafted_def)
qed

text \<open>The pattern of every draft service.\<close>

lemma draft_service:
  assumes run: "\<And>po. run po = bind_st (lock_portfolio po) (\<lambda>p. bind_st (require_draft p) (\<lambda>_. body p))"
    and body: "\<And>p d. keeps (drafted (mp_id p) d) (body p)"
  shows "book_service run"
proof
  fix d po q
  assume d: "db_inv d"
  have "snd (run po d) = d \<or> drafted (mp_id po) d (snd (run po d))"
  proof (cases "find_portfolio d (mp_id po)")
    case None
    then show ?thesis by (simp add: run lock_run)
  next
    case (Some p)
    have "drafted (mp_id po) d (snd (body p d))" if "mp_status p \<noteq> LIFECYCLE_ACTIVE"
      using keepsD [OF body [of p d]] require_draft_run(2) [OF d Some that] find_portfolio_id [OF Some] by simp
    then show ?thesis by (auto simp: run lock_run Some require_draft_run(1) [OF d Some])
  qed
  then show "db_inv (snd (run po d))" and "q \<noteq> mp_id po \<Longrightarrow> book_view (snd (run po d)) q = book_view d q"
    using d by (auto simp: drafted_def)
qed

interpretation draft_cash: book_service "set_draft_cash now c" for now c
proof (rule draft_service [OF set_draft_cash_def])
  fix p d
  have "drafted (mp_id p) d (upd_portfolio (mp_id p) (\<lambda>p. touch now (p\<lparr>mp_cash := x\<rparr>)) s)"
    if "money c = Inr x" "\<not> c < 0" "drafted (mp_id p) d s" for x s
    using money_grid [OF that(1)] money_nonneg [OF that(1)] that
    by (intro drafted_row) (auto simp: touch_def draft_ok_def)
  then show "keeps (drafted (mp_id p) d) (if c < 0 then raise (PersonalPortfolioError ''INVALID_AMOUNT'') else
     bind_st (lift (money c)) (\<lambda>x. modify (upd_portfolio (mp_id p) (\<lambda>p. touch now (p\<lparr>mp_cash := x\<rparr>)))))"
    by (auto simp: keeps_def bind_lift modify_def raise_def split: sum.splits)
qed

interpretation draft_add: book_service "add_draft_position now iid us ls ap cb remark ns"
  for now iid us ls ap cb remark ns
  by (rule draft_service [OF add_draft_position_def])
    (auto split: option.splits intro!: keeps_bind keeps_modify drafted_touch drafted_upd_position drafted_add_position)

interpretation draft_patch: book_service "patch_draft_position now pos us ls ap cb clr remark ns"
  for now pos us ls ap cb clr remark ns
  by (rule draft_service [OF patch_draft_position_def])
    (auto split: option.splits intro!: keeps_bind keeps_modify drafted_touch drafted_upd_position)

interpretation draft_delete: book_service "delete_draft_position now pos" for now pos
  by (rule draft_service [OF delete_draft_position_def])
    (auto split: option.splits intro!: keeps_bind keeps_modify drafted_touch drafted_delete_positions)

interpretation draft_clear: book_service "clear_draft_portfolio now" for now
  by (rule draft_service [OF clear_draft_portfolio_def])
    (auto intro!: keeps_bind keeps_modify drafted_row drafted_delete_positions simp: touch_def zero_totals_def draft_ok_def)

section \<open>Reset, deletion and creation\<close>

lemma wiped_views:
  assumes q: "q \<noteq> pid"
  shows "ops_of (delete_positions (\<lambda>r. pos_portfolio r = pid) (delete_ops pid d)) q = ops_of d q"
    and "positions_of (delete_positions (\<lambda>r. pos_portfolio r = pid) (delete_ops pid d)) q = positions_of d q"
    and "find_portfolio (delete_positions (\<lambda>r. pos_portfolio r = pid) (delete_ops pid d)) i = find_portfolio d i"
  using q by (auto simp: ops_of_def positions_of_def find_portfolio_def delete_positions_def delete_ops_def
      intro!: filter_cong)

lemma wiped_ids: "ids_ok d \<Longrightarrow> ids_ok (delete_positions sel (delete_ops pid d))"
  by (auto simp: ids_ok_def delete_positions_def delete_ops_def distinct_map intro: inj_on_subset)

lemma wiped_keys: "keys_unique d \<Longrightarrow> keys_unique (delete_positions sel (delete_ops pid d))"
  by (auto simp: keys_unique_def delete_positions_def delete_ops_def distinct_map intro: inj_on_subset)

interpretation resetting: book_service "reset_portfolio now" for now
proof
  fix d :: pdb and po :: manual_portfolio and q :: int
  assume d: "db_inv d"
  define pid where "pid = mp_id po"
  define w where "w = delete_positions (\<lambda>r. pos_portfolio r = pid) (delete_ops pid d)"
  define f :: "manual_portfolio \<Rightarrow> manual_portfolio"
    where "f = (\<lambda>p. touch now ((zero_totals p)\<lparr>mp_status := LIFECYCLE_DRAFT\<rparr>))"
  have fid: "mp_id (f p) = mp_id p" for p by (simp add: f_def touch_def zero_totals_def)
  have run: "snd (reset_portfolio now po d) = d \<or> snd (reset_portfolio now po d) = upd_portfolio pid f w"
    by (auto simp: reset_portfolio_def lock_run bind_modify modify_def pid_def w_def f_def
        dest: find_portfolio_id split: option.splits)
  have views: "book_view (upd_portfolio pid f w) i = book_view d i" if "i \<noteq> pid" for i
    using upd_portfolio_view [OF fid that] wiped_views [OF that] by (simp add: book_view_def w_def)
  have "db_inv (upd_portfolio pid f w)"
  proof (rule db_inv_mutate [OF d _ _ views])
    show "ids_ok (upd_portfolio pid f w)"
      using d by (auto simp: w_def db_inv_def intro!: upd_portfolio_ids fid wiped_ids)
    show "keys_unique (upd_portfolio pid f w)"
      using d wiped_keys [of d] by (simp add: w_def db_inv_def keys_unique_def)
    fix p assume "find_portfolio (upd_portfolio pid f w) pid = Some p"
    then obtain p0 where "p = f p0" "mp_id p = pid"
      using find_portfolio_id by (fastforce simp: find_upd_portfolio [OF fid])
    then show "draft_ok (upd_portfolio pid f w) p \<or> active_ok (upd_portfolio pid f w) p"
      by (simp add: draft_ok_def f_def touch_def zero_totals_def w_def ops_of_def delete_positions_def
          delete_ops_def filter_empty_conv)
  qed
  then show "db_inv (snd (reset_portfolio now po d))" using d run by metis
  show "q \<noteq> mp_id po \<Longrightarrow> book_view (snd (reset_portfolio now po d)) q = book_view d q"
    using run views pid_def by metis
qed

interpretation deleting: book_service delete_user_portfolio
proof
  fix d :: pdb and po :: manual_portfolio and q :: int
  assume d: "db_inv d"
  define pid where "pid = mp_id po"
  define w where "w = delete_positions (\<lambda>r. pos_portfolio r = pid) (delete_ops pid d)"
  define g where "g = w\<lparr>db_portfolios := filter (\<lambda>q. mp_id q \<noteq> pid) (db_portfolios w)\<rparr>"
  have run: "snd (delete_user_portfolio po d) = d \<or> snd (delete_user_portfolio po d) = g"
    by (auto simp: delete_user_portfolio_def lock_run bind_modify modify_def pid_def w_def g_def
        dest: find_portfolio_id split: option.splits)
  have gone: "find_portfolio g pid = None" by (auto simp: g_def find_portfolio_def find_None_iff)
  have "List.find (\<lambda>p. mp_id p = i) (filter (\<lambda>q. mp_id q \<noteq> pid) ps) = List.find (\<lambda>p. mp_id p = i) ps"
    if "i \<noteq> pid" for i and ps :: "manual_portfolio list"
    using that by (induction ps) auto
  then have views: "book_view g i = book_view d i" if "i \<noteq> pid" for i
    using wiped_views [OF that, where d = d, folded w_def] that
    by (simp add: book_view_def g_def find_portfolio_def ops_of_def positions_of_def)
  have "db_inv g"
  proof (rule db_inv_mutate [OF d _ _ views])
    show "ids_ok g" using wiped_ids [of d] d by (auto simp: g_def w_def db_inv_def ids_ok_def)
    show "keys_unique g" using wiped_keys [of d] d by (simp add: g_def w_def db_inv_def keys_unique_def)
  qed (use gone in auto)
  then show "db_inv (snd (delete_user_portfolio po d))" using d run by metis
  show "q \<noteq> mp_id po \<Longrightarrow> book_view (snd (delete_user_portfolio po d)) q = book_view d q"
    using run views pid_def by metis
qed

lemma insert_portfolio_keeps:
  assumes d: "db_inv d" and r: "insert_portfolio row d = (Inr p, d')"
    and row: "mp_status row = LIFECYCLE_DRAFT" "mp_cash row = 0" "mp_contributed row = 0" "mp_withdrawn row = 0"
      "mp_realized row = 0"
  shows "db_inv d'"
proof -
  define n where "n = db_next d"
  have p: "p = row\<lparr>mp_id := n\<rparr>" and d': "d' = d\<lparr>db_portfolios := db_portfolios d @ [p], db_next := n + 1\<rparr>"
    using r by (auto simp: insert_portfolio_def bind_gets Let_def exn_simps n_def split: if_splits)
  have i: "ids_ok d" using d by (simp add: db_inv_def)
  have none: "find_portfolio d n = None" "ops_of d n = []"
    using i by (auto simp: find_portfolio_def find_None_iff ops_of_def ids_ok_def n_def filter_empty_conv)
  have app: "List.find P (xs @ [x]) = (case List.find P xs of None \<Rightarrow> if P x then Some x else None | Some y \<Rightarrow> Some y)"
    for P xs and x :: manual_portfolio by (induction xs) auto
  have views: "book_view d' q = book_view d q" if "q \<noteq> n" for q
    using that p by (auto simp: book_view_def d' find_portfolio_def app ops_of_def positions_of_def split: option.splits)
  show ?thesis
  proof (rule db_inv_mutate [OF d _ _ views])
    show "ids_ok d'" using i p by (fastforce simp: ids_ok_def d' n_def)
    show "keys_unique d'" using d by (simp add: db_inv_def keys_unique_def d')
    fix b assume "find_portfolio d' n = Some b"
    then have "b = p" using none p by (simp add: find_portfolio_def d' app)
    then show "draft_ok d' b \<or> active_ok d' b"
      using none row p by (simp add: draft_ok_def ops_of_def d')
  qed
qed

lemma create_user_portfolio_keeps: "keeps db_inv (create_user_portfolio now name descr test src)"
  unfolding create_user_portfolio_def
  by (intro keeps_bind keeps_on_integrity keeps_savepoint) (auto elim: insert_portfolio_keeps)

section \<open>Activation\<close>

lemma insert_missing_pre:
  assumes "journal_pre pid d0 d" and "pid < db_next d" and "insert_missing pid key row d = (Inr u, d')"
    and "\<And>x. row = Inr x \<Longrightarrow> op_portfolio x = pid"
  shows "journal_pre pid d0 d' \<and> pid < db_next d'"
proof (cases "find_key d pid key = None")
  case True
  then obtain x r where x: "row = Inr x" "insert_op x d = (Inr r, d')"
    using assms(3) by (auto simp: insert_missing_def bind_gets exn_simps)
  then have "db_next d' = db_next d + 1"
    by (auto simp: insert_op_def bind_gets exn_simps Let_def split: if_splits)
  then show ?thesis using insert_op_pre(1) [OF assms(1) x(2) assms(4) [OF x(1)] assms(2)] assms(2) by simp
next
  case False
  then show ?thesis using assms by (auto simp: insert_missing_def bind_gets exn_simps)
qed

lemma opening_pre:
  assumes "journal_pre pid d0 d" and "pid < db_next d"
  shows "opening_cash now pid c d = (Inr u, d') \<Longrightarrow> journal_pre pid d0 d' \<and> pid < db_next d'"
    and "opening_position now pid pos d = (Inr u, d') \<Longrightarrow> journal_pre pid d0 d' \<and> pid < db_next d'"
proof -
  show "opening_cash now pid c d = (Inr u, d') \<Longrightarrow> journal_pre pid d0 d' \<and> pid < db_next d'"
  proof (cases "0 < c")
    case True
    assume "opening_cash now pid c d = (Inr u, d')"
    then show ?thesis using True unfolding opening_cash_def Let_def if_P [OF True]
      by (elim insert_missing_pre [OF assms]) (auto simp: opening_row_def)
  qed (use assms in \<open>simp add: opening_cash_def Let_def exn_simps\<close>)
  show "opening_position now pid pos d = (Inr u, d') \<Longrightarrow> journal_pre pid d0 d' \<and> pid < db_next d'"
    unfolding opening_position_def Let_def
    by (erule insert_missing_pre [OF assms]) (auto simp: exn_simps opening_row_def)
qed

lemma openings_pre:
  "\<lbrakk>journal_pre pid d0 d; pid < db_next d; each (opening_position now pid) rows d = (Inr u, d')\<rbrakk> \<Longrightarrow>
    journal_pre pid d0 d'"
proof (induction rows arbitrary: d)
  case Nil
  then show ?case by (simp add: exn_simps)
next
  case (Cons r rows)
  then obtain d1 where "opening_position now pid r d = (Inr (), d1)" "each (opening_position now pid) rows d1 = (Inr u, d')"
    by (auto simp: exn_simps)
  with Cons show ?case using opening_pre(2) by blast
qed

lemma project_current_return:
  "project_current now pid d = (Inr u, d') \<longleftrightarrow>
    (\<exists>s. rebuild_ledger_from_journal d pid = Inr s \<and> project_portfolio now pid s d = (Inr u, d'))"
  by (auto simp: project_current_def bind_gets exn_simps)

lemma activation_closes:
  assumes d: "drafted pid dd d" and p: "find_portfolio d pid = Some p"
    and r: "activation_body now p rows d = (Inr u, d')"
  shows "live pid dd d'"
proof -
  have id: "mp_id p = pid" using p by (rule find_portfolio_id)
  define f :: "manual_portfolio \<Rightarrow> manual_portfolio"
    where "f = (\<lambda>p. p\<lparr>mp_status := LIFECYCLE_ACTIVE, mp_updated_at := now\<rparr>)"
  from r id obtain c d1 d2 d3 where c: "opening_cash now pid c d = (Inr (), d1)"
    and e: "each (opening_position now pid) rows d1 = (Inr (), d2)"
    and pr: "project_current now pid d2 = (Inr (), d3)" and d': "d' = upd_portfolio pid f d3"
    by (auto simp: activation_body_def exn_simps f_def)
  have inv: "db_inv d" using d by (simp add: drafted_def)
  have pre: "journal_pre pid d d2"
    using opening_pre(1) [OF journal_pre_refl [OF inv] drafted_next [OF d] c] openings_pre e by blast
  obtain s where s: "rebuild_ledger_from_journal d2 pid = Inr s" "project_portfolio now pid s d2 = (Inr (), d3)"
    using pr by (auto simp: project_current_return)
  note eff = project_effect [OF pre inv p s]
  obtain q where q: "find_portfolio d3 pid = Some q" "rebuild_ledger_from_journal d3 pid = Inr s"
      "projected q (positions_of d3 pid) s" using eff(5) by auto
  have fid: "mp_id (f p) = mp_id p" for p by (simp add: f_def)
  have fq: "find_portfolio d' pid = Some (f q)" using q by (simp add: d' find_upd_portfolio [OF fid])
  have "rebuild_ledger_from_journal d' pid = Inr s" using q rebuild_cong [of d' pid d3] by (simp add: d')
  then have act: "active_ok d' (f q)"
    using q find_portfolio_id [OF q(1)] by (simp add: active_ok_def f_def d' projected_def)
  have views: "book_view d' i = book_view d i" if "i \<noteq> pid" for i
    using upd_portfolio_view [OF fid that, of d3] eff(3) [OF that] by (simp add: d')
  have "db_inv d'"
  proof (rule db_inv_mutate [OF inv _ _ views])
    show "ids_ok d'" unfolding d' by (rule upd_portfolio_ids [OF fid eff(1)])
    show "keys_unique d'" using eff(2) by (simp add: d' keys_unique_def)
  qed (use fq act in auto)
  then show ?thesis using d views fq by (auto simp: live_def drafted_def f_def)
qed

lemma project_current_keeps:
  assumes l: "live pid d0 d" and r: "project_current now pid d = (Inr u, d')"
  shows "live pid d0 d'"
proof -
  obtain p s where p: "db_inv d" "find_portfolio d pid = Some p" "mp_status p = LIFECYCLE_ACTIVE"
    and s: "rebuild_ledger_from_journal d pid = Inr s" "project_portfolio now pid s d = (Inr u, d')"
    using l r by (auto simp: live_def project_current_return)
  show ?thesis using project_closes [OF journal_pre_refl [OF p(1)] p s] l by (auto simp: live_def active_ok_def)
qed

text \<open>On an active book the rebuild cannot raise.\<close>

lemma project_current_total:
  assumes "db_inv d" and "find_portfolio d pid = Some p" and "mp_status p = LIFECYCLE_ACTIVE"
  shows "\<exists>d'. project_current now pid d = (Inr (), d')"
proof -
  have "active_ok d p" using db_inv_cases [OF assms(1,2)] assms(3) by (auto simp: draft_ok_def status_simps)
  then obtain s where s: "rebuild_ledger_from_journal d pid = Inr s"
    using find_portfolio_id [OF assms(2)] by (auto simp: active_ok_def)
  have "ledger_fits s" using rebuild_ok(2) [OF s] .
  then show ?thesis
    by (simp add: project_current_def bind_gets bind_lift s project_portfolio_def ledger_fits_def bind_modify modify_def)
qed

interpretation activating: book_service "activate_portfolio now" for now
proof
  fix d :: pdb and po :: manual_portfolio and q :: int
  assume d: "db_inv d"
  define pid where "pid = mp_id po"
  have "snd (activate_portfolio now po d) = d \<or> live pid d (snd (activate_portfolio now po d))"
  proof (cases "find_portfolio d pid")
    case None
    then show ?thesis by (simp add: activate_portfolio_def lock_run pid_def)
  next
    case (Some p)
    have id: "mp_id p = pid" using Some by (rule find_portfolio_id)
    show ?thesis
    proof (cases "mp_status p = LIFECYCLE_ACTIVE")
      case True
      have l: "live pid d d" using d Some True by (auto simp: live_def)
      obtain d' where d': "project_current now pid d = (Inr (), d')" using project_current_total [OF d Some True] by blast
      then have "live pid d d'" using project_current_keeps [OF l] by blast
      then show ?thesis using l d'
        by (auto simp: activate_portfolio_def lock_run pid_def [symmetric] Some id True status_simps bind_gets ret_def)
    next
      case False
      note rd = require_draft_run [OF d Some]
      have dr: "drafted pid d d" by (rule rd(2) [OF False])
      have nu: "upper (mp_status p) \<noteq> LIFECYCLE_ACTIVE"
        using db_inv_cases [OF d Some] False by (auto simp: draft_ok_def active_ok_def status_simps)
      have sp: "snd (savepoint (activation_body now p rows) d) = d \<or>
          live pid d (snd (savepoint (activation_body now p rows) d))" for rows
        using activation_closes [OF dr Some]
        by (auto simp: savepoint_def split: sum.splits prod.splits)
      have oi: "snd (on_integrity m h d) = snd (m d) \<or> snd (on_integrity m h d) = snd (h (snd (m d)))"
        for m h :: "(pdb, unit) st"
        by (auto simp: on_integrity_def split: sum.splits prod.splits pyexn.splits)
      have pure: "snd (activation_conflict pid s) = s" for s
        by (auto simp: activation_conflict_def bind_gets ret_def raise_def split: option.splits)
      have "snd (activate_portfolio now po d) = d \<or>
          (\<exists>rows. snd (activate_portfolio now po d) = snd (savepoint (activation_body now p rows) d))"
        using oi [of "savepoint (activation_body now p (positions_of d pid))" "activation_conflict pid"]
        by (auto simp: activate_portfolio_def lock_run pid_def [symmetric] Some id nu rd(1) False bind_gets pure)
      then show ?thesis using sp by metis
    qed
  qed
  then show "db_inv (snd (activate_portfolio now po d))" and
    "q \<noteq> mp_id po \<Longrightarrow> book_view (snd (activate_portfolio now po d)) q = book_view d q"
    using d by (auto simp: live_def pid_def)
qed

section \<open>Requests\<close>

text \<open>\<open>core_session\<close>: commit on return, roll back on an exception.\<close>

definition request :: "(pdb, 'a) st \<Rightarrow> pdb \<Rightarrow> pdb" where
  "request m d = (case m d of (Inr x, d') \<Rightarrow> d' | (Inl e, d') \<Rightarrow> d)"

inductive api_step :: "pdb \<Rightarrow> pdb \<Rightarrow> bool" where
  step_create: "api_step d (request (create_user_portfolio now name descr test src) d)"
| step_delete: "api_step d (request (delete_user_portfolio po) d)"
| step_cash: "api_step d (request (set_draft_cash now c po) d)"
| step_add: "api_step d (request (add_draft_position now iid us ls ap cb remark ns po) d)"
| step_patch: "api_step d (request (patch_draft_position now pos us ls ap cb clr remark' ns' po) d)"
| step_remove: "api_step d (request (delete_draft_position now pos po) d)"
| step_clear: "api_step d (request (clear_draft_portfolio now po) d)"
| step_activate: "api_step d (request (activate_portfolio now po) d)"
| step_reset: "api_step d (request (reset_portfolio now po) d)"
| step_operation: "api_step d (request (create_operation now uuid po rq) d)"
| step_cancel: "api_step d (request (cancel_operation now uuid po i reason key) d)"

inductive_cases api_stepE: "api_step d d'"

lemma request_keeps: "db_inv d \<Longrightarrow> db_inv (snd (m d)) \<Longrightarrow> db_inv (request m d)"
  by (auto simp: request_def split: sum.splits prod.splits)

lemma api_step_inv: "api_step d d' \<Longrightarrow> db_inv d \<Longrightarrow> db_inv d'"
  by (induction rule: api_step.induct)
    (auto intro: request_keeps deleting.keeps_inv draft_cash.keeps_inv draft_add.keeps_inv draft_patch.keeps_inv
      draft_delete.keeps_inv draft_clear.keeps_inv activating.keeps_inv resetting.keeps_inv creating.keeps_inv
      cancelling.keeps_inv keepsD [OF create_user_portfolio_keeps])

lemma api_reachable_inv: "api_step\<^sup>*\<^sup>* (empty_db i s t a r) d \<Longrightarrow> db_inv d"
  by (induction rule: rtranclp_induct) (auto intro: db_inv_empty api_step_inv)

end
