(* ===== verification/Replay.thy ===== *)
theory Replay
  imports Lifecycle
begin

text \<open>
  The properties of the portfolio store as a whole: what every reachable state satisfies, what a
  refused request leaves, when a repeated request is a replay, and two behaviours of the code that
  its own rules speak against. The first section shows that a call that returned leaves behind
  what answers it again.
\<close>

lemma ensure_active_state: "snd (ensure_active p d) = d \<or>
    snd (ensure_active p d) = upd_portfolio (mp_id p) (\<lambda>q. q\<lparr>mp_status := LIFECYCLE_ACTIVE\<rparr>) d"
  by (auto simp: ensure_active_def bind_gets bind_lift modify_def raise_def ret_def split: sum.splits)

section \<open>Replaying a request\<close>

text \<open>What a journal call leaves alone: reference data, the book's visibility and its cutover.\<close>

definition backdrop :: "int \<Rightarrow> pdb \<Rightarrow> instrument_row list \<times> instrument_source list \<times> (int \<times> int option) list \<times> bool option \<times> instant option" where
  "backdrop pid d = (db_instruments d, db_sources d, db_bond_terms d, map_option mp_is_test (find_portfolio d pid),
     journal_cutover_at d pid)"

lemma backdrop_row:
  assumes "\<And>p. mp_id (f p) = mp_id p" and "\<And>p. mp_is_test (f p) = mp_is_test p"
  shows "backdrop pid (upd_portfolio i f d) = backdrop pid d"
proof -
  have "map_option mp_is_test (find_portfolio (upd_portfolio i f d) pid) = map_option mp_is_test (find_portfolio d pid)"
    using assms by (cases "find_portfolio d pid") (auto simp: find_upd_portfolio)
  then show ?thesis by (simp add: backdrop_def journal_cutover_at_def) (simp add: upd_portfolio_def)
qed

lemma backdrop_positions: "backdrop pid (d\<lparr>db_positions := rows\<rparr>) = backdrop pid d"
  by (simp add: backdrop_def find_portfolio_def journal_cutover_at_def ops_of_def)

lemma backdrop_op:
  assumes f: "\<And>r. op_portfolio (f r) = op_portfolio r \<and> op_source (f r) = op_source r \<and> op_occurred_at (f r) = op_occurred_at r"
  shows "backdrop pid (upd_op i f d) = backdrop pid d"
proof -
  define g where "g = (\<lambda>r. if op_id r = i then f r else r)"
  have g: "op_portfolio (g r) = op_portfolio r" "op_source (g r) = op_source r" "op_occurred_at (g r) = op_occurred_at r" for r
    using f by (simp_all add: g_def)
  have "map op_occurred_at (filter (\<lambda>r. op_source r \<in> {LEGACY_BOOTSTRAP_SOURCE, OPENING_SOURCE}) (filter (\<lambda>r. op_portfolio r = pid) (map g rs))) =
      map op_occurred_at (filter (\<lambda>r. op_source r \<in> {LEGACY_BOOTSTRAP_SOURCE, OPENING_SOURCE}) (filter (\<lambda>r. op_portfolio r = pid) rs))" for rs
    by (induction rs) (auto simp: g)
  then have "journal_cutover_at (upd_op i f d) pid = journal_cutover_at d pid"
    by (simp add: journal_cutover_at_def ops_of_def upd_op_def g_def)
  then show ?thesis by (simp add: backdrop_def) (simp add: upd_op_def find_portfolio_def)
qed

lemma backdrop_insert:
  assumes "op_source row \<notin> {LEGACY_BOOTSTRAP_SOURCE, OPENING_SOURCE}"
  shows "keeps (\<lambda>d. backdrop pid d = b) (insert_op row)"
proof -
  have "backdrop pid (d\<lparr>db_ops := db_ops d @ [row\<lparr>op_id := i\<rparr>], db_next := n\<rparr>) = backdrop pid d" for d i n
    using assms by (simp add: backdrop_def find_portfolio_def journal_cutover_at_def ops_of_def)
  then show ?thesis
    unfolding insert_op_def by (auto simp: keeps_def bind_gets bind_modify Let_def raise_def ret_def)
qed

lemma backdrop_project: "keeps (\<lambda>d. backdrop pid d = b) (project_portfolio now i s)"
  unfolding project_portfolio_def
  by (intro keeps_bind keeps_modify) (auto simp: backdrop_positions backdrop_row touch_def)

lemma backdrop_append:
  assumes "\<And>x. row = Inr x \<Longrightarrow> op_source x = ''MANUAL''"
  shows "keeps (\<lambda>d. backdrop pid d = b) (append_operation now i tgt reason row)"
proof -
  have ins: "keeps (\<lambda>d. backdrop pid d = b) (bind_st (insert_op x) (\<lambda>stored. bind_st (reproject now i) (\<lambda>_. ret stored)))"
    if "row = Inr x" for x
    unfolding reproject_def
    by (intro keeps_bind backdrop_insert backdrop_project)
      (use assms [OF that] in \<open>auto simp: LEGACY_BOOTSTRAP_SOURCE_def OPENING_SOURCE_def\<close>)
  have "keeps (\<lambda>d. backdrop pid d = b) (bind_st (lift row) (\<lambda>x. bind_st (insert_op x) (\<lambda>stored. bind_st (reproject now i) (\<lambda>_. ret stored))))"
    using ins by (cases row) (auto simp: keeps_def bind_lift)
  moreover have "keeps (\<lambda>d. backdrop pid d = b) (supersede i tgt reason)"
    unfolding supersede_def by (auto split: option.splits intro!: keeps_bind keeps_modify simp: backdrop_op)
  ultimately show ?thesis unfolding append_operation_def by (metis (no_types, lifting) keeps_bind)
qed

text \<open>The stored row has the fingerprint of the request.\<close>

lemma opt_res_fix: "(\<And>x y. f x = Inr y \<Longrightarrow> f y = Inr y) \<Longrightarrow> opt_res f v = Inr w \<Longrightarrow> opt_res f w = Inr w"
  by (cases v) (auto simp: opt_res_def exn_simps)

lemma positive_only_idem [simp]: "positive_only (positive_only v) = positive_only v"
  by (auto simp: positive_only_def split: option.splits)

lemma row_fingerprint:
  assumes f: "idempotency_fingerprint t occ (rq_instrument rq) (positive_only (Some us)) (rq_lots rq) (rq_price rq)
      (rq_amount rq) (fst comm) (rq_note rq) (rq_supersedes rq) = Inr fp"
    and r: "operation_row pid rq t occ key us comm = Inr row"
  shows "operation_fingerprint (row\<lparr>op_id := i\<rparr>) = Inr fp"
proof -
  from r obtain px amt where px: "opt_res money (rq_price rq) = Inr px" and amt: "opt_res money (rq_amount rq) = Inr amt"
    and row: "op_type row = t" "op_occurred_at row = occ" "op_instrument row = rq_instrument rq"
      "op_units row = positive_only (Some us)" "op_lots row = rq_lots rq" "op_price row = px" "op_amount row = amt"
      "op_commission row = fst comm" "op_note row = rq_note rq" "op_supersedes row = rq_supersedes rq"
    by (auto simp: operation_row_def exn_simps)
  have "opt_res money px = Inr px" "opt_res money amt = Inr amt"
    using opt_res_fix [of money, OF _ px] opt_res_fix [of money, OF _ amt] money_fix by blast+
  then show ?thesis
    using f px amt by (simp add: operation_fingerprint_def row idempotency_fingerprint_def)
qed

lemma resolve_units_backdrop:
  assumes "backdrop pid d' = backdrop pid d"
  shows "resolve_units d' rq t = resolve_units d rq t"
proof -
  have i: "find_instrument d' = find_instrument d" and l: "resolve_lot_size d' = resolve_lot_size d"
    using assms by (auto simp: backdrop_def find_instrument_def resolve_lot_size_def intro!: ext)
  have "resolve_trade_units d' rq = resolve_trade_units d rq"
    by (intro ext) (simp only: resolve_trade_units_def l)
  then show ?thesis by (simp only: resolve_units_def i)
qed

lemma check_occurred_backdrop:
  "\<lbrakk>backdrop pid d' = backdrop pid d; instant_date now \<le> instant_date now'; check_occurred d pid now occ = Inr ()\<rbrakk> \<Longrightarrow>
   check_occurred d' pid now' occ = Inr ()"
  by (auto simp: backdrop_def check_occurred_def split: if_splits)

lemma match_Inr: "assert_idempotency_match r fp = Inr () \<longleftrightarrow> operation_fingerprint r = Inr fp"
  by (cases "operation_fingerprint r") (auto simp: assert_idempotency_match_def)

text \<open>The facts a returned call leaves behind, and which answer it again.\<close>

definition answers :: "instant \<Rightarrow> int \<Rightarrow> op_request \<Rightarrow> operation_type \<Rightarrow> string \<Rightarrow> personal_operation \<Rightarrow> pdb \<Rightarrow> bool" where
  "answers now pid rq t key r d \<longleftrightarrow> find_key d pid key = Some r \<and>
     check_occurred d pid now (parse_occurred_at (rq_occurred rq)) = Inr () \<and>
     (\<exists>us c fp. resolve_units d rq t = Inr us \<and> money (opt_or (rq_commission rq) 0) = Inr c \<and>
       idempotency_fingerprint t (parse_occurred_at (rq_occurred rq)) (rq_instrument rq) (positive_only (Some us))
         (rq_lots rq) (rq_price rq) (rq_amount rq) c (rq_note rq) (rq_supersedes rq) = Inr fp \<and>
       operation_fingerprint r = Inr fp)"

lemma answers_backdrop:
  assumes "answers now pid rq t key r d" and "backdrop pid d' = backdrop pid d" and "find_key d' pid key = find_key d pid key"
    and "instant_date now \<le> instant_date now'"
  shows "answers now' pid rq t key r d'"
  using assms check_occurred_backdrop [OF assms(2,4)] resolve_units_backdrop [OF assms(2)] by (auto simp: answers_def)

lemma on_integrity_return:
  "on_integrity (savepoint m) h s = (Inr x, s') \<Longrightarrow> m s = (Inr x, s') \<or> h s = (Inr x, s')"
  by (auto simp: on_integrity_def savepoint_def split: prod.splits sum.splits pyexn.splits)

lemma create_active_answers:
  assumes l: "live pid d0 d" and id: "mp_id p = pid" and k: "find_key d pid key = existing"
    and c: "rq_commission rq = Some c" and r: "create_active now p rq t key existing d = (Inr r, d')"
  shows "answers now pid rq t key r d' \<and> live pid d0 d' \<and> backdrop pid d' = backdrop pid d"
proof -
  define occ where "occ = parse_occurred_at (rq_occurred rq)"
  from r obtain us c' fp where chk: "check_occurred d pid now occ = Inr ()" and us: "resolve_units d rq t = Inr us"
    and c': "money c = Inr c'"
    and fp: "idempotency_fingerprint t occ (rq_instrument rq) (positive_only (Some us)) (rq_lots rq)
      (rq_price rq) (rq_amount rq) c' (rq_note rq) (rq_supersedes rq) = Inr fp"
    and rest: "(case existing of
        Some r \<Rightarrow> bind_st (lift (assert_idempotency_match r fp)) (\<lambda>_. ret r)
      | None \<Rightarrow> on_integrity
            (savepoint (append_operation now pid (rq_supersedes rq) (rq_reason rq)
              (operation_row pid rq t occ key us (c', CS_MANUAL, mp_broker_account p, None))))
            (replay_or_conflict pid key fp)) d = (Inr r, d')"
    unfolding create_active_def Let_def c commission_manual occ_def [symmetric] id
    by (auto simp: bind_gets exn_simps)
  show ?thesis
  proof (cases existing)
    case (Some x)
    then have "x = r" "d' = d" "operation_fingerprint r = Inr fp" using rest by (auto simp: exn_simps match_Inr)
    then show ?thesis using chk us c' fp Some k c l by (auto simp: answers_def occ_def)
  next
    case None
    have nr: "replay_or_conflict pid key fp d = (Inl (PersonalPortfolioError ''IDEMPOTENCY_CONFLICT''), d)"
      using None k by (simp add: replay_or_conflict_def bind_gets raise_def)
    define row where "row = operation_row pid rq t occ key us (c', CS_MANUAL, mp_broker_account p, None)"
    have a: "append_operation now pid (rq_supersedes rq) (rq_reason rq) row d = (Inr r, d')"
      using rest on_integrity_return nr None by (fastforce simp: row_def)
    obtain x i where x: "row = Inr x" "r = x\<lparr>op_id := i\<rparr>" "find_key d' pid (op_key x) = Some r" and l': "live pid d0 d'"
      using append_operation_closes [OF l a] operation_row_portfolio unfolding row_def by blast
    have key: "op_key x = key" using x(1) operation_row_portfolio unfolding row_def by blast
    have of: "operation_fingerprint r = Inr fp"
      using row_fingerprint [OF _ x(1) [unfolded row_def]] fp x(2) by simp
    have src: "op_source y = ''MANUAL''" if "row = Inr y" for y
      using that by (auto simp: row_def operation_row_def exn_simps)
    have b: "backdrop pid d' = backdrop pid d"
      using keepsD [OF backdrop_append [where row = row and pid = pid and b = "backdrop pid d", OF src]] a by (metis snd_conv)
    have "check_occurred d' pid now occ = Inr ()" by (rule check_occurred_backdrop [OF b _ chk]) simp
    moreover have "resolve_units d' rq t = Inr us" using resolve_units_backdrop [OF b] us by simp
    ultimately show ?thesis using x(3) key of fp c' l' b c by (auto simp: answers_def occ_def)
  qed
qed

lemma answers_replay:
  assumes a: "answers now pid rq t key r d" and id: "mp_id p = pid" and c: "rq_commission rq = Some c"
  shows "create_active now p rq t key (Some r) d = (Inr r, d)"
  using a unfolding create_active_def Let_def c commission_manual id answers_def
  by (auto simp: bind_gets bind_lift match_Inr [THEN iffD2] ret_def)

section \<open>Properties\<close>

text \<open>C1: in every state that a sequence of requests can reach from an empty store, whatever they return
  or raise, reconciling any active portfolio finds its projected cash, totals and positions equal to
  what its journal rebuilds to.\<close>

theorem reachable_books_reconcile:
  assumes "api_step\<^sup>*\<^sup>* (empty_db ins srcs terms accounts rules) d"
    and "find_portfolio d pid = Some p" and "mp_status p = LIFECYCLE_ACTIVE"
  shows "\<exists>rep. reconcile d p = Inr rep \<and> rc_ok rep \<and> rc_cash_ok rep \<and> rc_positions_ok rep"
proof -
  have i: "db_inv d" by (rule api_reachable_inv [OF assms(1)])
  then have "active_ok d p" using db_inv_cases [OF i assms(2)] assms(3) by (auto simp: draft_ok_def status_simps)
  then show ?thesis using reconcile_ok by (fastforce simp: active_ok_def)
qed

text \<open>A store with one book: created, then a deposit and a purchase.\<close>

definition share :: instrument_row where
  "share = \<lparr>in_id = 7, in_symbol = ''SBER'', in_asset_class = ''equity''\<rparr>"

definition share_source :: instrument_source where
  "share_source = \<lparr>is_instrument = 7, is_board = Some ''TQBR'', is_lotsize = Some 10\<rparr>"

definition db0 :: pdb where
  "db0 = empty_db [share] [share_source] [] [] []"

definition db1 :: pdb where
  "db1 = request (create_user_portfolio 0 ''Main'' None False ''MANUAL'') db0"

definition book1 :: manual_portfolio where
  "book1 = \<lparr>mp_id = 1, mp_name = ''Main'', mp_source = ''MANUAL'', mp_cash = 0, mp_status = ''DRAFT'', mp_note = None,
     mp_is_test = False, mp_contributed = 0, mp_withdrawn = 0, mp_realized = 0, mp_broker_account = None,
     mp_updated_at = 0, mp_version = 1\<rparr>"

definition deposit_request :: op_request where
  "deposit_request = \<lparr>rq_type = Some DEPOSIT, rq_occurred = OccDate (Ord 738000), rq_key = Some ''k1'', rq_instrument = None,
     rq_lots = None, rq_units = None, rq_price = None, rq_amount = Some 1000, rq_commission = None,
     rq_commission_provided = False, rq_note = None, rq_non_standard_lot = False, rq_supersedes = None,
     rq_reason = None, rq_system = False\<rparr>"

definition noon :: instant where
  "noon = combine_utc (Ord 738001) 12 0"

definition db2 :: pdb where
  "db2 = request (create_operation noon ''u'' book1 deposit_request) db1"

lemma db1_book: "find_portfolio db1 1 = Some book1"
  by code_simp

lemma db2_book: "find_portfolio db2 1 = Some (book1\<lparr>mp_cash := 1000, mp_contributed := 1000, mp_status := ''ACTIVE'',
    mp_updated_at := noon, mp_version := 2\<rparr>)"
  by code_simp


lemma step_db1: "api_step db0 db1" unfolding db1_def by (rule step_create)
lemma step_db2: "api_step db1 db2" unfolding db2_def by (rule step_operation)

lemma reach_db2: "api_step\<^sup>*\<^sup>* (empty_db [share] [share_source] [] [] []) db2"
proof -
  have "api_step\<^sup>*\<^sup>* db0 db1" using step_db1 by (rule r_into_rtranclp)
  also have "api_step db1 db2" by (rule step_db2)
  finally show ?thesis by (simp only: db0_def)
qed

theorem reachable_books_reconcile_witness:
  "\<exists>p rep. find_portfolio db2 1 = Some p \<and> mp_cash p = 1000 \<and> reconcile db2 p = Inr rep \<and> rc_ok rep"
  using reachable_books_reconcile [OF reach_db2 db2_book] db2_book by (auto simp: LIFECYCLE_ACTIVE_def)

text \<open>C5: in every reachable state no portfolio has negative cash, and every position row of an active
  portfolio holds a positive number of units at a non-negative average price.\<close>

theorem reachable_books_are_solvent:
  assumes "api_step\<^sup>*\<^sup>* (empty_db ins srcs terms accounts rules) d" and f: "find_portfolio d pid = Some p"
  shows "0 \<le> mp_cash p \<and> (mp_status p = LIFECYCLE_ACTIVE \<longrightarrow>
    (\<forall>r \<in> set (positions_of d pid). 0 < pos_units r \<and> (\<forall>a. pos_average_price r = Some a \<longrightarrow> 0 \<le> a)))"
proof -
  have i: "db_inv d" by (rule api_reachable_inv [OF assms(1)])
  from db_inv_cases [OF i f] show ?thesis
  proof
    assume "draft_ok d p"
    then show ?thesis by (simp add: draft_ok_def status_simps)
  next
    assume "active_ok d p"
    then obtain s where s: "rebuild_ledger_from_journal d pid = Inr s" and pr: "projected p (positions_of d pid) s"
      using find_portfolio_id [OF f] by (auto simp: active_ok_def)
    have l: "ledger_inv s" by (rule rebuild_ok [OF s])
    have "0 < pos_units r \<and> (\<forall>a. pos_average_price r = Some a \<longrightarrow> 0 \<le> a)" if "r \<in> set (positions_of d pid)" for r
      using ledger_invD(2) [OF l] pr that by (fastforce simp: projected_def rows_match_def book_ok_def)
    then show ?thesis using l pr by (simp add: projected_def ledger_inv_def totals_ok_def)
  qed
qed

theorem reachable_books_are_solvent_witness: "\<exists>p. find_portfolio db2 1 = Some p \<and> 0 \<le> mp_cash p"
  using reachable_books_are_solvent [OF reach_db2 db2_book] db2_book by simp

text \<open>What the switch to ACTIVE has checked: the book is a draft, its journal and holdings are empty, and its
  cash rounds to nothing.\<close>

definition opened_empty :: "pdb \<Rightarrow> int \<Rightarrow> manual_portfolio \<Rightarrow> bool" where
  "opened_empty d pid p \<longleftrightarrow> find_portfolio d pid = Some p \<and> lifecycle_state p = LIFECYCLE_DRAFT \<and> ops_of d pid = [] \<and>
     positions_of d pid = [] \<and> money (mp_cash p) = Inr 0"

lemma ensure_active_opens:
  assumes "find_portfolio d (mp_id p) = Some p"
  shows "snd (ensure_active p d) = d \<or>
    snd (ensure_active p d) = upd_portfolio (mp_id p) (\<lambda>q. q\<lparr>mp_status := LIFECYCLE_ACTIVE\<rparr>) d \<and> opened_empty d (mp_id p) p"
  using assms
  by (cases "money (mp_cash p)")
    (auto simp: ensure_active_def bind_gets bind_lift modify_def raise_def ret_def opened_empty_def journal_state_def
      has_legacy_snapshot_def journal_operation_count_def lifecycle_state_def exn_simps status_simps Let_def split: if_splits)

lemma undoes_create_active: "undoes (create_active now p rq t key existing)"
  unfolding create_active_def Let_def replay_or_conflict_def
  by (intro undoes_bind pure_st_simps) (auto split: option.split intro!: undoes_intros)

lemma refused_in_active:
  assumes "bind_st (ensure_active p) (\<lambda>_. create_active now p rq t key ex) d = (Inl e, d')" and "find_portfolio d i = Some p"
  shows "d' = d \<or> d' = upd_portfolio i (\<lambda>q. q\<lparr>mp_status := LIFECYCLE_ACTIVE\<rparr>) d \<and> opened_empty d i p"
  using assms ensure_active_opens [of d p] find_portfolio_id [OF assms(2)] undoesD [OF undoes_create_active]
  by (auto simp: bind_st_def split: prod.splits sum.splits)

text \<open>C4: an operation that is refused changes no journal, no position and no amount. The store is exactly as
  before, with one exception: a book that was still a draft with an empty journal, without positions and
  without money may already have been switched to ACTIVE, and then nothing but its status differs.\<close>

theorem refused_operation_changes_nothing:
  assumes "create_operation now uuid po rq d = (Inl e, d')"
  shows "db_ops d' = db_ops d \<and> db_positions d' = db_positions d \<and>
    (d' = d \<or> d' = upd_portfolio (mp_id po) (\<lambda>q. q\<lparr>mp_status := LIFECYCLE_ACTIVE\<rparr>) d \<and>
      (\<exists>p. find_portfolio d (mp_id po) = Some p \<and> lifecycle_state p = LIFECYCLE_DRAFT \<and> ops_of d (mp_id po) = [] \<and>
        positions_of d (mp_id po) = [] \<and> money (mp_cash p) = Inr 0))"
proof -
  have "d' = d \<or> d' = upd_portfolio (mp_id po) (\<lambda>q. q\<lparr>mp_status := LIFECYCLE_ACTIVE\<rparr>) d \<and> (\<exists>p. opened_empty d (mp_id po) p)"
    using assms unfolding create_operation_def lock_run Let_def bind_gets
    by (auto simp: raise_def dest!: refused_in_active split: option.splits if_splits)
  then show ?thesis by (auto simp: opened_empty_def)
qed

definition overdraft_request :: op_request where
  "overdraft_request = deposit_request\<lparr>rq_type := Some WITHDRAWAL, rq_key := Some ''k2'', rq_amount := Some 5000\<rparr>"

lemma overdraft_refused: "fst (create_operation noon ''u'' book1 overdraft_request db2) = Inl (PersonalPortfolioError ''INSUFFICIENT_CASH'')"
  by code_simp

theorem refused_operation_changes_nothing_witness:
  "db_ops (snd (create_operation noon ''u'' book1 overdraft_request db2)) = db_ops db2"
proof -
  have "create_operation noon ''u'' book1 overdraft_request db2 = (Inl (PersonalPortfolioError ''INSUFFICIENT_CASH''),
      snd (create_operation noon ''u'' book1 overdraft_request db2))"
    using overdraft_refused by (metis prod.collapse)
  from refused_operation_changes_nothing [OF this] show ?thesis by blast
qed


text \<open>C3: a request that carries a key and a commission is idempotent: once it has returned an operation,
  sending it again, on the same day or later and with any fresh key, returns the same operation and
  changes nothing.\<close>

theorem repeated_request_is_idempotent:
  assumes d: "db_inv d" and first: "create_operation now uuid po rq d = (Inr r, d')"
    and key: "non_empty (strip (opt_or (rq_key rq) [])) = Some key" and c: "rq_commission rq = Some c"
    and later: "instant_date now \<le> instant_date now'"
  shows "create_operation now' uuid' po rq d' = (Inr r, d')"
proof -
  define pid where "pid = mp_id po"
  from first obtain p where p: "find_portfolio d pid = Some p" and vis: "\<not> (mp_is_test p \<and> \<not> mp_is_test po)"
    by (auto simp: create_operation_def lock_run pid_def split: option.splits if_splits)
  have id: "mp_id p = pid" using p by (rule find_portfolio_id)
  from first p vis obtain t d1 where t: "rq_type rq = Some t"
    and sys: "\<not> (\<not> rq_system rq \<and> t \<in> {OPENING_CASH, OPENING_POSITION})"
    and e: "ensure_active p d = (Inr (), d1)"
    and a: "create_active now p rq t key (find_key d pid key) d1 = (Inr r, d')"
    by (auto simp: create_operation_def lock_run pid_def [symmetric] key Let_def bind_gets id exn_simps split: option.splits if_splits)
  have l: "live pid d d1" and ops: "db_ops d1 = db_ops d"
    using ensure_active_keeps [OF d p e] by auto
  have b1: "backdrop pid d1 = backdrop pid d"
    using ensure_active_state [of p d] e by (auto simp: backdrop_row)
  have k: "find_key d1 pid key = find_key d pid key" using ops by (simp add: find_key_def)
  note ans = create_active_answers [OF l id k c a]
  obtain p' where p': "find_portfolio d' pid = Some p'" "mp_status p' = LIFECYCLE_ACTIVE" and inv': "db_inv d'"
    using ans by (auto simp: live_def)
  have id': "mp_id p' = pid" using p'(1) by (rule find_portfolio_id)
  have "map_option mp_is_test (find_portfolio d' pid) = map_option mp_is_test (find_portfolio d pid)"
    using ans b1 by (simp add: backdrop_def)
  then have vis': "mp_is_test p' = mp_is_test p" using p' p by simp
  have act: "active_ok d' p'" using db_inv_cases [OF inv' p'(1)] p'(2) by (auto simp: draft_ok_def status_simps)
  have e': "ensure_active p' d' = (Inr (), d')"
    using p'(2) by (simp add: ensure_active_def bind_gets bind_lift journal_state_def lifecycle_state_def status_simps Let_def ret_def)
  have ans': "answers now' pid rq t key r d'" using answers_backdrop [OF _ refl refl later] ans by blast
  have fk: "find_key d' pid key = Some r" using ans by (simp add: answers_def)
  have "bind_st (ensure_active p') (\<lambda>_. create_active now' p' rq t key (Some r)) d' = (Inr r, d')"
    using e' answers_replay [OF ans' id' c] by (simp add: bind_st_def)
  then show ?thesis
    using p'(1) vis vis' t sys fk
    by (auto simp: create_operation_def lock_run pid_def [symmetric] key Let_def bind_gets id')
qed

definition priced_deposit :: op_request where
  "priced_deposit = deposit_request\<lparr>rq_commission := Some 0\<rparr>"

lemma priced_deposit_returns: "\<not> isl (fst (create_operation noon ''u'' book1 priced_deposit db1))"
  by code_simp

theorem repeated_request_is_idempotent_witness:
  "\<exists>r d'. create_operation noon ''u'' book1 priced_deposit db1 = (Inr r, d') \<and>
     create_operation (noon + day_us) ''v'' book1 priced_deposit d' = (Inr r, d')"
proof -
  obtain r d' where f: "create_operation noon ''u'' book1 priced_deposit db1 = (Inr r, d')"
    using priced_deposit_returns by (metis isl_def prod.collapse sum.exhaust)
  have inv: "db_inv db1" using api_step_inv [OF step_db1] db_inv_empty by (simp add: db0_def)
  have k: "non_empty (strip (opt_or (rq_key priced_deposit) [])) = Some ''k1''" by code_simp
  have "create_operation (noon + day_us) ''v'' book1 priced_deposit d' = (Inr r, d')"
    by (rule repeated_request_is_idempotent [OF inv f k]) (simp_all add: priced_deposit_def instant_date_def day_us_def noon_def)
  with f show ?thesis by blast
qed

definition draft_with_share :: pdb where
  "draft_with_share = request (add_draft_position noon 7 (Some 10) None (Some 5) None None False book1) db1"

definition patched_draft :: pdb where
  "patched_draft = request (patch_draft_position noon (1, 7) None None None (Some (- 100)) False None None book1) draft_with_share"

text \<open>
  repricing a draft position by its total cost skips the sign check that adding it applies: a
  negative total is refused by \<open>add_draft_position\<close> but stored by \<open>patch_draft_position\<close>, and the
  draft can then not be activated.
\<close>
theorem negative_basis_is_stored:
  "fst (add_draft_position noon 7 (Some 10) None None (Some (- 100)) None False book1 db1) =
     Inl (PersonalPortfolioError ''INVALID_AMOUNT'') \<and>
   fst (patch_draft_position noon (1, 7) None None None (Some (- 100)) False None None book1 draft_with_share) = Inr () \<and>
   map pos_average_price (positions_of patched_draft 1) = [Some (- 10)] \<and>
   fst (activate_portfolio noon book1 patched_draft) = Inl (LedgerError ''INVALID_PRICE'')"
proof (intro conjI)
  show "fst (add_draft_position noon 7 (Some 10) None None (Some (- 100)) None False book1 db1) =
     Inl (PersonalPortfolioError ''INVALID_AMOUNT'')" by code_simp
  show "fst (patch_draft_position noon (1, 7) None None None (Some (- 100)) False None None book1 draft_with_share) = Inr ()"
    by code_simp
  show "map pos_average_price (positions_of patched_draft 1) = [Some (- 10)]" by code_simp
  show "fst (activate_portfolio noon book1 patched_draft) = Inl (LedgerError ''INVALID_PRICE'')" by code_simp
qed

definition tier :: "int \<Rightarrow> decimal option \<Rightarrow> decimal option \<Rightarrow> decimal \<Rightarrow> fee_rule" where
  "tier i lo hi pct = default_rule\<lparr>fr_id := Some i, fr_turnover_from := lo, fr_turnover_to := hi, fr_percentage_rate := Some pct\<rparr>"

definition brokered_book :: manual_portfolio where
  "brokered_book = book1\<lparr>mp_broker_account := Some 4\<rparr>"

definition tiered_db :: pdb where
  "tiered_db = (empty_db [share] [share_source] [] [(4, 9)] [(9, tier 1 None (Some 500) (3/1000)), (9, tier 2 (Some 500) None (2/1000))])
     \<lparr>db_portfolios := [brokered_book], db_next := 2\<rparr>"

definition funded_db :: pdb where
  "funded_db = request (create_operation noon ''u'' brokered_book (deposit_request\<lparr>rq_amount := Some 5000\<rparr>)) tiered_db"

definition buy_request :: op_request where
  "buy_request = deposit_request\<lparr>rq_type := Some BUY, rq_key := Some ''buy-1'', rq_instrument := Some 7,
     rq_units := Some 10, rq_price := Some 100, rq_amount := None\<rparr>"

definition bought_db :: pdb where
  "bought_db = request (create_operation noon ''u'' brokered_book buy_request) funded_db"

text \<open>
  a retry is not idempotent when the commission comes from a tiered tariff. The day turnover of the
  second call includes the operation the first call stored (\<open>exclude_operation_id\<close> is never passed),
  so the estimate moves to the next tier, the fingerprints differ, and the identical request is
  refused as a reuse of its key.
\<close>
theorem tiered_retry_is_refused:
  "map op_commission (ops_of bought_db 1) = [0, 3] \<and>
   fst (create_operation noon ''u'' brokered_book buy_request bought_db) =
     Inl (PersonalPortfolioError ''IDEMPOTENCY_KEY_REUSED'')"
proof (intro conjI)
  show "map op_commission (ops_of bought_db 1) = [0, 3]" by code_simp
  show "fst (create_operation noon ''u'' brokered_book buy_request bought_db) =
     Inl (PersonalPortfolioError ''IDEMPOTENCY_KEY_REUSED'')" by code_simp
qed

end
