(* ===== verification/Lotfill.thy ===== *)
theory Lotfill
  imports Position Feeadapter
begin

text \<open>
  Executing an order of a shadow portfolio. \<open>simulator/application/execution.py\<close> prices the fill at the
  session open plus slippage; \<open>shadow/application/lot_aware.py\<close> books it into the portfolio's positions,
  a JSON object whose rows come in two shapes, with the quantity alone (fractional books) or with lots
  and cost basis (lot-aware books); \<open>shadow/domain/open_execution.py\<close> and
  \<open>shadow/application/execution_eligibility.py\<close> decide when an order may fill. Prices and quantities
  are floats, the bookkeeping is decimal: \<open>Decimal(str(x))\<close> is \<open>dec_of_float\<close> and \<open>float(d)\<close> is \<open>fl\<close>.
\<close>

section \<open>The execution adapter\<close>

record hist_fill =
  hf_side :: string
  hf_quantity :: pyfloat
  hf_raw_open :: pyfloat
  hf_price :: pyfloat
  hf_notional :: pyfloat
  hf_commission :: pyfloat
  hf_slippage :: pyfloat

definition adapter_fill :: "string \<Rightarrow> pyfloat \<Rightarrow> pyfloat option \<Rightarrow> pyfloat \<Rightarrow> pyfloat \<Rightarrow> hist_fill option" where
  "adapter_fill side intent_quantity raw_open commission_rate_bps slip_bps = (case raw_open of
     None \<Rightarrow> None
   | Some raw \<Rightarrow>
       if raw \<le> 0 \<or> intent_quantity = 0 then None else
       let slip = fdiv slip_bps 10000;
           commission_rate = fdiv commission_rate_bps 10000;
           fill_price = (if side = ''BUY'' then fmul raw (fadd 1 slip) else fmul raw (fsub 1 slip));
           qty = \<bar>intent_quantity\<bar>;
           notional = fmul qty fill_price
       in Some \<lparr>hf_side = side, hf_quantity = qty, hf_raw_open = raw, hf_price = fill_price, hf_notional = notional,
                hf_commission = fmul \<bar>notional\<bar> commission_rate,
                hf_slippage = \<bar>fmul qty (fsub fill_price raw)\<bar>\<rparr>)"

section \<open>Specifications\<close>

text \<open>A \<open>ShadowPortfolioSpec\<close> row; the \<open>sx_payload\<close> fields are the keys of its JSON payload that the code reads.\<close>

record shadow_spec =
  sx_id :: int
  sx_group :: string
  sx_fractional_shares :: bool
  sx_payload_version :: "string option"
  sx_payload_fractional :: "bool option"
  sx_payload_fee_code :: "string option"
  sx_payload_fee_version :: "int option"
  sx_commission_bps :: pyfloat
  sx_slippage_bps :: pyfloat
  sx_risk_name :: string
  sx_dd_trigger :: "pyfloat option"
  sx_dd_recovery :: "pyfloat option"
  sx_dd_risk_off_gross :: "pyfloat option"
  sx_dd_normal_gross :: "pyfloat option"

definition LOT_AWARE_V2 :: string where "LOT_AWARE_V2 = ''LOT_AWARE_V2''"
definition SELL_ECONOMICS_V3 :: string where "SELL_ECONOMICS_V3 = ''LOT_AWARE_SELL_ECONOMICS_V3''"

definition is_lot_aware_spec :: "shadow_spec \<Rightarrow> bool" where
  "is_lot_aware_spec spec =
     (if \<not> sx_fractional_shares spec then True
      else if opt_sat (\<lambda>v. v \<in> {LOT_AWARE_V2, SELL_ECONOMICS_V3}) (sx_payload_version spec) then True
      else sx_payload_fractional spec = Some False)"

definition is_sell_economics_v3_spec :: "shadow_spec \<Rightarrow> bool" where
  "is_sell_economics_v3_spec spec \<longleftrightarrow> sx_payload_version spec = Some SELL_ECONOMICS_V3"

definition execution_version_for_spec :: "shadow_spec \<Rightarrow> string option" where
  "execution_version_for_spec spec = (case sx_payload_version spec of
     Some (c # cs) \<Rightarrow> Some (c # cs)
   | _ \<Rightarrow> if is_lot_aware_spec spec then Some LOT_AWARE_V2 else None)"

definition v3_fee_identity :: "shadow_spec \<Rightarrow> string \<times> int" where
  "v3_fee_identity spec =
     ((case sx_payload_fee_code spec of Some (c # cs) \<Rightarrow> c # cs | _ \<Rightarrow> sber_code),
      opt_or (sx_payload_fee_version spec) sber_version)"

lemma v3_is_lot_aware: "is_sell_economics_v3_spec spec \<Longrightarrow> is_lot_aware_spec spec"
  by (simp add: is_sell_economics_v3_spec_def is_lot_aware_spec_def)

section \<open>Positions\<close>

record pos_row =
  pw_instrument :: int
  pw_ticker :: string
  pw_quantity :: pyfloat
  pw_lots :: "int option"
  pw_lot_size :: "int option"
  pw_avg_entry :: "pyfloat option"
  pw_cost_basis :: "pyfloat option"
  pw_realized :: "pyfloat option"

type_synonym pos_rows = "(int \<times> pos_row) list"

text \<open>The float literals \<open>1e-6\<close>, \<open>1e-9\<close> and \<open>1e-12\<close>.\<close>

definition eps6 :: pyfloat where "eps6 = fl (1 / 10 ^ 6)"
definition eps9 :: pyfloat where "eps9 = fl (1 / 10 ^ 9)"

definition eps12 :: pyfloat where "eps12 = fl (1 / 10 ^ 12)"

lemma eps6_code [code]: "eps6 = 4722366482869645 / 2 ^ 72"
  by code_simp

lemma eps9_code [code]: "eps9 = 4835703278458517 / 2 ^ 82"
  by code_simp

lemma eps12_code [code]: "eps12 = 4951760157141521 / 2 ^ 92"
  by code_simp

definition position_qty :: "pos_rows \<Rightarrow> int \<Rightarrow> pyfloat" where
  "position_qty pos i = (case map_of pos i of Some r \<Rightarrow> pw_quantity r | None \<Rightarrow> 0)"

definition fractional_row :: "int \<Rightarrow> string \<Rightarrow> pyfloat \<Rightarrow> pos_row" where
  "fractional_row i ticker qty = \<lparr>pw_instrument = i, pw_ticker = ticker, pw_quantity = qty, pw_lots = None,
     pw_lot_size = None, pw_avg_entry = None, pw_cost_basis = None, pw_realized = None\<rparr>"

definition set_fractional_position :: "pos_rows \<Rightarrow> int \<Rightarrow> string \<Rightarrow> pyfloat \<Rightarrow> pos_rows" where
  "set_fractional_position pos i ticker qty =
     (if \<bar>qty\<bar> < eps12 then AList.delete i pos else AList.update i (fractional_row i ticker qty) pos)"

text \<open>
  Positions without a lot size get one from the exchange's data. \<open>resolve\<close> is the lookup of the sorted
  instruments that miss one, which may call the network and raise (\<open>None\<close>).
\<close>

definition row_instrument :: "int \<times> pos_row \<Rightarrow> int" where
  "row_instrument kr = (case kr of (key, r) \<Rightarrow> if pw_instrument r = 0 then key else pw_instrument r)"

definition lot_missing :: "pos_row \<Rightarrow> bool" where
  "lot_missing r \<longleftrightarrow> opt_or (pw_lot_size r) 0 \<le> 0"

definition repair_row :: "(int \<rightharpoonup> int) \<Rightarrow> int \<times> pos_row \<Rightarrow> int \<times> pos_row" where
  "repair_row hits kr = (case kr of (key, r) \<Rightarrow>
     if \<not> lot_missing r then (key, r) else
     (case hits (row_instrument kr) of
        None \<Rightarrow> (key, r)
      | Some l \<Rightarrow> if l \<le> 0 then (key, r) else (key, r\<lparr>pw_lot_size := Some l, pw_lots := Some (dtrunc (pw_quantity r) div l)\<rparr>)))"

definition repair_missing_position_lot_sizes :: "(int list \<Rightarrow> (int \<rightharpoonup> int) option) \<Rightarrow> pos_rows \<Rightarrow> pos_rows option" where
  "repair_missing_position_lot_sizes resolve pos =
     (let missing = map row_instrument (filter (\<lambda>kr. \<not> \<bar>pw_quantity (snd kr)\<bar> < eps12 \<and> lot_missing (snd kr)) pos) in
      if missing = [] then Some pos else
      map_option (\<lambda>hits. map (repair_row (hits |` set missing)) pos) (resolve (sort (remdups missing))))"

definition state_to_row :: "position_state \<Rightarrow> int \<Rightarrow> string \<Rightarrow> pos_row" where
  "state_to_row s i ticker = \<lparr>pw_instrument = i, pw_ticker = ticker, pw_quantity = fl (quantity s),
     pw_lots = Some (lots s), pw_lot_size = Some (lot_size s), pw_avg_entry = Some (fl (avg_entry s)),
     pw_cost_basis = Some (fl (cost_basis s)), pw_realized = Some (fl (ps_realized_pnl s))\<rparr>"

text \<open>\<open>row.get("lot_size") or lot_size\<close>: zero counts as missing.\<close>

definition int_or :: "int option \<Rightarrow> int \<Rightarrow> int" where
  "int_or a b = (case a of Some n \<Rightarrow> if n = 0 then b else n | None \<Rightarrow> b)"

definition state_from_row :: "pos_row \<Rightarrow> int \<Rightarrow> position_state option" where
  "state_from_row row order_lot =
     (let qty = dec_of_float (pw_quantity row); ls = int_or (pw_lot_size row) order_lot in
      if qty \<le> 0 then None
      else Some \<lparr>quantity = qty, lots = (case pw_lots row of Some n \<Rightarrow> n | None \<Rightarrow> dtrunc qty div ls), lot_size = ls,
                 avg_entry = dec_of_float (opt_or (pw_avg_entry row) 0),
                 cost_basis = dec_of_float (opt_or (pw_cost_basis row) 0),
                 ps_realized_pnl = dec_of_float (opt_or (pw_realized row) 0)\<rparr>)"

definition booked_state :: "position_state option \<Rightarrow> string \<Rightarrow> decimal \<Rightarrow> decimal \<Rightarrow> decimal \<Rightarrow> int \<Rightarrow> position_state res" where
  "booked_state state side u px fee order_lot =
     (if upper side = ''BUY'' then apply_buy state u px fee order_lot
      else if upper side = ''SELL'' then
        (case state of
           None \<Rightarrow> Inl (ValueError ''no position to sell'')
         | Some s \<Rightarrow> bnd (apply_sell s u px fee) (\<lambda>(s', realized). Inr s'))
      else Inl (ValueError ''unsupported side''))"

definition apply_lot_aware_fill ::
  "pos_rows \<Rightarrow> int \<Rightarrow> string \<Rightarrow> string \<Rightarrow> pyfloat \<Rightarrow> pyfloat \<Rightarrow> pyfloat \<Rightarrow> int \<Rightarrow> pos_rows res" where
  "apply_lot_aware_fill pos i ticker side qty px comm order_lot =
     (let u = dec_of_float qty in
      if order_lot \<le> 0 then Inl (ValueError ''lot_size must be positive for lot-aware fill'') else
      if dtrunc u mod order_lot \<noteq> 0 then Inl (ValueError ''fill quantity not divisible by lot_size'') else
      let state = Option.bind (map_of pos i) (\<lambda>row. state_from_row row order_lot) in
      bnd (booked_state state side u (dec_of_float px) (dec_of_float comm) order_lot) (\<lambda>s.
      Inr (if quantity s \<le> 0 then AList.delete i pos else AList.update i (state_to_row s i ticker) pos)))"

section \<open>Eligibility\<close>

text \<open>\<open>min_execution_market_date\<close>: the day after the UTC date of the decision.\<close>

definition min_execution_market_date :: "instant \<Rightarrow> date res" where
  "min_execution_market_date decision_at = add_days (instant_date decision_at) 1"

definition is_execution_date_eligible :: "instant \<Rightarrow> date \<Rightarrow> bool res" where
  "is_execution_date_eligible decision_at market_date =
     bnd (min_execution_market_date decision_at) (\<lambda>d. Inr (d \<le> market_date))"

datatype quote_freshness = Q_LIVE | Q_DELAYED | Q_STALE | Q_SESSION_NOT_STARTED | Q_NO_TRADES | Q_MARKET_CLOSED | Q_UNAVAILABLE
datatype session_status = M_PREOPEN | M_OPEN | M_CLOSED | M_NON_TRADING_DAY | M_UNKNOWN

record open_eligibility =
  oe_eligible :: bool
  oe_reason :: string
  oe_delayed :: bool
  oe_open_time :: instant

definition session_open_time_utc :: "date \<Rightarrow> instant" where
  "session_open_time_utc d = combine_utc d 7 0"

definition can_fill_with_session_open ::
  "instant \<Rightarrow> date \<Rightarrow> date \<Rightarrow> pyfloat option \<Rightarrow> session_status \<Rightarrow> quote_freshness \<Rightarrow> instant \<Rightarrow> instant option \<Rightarrow> open_eligibility" where
  "can_fill_with_session_open created min_execution_date session_date open_price status freshness observed now =
     (let clock = opt_or now observed;
          open_at = session_open_time_utc session_date;
          no = (\<lambda>reason. \<lparr>oe_eligible = False, oe_reason = reason, oe_delayed = False, oe_open_time = open_at\<rparr>) in
      if session_date < min_execution_date then no ''MIN_EXECUTION_DATE_NOT_REACHED''
      else if status = M_NON_TRADING_DAY then no ''NON_TRADING_DAY''
      else if freshness = Q_UNAVAILABLE then no ''QUOTE_UNAVAILABLE''
      else if freshness = Q_STALE then no ''QUOTE_STALE''
      else if freshness = Q_SESSION_NOT_STARTED \<or> status = M_PREOPEN then no ''NEXT_SESSION_NOT_STARTED''
      else if freshness = Q_NO_TRADES then no ''NO_TRADES''
      else if status = M_CLOSED \<and> open_price = None then no ''MARKET_CLOSED''
      else if \<not> opt_sat (\<lambda>p. 0 < p) open_price
        then no (if clock < open_at then ''NEXT_SESSION_NOT_STARTED'' else ''OPEN_PRICE_NOT_AVAILABLE'')
      else if open_at \<le> created then no ''ORDER_CREATED_AFTER_OPEN''
      else if session_date < instant_date created then no ''WAITING_NEXT_SESSION''
      else \<lparr>oe_eligible = True, oe_reason = ''ELIGIBLE'', oe_delayed = open_at < observed, oe_open_time = open_at\<rparr>)"

text \<open>An eligible order existed before the open of a session that is not earlier than allowed; the
  last check of the code, on the calendar day, never decides: it is implied.\<close>

lemma eligible_iff:
  "oe_eligible (can_fill_with_session_open created min_date d px status fresh observed now) \<longleftrightarrow>
     min_date \<le> d \<and> created < session_open_time_utc d \<and> opt_sat (\<lambda>p. 0 < p) px \<and>
     status \<notin> {M_NON_TRADING_DAY, M_PREOPEN} \<and> fresh \<notin> {Q_UNAVAILABLE, Q_STALE, Q_SESSION_NOT_STARTED, Q_NO_TRADES}"
proof -
  have "\<not> d < instant_date created" if "created < session_open_time_utc d"
  proof -
    have "instant_date created \<le> instant_date (session_open_time_utc d)"
      using that by (simp add: instant_date_def day_us_def zdiv_mono1)
    also have "\<dots> = d" by (simp add: session_open_time_utc_def instant_date_combine)
    finally show ?thesis by simp
  qed
  then show ?thesis by (auto simp: can_fill_with_session_open_def Let_def not_le not_less)
qed

end
