(* ===== verification/Openfill.thy ===== *)
theory Openfill
  imports Lotfill
begin

text \<open>
  Filling the pending orders of the shadow portfolios. The tables of \<open>shadow/infrastructure/models.py\<close>
  that the fill paths touch are records in a \<open>shadow_db\<close>; \<open>fill_pending_orders_with_session_open\<close> of
  \<open>shadow/application/open_execution_service.py\<close> runs over the pending orders, sales first, and fills those
  whose quote is eligible. An order is PENDING, and becomes FILLED with exactly one fill, or CANCELLED. An
  exception leaves the function, and with it the session, without a commit: it has no state.
\<close>

section \<open>Tables\<close>

record shadow_order =
  so_id :: int
  so_portfolio :: int
  so_decision :: int
  so_instrument :: int
  so_ticker :: string
  so_side :: string
  so_quantity :: pyfloat
  so_status :: string
  so_created_at :: instant
  so_decision_at :: instant
  so_min_execution_date :: date
  so_execution_date :: "date option"
  so_lot_meta :: "int option"      \<comment> \<open>\<open>metadata["lot_size"]\<close>\<close>
  so_limitation :: "string option" \<comment> \<open>\<open>metadata["limitation"]\<close>\<close>
  so_cancel_reason :: "string option"
  so_updated_at :: instant

record shadow_fill =
  sf_portfolio :: int
  sf_order :: int
  sf_instrument :: int
  sf_ticker :: string
  sf_side :: string
  sf_quantity :: pyfloat
  sf_raw_open :: pyfloat
  sf_price :: pyfloat
  sf_notional :: pyfloat
  sf_commission :: pyfloat
  sf_slippage :: pyfloat
  sf_execution_date :: date
  sf_decision_at :: instant
  sf_filled_at :: instant

record shadow_book =
  sb_id :: int
  sb_spec :: int
  sb_status :: string
  sb_activated_at :: instant
  sb_cash :: pyfloat
  sb_peak_nav :: pyfloat
  sb_exposure_cap :: pyfloat
  sb_risk_mode :: string
  sb_last_day :: "date option"
  sb_last_decision :: "int option"
  sb_positions :: pos_rows
  sb_updated_at :: instant

record shadow_db =
  sd_orders :: "shadow_order list"
  sd_fills :: "shadow_fill list"
  sd_books :: "shadow_book list"
  sd_specs :: "shadow_spec list"
  sd_profiles :: fee_db

definition PENDING :: string where "PENDING = ''PENDING''"
definition FILLED :: string where "FILLED = ''FILLED''"
definition CANCELLED :: string where "CANCELLED = ''CANCELLED''"

lemmas order_status = PENDING_def FILLED_def CANCELLED_def

definition find_order :: "shadow_db \<Rightarrow> int \<Rightarrow> shadow_order option" where
  "find_order d i = List.find (\<lambda>o'. so_id o' = i) (sd_orders d)"

definition find_book :: "shadow_db \<Rightarrow> int \<Rightarrow> shadow_book option" where
  "find_book d i = List.find (\<lambda>b. sb_id b = i) (sd_books d)"

definition find_spec :: "shadow_db \<Rightarrow> int \<Rightarrow> shadow_spec option" where
  "find_spec d i = List.find (\<lambda>s. sx_id s = i) (sd_specs d)"

definition put_order :: "shadow_order \<Rightarrow> shadow_db \<Rightarrow> shadow_db" where
  "put_order o' d = d\<lparr>sd_orders := map (\<lambda>x. if so_id x = so_id o' then o' else x) (sd_orders d)\<rparr>"

definition put_shadow_book :: "shadow_book \<Rightarrow> shadow_db \<Rightarrow> shadow_db" where
  "put_shadow_book b d = d\<lparr>sd_books := map (\<lambda>x. if sb_id x = sb_id b then b else x) (sd_books d)\<rparr>"

definition order_lot_size :: "shadow_order \<Rightarrow> int option" where
  "order_lot_size o' = (case so_lot_meta o' of Some l \<Rightarrow> if l > 0 then Some l else None | None \<Rightarrow> None)"

section \<open>Pricing a fill\<close>

text \<open>The broker commission of V3 comes from the fee engine on the execution date.\<close>

definition v3_quote :: "fee_db \<Rightarrow> shadow_spec \<Rightarrow> string \<Rightarrow> pyfloat \<Rightarrow> int \<Rightarrow> date \<Rightarrow> string \<Rightarrow> shadow_fee_quote res" where
  "v3_quote profiles spec side notional i day ticker =
     (let (code, version) = v3_fee_identity spec;
          est = resolve_fee_engine_estimator (Some code) (Some version) 0 (Some profiles) False
      in estimate_shadow_fee est side (dec_of_float notional) i day (Some code) (Some version) (Some ticker))"

definition quote_amount :: "shadow_fee_quote \<Rightarrow> pyfloat" where
  "quote_amount q = fl (opt_or (sq_amount q) 0)"

datatype priced = NoOpen | FeeUnknown | Priced hist_fill

definition price_fill :: "fee_db \<Rightarrow> shadow_spec \<Rightarrow> shadow_order \<Rightarrow> date \<Rightarrow> pyfloat option \<Rightarrow> priced res" where
  "price_fill profiles spec o' day raw_open =
     (let v3 = is_sell_economics_v3_spec spec in
      case adapter_fill (so_side o') (so_quantity o') raw_open (if v3 then 0 else sx_commission_bps spec) (sx_slippage_bps spec) of
        None \<Rightarrow> Inr NoOpen
      | Some f \<Rightarrow>
          if \<not> v3 then Inr (Priced f) else
          bnd (v3_quote profiles spec (so_side o') (hf_notional f) (so_instrument o') day (so_ticker o')) (\<lambda>q.
          Inr (if quote_is_unknown q then FeeUnknown else Priced (f\<lparr>hf_commission := quote_amount q\<rparr>))))"

text \<open>A sale is clipped to the position; its commission is priced again (V3) or scaled (flat).\<close>

definition sell_commission :: "fee_db \<Rightarrow> shadow_spec \<Rightarrow> shadow_order \<Rightarrow> date \<Rightarrow> hist_fill \<Rightarrow> pyfloat \<Rightarrow> pyfloat option res" where
  "sell_commission profiles spec o' day f sell_qty =
     (let v3 = is_sell_economics_v3_spec spec; clipped = eps12 < \<bar>fsub sell_qty (hf_quantity f)\<bar> in
      if v3 \<and> clipped then
        bnd (v3_quote profiles spec ''SELL'' (fmul sell_qty (hf_price f)) (so_instrument o') day (so_ticker o')) (\<lambda>q.
        Inr (if quote_is_unknown q then None else Some (quote_amount q)))
      else if \<not> v3 \<and> 0 < hf_quantity f \<and> clipped
        then Inr (Some (fmul (hf_commission f) (fdiv sell_qty (hf_quantity f))))
      else Inr (Some (hf_commission f)))"

section \<open>Booking a fill\<close>

datatype outcome = Skip string shadow_book shadow_order | Fill shadow_book shadow_order hist_fill

definition FEE_RULE_UNAVAILABLE :: string where "FEE_RULE_UNAVAILABLE = ''FEE_RULE_UNAVAILABLE_AT_EXECUTION''"

definition limit_order :: "instant \<Rightarrow> shadow_order \<Rightarrow> shadow_order" where
  "limit_order clock o' = o'\<lparr>so_limitation := Some FEE_RULE_UNAVAILABLE, so_updated_at := clock\<rparr>"

definition book_buy :: "shadow_spec \<Rightarrow> shadow_book \<Rightarrow> shadow_order \<Rightarrow> hist_fill \<Rightarrow> outcome res" where
  "book_buy spec b o' f =
     (let cost = fadd (hf_notional f) (hf_commission f) in
      if fadd (sb_cash b) eps6 < cost then Inr (Skip ''INSUFFICIENT_CASH'' b o') else
      let new_cash = fsub (sb_cash b) cost in
      if new_cash < - eps9 then Inr (Skip ''INSUFFICIENT_CASH'' b o') else
      if is_lot_aware_spec spec then
        (case order_lot_size o' of
           None \<Rightarrow> Inr (Skip ''UNKNOWN_LOT_SIZE'' (b\<lparr>sb_cash := fadd new_cash cost\<rparr>) o')
         | Some l \<Rightarrow>
             bnd (apply_lot_aware_fill (sb_positions b) (so_instrument o') (so_ticker o') ''BUY'' (hf_quantity f)
                    (hf_price f) (hf_commission f) l) (\<lambda>pos.
             Inr (Fill (b\<lparr>sb_cash := new_cash, sb_positions := pos\<rparr>) o' f)))
      else Inr (Fill (b\<lparr>sb_cash := new_cash,
              sb_positions := set_fractional_position (sb_positions b) (so_instrument o') (so_ticker o')
                (fadd (position_qty (sb_positions b) (so_instrument o')) (hf_quantity f))\<rparr>) o' f))"

definition sell_lot_size :: "shadow_book \<Rightarrow> shadow_order \<Rightarrow> int option" where
  "sell_lot_size b o' = (case order_lot_size o' of
     Some l \<Rightarrow> Some l
   | None \<Rightarrow> (case map_of (sb_positions b) (so_instrument o') of
        Some r \<Rightarrow> if int_or (pw_lot_size r) 0 = 0 then None else pw_lot_size r
      | None \<Rightarrow> None))"

definition book_sell :: "instant \<Rightarrow> fee_db \<Rightarrow> shadow_spec \<Rightarrow> date \<Rightarrow> shadow_book \<Rightarrow> shadow_order \<Rightarrow> hist_fill \<Rightarrow> outcome res" where
  "book_sell clock profiles spec day b o' f =
     (let held = position_qty (sb_positions b) (so_instrument o'); sell_qty = min (hf_quantity f) held in
      if sell_qty \<le> 0 then Inr (Skip ''NO_POSITION_TO_SELL'' b (o'\<lparr>so_status := CANCELLED, so_updated_at := clock\<rparr>)) else
      let sell_notional = fmul sell_qty (hf_price f) in
      bnd (sell_commission profiles spec o' day f sell_qty) (\<lambda>c. case c of
        None \<Rightarrow> Inr (Skip FEE_RULE_UNAVAILABLE b (limit_order clock o'))
      | Some comm \<Rightarrow>
          let proceeds = fsub sell_notional comm;
              cash' = fadd (sb_cash b) proceeds;
              f' = f\<lparr>hf_quantity := sell_qty, hf_notional := sell_notional, hf_commission := comm\<rparr> in
          if is_lot_aware_spec spec then
            (case sell_lot_size b o' of
               None \<Rightarrow> Inr (Skip ''UNKNOWN_LOT_SIZE'' (b\<lparr>sb_cash := fsub cash' proceeds\<rparr>) o')
             | Some l \<Rightarrow>
                 bnd (apply_lot_aware_fill (sb_positions b) (so_instrument o') (so_ticker o') ''SELL'' sell_qty
                        (hf_price f) comm l) (\<lambda>pos.
                 Inr (Fill (b\<lparr>sb_cash := cash', sb_positions := pos\<rparr>) o' f')))
          else Inr (Fill (b\<lparr>sb_cash := cash',
                  sb_positions := set_fractional_position (sb_positions b) (so_instrument o') (so_ticker o')
                    (fsub held sell_qty)\<rparr>) o' f')))"

section \<open>The open-session path\<close>

record intraday_quote =
  iq_instrument :: "int option"
  iq_board :: string
  iq_secid :: string
  iq_trading_date :: "date option"
  iq_observed_at :: instant
  iq_status :: session_status
  iq_open :: "pyfloat option"
  iq_freshness :: quote_freshness

definition quote_index :: "intraday_quote list \<Rightarrow> (string \<times> string \<rightharpoonup> int) option \<Rightarrow> int \<rightharpoonup> intraday_quote" where
  "quote_index quotes by_secid = foldl (\<lambda>m q. case iq_instrument q of
      Some i \<Rightarrow> m(i \<mapsto> q)
    | None \<Rightarrow> (case Option.bind by_secid (\<lambda>t. t (upper (iq_board q), upper (iq_secid q))) of
        Some i \<Rightarrow> m(i \<mapsto> q) | None \<Rightarrow> m)) Map.empty quotes"

record pending_reason =
  pe_order :: int
  pe_portfolio :: int
  pe_ticker :: string
  pe_reason :: string
  pe_session_date :: "date option"
  pe_delayed :: bool

record fill_run =
  fr_db :: shadow_db
  fr_filled :: nat
  fr_skipped :: nat
  fr_reasons :: "pending_reason list"

definition reason_of :: "shadow_order \<Rightarrow> string \<Rightarrow> date option \<Rightarrow> bool \<Rightarrow> pending_reason" where
  "reason_of o' reason day delayed = \<lparr>pe_order = so_id o', pe_portfolio = so_portfolio o', pe_ticker = so_ticker o',
     pe_reason = reason, pe_session_date = day, pe_delayed = delayed\<rparr>"

definition skip_order :: "fill_run \<Rightarrow> pending_reason \<Rightarrow> fill_run" where
  "skip_order run r = run\<lparr>fr_skipped := fr_skipped run + 1, fr_reasons := fr_reasons run @ [r]\<rparr>"

definition fill_row :: "shadow_book \<Rightarrow> shadow_order \<Rightarrow> hist_fill \<Rightarrow> date \<Rightarrow> instant \<Rightarrow> shadow_fill" where
  "fill_row b o' f day filled_at =
     \<lparr>sf_portfolio = sb_id b, sf_order = so_id o', sf_instrument = so_instrument o', sf_ticker = so_ticker o',
      sf_side = so_side o', sf_quantity = hf_quantity f, sf_raw_open = hf_raw_open f, sf_price = hf_price f,
      sf_notional = hf_notional f, sf_commission = hf_commission f, sf_slippage = hf_slippage f,
      sf_execution_date = day, sf_decision_at = so_decision_at o', sf_filled_at = filled_at\<rparr>"

text \<open>The portfolio's status after a fill.\<close>

definition status_after_fill :: "shadow_db \<Rightarrow> shadow_book \<Rightarrow> shadow_order \<Rightarrow> string" where
  "status_after_fill d b o' =
     (if sb_status b \<noteq> ''WAITING_FOR_FUTURE_MARKET_OPEN'' then sb_status b
      else if \<not> (\<exists>x \<in> set (sd_orders d). so_portfolio x = sb_id b \<and> so_status x = PENDING \<and> so_id x \<noteq> so_id o')
        then ''DECISION_READY''
      else if 0 < position_qty (sb_positions b) (so_instrument o') \<or>
              (\<exists>r \<in> set (sb_positions b). eps12 < \<bar>pw_quantity (snd r)\<bar>) then ''ACTIVE''
      else sb_status b)"

definition commit_fill :: "instant \<Rightarrow> fill_run \<Rightarrow> shadow_book \<Rightarrow> shadow_order \<Rightarrow> hist_fill \<Rightarrow> date \<Rightarrow> instant \<Rightarrow> bool \<Rightarrow> fill_run" where
  "commit_fill clock run b o' f day observed delayed =
     (let filled = o'\<lparr>so_status := FILLED, so_execution_date := Some day, so_updated_at := clock\<rparr>;
          d = put_order filled (fr_db run);
          b' = b\<lparr>sb_status := status_after_fill d b o', sb_updated_at := clock\<rparr>
      in run\<lparr>fr_db := put_shadow_book b' (d\<lparr>sd_fills := sd_fills d @ [fill_row b o' f day observed]\<rparr>),
             fr_filled := fr_filled run + 1,
             fr_reasons := fr_reasons run @ [reason_of o' ''FILLED'' (Some day) delayed]\<rparr>)"

definition settle :: "instant \<Rightarrow> fill_run \<Rightarrow> date \<Rightarrow> instant \<Rightarrow> bool \<Rightarrow> outcome \<Rightarrow> fill_run" where
  "settle clock run day observed delayed out = (case out of
     Skip reason b o' \<Rightarrow> (skip_order run (reason_of o' reason (Some day) False))\<lparr>fr_db := put_shadow_book b (put_order o' (fr_db run))\<rparr>
   | Fill b o' f \<Rightarrow> commit_fill clock run b o' f day observed delayed)"

text \<open>An eligible order: portfolio and specification exist, the fill is priced and booked.\<close>

definition execute_order ::
  "instant \<Rightarrow> fill_run \<Rightarrow> shadow_order \<Rightarrow> intraday_quote \<Rightarrow> date \<Rightarrow> bool \<Rightarrow> fill_run res" where
  "execute_order clock run o' q day delayed =
     (case find_book (fr_db run) (so_portfolio o') of
        None \<Rightarrow> Inr (run\<lparr>fr_skipped := fr_skipped run + 1\<rparr>)
      | Some b \<Rightarrow> (case find_spec (fr_db run) (sb_spec b) of
          None \<Rightarrow> Inr (run\<lparr>fr_skipped := fr_skipped run + 1\<rparr>)
        | Some spec \<Rightarrow>
            bnd (price_fill (sd_profiles (fr_db run)) spec o' day (iq_open q)) (\<lambda>p. case p of
              NoOpen \<Rightarrow> Inr (skip_order run (reason_of o' ''OPEN_PRICE_NOT_AVAILABLE'' (Some day) False))
            | FeeUnknown \<Rightarrow> Inr (settle clock run day (iq_observed_at q) delayed (Skip FEE_RULE_UNAVAILABLE b (limit_order clock o')))
            | Priced f \<Rightarrow>
                bnd (if so_side o' = ''BUY'' then book_buy spec b o' f
                     else book_sell clock (sd_profiles (fr_db run)) spec day b o' f) (\<lambda>out.
                Inr (settle clock run day (iq_observed_at q) delayed out)))))"

definition fill_one :: "(int \<rightharpoonup> intraday_quote) \<Rightarrow> instant \<Rightarrow> fill_run \<Rightarrow> int \<Rightarrow> fill_run res" where
  "fill_one by_instrument clock run i =
     (case find_order (fr_db run) i of
        None \<Rightarrow> Inr run
      | Some o' \<Rightarrow>
          if so_status o' \<noteq> PENDING then Inr run else
          if \<exists>f \<in> set (sd_fills (fr_db run)). sf_order f = i
          then Inr (skip_order run (reason_of o' ''ALREADY_FILLED'' None False)) else
          (case by_instrument (so_instrument o') of
             None \<Rightarrow> Inr (skip_order run (reason_of o' ''QUOTE_UNAVAILABLE'' None False))
           | Some q \<Rightarrow>
             (case iq_trading_date q of
                None \<Rightarrow> Inr (skip_order run (reason_of o' ''OPEN_PRICE_NOT_AVAILABLE'' None False))
              | Some day \<Rightarrow>
                  let e = can_fill_with_session_open (so_created_at o') (so_min_execution_date o') day (iq_open q)
                            (iq_status q) (iq_freshness q) (iq_observed_at q) (Some clock)
                  in if \<not> oe_eligible e
                     then Inr (skip_order run (reason_of o' (oe_reason e) (Some day) (oe_delayed e)))
                     else execute_order clock run o' q day (oe_delayed e))))"

definition pending_ids :: "int list option \<Rightarrow> shadow_db \<Rightarrow> int list" where
  "pending_ids portfolio_ids d = map so_id (sort_key (\<lambda>o'. (if so_side o' = ''SELL'' then 0 else 1 :: int, so_id o'))
     (filter (\<lambda>o'. so_status o' = PENDING \<and> (case portfolio_ids of None \<Rightarrow> True | Some ps \<Rightarrow> so_portfolio o' \<in> set ps)) (sd_orders d)))"

text \<open>
  The lot sizes of the lot-aware group are repaired first, book by book. An exception stops the repair
  and not the fills.
\<close>

definition EXPERIMENT_GROUP_V2 :: string where "EXPERIMENT_GROUP_V2 = ''SHADOW_PORTFOLIO_REALISM_V2''"

definition repair_selected :: "shadow_db \<Rightarrow> int list option \<Rightarrow> shadow_book \<Rightarrow> bool" where
  "repair_selected d portfolio_ids b \<longleftrightarrow>
     opt_sat (\<lambda>s. sx_group s = EXPERIMENT_GROUP_V2) (find_spec d (sb_spec b)) \<and>
     (case portfolio_ids of None \<Rightarrow> True | Some ps \<Rightarrow> sb_id b \<in> set ps)"

fun repair_books :: "(shadow_book \<Rightarrow> bool) \<Rightarrow> (int list \<Rightarrow> (int \<rightharpoonup> int) option) \<Rightarrow> shadow_book list \<Rightarrow> shadow_book list" where
  "repair_books sel resolve [] = []"
| "repair_books sel resolve (b # bs) =
     (if \<not> sel b then b # repair_books sel resolve bs
      else (case repair_missing_position_lot_sizes resolve (sb_positions b) of
          None \<Rightarrow> b # bs
        | Some pos \<Rightarrow> b\<lparr>sb_positions := pos\<rparr> # repair_books sel resolve bs))"

definition repair_lots :: "(int list \<Rightarrow> (int \<rightharpoonup> int) option) \<Rightarrow> int list option \<Rightarrow> shadow_db \<Rightarrow> shadow_db" where
  "repair_lots resolve portfolio_ids d = d\<lparr>sd_books := repair_books (repair_selected d portfolio_ids) resolve (sd_books d)\<rparr>"

definition fill_pending_orders_with_session_open ::
  "(int list \<Rightarrow> (int \<rightharpoonup> int) option) \<Rightarrow> intraday_quote list \<Rightarrow> (string \<times> string \<rightharpoonup> int) option \<Rightarrow> instant \<Rightarrow> int list option \<Rightarrow> shadow_db \<Rightarrow> fill_run res" where
  "fill_pending_orders_with_session_open resolve quotes by_secid clock portfolio_ids d =
     (let d0 = repair_lots resolve portfolio_ids d in
      foldM (fill_one (quote_index quotes by_secid) clock) \<lparr>fr_db = d0, fr_filled = 0, fr_skipped = 0, fr_reasons = []\<rparr>
        (pending_ids portfolio_ids d0))"

lemma repair_books_ids: "map sb_id (repair_books sel resolve bs) = map sb_id bs"
  by (induction sel resolve bs rule: repair_books.induct) (auto split: option.splits)

text \<open>The repair changes neither which instruments are held nor how much of them.\<close>

definition holdings :: "shadow_book \<Rightarrow> (int \<times> pyfloat) list" where
  "holdings b = map (\<lambda>(i, r). (i, pw_quantity r)) (sb_positions b)"

lemma repair_positions_holdings: "repair_missing_position_lot_sizes resolve pos = Some pos' \<Longrightarrow>
    map (\<lambda>(i, r). (i, pw_quantity r)) pos' = map (\<lambda>(i, r). (i, pw_quantity r)) pos"
proof -
  have r: "(case repair_row hits kr of (i, r) \<Rightarrow> (i, pw_quantity r)) = (case kr of (i, r) \<Rightarrow> (i, pw_quantity r))" for hits kr
    by (cases kr) (auto simp: repair_row_def split: option.splits)
  assume "repair_missing_position_lot_sizes resolve pos = Some pos'"
  then show ?thesis by (auto simp: repair_missing_position_lot_sizes_def Let_def r split: if_splits)
qed

lemma repair_books_kept:
  "list_all2 (\<lambda>b b'. sb_id b' = sb_id b \<and> sb_cash b' = sb_cash b \<and> holdings b' = holdings b) bs (repair_books sel resolve bs)"
  by (induction sel resolve bs rule: repair_books.induct)
    (auto simp: holdings_def repair_positions_holdings intro: list.rel_refl split: option.splits)

lemma repair_lots_simps [simp]:
  "sd_orders (repair_lots resolve ps d) = sd_orders d" "sd_fills (repair_lots resolve ps d) = sd_fills d"
  "map sb_id (sd_books (repair_lots resolve ps d)) = map sb_id (sd_books d)"
  by (simp_all add: repair_lots_def repair_books_ids)

section \<open>The life of an order\<close>

text \<open>What may happen to an order row; a FILLED or CANCELLED order never moves again.\<close>

inductive order_step :: "shadow_order \<Rightarrow> shadow_order \<Rightarrow> bool" where
  annotate: "so_status o' = PENDING \<Longrightarrow> order_step o' (limit_order t o')"
| fill: "so_status o' = PENDING \<Longrightarrow>
    order_step o' (o'\<lparr>so_status := FILLED, so_execution_date := Some d, so_updated_at := t\<rparr>)"
| cancel: "so_status o' = PENDING \<Longrightarrow> order_step o' (o'\<lparr>so_status := CANCELLED, so_cancel_reason := r, so_updated_at := t\<rparr>)"

inductive_cases order_stepE: "order_step o1 o2"

lemma order_step_id: "order_step\<^sup>*\<^sup>* o1 o2 \<Longrightarrow> so_id o2 = so_id o1 \<and> so_created_at o2 = so_created_at o1 \<and>
    so_min_execution_date o2 = so_min_execution_date o1 \<and> so_side o2 = so_side o1 \<and> so_instrument o2 = so_instrument o1 \<and>
    so_portfolio o2 = so_portfolio o1 \<and> so_quantity o2 = so_quantity o1"
  by (induction rule: rtranclp_induct) (auto elim!: order_stepE simp: limit_order_def)

lemma order_step_final: "order_step\<^sup>*\<^sup>* o1 o2 \<Longrightarrow> so_status o1 \<noteq> PENDING \<Longrightarrow> o2 = o1"
  by (induction rule: converse_rtranclp_induct) (auto elim: order_stepE)

lemma order_step_status: "order_step\<^sup>*\<^sup>* o1 o2 \<Longrightarrow> so_status o2 = so_status o1 \<or> so_status o2 \<in> {PENDING, FILLED, CANCELLED}"
  by (induction rule: rtranclp_induct) (auto elim!: order_stepE simp: limit_order_def)

text \<open>The same of a whole table.\<close>

definition orders_step :: "shadow_db \<Rightarrow> shadow_db \<Rightarrow> bool" where
  "orders_step d d' \<longleftrightarrow> list_all2 order_step\<^sup>*\<^sup>* (sd_orders d) (sd_orders d')"

lemma orders_step_refl [simp]: "orders_step d d"
  by (simp add: orders_step_def list_all2_refl)

lemma orders_step_trans: "orders_step d d' \<Longrightarrow> orders_step d' d'' \<Longrightarrow> orders_step d d''"
  unfolding orders_step_def
  using list_all2_trans [of "order_step\<^sup>*\<^sup>*" "order_step\<^sup>*\<^sup>*" "order_step\<^sup>*\<^sup>*"] by (blast intro: rtranclp_trans)

lemma orders_step_put: "order_step\<^sup>*\<^sup>* o1 o2 \<Longrightarrow> find_order d i = Some o1 \<Longrightarrow> distinct (map so_id (sd_orders d)) \<Longrightarrow>
    orders_step d (put_order o2 d)"
proof -
  assume s: "order_step\<^sup>*\<^sup>* o1 o2" and f: "find_order d i = Some o1" and d: "distinct (map so_id (sd_orders d))"
  have o1: "o1 \<in> set (sd_orders d)" using f by (auto simp: find_order_def find_Some_iff)
  have "x = o1" if "x \<in> set (sd_orders d)" "so_id x = so_id o1" for x
    using d that o1 by (metis distinct_map inj_onD)
  then show ?thesis using s order_step_id [OF s]
    by (auto simp: orders_step_def put_order_def list_all2_map2 intro!: list_all2_refl list.rel_refl_strong)
qed

lemma find_orderD: "find_order d i = Some o' \<Longrightarrow> o' \<in> set (sd_orders d) \<and> so_id o' = i"
  by (auto simp: find_order_def find_Some_iff)

lemma shadow_db_simps [simp]:
  "sd_orders (put_shadow_book b d) = sd_orders d" "sd_fills (put_shadow_book b d) = sd_fills d"
  "sd_specs (put_shadow_book b d) = sd_specs d" "sd_profiles (put_shadow_book b d) = sd_profiles d"
  "sd_books (put_order o' d) = sd_books d" "sd_fills (put_order o' d) = sd_fills d"
  "sd_specs (put_order o' d) = sd_specs d" "sd_profiles (put_order o' d) = sd_profiles d"
  by (simp_all add: put_shadow_book_def put_order_def)

lemma put_order_fields [simp]: "map so_id (sd_orders (put_order o' d)) = map so_id (sd_orders d)"
  by (simp add: put_order_def comp_def cong: if_cong)

section \<open>What one order does\<close>

lemma book_buy_outcome:
  assumes "book_buy spec b o' f = Inr out"
  shows "case out of Skip r b' o'' \<Rightarrow> o'' = o' \<and> sb_id b' = sb_id b \<and> sb_positions b' = sb_positions b
    | Fill b' o'' f' \<Rightarrow> o'' = o' \<and> f' = f \<and> sb_id b' = sb_id b"
  using assms by (auto simp: book_buy_def Let_def exn_simps split: if_splits option.splits)

lemma book_sell_outcome:
  assumes "book_sell clock profiles spec day b o' f = Inr out" and "so_status o' = PENDING"
  shows "case out of Skip r b' o'' \<Rightarrow> order_step\<^sup>*\<^sup>* o' o'' \<and> so_status o'' \<noteq> FILLED \<and> sb_id b' = sb_id b \<and> sb_positions b' = sb_positions b
    | Fill b' o'' f' \<Rightarrow> o'' = o' \<and> hf_side f' = hf_side f \<and> sb_id b' = sb_id b"
proof -
  have "o'\<lparr>so_status := CANCELLED, so_updated_at := clock\<rparr> =
      o'\<lparr>so_status := CANCELLED, so_cancel_reason := so_cancel_reason o', so_updated_at := clock\<rparr>" by (cases o') simp
  then have "order_step o' (o'\<lparr>so_status := CANCELLED, so_updated_at := clock\<rparr>)"
    using order_step.cancel [where o' = o' and r = "so_cancel_reason o'" and t = clock] assms(2) by simp
  then have c: "order_step\<^sup>*\<^sup>* o' (o'\<lparr>so_status := CANCELLED, so_updated_at := clock\<rparr>)" by blast
  have l: "order_step\<^sup>*\<^sup>* o' (limit_order clock o')" using order_step.annotate [OF assms(2)] by blast
  define q where "q = min (hf_quantity f) (position_qty (sb_positions b) (so_instrument o'))"
  show ?thesis
  proof (cases "q \<le> 0")
    case True
    with assms c show ?thesis by (auto simp: book_sell_def Let_def q_def order_status)
  next
    case False
    with assms(1) obtain k where k: "sell_commission profiles spec o' day f q = Inr k"
      by (auto simp: book_sell_def Let_def q_def exn_simps)
    show ?thesis
    proof (cases k)
      case None
      with assms False k l show ?thesis
        by (auto simp: book_sell_def Let_def limit_order_def order_status simp flip: q_def)
    next
      case (Some comm)
      show ?thesis
      proof (cases "is_lot_aware_spec spec")
        case True
        with assms False k Some show ?thesis
          by (cases "sell_lot_size b o'") (auto simp: book_sell_def Let_def exn_simps order_status simp flip: q_def)
      next
        case False
        with assms \<open>\<not> q \<le> 0\<close> k Some show ?thesis
          by (auto simp: book_sell_def Let_def simp flip: q_def)
      qed
    qed
  qed
qed

text \<open>The effect of one iteration.\<close>

lemma fill_one_cases:
  assumes "fill_one by_instrument clock run i = Inr run'"
  obtains (same) "fr_db run' = fr_db run"
  | (skip) o1 o2 b where "find_order (fr_db run) i = Some o1" "so_status o1 = PENDING" "order_step\<^sup>*\<^sup>* o1 o2" "so_status o2 \<noteq> FILLED"
      "\<exists>b0. find_book (fr_db run) (so_portfolio o1) = Some b0 \<and> sb_id b = sb_id b0 \<and> sb_positions b = sb_positions b0"
      "fr_db run' = put_shadow_book b (put_order o2 (fr_db run))"
  | (fill) o1 b b' f day q where "\<exists>b0. find_book (fr_db run) (so_portfolio o1) = Some b0 \<and> sb_id b' = sb_id b0 \<and> sb_id b = sb_id b0"
      "find_order (fr_db run) i = Some o1" "so_status o1 = PENDING"
      "\<not> (\<exists>f \<in> set (sd_fills (fr_db run)). sf_order f = i)"
      "by_instrument (so_instrument o1) = Some q" "iq_trading_date q = Some day"
      "oe_eligible (can_fill_with_session_open (so_created_at o1) (so_min_execution_date o1) day (iq_open q)
          (iq_status q) (iq_freshness q) (iq_observed_at q) (Some clock))"
      "fr_db run' = put_shadow_book b' (put_order (o1\<lparr>so_status := FILLED, so_execution_date := Some day, so_updated_at := clock\<rparr>) (fr_db run)
          \<lparr>sd_fills := sd_fills (fr_db run) @ [fill_row b o1 f day (iq_observed_at q)]\<rparr>)"
proof (cases "find_order (fr_db run) i")
  case None
  with assms show thesis by (intro same) (simp add: fill_one_def)
next
  case (Some o1)
  show thesis
  proof (cases "so_status o1 = PENDING \<and> \<not> (\<exists>f \<in> set (sd_fills (fr_db run)). sf_order f = i) \<and>
      (\<exists>q day. by_instrument (so_instrument o1) = Some q \<and> iq_trading_date q = Some day \<and>
        oe_eligible (can_fill_with_session_open (so_created_at o1) (so_min_execution_date o1) day (iq_open q)
          (iq_status q) (iq_freshness q) (iq_observed_at q) (Some clock)))")
    case False
    then have "fr_db run' = fr_db run" using assms Some
      by (auto simp: fill_one_def skip_order_def Let_def split: if_splits option.splits)
    then show thesis by (rule same)
  next
    case True
    then obtain q day where p: "so_status o1 = PENDING" and nf: "\<not> (\<exists>f \<in> set (sd_fills (fr_db run)). sf_order f = i)"
      and q: "by_instrument (so_instrument o1) = Some q" "iq_trading_date q = Some day"
      and e: "oe_eligible (can_fill_with_session_open (so_created_at o1) (so_min_execution_date o1) day (iq_open q)
          (iq_status q) (iq_freshness q) (iq_observed_at q) (Some clock))" by blast
    define delayed where "delayed = oe_delayed (can_fill_with_session_open (so_created_at o1) (so_min_execution_date o1) day (iq_open q)
          (iq_status q) (iq_freshness q) (iq_observed_at q) (Some clock))"
    have x: "execute_order clock run o1 q day delayed = Inr run'"
      using assms Some p nf q e by (simp add: fill_one_def delayed_def Let_def)
    have lim: "order_step\<^sup>*\<^sup>* o1 (limit_order clock o1)" "so_status (limit_order clock o1) \<noteq> FILLED"
      using order_step.annotate [OF p] p by (auto simp: limit_order_def order_status)
    show thesis
    proof (cases "find_book (fr_db run) (so_portfolio o1)")
      case None
      with x show thesis by (intro same) (auto simp: execute_order_def)
    next
      case (Some b)
      note b = Some
      show thesis
      proof (cases "find_spec (fr_db run) (sb_spec b)")
        case None
        with x b show thesis by (intro same) (auto simp: execute_order_def)
      next
        case (Some spec)
        with x b obtain pr where pr: "price_fill (sd_profiles (fr_db run)) spec o1 day (iq_open q) = Inr pr"
          by (auto simp: execute_order_def exn_simps)
        show thesis
        proof (cases pr)
          case NoOpen
          with x b Some pr show thesis by (intro same) (auto simp: execute_order_def skip_order_def)
        next
          case FeeUnknown
          with x b Some pr show thesis
            by (intro skip [OF \<open>find_order (fr_db run) i = Some o1\<close> p lim, of b]) (auto simp: execute_order_def settle_def skip_order_def)
        next
          case (Priced f)
          with x b Some pr obtain out where
            out: "(if so_side o1 = ''BUY'' then book_buy spec b o1 f else book_sell clock (sd_profiles (fr_db run)) spec day b o1 f) = Inr out"
            and r: "run' = settle clock run day (iq_observed_at q) delayed out"
            by (auto simp: execute_order_def exn_simps)
          have o: "case out of Skip r b' o'' \<Rightarrow> order_step\<^sup>*\<^sup>* o1 o'' \<and> so_status o'' \<noteq> FILLED \<and> sb_id b' = sb_id b \<and> sb_positions b' = sb_positions b
              | Fill b' o'' f' \<Rightarrow> o'' = o1 \<and> sb_id b' = sb_id b"
            using out book_buy_outcome [of spec b o1 f out] book_sell_outcome [OF _ p] p
            by (cases out) (fastforce split: if_splits simp: order_status)+
          show thesis
          proof (cases out)
            case (Skip reason b' o'')
            with o r b show thesis
              by (intro skip [OF \<open>find_order (fr_db run) i = Some o1\<close> p, of o'' b']) (auto simp: settle_def skip_order_def)
          next
            case (Fill b' o'' f')
            with o r b show thesis
              by (intro fill [OF _ \<open>find_order (fr_db run) i = Some o1\<close> p nf q e]) (auto simp: settle_def commit_fill_def Let_def)
          qed
        qed
      qed
    qed
  qed
qed

section \<open>What a run does\<close>

text \<open>An order has a fill exactly when it is FILLED, and one fill only.\<close>

definition fills_match :: "shadow_db \<Rightarrow> bool" where
  "fills_match d \<longleftrightarrow> distinct (map so_id (sd_orders d)) \<and> distinct (map sf_order (sd_fills d)) \<and>
     (\<forall>o' \<in> set (sd_orders d). so_status o' = FILLED \<longleftrightarrow> so_id o' \<in> sf_order ` set (sd_fills d))"

lemma fills_match_id: "fills_match d \<Longrightarrow> distinct (map so_id (sd_orders d))"
  by (simp add: fills_match_def)

lemma in_put_order: "x \<in> set (sd_orders (put_order o2 d)) \<Longrightarrow> x = o2 \<or> (x \<in> set (sd_orders d) \<and> so_id x \<noteq> so_id o2)"
  by (auto simp: put_order_def split: if_splits)

text \<open>What justifies a fill: a pending order created before the open of the session it fills in.\<close>

definition fill_justified :: "(int \<rightharpoonup> intraday_quote) \<Rightarrow> shadow_db \<Rightarrow> shadow_fill \<Rightarrow> bool" where
  "fill_justified by_instrument d f \<longleftrightarrow> (\<exists>o' \<in> set (sd_orders d). so_id o' = sf_order f \<and> so_status o' = PENDING \<and>
     so_min_execution_date o' \<le> sf_execution_date f \<and> so_created_at o' < session_open_time_utc (sf_execution_date f) \<and>
     (\<exists>q px. by_instrument (so_instrument o') = Some q \<and> iq_trading_date q = Some (sf_execution_date f) \<and>
        iq_open q = Some px \<and> 0 < px))"

text \<open>A book's positions change only with a fill of the book.\<close>

definition book_kept :: "shadow_fill list \<Rightarrow> shadow_book \<Rightarrow> shadow_book \<Rightarrow> bool" where
  "book_kept new b b' \<longleftrightarrow> sb_id b' = sb_id b \<and> (sb_positions b' = sb_positions b \<or> (\<exists>f \<in> set new. sf_portfolio f = sb_id b))"

definition run_inv :: "(int \<rightharpoonup> intraday_quote) \<Rightarrow> shadow_db \<Rightarrow> shadow_db \<Rightarrow> bool" where
  "run_inv by_instrument d d' \<longleftrightarrow> fills_match d' \<and> orders_step d d' \<and>
     (\<exists>new. sd_fills d' = sd_fills d @ new \<and> (\<forall>f \<in> set new. fill_justified by_instrument d f) \<and>
       list_all2 (book_kept new) (sd_books d) (sd_books d'))"

lemma fills_match_skip:
  assumes "fills_match d" "find_order d i = Some o1" "so_status o1 = PENDING" "order_step\<^sup>*\<^sup>* o1 o2" "so_status o2 \<noteq> FILLED"
  shows "fills_match (put_shadow_book b (put_order o2 d))"
proof -
  have n: "so_id o1 \<notin> sf_order ` set (sd_fills d)" and i: "so_id o2 = so_id o1"
    using assms find_orderD [OF assms(2)] order_step_id [OF assms(4)] by (auto simp: fills_match_def order_status)
  have "so_status x = FILLED \<longleftrightarrow> so_id x \<in> sf_order ` set (sd_fills d)" if "x \<in> set (sd_orders (put_order o2 d))" for x
    using in_put_order [OF that]
  proof
    assume "x = o2"
    with n i assms(5) show ?thesis by simp
  next
    assume "x \<in> set (sd_orders d) \<and> so_id x \<noteq> so_id o2"
    with assms(1) show ?thesis by (simp add: fills_match_def)
  qed
  with assms show ?thesis by (auto simp: fills_match_def)
qed

lemma fills_match_fill:
  assumes m: "fills_match d" and o1: "find_order d i = Some o1" and nf: "\<not> (\<exists>f \<in> set (sd_fills d). sf_order f = i)"
    and o2: "so_id o2 = so_id o1" "so_status o2 = FILLED" and f: "sf_order f = i"
  shows "fills_match (put_shadow_book b (put_order o2 d\<lparr>sd_fills := sd_fills d @ [f]\<rparr>))"
proof -
  have i: "so_id o1 = i" using find_orderD [OF o1] by simp
  have d: "distinct (map sf_order (sd_fills d @ [f]))" using m nf f by (auto simp: fills_match_def)
  have s: "so_status x = FILLED \<longleftrightarrow> so_id x \<in> sf_order ` set (sd_fills d @ [f])"
    if "x \<in> set (sd_orders (put_order o2 d))" for x
    using in_put_order [OF that] m o2 i f by (auto simp: fills_match_def)
  have e: "sd_orders (put_shadow_book b (put_order o2 d\<lparr>sd_fills := sd_fills d @ [f]\<rparr>)) = sd_orders (put_order o2 d)"
    "sd_fills (put_shadow_book b (put_order o2 d\<lparr>sd_fills := sd_fills d @ [f]\<rparr>)) = sd_fills d @ [f]"
    by (simp_all add: put_shadow_book_def put_order_def)
  show ?thesis unfolding fills_match_def e using d s m by (auto simp: fills_match_def)
qed

lemma list_all2_right_member: "list_all2 P xs ys \<Longrightarrow> y \<in> set ys \<Longrightarrow> \<exists>x \<in> set xs. P x y"
  by (induction rule: list_all2_induct) auto

lemma list_all2_map_eq: "list_all2 (\<lambda>x y. g y = g x \<and> Q x y) xs ys \<Longrightarrow> map g ys = map g xs"
  by (induction rule: list_all2_induct) auto

lemma orders_step_pending:
  assumes "orders_step d d'" "o' \<in> set (sd_orders d')" "so_status o' = PENDING"
  shows "\<exists>o0 \<in> set (sd_orders d). so_status o0 = PENDING \<and> so_id o0 = so_id o' \<and> so_created_at o0 = so_created_at o' \<and>
    so_min_execution_date o0 = so_min_execution_date o' \<and> so_instrument o0 = so_instrument o'"
proof -
  obtain o0 where o0: "o0 \<in> set (sd_orders d)" "order_step\<^sup>*\<^sup>* o0 o'"
    using list_all2_right_member [OF assms(1) [unfolded orders_step_def] assms(2)] by blast
  have "so_status o0 = PENDING" using order_step_final [OF o0(2)] assms(3) by blast
  then show ?thesis using o0 order_step_id [OF o0(2)] by auto
qed

lemma find_bookD: "find_book d i = Some b \<Longrightarrow> b \<in> set (sd_books d) \<and> sb_id b = i"
  by (auto simp: find_book_def find_Some_iff)

text \<open>A book written back under its own key changes one row.\<close>

lemma books_put:
  assumes d: "distinct (map sb_id (sd_books d))" and f: "find_book d p = Some b0" and i: "sb_id b = sb_id b0" and P: "P b0 b"
    and r: "\<And>x. P x x"
  shows "list_all2 P (sd_books d) (sd_books (put_shadow_book b d))"
proof -
  have b0: "b0 \<in> set (sd_books d)" using find_bookD [OF f] by simp
  have "x = b0" if "x \<in> set (sd_books d)" "sb_id x = sb_id b0" for x
    using d that b0 by (metis distinct_map inj_onD)
  then show ?thesis using P i r
    by (auto simp: put_shadow_book_def list_all2_map2 intro!: list.rel_refl_strong)
qed

lemma put_shadow_book_ids [simp]: "map sb_id (sd_books (put_shadow_book b d)) = map sb_id (sd_books d)"
  by (simp add: put_shadow_book_def comp_def cong: if_cong)

lemma run_inv_refl: "fills_match d \<Longrightarrow> run_inv q d d"
  by (auto simp: run_inv_def book_kept_def intro!: exI [of _ "[]"] list.rel_refl_strong)

lemma run_inv_step:
  assumes I: "run_inv by_instrument d (fr_db run)" and bk: "distinct (map sb_id (sd_books d))"
    and x: "fill_one by_instrument clock run i = Inr run'"
  shows "run_inv by_instrument d (fr_db run')"
proof -
  define d' where "d' = fr_db run"
  obtain new where m: "fills_match d'" and os: "orders_step d d'" and fl: "sd_fills d' = sd_fills d @ new"
    and j: "\<forall>f \<in> set new. fill_justified by_instrument d f" and bs: "list_all2 (book_kept new) (sd_books d) (sd_books d')"
    using I by (auto simp: run_inv_def d'_def book_kept_def)
  have ids: "distinct (map sb_id (sd_books d'))"
    using bk list_all2_map_eq [OF bs [unfolded book_kept_def]] by simp
  have inv: "run_inv by_instrument d d''" if "fills_match d''" "orders_step d d''" "sd_fills d'' = sd_fills d @ new'"
    "\<forall>f \<in> set new'. fill_justified by_instrument d f" "list_all2 (book_kept new') (sd_books d) (sd_books d'')" for d'' new'
    using that unfolding run_inv_def book_kept_def by blast
  show ?thesis using x
  proof (cases rule: fill_one_cases)
    case same
    with I show ?thesis by simp
  next
    case (skip o1 o2 b)
    note s = skip [folded d'_def]
    from s obtain b0 where b0: "find_book d' (so_portfolio o1) = Some b0" "sb_id b = sb_id b0" "sb_positions b = sb_positions b0"
      by auto
    have "list_all2 (\<lambda>x y. sb_id y = sb_id x \<and> sb_positions y = sb_positions x) (sd_books d') (sd_books (put_shadow_book b d'))"
      by (rule books_put [OF ids b0(1)]) (use b0 in auto)
    then have bs': "list_all2 (book_kept new) (sd_books d) (sd_books (put_shadow_book b d'))"
      by (rule list_all2_trans [rotated, OF bs]) (auto simp: book_kept_def)
    have e: "sd_books (put_shadow_book b (put_order o2 d')) = sd_books (put_shadow_book b d')"
      by (simp add: put_shadow_book_def)
    show ?thesis unfolding s(6)
    proof (rule inv [where new' = new])
      show "fills_match (put_shadow_book b (put_order o2 d'))" by (rule fills_match_skip [OF m s(1-4)])
      have "orders_step d' (put_order o2 d')" by (rule orders_step_put [OF s(3,1) fills_match_id [OF m]])
      then show "orders_step d (put_shadow_book b (put_order o2 d'))"
        using orders_step_trans [OF os] by (simp add: orders_step_def)
    qed (use fl j bs' e in auto)
  next
    case (fill o1 b b' f day q)
    note s = fill [folded d'_def]
    define row where "row = fill_row b o1 f day (iq_observed_at q)"
    define o2 where "o2 = o1\<lparr>so_status := FILLED, so_execution_date := Some day, so_updated_at := clock\<rparr>"
    obtain b0 where b0: "find_book d' (so_portfolio o1) = Some b0" "sb_id b' = sb_id b0" "sb_id b = sb_id b0"
      using s by auto
    have row: "sf_order row = i" "sf_portfolio row = sb_id b0" "sf_execution_date row = day"
      using find_orderD [OF s(2)] b0 by (simp_all add: row_def fill_row_def)
    have st: "order_step\<^sup>*\<^sup>* o1 o2" using order_step.fill [OF s(3), where d = day and t = clock] by (auto simp: o2_def)
    have e: "fr_db run' = put_shadow_book b' (put_order o2 d'\<lparr>sd_fills := sd_fills d' @ [row]\<rparr>)"
      using s(8) by (simp add: o2_def row_def)
    have "list_all2 (\<lambda>x y. sb_id y = sb_id x \<and> (sb_positions y = sb_positions x \<or> sf_portfolio row = sb_id x))
        (sd_books d') (sd_books (put_shadow_book b' d'))"
      by (rule books_put [OF ids b0(1)]) (use b0 row in auto)
    then have bs': "list_all2 (book_kept (new @ [row])) (sd_books d) (sd_books (put_shadow_book b' d'))"
      by (rule list_all2_trans [rotated, OF bs]) (auto simp: book_kept_def)
    have o1: "o1 \<in> set (sd_orders d')" "so_id o1 = i" using find_orderD [OF s(2)] by auto
    obtain o0 where o0: "o0 \<in> set (sd_orders d)" "so_status o0 = PENDING" "so_id o0 = i" "so_created_at o0 = so_created_at o1"
        "so_min_execution_date o0 = so_min_execution_date o1" "so_instrument o0 = so_instrument o1"
      using orders_step_pending [OF os o1(1) s(3)] o1(2) by auto
    have "fill_justified by_instrument d row"
      using o0 row s(5,6) s(7) [unfolded eligible_iff] unfolding fill_justified_def opt_sat_iff by (metis)
    moreover have "fills_match (fr_db run')"
      unfolding e by (rule fills_match_fill [OF m s(2,4)]) (simp_all add: o2_def row)
    moreover have "orders_step d' (put_order o2 d')" by (rule orders_step_put [OF st s(2) fills_match_id [OF m]])
    then have "orders_step d (fr_db run')"
      using orders_step_trans [OF os] by (simp add: orders_step_def e put_shadow_book_def)
    moreover have "sd_fills (fr_db run') = sd_fills d @ new @ [row]"
      "sd_books (fr_db run') = sd_books (put_shadow_book b' d')" using fl by (simp_all add: e put_shadow_book_def put_order_def)
    ultimately show ?thesis using j bs' by (intro inv [where new' = "new @ [row]"]) auto
  qed
qed

lemma run_inv_all:
  assumes "fill_pending_orders_with_session_open resolve quotes by_secid clock ps d = Inr run"
    and "fills_match d" and "distinct (map sb_id (sd_books d))"
  shows "run_inv (quote_index quotes by_secid) (repair_lots resolve ps d) (fr_db run)"
proof -
  have f: "foldM (fill_one (quote_index quotes by_secid) clock)
      \<lparr>fr_db = repair_lots resolve ps d, fr_filled = 0, fr_skipped = 0, fr_reasons = []\<rparr> (pending_ids ps (repair_lots resolve ps d)) = Inr run"
    using assms(1) by (simp add: fill_pending_orders_with_session_open_def Let_def)
  show ?thesis
    by (rule foldM_invariant [OF f, where P = "\<lambda>r. run_inv (quote_index quotes by_secid) (repair_lots resolve ps d) (fr_db r)"])
      (use assms run_inv_refl [of "repair_lots resolve ps d"] run_inv_step [where d = "repair_lots resolve ps d"] in \<open>auto simp: fills_match_def\<close>)
qed

lemma fill_justified_repair [simp]: "fill_justified q (repair_lots resolve ps d) f = fill_justified q d f"
  by (simp add: fill_justified_def)

text \<open>What a run keeps of a book, the repair of lot sizes included.\<close>

definition holdings_kept :: "shadow_fill list \<Rightarrow> shadow_book \<Rightarrow> shadow_book \<Rightarrow> bool" where
  "holdings_kept new b b' \<longleftrightarrow> sb_id b' = sb_id b \<and> (holdings b' = holdings b \<or> (\<exists>f \<in> set new. sf_portfolio f = sb_id b))"

lemma run_holdings_kept:
  assumes "list_all2 (book_kept new) (sd_books (repair_lots resolve ps d)) bs"
  shows "list_all2 (holdings_kept new) (sd_books d) bs"
proof -
  have r: "list_all2 (\<lambda>b b'. sb_id b' = sb_id b \<and> sb_cash b' = sb_cash b \<and> holdings b' = holdings b) (sd_books d) (sd_books (repair_lots resolve ps d))"
    using repair_books_kept by (simp add: repair_lots_def)
  show ?thesis
    by (rule list_all2_trans [OF _ r assms]) (auto simp: holdings_kept_def book_kept_def holdings_def)
qed

section \<open>Properties\<close>

text \<open>A sample: a lot-aware book with cash for one order; the second order was created after the open.\<close>

definition sample_spec :: shadow_spec where
  "sample_spec = \<lparr>sx_id = 1, sx_group = EXPERIMENT_GROUP_V2, sx_fractional_shares = False, sx_payload_version = Some LOT_AWARE_V2,
     sx_payload_fractional = Some False, sx_payload_fee_code = None, sx_payload_fee_version = None,
     sx_commission_bps = 10, sx_slippage_bps = 0, sx_risk_name = ''NONE'', sx_dd_trigger = None,
     sx_dd_recovery = None, sx_dd_risk_off_gross = None, sx_dd_normal_gross = None\<rparr>"

definition sample_order :: "int \<Rightarrow> instant \<Rightarrow> shadow_order" where
  "sample_order i created = \<lparr>so_id = i, so_portfolio = 1, so_decision = 1, so_instrument = 7, so_ticker = ''SBER'',
     so_side = ''BUY'', so_quantity = 10, so_status = PENDING, so_created_at = created, so_decision_at = created,
     so_min_execution_date = Ord 11, so_execution_date = None, so_lot_meta = Some 10, so_limitation = None,
     so_cancel_reason = None, so_updated_at = created\<rparr>"

definition sample_db :: shadow_db where
  "sample_db = \<lparr>sd_orders = [sample_order 1 (combine_utc (Ord 10) 12 0), sample_order 2 (combine_utc (Ord 11) 12 0)],
     sd_fills = [], sd_books = [\<lparr>sb_id = 1, sb_spec = 1, sb_status = ''WAITING_FOR_FUTURE_MARKET_OPEN'', sb_activated_at = 0,
       sb_cash = 5000, sb_peak_nav = 5000, sb_exposure_cap = 1, sb_risk_mode = ''normal'', sb_last_day = None, sb_last_decision = None,
       sb_positions = [], sb_updated_at = 0\<rparr>], sd_specs = [sample_spec], sd_profiles = []\<rparr>"

definition sample_quote :: intraday_quote where
  "sample_quote = \<lparr>iq_instrument = Some 7, iq_board = ''TQBR'', iq_secid = ''SBER'', iq_trading_date = Some (Ord 11),
     iq_observed_at = combine_utc (Ord 11) 13 0, iq_status = M_OPEN, iq_open = Some 100, iq_freshness = Q_DELAYED\<rparr>"

definition sample_run :: "fill_run res" where
  "sample_run = fill_pending_orders_with_session_open (\<lambda>_. None) [sample_quote] None (combine_utc (Ord 11) 14 0) None sample_db"

lemma sample_run_value:
  "map_sum id (\<lambda>r. (map (\<lambda>f. (sf_order f, sf_quantity f, sf_commission f)) (sd_fills (fr_db r)), map so_status (sd_orders (fr_db r)),
      map sb_cash (sd_books (fr_db r)), map pe_reason (fr_reasons r))) sample_run =
   Inr ([(1, 10, 1)], [FILLED, PENDING], [3999], [''FILLED'', ''ORDER_CREATED_AFTER_OPEN''])"
  by code_simp

lemma sample_run_returned:
  obtains run where "sample_run = Inr run" "map sf_order (sd_fills (fr_db run)) = [1]"
    "map so_status (sd_orders (fr_db run)) = [FILLED, PENDING]"
proof (cases sample_run)
  case (Inl e)
  show thesis using sample_run_value unfolding Inl by simp
next
  case (Inr run)
  have "map sf_order (sd_fills (fr_db run)) = [1]" "map so_status (sd_orders (fr_db run)) = [FILLED, PENDING]"
    using sample_run_value unfolding Inr by auto
  with Inr show thesis by (rule that)
qed

lemma sample_db_ok: "fills_match sample_db" "distinct (map sb_id (sd_books sample_db))"
  by (simp_all add: fills_match_def sample_db_def sample_order_def order_status)

text \<open>C27: after a run of the open-session fills every FILLED order has a fill, no other order has one,
  and no order has two, if that was so before it.\<close>

theorem open_fills_match:
  assumes "fill_pending_orders_with_session_open resolve quotes by_secid clock ps d = Inr run"
    and "fills_match d" and "distinct (map sb_id (sd_books d))"
  shows "fills_match (fr_db run)"
  using run_inv_all [OF assms] by (simp add: run_inv_def)

theorem open_fills_match_witness:
  "\<exists>run. sample_run = Inr run \<and> fills_match (fr_db run) \<and> map sf_order (sd_fills (fr_db run)) = [1]"
proof -
  obtain run where r: "sample_run = Inr run" "map sf_order (sd_fills (fr_db run)) = [1]" by (rule sample_run_returned)
  show ?thesis using r open_fills_match [OF r(1) [unfolded sample_run_def] sample_db_ok] by (intro exI [of _ run]) simp
qed

text \<open>C28: the open-session path has no look-ahead. It only appends fills, and each new fill belongs to
  an order that was pending and existed before the open of the session it fills in, on a date the order
  allows, at an instrument that had a quote with a positive open for that date.\<close>

theorem open_fills_no_lookahead:
  assumes "fill_pending_orders_with_session_open resolve quotes by_secid clock ps d = Inr run"
    and "fills_match d" and "distinct (map sb_id (sd_books d))"
  shows "\<exists>new. sd_fills (fr_db run) = sd_fills d @ new \<and>
    (\<forall>f \<in> set new. fill_justified (quote_index quotes by_secid) d f)"
  using run_inv_all [OF assms] by (auto simp: run_inv_def)

theorem open_fills_no_lookahead_witness:
  "\<exists>run f. sample_run = Inr run \<and> sd_fills (fr_db run) = [f] \<and> fill_justified (quote_index [sample_quote] None) sample_db f"
proof -
  obtain run where r: "sample_run = Inr run" "map sf_order (sd_fills (fr_db run)) = [1]" by (rule sample_run_returned)
  then obtain f where f: "sd_fills (fr_db run) = [f]" by (cases "sd_fills (fr_db run)") auto
  have "\<exists>new. sd_fills (fr_db run) = sd_fills sample_db @ new \<and>
    (\<forall>f \<in> set new. fill_justified (quote_index [sample_quote] None) sample_db f)"
    by (rule open_fills_no_lookahead [OF r(1) [unfolded sample_run_def] sample_db_ok])
  then show ?thesis using r f by (auto simp: sample_db_def)
qed

text \<open>C29: an order row only moves from PENDING, to FILLED or CANCELLED or with a note, keeping its
  identity, quantity and dates; a terminal order never changes, and what a portfolio holds changes only
  together with a fill of that portfolio.\<close>

theorem open_orders_move_forward:
  assumes "fill_pending_orders_with_session_open resolve quotes by_secid clock ps d = Inr run"
    and "fills_match d" and "distinct (map sb_id (sd_books d))"
  shows "list_all2 order_step\<^sup>*\<^sup>* (sd_orders d) (sd_orders (fr_db run)) \<and>
    list_all2 (holdings_kept (drop (length (sd_fills d)) (sd_fills (fr_db run)))) (sd_books d) (sd_books (fr_db run))"
  using run_inv_all [OF assms] by (auto simp: run_inv_def orders_step_def intro: run_holdings_kept)

theorem open_orders_move_forward_witness:
  "\<exists>run. sample_run = Inr run \<and> list_all2 order_step\<^sup>*\<^sup>* (sd_orders sample_db) (sd_orders (fr_db run)) \<and>
     map so_status (sd_orders (fr_db run)) = [FILLED, PENDING]"
proof -
  obtain run where r: "sample_run = Inr run" "map so_status (sd_orders (fr_db run)) = [FILLED, PENDING]"
    by (rule sample_run_returned)
  show ?thesis using r open_orders_move_forward [OF r(1) [unfolded sample_run_def] sample_db_ok] by (intro exI [of _ run]) simp
qed

end
