(* ===== verification/Corpact.thy ===== *)
theory Corpact
  imports Pydate Pyeval
begin

text \<open>
  Splits: \<open>market/application/split_events.py\<close> and \<open>market/application/mechanical_adjustment.py\<close>.
  A corporate action carries a factor, explicit or \<open>after / before\<close>; history is put on the share basis of
  a date with the factors of the actions between. Factors are decimals in the default context.
\<close>

section \<open>Factors\<close>

definition SPLIT :: string where "SPLIT = ''SPLIT''"
definition REVERSE_SPLIT :: string where "REVERSE_SPLIT = ''REVERSE_SPLIT''"
definition SPLIT_FEED_EVENT_TYPES :: "string set" where "SPLIT_FEED_EVENT_TYPES = {SPLIT, REVERSE_SPLIT}"

definition validate_split_ratio :: "decimal \<Rightarrow> decimal \<Rightarrow> unit res" where
  "validate_split_ratio before after =
     (if before \<le> 0 \<or> after \<le> 0 then Inl (ValueError ''split before and after must be > 0'') else Inr ())"

definition split_adjustment_factor :: "decimal \<Rightarrow> decimal \<Rightarrow> decimal res" where
  "split_adjustment_factor before after =
     (if before \<le> 0 \<or> after \<le> 0 then Inl (ValueError ''split before and after must be > 0'') else ddivE after before)"

definition classify_split_factor :: "decimal \<Rightarrow> string option" where
  "classify_split_factor factor =
     (if 1 < factor then Some SPLIT else if 0 < factor \<and> factor < 1 then Some REVERSE_SPLIT else None)"

record split_payload =
  cp_factor :: "decimal option"
  cp_before :: "decimal option"
  cp_after :: "decimal option"

definition payload_value :: "string \<Rightarrow> decimal option \<Rightarrow> decimal res" where
  "payload_value key v = (case v of None \<Rightarrow> Inl (KeyError key) | Some x \<Rightarrow> Inr x)"

definition factor_from_payload :: "split_payload option \<Rightarrow> decimal res" where
  "factor_from_payload payload =
     (let data = opt_or payload \<lparr>cp_factor = None, cp_before = None, cp_after = None\<rparr> in
      case cp_factor data of
        Some factor \<Rightarrow> if factor \<le> 0 then Inl (ValueError ''adjustment_factor must be > 0'') else Inr factor
      | None \<Rightarrow>
          bnd (payload_value ''split_before'' (cp_before data)) (\<lambda>before.
          bnd (payload_value ''split_after'' (cp_after data)) (\<lambda>after. split_adjustment_factor before after)))"

section \<open>Actions\<close>

record mech_action =
  ma_instrument :: int
  ma_date :: date
  ma_type :: string
  ma_factor :: decimal

text \<open>A \<open>CorporateAction\<close> row.\<close>

record action_row =
  ar_instrument :: int
  ar_date :: date
  ar_type :: string
  ar_payload :: "split_payload option"

fun actions_of_rows :: "action_row list \<Rightarrow> mech_action list res" where
  "actions_of_rows [] = Inr []"
| "actions_of_rows (r # rs) =
     bnd (factor_from_payload (ar_payload r)) (\<lambda>f.
     bnd (actions_of_rows rs) (\<lambda>as.
     Inr (\<lparr>ma_instrument = ar_instrument r, ma_date = ar_date r, ma_type = ar_type r, ma_factor = f\<rparr> # as)))"

definition load_mechanical_actions :: "action_row list \<Rightarrow> int \<Rightarrow> mech_action list res" where
  "load_mechanical_actions rows i =
     actions_of_rows (sort_key ar_date (filter (\<lambda>r. ar_instrument r = i \<and> ar_type r \<in> SPLIT_FEED_EVENT_TYPES) rows))"

definition actions_as_of :: "mech_action list \<Rightarrow> date \<Rightarrow> mech_action list" where
  "actions_as_of actions as_of = filter (\<lambda>a. ma_date a \<le> as_of) actions"

definition cumulative_factor :: "mech_action list \<Rightarrow> date \<Rightarrow> decimal" where
  "cumulative_factor actions obs = foldl (\<lambda>f a. if obs < ma_date a then dmul f (ma_factor a) else f) 1 actions"

definition adjust_price :: "pyfloat option \<Rightarrow> decimal \<Rightarrow> pyfloat option res" where
  "adjust_price price factor = (case price of
     None \<Rightarrow> Inr None
   | Some p \<Rightarrow> bnd (ddivE (dec_of_float p) factor) (\<lambda>q. Inr (Some (fl q))))"

definition adjust_volume :: "pyfloat option \<Rightarrow> decimal \<Rightarrow> pyfloat option" where
  "adjust_volume volume factor = map_option (\<lambda>v. fl (dmul (dec_of_float v) factor)) volume"

record ohlcv =
  b_open :: "pyfloat option"
  b_high :: "pyfloat option"
  b_low :: "pyfloat option"
  b_close :: "pyfloat option"
  b_volume :: "pyfloat option"

definition adjust_ohlcv :: "ohlcv \<Rightarrow> date \<Rightarrow> mech_action list \<Rightarrow> ohlcv res" where
  "adjust_ohlcv bar obs actions =
     (let factor = cumulative_factor actions obs in
      bnd (adjust_price (b_open bar) factor) (\<lambda>o'.
      bnd (adjust_price (b_high bar) factor) (\<lambda>h.
      bnd (adjust_price (b_low bar) factor) (\<lambda>l.
      bnd (adjust_price (b_close bar) factor) (\<lambda>c.
      Inr \<lparr>b_open = o', b_high = h, b_low = l, b_close = c, b_volume = adjust_volume (b_volume bar) factor\<rparr>)))))"

text \<open>\<open>simulator/application/market_view.py\<close>: a held quantity scales with the factor.\<close>

definition quantity_after_ca :: "pyfloat \<Rightarrow> decimal \<Rightarrow> pyfloat" where
  "quantity_after_ca q factor = fl (dmul (dec_of_float q) factor)"

section \<open>Facts\<close>

lemma cumulative_factor_filter:
  "cumulative_factor actions obs = foldl (\<lambda>f a. dmul f (ma_factor a)) 1 (filter (\<lambda>a. obs < ma_date a) actions)"
proof -
  have "foldl (\<lambda>f a. if obs < ma_date a then dmul f (ma_factor a) else f) x actions =
      foldl (\<lambda>f a. dmul f (ma_factor a)) x (filter (\<lambda>a. obs < ma_date a) actions)" for x
    by (induction actions arbitrary: x) auto
  then show ?thesis by (simp add: cumulative_factor_def)
qed

lemma actions_of_rows_dates: "actions_of_rows rs = Inr as \<Longrightarrow> map ma_date as = map ar_date rs"
  by (induction rs arbitrary: as) (auto simp: exn_simps)

lemma load_sorted: "load_mechanical_actions rows i = Inr as \<Longrightarrow> sorted (map ma_date as)"
  unfolding load_mechanical_actions_def by (drule actions_of_rows_dates) simp

lemma actions_of_rows_nonneg: "actions_of_rows rs = Inr as \<Longrightarrow> a \<in> set as \<Longrightarrow> 0 \<le> ma_factor a"
proof (induction rs arbitrary: as)
  case (Cons r rs)
  have "0 \<le> f" if "factor_from_payload p = Inr f" for p f
    using that by (auto simp: factor_from_payload_def split_adjustment_factor_def ddivE_def ddiv_def Let_def exn_simps
        intro!: dround_nonneg split: option.splits if_splits)
  with Cons show ?case by (fastforce simp: exn_simps)
qed simp

lemma prod_list_ge_1: "(\<And>x. x \<in> set xs \<Longrightarrow> (1::rat) \<le> f x) \<Longrightarrow> 1 \<le> prod_list (map f xs)"
proof (induction xs)
  case (Cons x xs)
  have "1 * 1 \<le> f x * prod_list (map f xs)" using Cons order_trans [OF zero_le_one, of "f x"] by (intro mult_mono) auto
  then show ?case by simp
qed simp

text \<open>Integer factors multiply exactly as long as the product has at most 28 digits.\<close>

lemma foldl_factor_int:
  assumes "\<forall>a \<in> set as. \<exists>n \<ge> 1. ma_factor a = of_int n" and "1 \<le> k" and "of_int k * prod_list (map ma_factor as) < 10 ^ 28"
  shows "foldl (\<lambda>f a. dmul f (ma_factor a)) (of_int k) as = of_int k * prod_list (map ma_factor as)"
  using assms
proof (induction as arbitrary: k)
  case (Cons a as)
  obtain n where n: "1 \<le> n" "ma_factor a = of_int n" using Cons.prems(1) by auto
  have p1: "1 \<le> prod_list (map ma_factor as)"
    using Cons.prems(1) by (intro prod_list_ge_1) fastforce
  have kn: "1 \<le> k * n" using Cons.prems(2) n(1) by (metis mult_mono mult_1 zero_le_one order_trans)
  have le: "of_int (k * n) * (1::rat) \<le> of_int (k * n) * prod_list (map ma_factor as)"
    using p1 kn by (intro mult_left_mono) (auto simp flip: of_int_mult)
  have "of_int (k * n) * prod_list (map ma_factor as) < 10 ^ 28" using Cons.prems(3) n by (simp add: mult.assoc)
  with le have "(of_int (k * n) :: rat) < of_int (10 ^ 28)" by simp
  then have "k * n < 10 ^ 28" by (simp only: of_int_less_iff)
  then have "dmul (of_int k) (ma_factor a) = of_int (k * n)"
    using kn dround_of_int [of "k * n"] n by (simp add: dmul_def)
  moreover have "foldl (\<lambda>f a. dmul f (ma_factor a)) (of_int (k * n)) as = of_int (k * n) * prod_list (map ma_factor as)"
    using Cons.prems n kn by (intro Cons.IH) (auto simp: mult.assoc)
  ultimately show ?case using n by (simp add: mult.assoc)
qed simp


lemma cumulative_factor_int:
  assumes "\<forall>a \<in> set as. \<exists>n \<ge> 1. ma_factor a = of_int n" and "prod_list (map ma_factor (filter (\<lambda>a. obs < ma_date a) as)) < 10 ^ 28"
  shows "cumulative_factor as obs = prod_list (map ma_factor (filter (\<lambda>a. obs < ma_date a) as))"
  using foldl_factor_int [of "filter (\<lambda>a. obs < ma_date a) as" 1] assms by (simp add: cumulative_factor_filter)

lemma prod_list_filter_split:
  "obs \<le> mid \<Longrightarrow> prod_list (map ma_factor (filter (\<lambda>a. obs < ma_date a) as)) =
     prod_list (map ma_factor (filter (\<lambda>a. obs < ma_date a) (filter (\<lambda>a. ma_date a \<le> mid) as))) *
     prod_list (map ma_factor (filter (\<lambda>a. mid < ma_date a) as))"
  by (induction as) (auto simp: not_le not_less)

section \<open>Properties\<close>

text \<open>C30: what history looks like on a date does not depend on later corporate actions. Rows that take
  effect after \<open>as_of\<close>, wherever they stand in the table, change no adjusted bar of that date, and the
  actions used are in date order.\<close>

theorem adjustment_point_in_time:
  assumes "load_mechanical_actions rows i = Inr as" and "load_mechanical_actions rows' i = Inr as'"
    and "filter (\<lambda>r. ar_date r \<le> as_of) rows = filter (\<lambda>r. ar_date r \<le> as_of) rows'"
  shows "adjust_ohlcv bar obs (actions_as_of as as_of) = adjust_ohlcv bar obs (actions_as_of as' as_of) \<and> sorted (map ma_date as)"
proof -
  have c: "actions_of_rows (filter (\<lambda>r. ar_date r \<le> as_of) rs) = Inr (actions_as_of xs as_of)" if "actions_of_rows rs = Inr xs" for rs xs
    using that by (induction rs arbitrary: xs) (auto simp: exn_simps actions_as_of_def)
  have f: "filter (\<lambda>r. ar_date r \<le> as_of) (sort_key ar_date (filter P rs)) = sort_key ar_date (filter P (filter (\<lambda>r. ar_date r \<le> as_of) rs))"
    for P and rs :: "action_row list"
    by (simp add: filter_sort conj_commute)
  have "Inr (actions_as_of as as_of) = (Inr (actions_as_of as' as_of) :: mech_action list res)"
    using c [OF assms(1) [unfolded load_mechanical_actions_def]] c [OF assms(2) [unfolded load_mechanical_actions_def]]
    by (simp add: f assms(3))
  then show ?thesis using load_sorted [OF assms(1)] by simp
qed

definition split_row :: "int \<Rightarrow> decimal \<Rightarrow> action_row" where
  "split_row d f = \<lparr>ar_instrument = 7, ar_date = Ord d, ar_type = SPLIT,
     ar_payload = Some \<lparr>cp_factor = Some f, cp_before = None, cp_after = None\<rparr>\<rparr>"

lemma split_row_load:
  "load_mechanical_actions [split_row 20 10, split_row 10 2] 7 = Inr
     [\<lparr>ma_instrument = 7, ma_date = Ord 10, ma_type = SPLIT, ma_factor = 2\<rparr>,
      \<lparr>ma_instrument = 7, ma_date = Ord 20, ma_type = SPLIT, ma_factor = 10\<rparr>]"
  "load_mechanical_actions [split_row 10 2] 7 = Inr [\<lparr>ma_instrument = 7, ma_date = Ord 10, ma_type = SPLIT, ma_factor = 2\<rparr>]"
  by code_simp+

definition sample_bar :: ohlcv where
  "sample_bar = \<lparr>b_open = Some 100, b_high = Some 110, b_low = None, b_close = Some 105, b_volume = Some 1000\<rparr>"

theorem adjustment_point_in_time_witness:
  "adjust_ohlcv sample_bar (Ord 5) (actions_as_of [\<lparr>ma_instrument = 7, ma_date = Ord 10, ma_type = SPLIT, ma_factor = 2\<rparr>,
      \<lparr>ma_instrument = 7, ma_date = Ord 20, ma_type = SPLIT, ma_factor = 10\<rparr>] (Ord 15)) =
   adjust_ohlcv sample_bar (Ord 5) (actions_as_of [\<lparr>ma_instrument = 7, ma_date = Ord 10, ma_type = SPLIT, ma_factor = 2\<rparr>] (Ord 15))"
  using adjustment_point_in_time [OF split_row_load, of "Ord 15" sample_bar "Ord 5"]
  by (simp add: split_row_def less_eq_date_def)

text \<open>With integer factors the share basis is exact: the factor of a past observation is the product
  of the factors of the later actions, as long as that product has at most 28 digits, so a quantity
  carried over two dates is the quantity carried over the one and then over the other.\<close>

theorem cumulative_factor_exact:
  assumes "\<forall>a \<in> set as. \<exists>n \<ge> 1. ma_factor a = of_int n" and "prod_list (map ma_factor (filter (\<lambda>a. obs < ma_date a) as)) < 10 ^ 28"
    and "obs \<le> mid"
  shows "cumulative_factor as obs = prod_list (map ma_factor (filter (\<lambda>a. obs < ma_date a) as)) \<and>
    cumulative_factor as obs = cumulative_factor (filter (\<lambda>a. ma_date a \<le> mid) as) obs * cumulative_factor as mid"
proof -
  define p where "p xs = prod_list (map ma_factor xs)" for xs :: "mech_action list"
  define early where "early = filter (\<lambda>a. ma_date a \<le> mid) as"
  have ge: "1 \<le> p (filter P xs)" if "set xs \<subseteq> set as" for P xs
    unfolding p_def using that assms(1) by (intro prod_list_ge_1) fastforce
  have split: "p (filter (\<lambda>a. obs < ma_date a) as) = p (filter (\<lambda>a. obs < ma_date a) early) * p (filter (\<lambda>a. mid < ma_date a) as)"
    unfolding p_def early_def by (rule prod_list_filter_split [OF assms(3)])
  have e: "set early \<subseteq> set as" by (auto simp: early_def)
  have "p (filter (\<lambda>a. obs < ma_date a) early) * 1 \<le> p (filter (\<lambda>a. obs < ma_date a) as)"
    "1 * p (filter (\<lambda>a. mid < ma_date a) as) \<le> p (filter (\<lambda>a. obs < ma_date a) as)"
    unfolding split using ge [OF e] ge [of as] order_trans [OF zero_le_one] by (intro mult_mono; force)+
  then have "p (filter (\<lambda>a. obs < ma_date a) early) < 10 ^ 28" "p (filter (\<lambda>a. mid < ma_date a) as) < 10 ^ 28"
    using assms(2) by (auto simp: p_def)
  then show ?thesis
    using cumulative_factor_int [OF assms(1,2)] cumulative_factor_int [of early obs] cumulative_factor_int [OF assms(1), of mid]
      assms(1) e split unfolding p_def early_def by auto
qed

theorem cumulative_factor_exact_witness:
  "cumulative_factor [\<lparr>ma_instrument = 7, ma_date = Ord 10, ma_type = SPLIT, ma_factor = of_int 2\<rparr>,
      \<lparr>ma_instrument = 7, ma_date = Ord 20, ma_type = SPLIT, ma_factor = of_int 10\<rparr>] (Ord 5) = 20"
  using cumulative_factor_exact [of "[\<lparr>ma_instrument = 7, ma_date = Ord 10, ma_type = SPLIT, ma_factor = of_int 2\<rparr>,
      \<lparr>ma_instrument = 7, ma_date = Ord 20, ma_type = SPLIT, ma_factor = of_int 10\<rparr>]" "Ord 5" "Ord 15"]
  by (simp add: less_date_def less_eq_date_def)

end
