(* ===== verification/Policy.thy ===== *)
theory Policy
  imports Lotfill
begin

text \<open>
  From predictions to target weights: the ranking policies of \<open>simulator/application/policy.py\<close> and
  \<open>policy_hysteresis.py\<close>, the structural limits of \<open>risk.py\<close> and the drawdown guard of
  \<open>drawdown_guard.py\<close>. The metadata of a decision is the record of the keys that later code reads;
  rationale texts are not modelled. \<open>sum\<close> of floats is \<open>fsum\<close>.
\<close>

section \<open>Signals\<close>

record signal =
  sg_instrument :: int
  sg_ticker :: string
  sg_as_of :: date
  sg_return :: pyfloat
  sg_fold :: "string option"
  sg_sample :: "int option"
  sg_semantic :: string
  sg_prediction_score :: "pyfloat option"

definition score :: "signal \<Rightarrow> pyfloat" where
  "score s = opt_or (sg_prediction_score s) (sg_return s)"

text \<open>Score descending, then instrument.\<close>

definition rank_signals :: "signal list \<Rightarrow> signal list" where
  "rank_signals = sort_key (\<lambda>s. (- score s, sg_instrument s))"

record decision_meta =
  dm_instrument :: int
  dm_prediction_date :: date
  dm_rank :: int
  dm_eligible :: int
  dm_fold :: "string option"
  dm_action :: "string option"
  dm_score :: pyfloat
  dm_predicted :: "pyfloat option"
  dm_clamped_from :: "pyfloat option"
  dm_gross_scaled_from :: "pyfloat option"
  dm_exposure_cap :: "pyfloat option"   \<comment> \<open>present when \<open>dd_guard_scaled\<close> is set\<close>

record decision =
  pd_ticker :: string
  pd_weight :: pyfloat
  pd_meta :: decision_meta

record policy_output =
  po_decisions :: "decision list"
  po_reason :: "string option"
  po_eligible :: int
  po_selected :: int

definition signal_meta :: "int \<Rightarrow> signal \<Rightarrow> int \<Rightarrow> string option \<Rightarrow> decision_meta" where
  "signal_meta n s rank action = \<lparr>dm_instrument = sg_instrument s, dm_prediction_date = sg_as_of s, dm_rank = rank,
     dm_eligible = n, dm_fold = sg_fold s, dm_action = action, dm_score = score s,
     dm_predicted = (if sg_semantic s = ''EXPECTED_RETURN'' then Some (sg_return s) else None),
     dm_clamped_from = None, dm_gross_scaled_from = None, dm_exposure_cap = None\<rparr>"

section \<open>RANK_LONG_ONLY_V0\<close>

definition select_top_k :: "int \<Rightarrow> pyfloat \<Rightarrow> int" where
  "select_top_k n q = (if n \<le> 0 then 0 else max 1 \<lceil>fmul (of_int n) q\<rceil>)"

definition long_only_decide :: "pyfloat \<Rightarrow> signal list \<Rightarrow> policy_output" where
  "long_only_decide top_quantile signals =
     (if signals = [] then \<lparr>po_decisions = [], po_reason = Some ''no_eligible_predictions'', po_eligible = 0, po_selected = 0\<rparr> else
      let ranked = rank_signals signals;
          n = int (length ranked);
          k = select_top_k n top_quantile;
          weight = fdiv 1 (of_int k)
      in \<lparr>po_decisions = map (\<lambda>(r, s). \<lparr>pd_ticker = sg_ticker s, pd_weight = weight, pd_meta = signal_meta n s (int r) None\<rparr>)
            (enumerate 1 (take (nat k) ranked)),
          po_reason = None, po_eligible = n, po_selected = k\<rparr>)"

section \<open>RANK_HYSTERESIS_LONG_ONLY_V1\<close>

text \<open>The dictionaries built from the ranked list: a later entry with the same instrument wins.\<close>

definition rank_by_id :: "signal list \<Rightarrow> int \<rightharpoonup> int" where
  "rank_by_id ranked = map_of (rev (map (\<lambda>(r, s). (sg_instrument s, int r)) (enumerate 1 ranked)))"

definition signal_by_id :: "signal list \<Rightarrow> int \<rightharpoonup> signal" where
  "signal_by_id ranked = map_of (rev (map (\<lambda>s. (sg_instrument s, s)) ranked))"

definition rank_of :: "signal list \<Rightarrow> int \<Rightarrow> int" where
  "rank_of ranked i = opt_or (rank_by_id ranked i) 0"

definition retained_signals :: "signal list \<Rightarrow> int \<Rightarrow> int list \<Rightarrow> signal list" where
  "retained_signals ranked k_max held =
     List.map_filter (\<lambda>i. case signal_by_id ranked i of
         None \<Rightarrow> None | Some s \<Rightarrow> if rank_of ranked i \<le> k_max then Some s else None) (sort (remdups held))"

fun entry_fill :: "(int \<Rightarrow> int) \<Rightarrow> int \<Rightarrow> int \<Rightarrow> int list \<Rightarrow> signal list \<Rightarrow> signal list" where
  "entry_fill rank k_entry need ids [] = []"
| "entry_fill rank k_entry need ids (s # ss) =
     (if need \<le> 0 then []
      else if sg_instrument s \<in> set ids then entry_fill rank k_entry need ids ss
      else if k_entry < rank (sg_instrument s) then []
      else s # entry_fill rank k_entry (need - 1) (sg_instrument s # ids) ss)"

definition HOLD_ACTION :: string where "HOLD_ACTION = ''HOLD_WITHIN_EXIT_BAND''"
definition ENTER_ACTION :: string where "ENTER_ACTION = ''ENTER_TOP20''"

definition hysteresis_select :: "pyfloat \<Rightarrow> pyfloat \<Rightarrow> int list \<Rightarrow> signal list \<Rightarrow> (signal \<times> string) list" where
  "hysteresis_select entry_q exit_q held ranked =
     (let n = int (length ranked);
          k_entry = select_top_k n entry_q;
          k_max = select_top_k n exit_q;
          retained = retained_signals ranked k_max held;
          need = max 0 (k_entry - int (length retained));
          entered = entry_fill (rank_of ranked) k_entry need (map sg_instrument retained) ranked
      in take (nat k_max) (map (\<lambda>s. (s, HOLD_ACTION)) retained @ map (\<lambda>s. (s, ENTER_ACTION)) entered))"

definition hysteresis_decide :: "pyfloat \<Rightarrow> pyfloat \<Rightarrow> int list \<Rightarrow> signal list \<Rightarrow> policy_output" where
  "hysteresis_decide entry_q exit_q held signals =
     (if signals = [] then \<lparr>po_decisions = [], po_reason = Some ''no_eligible_predictions'', po_eligible = 0, po_selected = 0\<rparr> else
      let ranked = rank_signals signals;
          n = int (length ranked);
          selected = hysteresis_select entry_q exit_q held ranked;
          k = int (length selected)
      in if k = 0 then \<lparr>po_decisions = [], po_reason = Some ''empty_selection'', po_eligible = n, po_selected = 0\<rparr>
         else \<lparr>po_decisions = map (\<lambda>(s, action). \<lparr>pd_ticker = sg_ticker s, pd_weight = fdiv 1 (of_int k),
                  pd_meta = signal_meta n s (rank_of ranked (sg_instrument s)) (Some action)\<rparr>) selected,
               po_reason = None, po_eligible = n, po_selected = k\<rparr>)"

section \<open>RISK_GUARDRAILS_V0\<close>

record risk_decision =
  rd_ticker :: string
  rd_weight :: pyfloat
  rd_meta :: decision_meta
  rd_blocked :: bool
  rd_reason :: "string option"

record risk_output =
  ro_decisions :: "risk_decision list"
  ro_gross_exposure :: pyfloat
  ro_cash_weight :: pyfloat

text \<open>One name against the single-name limit.\<close>

definition clamp_weight :: "pyfloat \<Rightarrow> risk_decision \<Rightarrow> risk_decision" where
  "clamp_weight max_single d =
     (if fadd max_single eps12 < rd_weight d
      then d\<lparr>rd_weight := max_single, rd_meta := (rd_meta d)\<lparr>dm_clamped_from := Some (rd_weight d)\<rparr>\<rparr> else d)"

definition guard_decision :: "pyfloat \<Rightarrow> bool \<Rightarrow> decision \<Rightarrow> risk_decision" where
  "guard_decision max_single long_only d =
     (let blocked = long_only \<and> pd_weight d < 0 in
      clamp_weight max_single
        \<lparr>rd_ticker = pd_ticker d, rd_weight = (if blocked then 0 else pd_weight d), rd_meta = pd_meta d, rd_blocked = blocked,
         rd_reason = (if blocked then Some ''short_not_allowed'' else None)\<rparr>)"

definition active_gross :: "risk_decision list \<Rightarrow> pyfloat" where
  "active_gross ds = fsum (map rd_weight (filter (\<lambda>x. \<not> rd_blocked x \<and> 0 < rd_weight x) ds))"

text \<open>All active names scaled to the gross limit.\<close>

definition scale_decision :: "pyfloat \<Rightarrow> risk_decision \<Rightarrow> risk_decision" where
  "scale_decision factor x = (if rd_blocked x \<or> rd_weight x \<le> 0 then x
     else x\<lparr>rd_weight := fmul (rd_weight x) factor, rd_meta := (rd_meta x)\<lparr>dm_gross_scaled_from := Some (rd_weight x)\<rparr>,
            rd_reason := None\<rparr>)"

definition scale_to_gross :: "pyfloat \<Rightarrow> risk_decision list \<Rightarrow> risk_decision list" where
  "scale_to_gross max_gross ds =
     (let gross = active_gross ds in
      if fadd max_gross eps12 < gross \<and> 0 < gross then map (scale_decision (fdiv max_gross gross)) ds else ds)"

definition guardrails_apply :: "pyfloat \<Rightarrow> pyfloat \<Rightarrow> bool \<Rightarrow> decision list \<Rightarrow> risk_output" where
  "guardrails_apply max_single max_gross long_only ds =
     (let out = scale_to_gross max_gross (map (guard_decision max_single long_only) ds); gross = active_gross out
      in \<lparr>ro_decisions = out, ro_gross_exposure = gross, ro_cash_weight = max 0 (fsub 1 gross)\<rparr>)"

section \<open>DRAWDOWN_GUARD_V1\<close>

record guard_event =
  ge_date :: date
  ge_nav :: pyfloat
  ge_peak :: pyfloat
  ge_drawdown :: pyfloat
  ge_previous_mode :: string
  ge_new_mode :: string
  ge_previous_cap :: pyfloat
  ge_new_cap :: pyfloat
  ge_reason :: string

record guard_state =
  gs_mode :: string
  gs_cap :: pyfloat
  gs_events :: "guard_event list"

definition NORMAL :: string where "NORMAL = ''normal''"
definition RISK_OFF :: string where "RISK_OFF = ''risk_off''"
definition RISK_DD_GUARD_V1 :: string where "RISK_DD_GUARD_V1 = ''DRAWDOWN_GUARD_V1''"

text \<open>The float literal \<open>1e-15\<close>.\<close>

definition eps15 :: pyfloat where "eps15 = fl (1 / 10 ^ 15)"

record guard_params =
  gd_trigger :: pyfloat
  gd_recovery :: pyfloat
  gd_risk_off_gross :: pyfloat
  gd_normal_gross :: pyfloat

text \<open>The next mode, the next cap and the reason for a change.\<close>

definition guard_move :: "guard_params \<Rightarrow> string \<Rightarrow> pyfloat \<Rightarrow> pyfloat \<Rightarrow> string \<times> pyfloat \<times> string option" where
  "guard_move g mode cap drawdown =
     (if mode = NORMAL \<and> drawdown \<le> fadd (gd_trigger g) eps15 then (RISK_OFF, gd_risk_off_gross g, Some ''DD_GUARD_REDUCE'')
      else if mode = RISK_OFF \<and> fsub (gd_recovery g) eps15 \<le> drawdown then (NORMAL, gd_normal_gross g, Some ''DD_GUARD_RECOVER'')
      else (mode, cap, None))"

definition update_drawdown_guard :: "guard_params \<Rightarrow> guard_state \<Rightarrow> date \<Rightarrow> pyfloat \<Rightarrow> pyfloat \<Rightarrow> pyfloat \<Rightarrow> guard_state" where
  "update_drawdown_guard g s as_of nav peak drawdown =
     (case guard_move g (gs_mode s) (gs_cap s) drawdown of (mode, cap, reason) \<Rightarrow>
      \<lparr>gs_mode = mode, gs_cap = cap, gs_events = gs_events s @ (case reason of
          None \<Rightarrow> []
        | Some r \<Rightarrow> [\<lparr>ge_date = as_of, ge_nav = nav, ge_peak = peak, ge_drawdown = drawdown, ge_previous_mode = gs_mode s,
             ge_new_mode = mode, ge_previous_cap = gs_cap s, ge_new_cap = cap, ge_reason = r\<rparr>])\<rparr>)"

definition cap_decision :: "pyfloat \<Rightarrow> pyfloat \<Rightarrow> risk_decision \<Rightarrow> risk_decision" where
  "cap_decision exposure_cap max_single d =
     (let d1 = clamp_weight max_single (d\<lparr>rd_weight := fmul (rd_weight d) exposure_cap\<rparr>) in
      if exposure_cap < fsub 1 eps12 then d1\<lparr>rd_meta := (rd_meta d1)\<lparr>dm_exposure_cap := Some exposure_cap\<rparr>\<rparr> else d1)"

definition apply_exposure_cap :: "risk_decision list \<Rightarrow> pyfloat \<Rightarrow> pyfloat \<Rightarrow> risk_output" where
  "apply_exposure_cap ds exposure_cap max_single =
     (let out = scale_to_gross exposure_cap (map (cap_decision exposure_cap max_single) ds); gross = active_gross out
      in \<lparr>ro_decisions = out, ro_gross_exposure = gross, ro_cash_weight = max 0 (fsub 1 gross)\<rparr>)"

section \<open>Ranks\<close>

lemma eps15_code [code]: "eps15 = 5070602400912918 / 2 ^ 102"
  by code_simp

lemma rank_of_nth:
  assumes "distinct (map sg_instrument r)" and "j < length r"
  shows "rank_of r (sg_instrument (r ! j)) = int j + 1"
proof -
  define xs where "xs = map (\<lambda>(k, s). (sg_instrument s, int k)) (enumerate 1 r)"
  have f: "map fst xs = map sg_instrument r"
  proof -
    have "map fst (map (\<lambda>(k, s). (sg_instrument s, int k)) ys) = map sg_instrument (map snd ys)" for ys :: "(nat \<times> signal) list"
      by (induction ys) auto
    then show ?thesis by (simp only: xs_def map_snd_enumerate)
  qed
  have "(sg_instrument (r ! j), int (j + 1)) \<in> set xs"
    unfolding xs_def set_map using assms(2) by (intro image_eqI [where x = "(j + 1, r ! j)"]) (simp_all add: in_set_enumerate_eq)
  then have "map_of (rev xs) (sg_instrument (r ! j)) = Some (int (j + 1))"
    using assms(1) f by (intro map_of_is_SomeI) (simp_all del: distinct_map flip: rev_map)
  then show ?thesis by (simp add: rank_of_def rank_by_id_def xs_def)
qed

lemma signal_by_id_iff:
  assumes "distinct (map sg_instrument r)"
  shows "signal_by_id r i = Some s \<longleftrightarrow> s \<in> set r \<and> sg_instrument s = i"
proof -
  have "distinct (map fst (rev (map (\<lambda>s. (sg_instrument s, s)) r)))"
    using assms by (simp del: distinct_map add: comp_def flip: rev_map)
  then show ?thesis unfolding signal_by_id_def by (subst map_of_eq_Some_iff) auto
qed

lemma filter_take: "(\<And>j. j < length xs \<Longrightarrow> P (xs ! j) \<longleftrightarrow> j < m) \<Longrightarrow> filter P xs = take m xs"
proof -
  assume a: "\<And>j. j < length xs \<Longrightarrow> P (xs ! j) \<longleftrightarrow> j < m"
  have "filter P (take m xs) = take m xs" using a by (intro filter_True) (auto simp: in_set_conv_nth)
  moreover have "filter P (drop m xs) = []" using a by (intro filter_False) (auto simp: in_set_conv_nth)
  ultimately show ?thesis by (metis append_take_drop_id filter_append append_Nil2)
qed

text \<open>The ranks of a ranked list without repeated instruments increase.\<close>

lemma ranks_sorted: "distinct (map sg_instrument r) \<Longrightarrow>
    sorted_wrt (\<lambda>s t. rank_of r (sg_instrument s) < rank_of r (sg_instrument t)) r"
  by (simp add: sorted_wrt_iff_nth_less rank_of_nth)

lemma ranked_upto: "distinct (map sg_instrument r) \<Longrightarrow> filter (\<lambda>s. rank_of r (sg_instrument s) \<le> k) r = take (nat k) r"
  by (rule filter_take) (simp add: rank_of_nth zless_nat_eq_int_zless int_less_real_le less_le_not_le, linarith?)

section \<open>What the hysteresis selects\<close>

lemma retained_ids:
  assumes "distinct (map sg_instrument r)"
  shows "map sg_instrument (retained_signals r k_max held) =
    filter (\<lambda>i. i \<in> sg_instrument ` set r \<and> rank_of r i \<le> k_max) (sort (remdups held))"
proof -
  have "map sg_instrument (List.map_filter (\<lambda>i. case signal_by_id r i of None \<Rightarrow> None
        | Some s \<Rightarrow> if rank_of r i \<le> k_max then Some s else None) is) =
      filter (\<lambda>i. i \<in> sg_instrument ` set r \<and> rank_of r i \<le> k_max) is" for "is"
  proof (induction "is")
    case (Cons i "is")
    show ?case
    proof (cases "signal_by_id r i")
      case None
      then have "i \<notin> sg_instrument ` set r" using signal_by_id_iff [OF assms] by force
      with None Cons show ?thesis by (simp add: List.map_filter_simps)
    next
      case (Some s)
      then have "s \<in> set r" "sg_instrument s = i" using signal_by_id_iff [OF assms] by auto
      with Some Cons show ?thesis by (auto simp: List.map_filter_simps)
    qed
  qed (simp add: List.map_filter_simps)
  then show ?thesis by (simp add: retained_signals_def)
qed

lemma enter_loop_spec:
  assumes "s \<in> set (entry_fill rank k need ids ss)"
  shows "s \<in> set ss \<and> sg_instrument s \<notin> set ids \<and> rank (sg_instrument s) \<le> k"
  using assms by (induction rank k need ids ss rule: entry_fill.induct) (auto split: if_splits)

lemma enter_loop_distinct: "distinct (map sg_instrument ss) \<Longrightarrow> distinct (map sg_instrument (entry_fill rank k need ids ss))"
  by (induction rank k need ids ss rule: entry_fill.induct) (auto dest: enter_loop_spec)

lemma enter_loop_length:
  assumes "0 \<le> need" and "sorted_wrt (\<lambda>s t. rank (sg_instrument s) < rank (sg_instrument t)) ss"
    and "distinct (map sg_instrument ss)"
    and "need \<le> int (length (filter (\<lambda>s. sg_instrument s \<notin> set ids \<and> rank (sg_instrument s) \<le> k) ss))"
  shows "int (length (entry_fill rank k need ids ss)) = need"
  using assms
proof (induction rank k need ids ss rule: entry_fill.induct)
  case (2 rank k need ids s ss)
  consider (z) "need = 0" | (old) "need > 0" "sg_instrument s \<in> set ids"
    | (stop) "need > 0" "sg_instrument s \<notin> set ids" "k < rank (sg_instrument s)"
    | (take) "need > 0" "sg_instrument s \<notin> set ids" "rank (sg_instrument s) \<le> k" using 2(3) by linarith
  then show ?case
  proof cases
    case old
    then show ?thesis using 2 by simp
  next
    case stop
    then have "filter (\<lambda>s. sg_instrument s \<notin> set ids \<and> rank (sg_instrument s) \<le> k) (s # ss) = []"
      using 2(4) by (auto simp: filter_empty_conv)
    with 2(6) stop show ?thesis by simp
  next
    case take
    have "filter (\<lambda>t. sg_instrument t \<notin> set (sg_instrument s # ids) \<and> rank (sg_instrument t) \<le> k) ss =
        filter (\<lambda>t. sg_instrument t \<notin> set ids \<and> rank (sg_instrument t) \<le> k) ss"
    proof (intro filter_cong refl)
      fix t assume "t \<in> set ss"
      then have "sg_instrument t \<noteq> sg_instrument s" using 2(5) by (metis distinct.simps(2) image_eqI list.set_map list.simps(9))
      then show "(sg_instrument t \<notin> set (sg_instrument s # ids) \<and> rank (sg_instrument t) \<le> k) \<longleftrightarrow>
          (sg_instrument t \<notin> set ids \<and> rank (sg_instrument t) \<le> k)" by simp
    qed
    then have "int (length (entry_fill rank k (need - 1) (sg_instrument s # ids) ss)) = need - 1"
      using 2 take by (intro "2.IH"(2)) auto
    with take show ?thesis by simp
  qed simp
qed simp


text \<open>A name that fills the book ranks before every candidate that is left out.\<close>

lemma entry_fill_best:
  assumes "sorted_wrt (\<lambda>s t. rank (sg_instrument s) < rank (sg_instrument t)) ss" "distinct (map sg_instrument ss)"
    and "s \<in> set (entry_fill rank k need ids ss)" "t \<in> set ss" "sg_instrument t \<notin> set ids" "t \<notin> set (entry_fill rank k need ids ss)"
  shows "rank (sg_instrument s) < rank (sg_instrument t)"
  using assms
proof (induction rank k need ids ss rule: entry_fill.induct)
  case (2 rank k need ids x ss)
  show ?case
  proof (cases "need \<le> 0 \<or> sg_instrument x \<notin> set ids \<and> k < rank (sg_instrument x)")
    case True
    then show ?thesis using 2(5) by (auto split: if_splits)
  next
    case False
    then have go: "\<not> need \<le> 0" "sg_instrument x \<in> set ids \<or> \<not> k < rank (sg_instrument x)" by auto
    have t: "t \<in> set ss" if "t \<noteq> x" using 2(6) that by simp
    show ?thesis
    proof (cases "sg_instrument x \<in> set ids")
      case True
      then show ?thesis using 2 go by (intro "2.IH"(1)) auto
    next
      case new: False
      then have e: "entry_fill rank k need ids (x # ss) = x # entry_fill rank k (need - 1) (sg_instrument x # ids) ss"
        using go by simp
      have tx: "t \<in> set ss" using 2(6,8) e by auto
      then have "sg_instrument t \<noteq> sg_instrument x" using 2(4) by (metis distinct.simps(2) image_eqI list.set_map list.simps(9))
      then show ?thesis using 2 go new e tx by (cases "s = x") (auto intro: "2.IH"(2))
    qed
  qed
qed simp

lemma rank_signals_key:
  assumes "distinct (map sg_instrument ss)" "s \<in> set ss" "t \<in> set ss"
    and "rank_of (rank_signals ss) (sg_instrument s) < rank_of (rank_signals ss) (sg_instrument t)"
  shows "score t < score s \<or> score t = score s \<and> sg_instrument s < sg_instrument t"
proof -
  let ?r = "rank_signals ss" and ?key = "\<lambda>s. (- score s, sg_instrument s)"
  have d: "distinct (map sg_instrument ?r)" using assms(1) by (simp add: rank_signals_def distinct_map)
  have "s \<in> set ?r" "t \<in> set ?r" using assms(2,3) by (simp_all add: rank_signals_def)
  then obtain i j where ij: "i < length ?r" "s = ?r ! i" "j < length ?r" "t = ?r ! j" by (auto simp: in_set_conv_nth)
  then have less: "i < j" using assms(4) by (simp add: rank_of_nth [OF d])
  have "sorted (map ?key ?r)" by (simp add: rank_signals_def)
  then have "map ?key ?r ! i \<le> map ?key ?r ! j" using less ij by (intro sorted_nth_mono) auto
  then have "?key s \<le> ?key t" using ij by simp
  moreover have "sg_instrument s \<noteq> sg_instrument t"
    using nth_eq_iff_index_eq [OF d, of i j] ij less by simp
  ultimately show ?thesis by (auto simp: less_eq_prod_def)
qed

lemma rank_signals_set [simp]: "set (rank_signals ss) = set ss" "length (rank_signals ss) = length ss"
  by (simp_all add: rank_signals_def)

lemma rank_signals_distinct [simp]: "distinct (map sg_instrument (rank_signals ss)) \<longleftrightarrow> distinct (map sg_instrument ss)"
  by (simp add: rank_signals_def distinct_map)

lemma select_top_k_bounds:
  assumes "0 < n" "n < 2 ^ 53" "q \<le> 1"
  shows "1 \<le> select_top_k n q \<and> select_top_k n q \<le> n"
proof -
  have "of_int n * q \<le> of_int n" using assms(1,3) by (simp add: mult_left_le)
  then have "fmul (of_int n) q \<le> of_int n"
    using fl_mono [of "of_int n * q" "of_int n"] fl_of_int [of n] assms(1,2) by (simp add: fmul_def)
  then have "\<lceil>fmul (of_int n) q\<rceil> \<le> n" by (simp add: ceiling_le_iff)
  then show ?thesis using assms(1) by (simp add: select_top_k_def)
qed

lemma select_top_k_mono: "q \<le> q' \<Longrightarrow> select_top_k n q \<le> select_top_k n q'"
proof -
  assume q: "q \<le> q'"
  have "\<lceil>fmul (of_int n) q\<rceil> \<le> \<lceil>fmul (of_int n) q'\<rceil>" if "0 < n"
    using that q by (auto simp: fmul_def intro!: ceiling_mono fl_mono mult_left_mono)
  then show ?thesis by (auto simp: select_top_k_def)
qed

text \<open>The names that stay.\<close>

definition kept_ids :: "signal list \<Rightarrow> int \<Rightarrow> int list \<Rightarrow> int set" where
  "kept_ids ranked k_max held = {i \<in> set held. i \<in> sg_instrument ` set ranked \<and> rank_of ranked i \<le> k_max}"

lemma card_le_rank:
  assumes "distinct (map sg_instrument r)" "S \<subseteq> {i \<in> sg_instrument ` set r. rank_of r i \<le> k}" "0 \<le> k"
  shows "int (card S) \<le> k"
proof -
  have "{i \<in> sg_instrument ` set r. rank_of r i \<le> k} = sg_instrument ` set (take (nat k) r)"
    unfolding ranked_upto [OF assms(1), of k, symmetric] by auto
  then have "card S \<le> card (sg_instrument ` set (take (nat k) r))" using assms(2) by (intro card_mono) auto
  also have "\<dots> \<le> card (set (take (nat k) r))" by (rule card_image_le) simp
  also have "\<dots> \<le> nat k" using card_length [of "take (nat k) r"] by simp
  finally show ?thesis using assms(3) by linarith
qed

lemma length_filter_split: "length (filter P xs) \<le> length (filter (\<lambda>x. \<not> Q x \<and> P x) xs) + length (filter Q xs)"
  by (induction xs) auto

lemma hysteresis_select_spec:
  assumes d: "distinct (map sg_instrument r)" and k: "select_top_k (int (length r)) entry_q \<le> select_top_k (int (length r)) exit_q"
    and n: "1 \<le> select_top_k (int (length r)) entry_q" "select_top_k (int (length r)) entry_q \<le> int (length r)"
  shows "let sel = hysteresis_select entry_q exit_q held r; ids = map (sg_instrument \<circ> fst) sel;
      k_entry = select_top_k (int (length r)) entry_q; k_max = select_top_k (int (length r)) exit_q; kept = kept_ids r k_max held
    in distinct ids \<and> kept \<subseteq> set ids \<and> (\<forall>i \<in> set ids - kept. i \<in> sg_instrument ` set r \<and> rank_of r i \<le> k_entry) \<and>
      (\<forall>i \<in> set ids - kept. \<forall>t \<in> set r. sg_instrument t \<notin> set ids \<longrightarrow> rank_of r i < rank_of r (sg_instrument t)) \<and>
      (\<forall>x \<in> set sel. snd x = (if sg_instrument (fst x) \<in> kept then HOLD_ACTION else ENTER_ACTION)) \<and>
      int (length sel) = max k_entry (int (card kept)) \<and> int (length sel) \<le> k_max"
proof -
  define k_entry where "k_entry = select_top_k (int (length r)) entry_q"
  define k_max where "k_max = select_top_k (int (length r)) exit_q"
  define R where "R = retained_signals r k_max held"
  define need where "need = max 0 (k_entry - int (length R))"
  define E where "E = entry_fill (rank_of r) k_entry need (map sg_instrument R) r"
  have ids: "map sg_instrument R = filter (\<lambda>i. i \<in> sg_instrument ` set r \<and> rank_of r i \<le> k_max) (sort (remdups held))"
    unfolding R_def by (rule retained_ids [OF d])
  have dR: "distinct (map sg_instrument R)" unfolding ids by (intro distinct_filter) simp
  have sR: "sg_instrument ` set R = kept_ids r k_max held"
    using arg_cong [OF ids, of set] by (auto simp: kept_ids_def)
  have lR: "length R = card (kept_ids r k_max held)"
    using distinct_card [OF dR] sR by simp
  have le: "int (length R) \<le> k_max"
    unfolding lR using k n by (intro card_le_rank [OF d]) (auto simp: kept_ids_def k_max_def)
  have dE: "distinct (map sg_instrument E)" unfolding E_def by (rule enter_loop_distinct [OF d])
  have E: "s \<in> set r \<and> sg_instrument s \<notin> sg_instrument ` set R \<and> rank_of r (sg_instrument s) \<le> k_entry" if "s \<in> set E" for s
    using enter_loop_spec [OF that [unfolded E_def]] by simp
  have "length (filter (\<lambda>s. sg_instrument s \<in> sg_instrument ` set R) r) \<le> length R"
  proof -
    have "distinct (map sg_instrument (filter (\<lambda>s. sg_instrument s \<in> sg_instrument ` set R) r))" using d by (rule distinct_map_filter)
    then have "length (filter (\<lambda>s. sg_instrument s \<in> sg_instrument ` set R) r) = card (sg_instrument ` set (filter (\<lambda>s. sg_instrument s \<in> sg_instrument ` set R) r))"
      by (metis distinct_card length_map list.set_map)
    also have "\<dots> \<le> card (sg_instrument ` set R)" by (intro card_mono) auto
    also have "\<dots> \<le> length R" by (metis card_length length_map list.set_map)
    finally show ?thesis .
  qed
  moreover have "length (filter (\<lambda>s. rank_of r (sg_instrument s) \<le> k_entry) r) = nat k_entry"
    using n by (simp add: ranked_upto [OF d] k_entry_def)
  moreover have "length (filter (\<lambda>s. rank_of r (sg_instrument s) \<le> k_entry) r) \<le>
      length (filter (\<lambda>s. sg_instrument s \<notin> set (map sg_instrument R) \<and> rank_of r (sg_instrument s) \<le> k_entry) r) +
      length (filter (\<lambda>s. sg_instrument s \<in> sg_instrument ` set R) r)"
    using length_filter_split [where P = "\<lambda>s. rank_of r (sg_instrument s) \<le> k_entry" and Q = "\<lambda>s. sg_instrument s \<in> sg_instrument ` set R" and xs = r]
    by simp
  ultimately have "need \<le> int (length (filter (\<lambda>s. sg_instrument s \<notin> set (map sg_instrument R) \<and> rank_of r (sg_instrument s) \<le> k_entry) r))"
    by (simp add: need_def)
  then have lE: "int (length E) = need"
    unfolding E_def by (intro enter_loop_length ranks_sorted d) (simp_all add: need_def)
  have len: "int (length R + length E) = max k_entry (int (length R))" using lE by (simp add: need_def)
  then have "length R + length E \<le> nat k_max" using le k by (simp add: k_entry_def k_max_def)
  then have sel: "hysteresis_select entry_q exit_q held r = map (\<lambda>s. (s, HOLD_ACTION)) R @ map (\<lambda>s. (s, ENTER_ACTION)) E"
    by (simp add: hysteresis_select_def Let_def R_def E_def need_def k_entry_def k_max_def)
  have i: "map (sg_instrument \<circ> fst) (hysteresis_select entry_q exit_q held r) = map sg_instrument R @ map sg_instrument E"
    by (simp add: sel comp_def)
  have "distinct (map sg_instrument R @ map sg_instrument E)"
  proof -
    have "sg_instrument ` set R \<inter> sg_instrument ` set E = {}"
    proof (rule equals0I)
      fix j assume "j \<in> sg_instrument ` set R \<inter> sg_instrument ` set E"
      then obtain s where "s \<in> set E" "j = sg_instrument s" "j \<in> sg_instrument ` set R" by blast
      with E [of s] show False by simp
    qed
    with dR dE show ?thesis by (simp only: distinct_append list.set_map)
  qed
  moreover have "rank_of r (sg_instrument s) < rank_of r (sg_instrument t)"
    if "s \<in> set E" "t \<in> set r" "sg_instrument t \<notin> sg_instrument ` set R \<union> sg_instrument ` set E" for s t
    using that entry_fill_best [OF ranks_sorted [OF d] d, of s k_entry need "map sg_instrument R" t] by (auto simp: E_def)
  ultimately show ?thesis
    using E sR len le k lR unfolding Let_def i k_entry_def [symmetric] k_max_def [symmetric]
    by (auto simp: sel)
qed


section \<open>Limits never raise a weight\<close>

lemma eps12_nonneg: "0 \<le> eps12"
  by (simp add: eps12_def fl_nonneg)

lemma fadd_eps12_ge: "fl x = x \<Longrightarrow> x \<le> fadd x eps12"
  using fl_mono [of x "x + eps12"] eps12_nonneg by (simp add: fadd_def)

lemma fmul_le_self: "fl w = w \<Longrightarrow> 0 \<le> w \<Longrightarrow> f \<le> 1 \<Longrightarrow> fmul w f \<le> w"
  using fl_mono [of "w * f" w] by (simp add: fmul_def mult_left_le)

lemma fmul_fl [simp]: "fl (fmul a b) = fmul a b" "fl (fdiv a b) = fdiv a b" "fl (fadd a b) = fadd a b" "fl (fsub a b) = fsub a b"
  by (simp_all add: farith_defs)

lemma clamp_weight_le:
  assumes "fl max_single = max_single" "0 \<le> max_single" "0 \<le> rd_weight d" "fl (rd_weight d) = rd_weight d"
  shows "0 \<le> rd_weight (clamp_weight max_single d) \<and> rd_weight (clamp_weight max_single d) \<le> rd_weight d \<and>
    rd_weight (clamp_weight max_single d) \<le> fadd max_single eps12 \<and> fl (rd_weight (clamp_weight max_single d)) = rd_weight (clamp_weight max_single d)"
  using assms fadd_eps12_ge [OF assms(1)] by (auto simp: clamp_weight_def)

lemma scale_decision_le:
  assumes "0 \<le> factor" "factor \<le> 1" "0 \<le> rd_weight d" "fl (rd_weight d) = rd_weight d"
  shows "0 \<le> rd_weight (scale_decision factor d) \<and> rd_weight (scale_decision factor d) \<le> rd_weight d \<and>
    fl (rd_weight (scale_decision factor d)) = rd_weight (scale_decision factor d)"
  using assms fmul_le_self [of "rd_weight d" factor]
  by (auto simp: scale_decision_def fmul_def intro!: fl_nonneg)

lemma gross_factor:
  assumes "fl max_gross = max_gross" "0 \<le> max_gross" "fadd max_gross eps12 < gross"
  shows "0 \<le> fdiv max_gross gross \<and> fdiv max_gross gross \<le> 1"
proof -
  have "max_gross < gross" using fadd_eps12_ge [OF assms(1)] assms(3) by simp
  then have "0 \<le> max_gross / gross" "max_gross / gross \<le> 1" using assms(2) by auto
  then show ?thesis by (simp add: fdiv_def fl_nonneg fl_le_1)
qed

text \<open>What both limits keep of a decision.\<close>

definition limited :: "pyfloat \<Rightarrow> risk_decision \<Rightarrow> risk_decision \<Rightarrow> bool" where
  "limited ceil_w d r \<longleftrightarrow> rd_ticker r = rd_ticker d \<and> dm_instrument (rd_meta r) = dm_instrument (rd_meta d) \<and>
     rd_blocked r = rd_blocked d \<and> 0 \<le> rd_weight r \<and> rd_weight r \<le> rd_weight d \<and> rd_weight r \<le> ceil_w \<and>
     fl (rd_weight r) = rd_weight r"

lemma scale_to_gross_limited:
  assumes "fl max_gross = max_gross" "0 \<le> max_gross" "list_all2 (limited ceil_w) ds rs"
  shows "list_all2 (limited ceil_w) ds (scale_to_gross max_gross rs)"
proof (cases "fadd max_gross eps12 < active_gross rs")
  case True
  define factor where "factor = fdiv max_gross (active_gross rs)"
  have f: "0 \<le> factor" "factor \<le> 1" using gross_factor [OF assms(1,2) True] by (auto simp: factor_def)
  have "limited ceil_w d (scale_decision factor r)" if "limited ceil_w d r" for d r
  proof -
    have s: "rd_ticker (scale_decision factor r) = rd_ticker r" "rd_blocked (scale_decision factor r) = rd_blocked r"
      "dm_instrument (rd_meta (scale_decision factor r)) = dm_instrument (rd_meta r)" by (auto simp: scale_decision_def)
    show ?thesis using that scale_decision_le [OF f, of r] by (auto simp: limited_def s)
  qed
  then show ?thesis using assms(3) True
    by (auto simp: scale_to_gross_def Let_def list_all2_map2 simp flip: factor_def elim!: list_all2_mono)
qed (use assms(3) in \<open>simp add: scale_to_gross_def Let_def\<close>)

text \<open>The decision the long-only guard starts from.\<close>

definition as_risk :: "decision \<Rightarrow> risk_decision" where
  "as_risk d = \<lparr>rd_ticker = pd_ticker d, rd_weight = max 0 (pd_weight d), rd_meta = pd_meta d, rd_blocked = pd_weight d < 0, rd_reason = None\<rparr>"

lemma guardrails_limited:
  assumes "\<forall>d \<in> set ds. fl (pd_weight d) = pd_weight d" "fl max_single = max_single" "0 \<le> max_single"
    "fl max_gross = max_gross" "0 \<le> max_gross"
  shows "list_all2 (limited (fadd max_single eps12)) (map as_risk ds) (ro_decisions (guardrails_apply max_single max_gross True ds))"
proof -
  have "limited (fadd max_single eps12) (as_risk d) (guard_decision max_single True d)" if "fl (pd_weight d) = pd_weight d" for d
  proof -
    define r where "r = \<lparr>rd_ticker = pd_ticker d, rd_weight = (if pd_weight d < 0 then 0 else pd_weight d), rd_meta = pd_meta d,
      rd_blocked = pd_weight d < 0, rd_reason = (if pd_weight d < 0 then Some ''short_not_allowed'' else None)\<rparr>"
    have g: "guard_decision max_single True d = clamp_weight max_single r" by (simp add: guard_decision_def r_def Let_def)
    have w: "0 \<le> rd_weight r" "fl (rd_weight r) = rd_weight r" "rd_weight r = max 0 (pd_weight d)" using that by (auto simp: r_def)
    have c: "rd_ticker (clamp_weight max_single r) = rd_ticker r" "rd_blocked (clamp_weight max_single r) = rd_blocked r"
      "dm_instrument (rd_meta (clamp_weight max_single r)) = dm_instrument (rd_meta r)" by (auto simp: clamp_weight_def)
    show ?thesis using clamp_weight_le [OF assms(2,3) w(1,2)] w by (simp add: limited_def g as_risk_def c) (simp add: r_def)
  qed
  then have "list_all2 (limited (fadd max_single eps12)) (map as_risk ds) (map (guard_decision max_single True) ds)"
    using assms(1) by (auto simp: list_all2_map1 list_all2_map2 intro!: list.rel_refl_strong)
  then show ?thesis
    using scale_to_gross_limited [OF assms(4,5)] by (simp add: guardrails_apply_def Let_def)
qed

lemma exposure_cap_limited:
  assumes "\<forall>r \<in> set rs. 0 \<le> rd_weight r \<and> fl (rd_weight r) = rd_weight r" "fl max_single = max_single" "0 \<le> max_single"
    "fl cap = cap" "0 \<le> cap" "cap \<le> 1"
  shows "list_all2 (limited (fadd max_single eps12)) rs (ro_decisions (apply_exposure_cap rs cap max_single))"
proof -
  have "limited (fadd max_single eps12) r (cap_decision cap max_single r)" if "0 \<le> rd_weight r" "fl (rd_weight r) = rd_weight r" for r
  proof -
    define d where "d = r\<lparr>rd_weight := fmul (rd_weight r) cap\<rparr>"
    have w: "0 \<le> rd_weight d" "fl (rd_weight d) = rd_weight d" "rd_weight d \<le> rd_weight r"
      using that fmul_le_self [of "rd_weight r" cap] assms(5,6) by (auto simp: d_def fmul_def intro!: fl_nonneg)
    have c: "rd_weight (cap_decision cap max_single r) = rd_weight (clamp_weight max_single d)"
      "rd_ticker (cap_decision cap max_single r) = rd_ticker r" "rd_blocked (cap_decision cap max_single r) = rd_blocked r"
      "dm_instrument (rd_meta (cap_decision cap max_single r)) = dm_instrument (rd_meta r)"
      by (auto simp: cap_decision_def clamp_weight_def d_def Let_def)
    show ?thesis using clamp_weight_le [OF assms(2,3) w(1,2)] w(3) by (simp add: limited_def c)
  qed
  then have "list_all2 (limited (fadd max_single eps12)) rs (map (cap_decision cap max_single) rs)"
    using assms(1) by (auto simp: list_all2_map2 intro!: list.rel_refl_strong)
  then show ?thesis
    using scale_to_gross_limited [OF assms(4,5)] by (simp add: apply_exposure_cap_def Let_def)
qed


section \<open>The guard as a state machine\<close>

text \<open>Events that connect: each starts in the mode the previous one reached, and changes it.\<close>

fun mode_path :: "string \<Rightarrow> guard_event list \<Rightarrow> string option" where
  "mode_path m [] = Some m"
| "mode_path m (e # es) = (if ge_previous_mode e = m \<and> ge_new_mode e \<noteq> m then mode_path (ge_new_mode e) es else None)"

lemma mode_path_append: "mode_path m (es @ fs) = (case mode_path m es of None \<Rightarrow> None | Some m' \<Rightarrow> mode_path m' fs)"
  by (induction es arbitrary: m) auto

lemmas guard_modes = NORMAL_def RISK_OFF_def

definition guard_ok :: "guard_params \<Rightarrow> guard_state \<Rightarrow> bool" where
  "guard_ok g s \<longleftrightarrow> gs_mode s \<in> {NORMAL, RISK_OFF} \<and> mode_path NORMAL (gs_events s) = Some (gs_mode s) \<and>
     (gs_events s \<noteq> [] \<longrightarrow> gs_cap s = (if gs_mode s = NORMAL then gd_normal_gross g else gd_risk_off_gross g)) \<and>
     (\<forall>e \<in> set (gs_events s). if ge_new_mode e = RISK_OFF then ge_drawdown e \<le> fadd (gd_trigger g) eps15
        else fsub (gd_recovery g) eps15 \<le> ge_drawdown e)"

lemma update_guard_ok: "guard_ok g s \<Longrightarrow> guard_ok g (update_drawdown_guard g s d nav peak dd)"
  by (auto simp: guard_ok_def update_drawdown_guard_def guard_move_def mode_path_append guard_modes)

type_synonym observation = "date \<times> pyfloat \<times> pyfloat \<times> pyfloat"

definition guard_run :: "guard_params \<Rightarrow> guard_state \<Rightarrow> observation list \<Rightarrow> guard_state" where
  "guard_run g = foldl (\<lambda>s (d, nav, peak, dd). update_drawdown_guard g s d nav peak dd)"

lemma guard_run_ok: "guard_ok g s \<Longrightarrow> guard_ok g (guard_run g s obs)"
  unfolding guard_run_def by (induction obs arbitrary: s) (auto intro: update_guard_ok)

section \<open>Properties\<close>

definition sample_signal :: "int \<Rightarrow> pyfloat \<Rightarrow> signal" where
  "sample_signal i x = \<lparr>sg_instrument = i, sg_ticker = ''T'', sg_as_of = Ord 1, sg_return = x, sg_fold = None,
     sg_sample = None, sg_semantic = ''EXPECTED_RETURN'', sg_prediction_score = None\<rparr>"

text \<open>C31: which names the hysteresis policy selects. It keeps every held name that is still within the exit band,
  and fills up with the best of the others: a name that enters is in the entry band and has a higher score than every
  name left out, or the same score and the smaller instrument. No name appears twice; the book is filled exactly up to
  the entry size or to what it keeps, never beyond the exit size; kept names are marked as held and new ones as
  entering, and all weights are equal.\<close>

theorem hysteresis_selection:
  assumes "signals \<noteq> []" and "distinct (map sg_instrument signals)" and "entry_q \<le> exit_q" and "exit_q \<le> 1"
    and "int (length signals) < 2 ^ 53"
  shows "let ds = po_decisions (hysteresis_decide entry_q exit_q held signals); ids = map (dm_instrument \<circ> pd_meta) ds;
      r = rank_signals signals; n = int (length signals); kept = kept_ids r (select_top_k n exit_q) held
    in distinct ids \<and> kept \<subseteq> set ids \<and>
      (\<forall>i \<in> set ids - kept. i \<in> sg_instrument ` set signals \<and> rank_of r i \<le> select_top_k n entry_q) \<and>
      (\<forall>s \<in> set signals. \<forall>t \<in> set signals. sg_instrument s \<in> set ids - kept \<and> sg_instrument t \<notin> set ids \<longrightarrow>
        score t < score s \<or> score t = score s \<and> sg_instrument s < sg_instrument t) \<and>
      int (length ds) = max (select_top_k n entry_q) (int (card kept)) \<and> int (length ds) \<le> select_top_k n exit_q \<and>
      (\<forall>d \<in> set ds. pd_weight d = fdiv 1 (of_nat (length ds)) \<and>
        dm_action (pd_meta d) = Some (if dm_instrument (pd_meta d) \<in> kept then HOLD_ACTION else ENTER_ACTION))"
proof -
  define r where "r = rank_signals signals"
  define sel where "sel = hysteresis_select entry_q exit_q held r"
  have n: "0 < int (length signals)" "int (length r) = int (length signals)" using assms(1) by (auto simp: r_def)
  have k: "1 \<le> select_top_k (int (length r)) entry_q" "select_top_k (int (length r)) entry_q \<le> int (length r)"
    using select_top_k_bounds [OF n(1) assms(5), of entry_q] assms(3,4) n(2) by auto
  have d: "distinct (map sg_instrument r)" using assms(2) by (simp add: r_def)
  note S = hysteresis_select_spec [OF d select_top_k_mono [OF assms(3)] k, of held, folded sel_def, unfolded Let_def n(2)]
  have "sel \<noteq> []" using S k n(2) by auto
  then have ds: "po_decisions (hysteresis_decide entry_q exit_q held signals) =
      map (\<lambda>(s, action). \<lparr>pd_ticker = sg_ticker s, pd_weight = fdiv 1 (of_int (int (length sel))),
        pd_meta = signal_meta (int (length r)) s (rank_of r (sg_instrument s)) (Some action)\<rparr>) sel"
    using assms(1) by (simp add: hysteresis_decide_def Let_def sel_def r_def)
  have ids: "map (dm_instrument \<circ> pd_meta) (po_decisions (hysteresis_decide entry_q exit_q held signals)) = map (sg_instrument \<circ> fst) sel"
    unfolding ds by (simp add: case_prod_unfold comp_def signal_meta_def)
  define kept where "kept = kept_ids r (select_top_k (int (length signals)) exit_q) held"
  note S = S [folded kept_def]
  have rs: "set r = set signals" by (simp add: r_def)
  have len: "length (po_decisions (hysteresis_decide entry_q exit_q held signals)) = length sel" unfolding ds by simp
  have each: "pd_weight x = fdiv 1 (of_nat (length sel)) \<and>
      dm_action (pd_meta x) = Some (if dm_instrument (pd_meta x) \<in> kept then HOLD_ACTION else ENTER_ACTION)"
    if "x \<in> set (po_decisions (hysteresis_decide entry_q exit_q held signals))" for x
  proof -
    from that obtain y where y: "y \<in> set sel" and x: "x = (case y of (s, action) \<Rightarrow> \<lparr>pd_ticker = sg_ticker s,
        pd_weight = fdiv 1 (of_int (int (length sel))), pd_meta = signal_meta (int (length r)) s (rank_of r (sg_instrument s)) (Some action)\<rparr>)"
      unfolding ds by auto
    have "snd y = (if sg_instrument (fst y) \<in> kept then HOLD_ACTION else ENTER_ACTION)" using S y by blast
    then show ?thesis by (cases y) (simp add: x signal_meta_def)
  qed
  have best: "score t < score s \<or> score t = score s \<and> sg_instrument s < sg_instrument t"
    if "s \<in> set signals" "t \<in> set signals" "sg_instrument s \<in> set (map (sg_instrument \<circ> fst) sel) - kept"
      "sg_instrument t \<notin> set (map (sg_instrument \<circ> fst) sel)" for s t
  proof -
    have "rank_of r (sg_instrument s) < rank_of r (sg_instrument t)" using S that rs by blast
    then show ?thesis unfolding r_def by (rule rank_signals_key [OF assms(2) that(1,2)])
  qed
  show ?thesis
    unfolding Let_def r_def [symmetric] ids kept_def [symmetric] len using S rs each best by (intro conjI) blast+
qed

definition sample_signals :: "signal list" where
  "sample_signals = [sample_signal 1 5, sample_signal 2 9, sample_signal 3 1, sample_signal 4 7, sample_signal 5 3]"

theorem hysteresis_selection_witness:
  "distinct (map (dm_instrument \<circ> pd_meta) (po_decisions (hysteresis_decide (1/4) (1/2) [1, 3] sample_signals))) \<and>
   map (dm_instrument \<circ> pd_meta) (po_decisions (hysteresis_decide (1/4) (1/2) [1, 3] sample_signals)) = [1, 2]"
proof -
  have "map (dm_instrument \<circ> pd_meta) (po_decisions (hysteresis_decide (1/4) (1/2) [1, 3] sample_signals)) = [1, 2]" by code_simp
  moreover have "distinct (map (dm_instrument \<circ> pd_meta) (po_decisions (hysteresis_decide (1/4) (1/2) [1, 3] sample_signals)))"
    using hysteresis_selection [of sample_signals "1/4" "1/2" "[1, 3]"]
    by (simp add: sample_signals_def sample_signal_def Let_def)
  ultimately show ?thesis by blast
qed

text \<open>C32: neither the structural limits nor the exposure cap raises a weight. Per name, in order, the
  structural limits alone give a weight that is non-negative, at most the policy's weight and at most the single-name
  limit (plus the tolerance of the comparison), and block exactly the names with a negative policy weight; the exposure
  cap on top of them only lowers what they gave, within the same limit.\<close>

theorem limits_never_raise:
  assumes "\<forall>d \<in> set ds. fl (pd_weight d) = pd_weight d" and "fl max_single = max_single" and "0 \<le> max_single"
    and "fl max_gross = max_gross" and "0 \<le> max_gross" and "fl cap = cap" and "0 \<le> cap" and "cap \<le> 1"
  shows "list_all2 (limited (fadd max_single eps12)) (map as_risk ds) (ro_decisions (guardrails_apply max_single max_gross True ds)) \<and>
    list_all2 (limited (fadd max_single eps12)) (ro_decisions (guardrails_apply max_single max_gross True ds))
      (ro_decisions (apply_exposure_cap (ro_decisions (guardrails_apply max_single max_gross True ds)) cap max_single)) \<and>
    list_all2 (limited (fadd max_single eps12)) (map as_risk ds)
      (ro_decisions (apply_exposure_cap (ro_decisions (guardrails_apply max_single max_gross True ds)) cap max_single))"
proof -
  define rs where "rs = ro_decisions (guardrails_apply max_single max_gross True ds)"
  have a: "list_all2 (limited (fadd max_single eps12)) (map as_risk ds) rs"
    unfolding rs_def by (rule guardrails_limited [OF assms(1-5)])
  then have w: "\<forall>r \<in> set rs. 0 \<le> rd_weight r \<and> fl (rd_weight r) = rd_weight r"
    by (auto simp: limited_def list_all2_conv_all_nth in_set_conv_nth)
  note b = exposure_cap_limited [OF w assms(2,3,6-8)]
  have "list_all2 (limited (fadd max_single eps12)) (map as_risk ds) (ro_decisions (apply_exposure_cap rs cap max_single))"
    by (rule list_all2_trans [OF _ a b]) (fastforce simp: limited_def)
  with a b show ?thesis by (simp add: rs_def)
qed

theorem limits_never_raise_witness:
  "list_all2 (limited (fadd (1/4) eps12))
    (map as_risk (po_decisions (long_only_decide (1/2) [sample_signal 1 5, sample_signal 2 9])))
    (ro_decisions (apply_exposure_cap (ro_decisions (guardrails_apply (1/4) 1 True
       (po_decisions (long_only_decide (1/2) [sample_signal 1 5, sample_signal 2 9])))) (1/2) (1/4)))"
proof -
  have f: "fl (1/4) = 1/4" "fl (1/2) = 1/2" by code_simp+
  have d: "map pd_weight (po_decisions (long_only_decide (1/2) [sample_signal 1 5, sample_signal 2 9])) = [1]" by code_simp
  have "\<forall>x \<in> set (po_decisions (long_only_decide (1/2) [sample_signal 1 5, sample_signal 2 9])). pd_weight x = 1"
    using arg_cong [OF d, of set] by auto
  then show ?thesis using f limits_never_raise [of "po_decisions (long_only_decide (1/2) [sample_signal 1 5, sample_signal 2 9])" "1/4" 1 "1/2"]
    by auto
qed

text \<open>over any run of days the guard's recorded events alternate between the two modes, starting from
  \<open>normal\<close> and ending in the current one; each reduction happened at a drawdown below the trigger and each
  recovery above the recovery level, and the exposure cap is the one of the current mode.\<close>

theorem guard_alternates:
  "guard_ok g (guard_run g \<lparr>gs_mode = NORMAL, gs_cap = gd_normal_gross g, gs_events = []\<rparr> obs)"
  by (rule guard_run_ok) (simp add: guard_ok_def)

end
