(* ===== verification/Simcal.thy ===== *)
theory Simcal
  imports Pydate
begin

text \<open>
  \<open>simulator/application/calendar.py\<close>: the first trading day of each ISO week, and the next trading day.
  \<open>date.isocalendar\<close> is the standard library's: a date belongs to the year and week of its Thursday.
\<close>

text \<open>The Thursday of the week; \<open>weekday\<close> is 0 on Monday.\<close>

definition thursday :: "date \<Rightarrow> date" where
  "thursday d = Ord (toordinal d - weekday d + 3)"

definition isoweek_key :: "date \<Rightarrow> int \<times> int" where
  "isoweek_key d = (let t = thursday d; y = year_of t in (y, (toordinal t - toordinal (date_of y 1 1)) div 7 + 1))"

fun first_per_week :: "(int \<times> int) list \<Rightarrow> date list \<Rightarrow> date list" where
  "first_per_week seen [] = []"
| "first_per_week seen (d # ds) =
     (if isoweek_key d \<in> set seen then first_per_week seen ds else d # first_per_week (isoweek_key d # seen) ds)"

definition weekly_rebalance_dates :: "date list \<Rightarrow> date list" where
  "weekly_rebalance_dates trading_days = first_per_week [] (sort trading_days)"

definition next_trading_day :: "date list \<Rightarrow> date \<Rightarrow> date option" where
  "next_trading_day trading_days d = List.find (\<lambda>day. d < day) (sort trading_days)"

section \<open>Weeks\<close>

lemma thursday_weekday: "(toordinal (thursday d) - 4) mod 7 = 0"
  by (simp add: thursday_def weekday_def) presburger

text \<open>The key identifies the week.\<close>

lemma isoweek_key_eq_iff: "isoweek_key d = isoweek_key e \<longleftrightarrow> thursday d = thursday e"
proof
  assume k: "isoweek_key d = isoweek_key e"
  define y where "y = year_of (thursday d)"
  define j where "j = toordinal (date_of y 1 1)"
  have y: "year_of (thursday e) = y" using k by (simp add: isoweek_key_def Let_def y_def)
  have "(toordinal (thursday d) - j) div 7 = (toordinal (thursday e) - j) div 7"
    using k unfolding isoweek_key_def Let_def y y_def [symmetric] j_def [symmetric] by simp
  moreover have "a = b" if "(a - j) div 7 = (b - j) div 7" "(a - 4) mod 7 = 0" "(b - 4) mod 7 = 0" for a b :: int
  proof -
    have "(a - j) mod 7 = (b - j) mod 7" using that(2,3) by (metis diff_add_cancel mod_diff_left_eq mod_add_left_eq)
    then have "a - j = b - j" using that(1) by (metis div_mult_mod_eq)
    then show ?thesis by simp
  qed
  ultimately have "toordinal (thursday d) = toordinal (thursday e)"
    using thursday_weekday by blast
  then show "thursday d = thursday e" by (simp add: date.expand)
qed (simp add: isoweek_key_def)

lemma first_per_week_spec:
  "set (first_per_week seen ds) \<subseteq> set ds \<and> distinct (map isoweek_key (first_per_week seen ds)) \<and>
   set (map isoweek_key (first_per_week seen ds)) = set (map isoweek_key ds) - set seen"
  by (induction seen ds rule: first_per_week.induct) auto

lemma first_per_week_least:
  "sorted ds \<Longrightarrow> d \<in> set (first_per_week seen ds) \<Longrightarrow> e \<in> set ds \<Longrightarrow> isoweek_key e = isoweek_key d \<Longrightarrow> d \<le> e"
proof (induction seen ds rule: first_per_week.induct)
  case (2 seen d' ds)
  show ?case
  proof (cases "isoweek_key d' \<in> set seen")
    case True
    have "isoweek_key d \<notin> set seen" using 2(4) True first_per_week_spec [of seen ds] by auto
    with 2 True show ?thesis by auto
  next
    case False
    show ?thesis
    proof (cases "d = d'")
      case d: True
      with 2(3,5) show ?thesis by auto
    next
      case d: False
      then have "d \<in> set (first_per_week (isoweek_key d' # seen) ds)" using 2(4) False by simp
      moreover from this have "isoweek_key d \<noteq> isoweek_key d'"
        using first_per_week_spec [of "isoweek_key d' # seen" ds] by auto
      ultimately show ?thesis using "2.IH"(2) [OF False] 2(3,5,6) by auto
    qed
  qed
qed simp

lemma next_trading_day_SomeD:
  assumes "next_trading_day ds d = Some e" shows "d < e \<and> e \<in> set ds \<and> (\<forall>x \<in> set ds. d < x \<longrightarrow> e \<le> x)"
proof -
  have "List.find P (sort ds) = Some e \<Longrightarrow> P e \<and> e \<in> set (sort ds) \<and> (\<forall>x \<in> set (sort ds). P x \<longrightarrow> e \<le> x)" for P
  proof -
    have "sorted xs \<Longrightarrow> List.find P xs = Some e \<Longrightarrow> P e \<and> e \<in> set xs \<and> (\<forall>x \<in> set xs. P x \<longrightarrow> e \<le> x)" for xs
      by (induction xs) (auto split: if_splits)
    then show "List.find P (sort ds) = Some e \<Longrightarrow> ?thesis" by (metis sorted_sort)
  qed
  from this [of "\<lambda>x. d < x"] assms show ?thesis by (simp add: next_trading_day_def)
qed

text \<open>a rebalance date is the first trading day of its calendar week (Monday to Sunday), every week
  with a trading day has one, and no week has two.\<close>

theorem rebalance_first_of_week:
  "distinct (map thursday (weekly_rebalance_dates ds)) \<and>
   set (map thursday (weekly_rebalance_dates ds)) = set (map thursday ds) \<and>
   set (weekly_rebalance_dates ds) \<subseteq> set ds \<and>
   (\<forall>d \<in> set (weekly_rebalance_dates ds). \<forall>e \<in> set ds. thursday e = thursday d \<longrightarrow> d \<le> e)"
proof -
  define w where "w = weekly_rebalance_dates ds"
  note s = first_per_week_spec [of "[]" "sort ds", folded weekly_rebalance_dates_def, folded w_def]
  have k: "thursday ` A \<subseteq> thursday ` B" if "isoweek_key ` A = isoweek_key ` B" for A B
  proof (rule image_subsetI)
    fix x assume "x \<in> A"
    then have "isoweek_key x \<in> isoweek_key ` B" using that by blast
    then show "thursday x \<in> thursday ` B" by (auto simp: isoweek_key_eq_iff)
  qed
  have "distinct (map thursday w)"
    using s isoweek_key_eq_iff by (auto simp: distinct_map inj_on_def)
  moreover have "thursday ` set w = thursday ` set ds"
    using k [of "set w" "set ds"] k [of "set ds" "set w"] s by auto
  moreover have "d \<le> e" if "d \<in> set w" "e \<in> set ds" "thursday e = thursday d" for d e
    using first_per_week_least [of "sort ds" d "[]" e] that
    by (simp add: w_def weekly_rebalance_dates_def isoweek_key_eq_iff)
  ultimately show ?thesis using s unfolding w_def [symmetric] by auto
qed

theorem rebalance_first_of_week_witness:
  "distinct (map thursday (weekly_rebalance_dates [Ord 739252, Ord 739253, Ord 739258])) \<and>
   weekly_rebalance_dates [Ord 739252, Ord 739253, Ord 739258] = [Ord 739252, Ord 739258]"
proof -
  have "weekly_rebalance_dates [Ord 739252, Ord 739253, Ord 739258] = [Ord 739252, Ord 739258]" by code_simp
  then show ?thesis using rebalance_first_of_week [of "[Ord 739252, Ord 739253, Ord 739258]"] by simp
qed

end
