(* ===== verification/Shadowday.thy ===== *)
theory Shadowday
  imports Openfill Corpact Policy
begin

text \<open>
  A completed market day of a shadow portfolio: \<open>shadow/application/service.py\<close>. Corporate actions first,
  then the pending orders at the day's open, then the net asset value at the day's close with the drawdown
  guard; everything inside a savepoint that is rolled back when a held name has no close. The candle and
  corporate-action tables are data; an exception undoes the day and leaves the function.
\<close>

section \<open>Data\<close>

text \<open>A daily candle; the table is a list, a query takes the first row that matches.\<close>

record candle =
  cd_instrument :: int
  cd_day :: date
  cd_open :: pyfloat
  cd_close :: pyfloat

record day_market =
  mk_candles :: "candle list"
  mk_actions :: "action_row list"

record nav_row =
  nr_portfolio :: int
  nr_day :: date
  nr_cash :: pyfloat
  nr_market_value :: pyfloat
  nr_nav :: pyfloat
  nr_gross :: pyfloat
  nr_drawdown :: pyfloat
  nr_peak :: pyfloat
  nr_count :: int

record day_world =
  dw_db :: shadow_db
  dw_navs :: "nav_row list"
  dw_events :: "(int \<times> guard_event) list"

definition candle_open_close :: "day_market \<Rightarrow> int \<Rightarrow> date \<Rightarrow> (pyfloat \<times> pyfloat) option" where
  "candle_open_close m i day = map_option (\<lambda>c. (cd_open c, cd_close c))
     (List.find (\<lambda>c. cd_instrument c = i \<and> cd_day c = day) (mk_candles m))"

definition trading_days_after :: "day_market \<Rightarrow> date option \<Rightarrow> date list" where
  "trading_days_after m after = sort (remdups (filter (\<lambda>d. case after of None \<Rightarrow> True | Some a \<Rightarrow> a < d) (map cd_day (mk_candles m))))"

definition session_has_eod_candles :: "day_market \<Rightarrow> date \<Rightarrow> bool" where
  "session_has_eod_candles m day = (\<exists>c \<in> set (mk_candles m). cd_day c = day)"

section \<open>Corporate actions\<close>

definition ca_quantity :: "date \<Rightarrow> mech_action list \<Rightarrow> pyfloat \<Rightarrow> pyfloat" where
  "ca_quantity day actions qty =
     foldl (\<lambda>q a. if ma_date a = day \<and> ma_type a \<in> SPLIT_FEED_EVENT_TYPES then quantity_after_ca q (ma_factor a) else q) qty actions"

definition ca_position :: "action_row list \<Rightarrow> date \<Rightarrow> pos_rows \<Rightarrow> pos_row \<Rightarrow> pos_rows res" where
  "ca_position rows day pos r =
     bnd (load_mechanical_actions rows (pw_instrument r)) (\<lambda>actions.
     Inr (set_fractional_position pos (pw_instrument r) (pw_ticker r) (ca_quantity day actions (pw_quantity r))))"

definition apply_ca_for_day :: "action_row list \<Rightarrow> date \<Rightarrow> pos_rows \<Rightarrow> pos_rows res" where
  "apply_ca_for_day rows day pos = foldM (ca_position rows day) pos (map snd pos)"

section \<open>Pending orders\<close>

text \<open>
  An order is left as it is, possibly with a changed portfolio, or filled. The two branches without a lot
  size leave the cash as already changed.
\<close>

datatype day_outcome = Keep shadow_book shadow_order | Book shadow_book shadow_order hist_fill

definition day_buy :: "shadow_spec \<Rightarrow> shadow_book \<Rightarrow> shadow_order \<Rightarrow> hist_fill \<Rightarrow> day_outcome res" where
  "day_buy spec b o' f =
     (let cost = fadd (hf_notional f) (hf_commission f) in
      if fadd (sb_cash b) eps6 < cost then Inr (Keep b o') else
      let new_cash = fsub (sb_cash b) cost in
      if new_cash < - eps9 then Inr (Keep b o') else
      let b1 = b\<lparr>sb_cash := new_cash\<rparr> in
      if is_lot_aware_spec spec then
        (case order_lot_size o' of
           None \<Rightarrow> Inr (Keep b1 o')
         | Some l \<Rightarrow>
             bnd (apply_lot_aware_fill (sb_positions b1) (so_instrument o') (so_ticker o') ''BUY'' (hf_quantity f)
                    (hf_price f) (hf_commission f) l) (\<lambda>pos.
             Inr (Book (b1\<lparr>sb_positions := pos\<rparr>) o' f)))
      else Inr (Book (b1\<lparr>sb_positions := set_fractional_position (sb_positions b1) (so_instrument o') (so_ticker o')
                (fadd (position_qty (sb_positions b1) (so_instrument o')) (hf_quantity f))\<rparr>) o' f))"

definition day_sell :: "instant \<Rightarrow> fee_db \<Rightarrow> shadow_spec \<Rightarrow> date \<Rightarrow> shadow_book \<Rightarrow> shadow_order \<Rightarrow> hist_fill \<Rightarrow> day_outcome res" where
  "day_sell now profiles spec day b o' f =
     (let held = position_qty (sb_positions b) (so_instrument o'); sell_qty = min (hf_quantity f) held in
      if sell_qty \<le> 0 then Inr (Keep b (o'\<lparr>so_status := CANCELLED, so_updated_at := now\<rparr>)) else
      let sell_notional = fmul sell_qty (hf_price f) in
      bnd (sell_commission profiles spec o' day f sell_qty) (\<lambda>c. case c of
        None \<Rightarrow> Inr (Keep b (limit_order now o'))
      | Some comm \<Rightarrow>
          let proceeds = fsub sell_notional comm;
              b1 = b\<lparr>sb_cash := fadd (sb_cash b) proceeds\<rparr>;
              f' = f\<lparr>hf_quantity := sell_qty, hf_notional := sell_notional, hf_commission := comm\<rparr> in
          if is_lot_aware_spec spec then
            (case sell_lot_size b1 o' of
               None \<Rightarrow> Inr (Keep b1 o')
             | Some l \<Rightarrow>
                 bnd (apply_lot_aware_fill (sb_positions b1) (so_instrument o') (so_ticker o') ''SELL'' sell_qty
                        (hf_price f) comm l) (\<lambda>pos.
                 Inr (Book (b1\<lparr>sb_positions := pos\<rparr>) o' f')))
          else Inr (Book (b1\<lparr>sb_positions := set_fractional_position (sb_positions b1) (so_instrument o') (so_ticker o')
                    (fsub held sell_qty)\<rparr>) o' f')))"

text \<open>The fill row is written last, and not when the order already has one.\<close>

definition day_settle :: "instant \<Rightarrow> date \<Rightarrow> shadow_db \<times> nat \<Rightarrow> day_outcome \<Rightarrow> shadow_db \<times> nat" where
  "day_settle now day run out = (case run of (d, n) \<Rightarrow> (case out of
     Keep b o' \<Rightarrow> (put_shadow_book b (put_order o' d), n)
   | Book b o' f \<Rightarrow>
       if \<exists>x \<in> set (sd_fills d). sf_order x = so_id o' then (put_shadow_book b d, n)
       else (put_shadow_book b ((put_order (o'\<lparr>so_status := FILLED, so_execution_date := Some day, so_updated_at := now\<rparr>) d)
               \<lparr>sd_fills := sd_fills d @ [fill_row b o' f day now]\<rparr>), n + 1)))"

definition day_fill_one ::
  "day_market \<Rightarrow> shadow_spec \<Rightarrow> date \<Rightarrow> instant \<Rightarrow> int \<Rightarrow> shadow_db \<times> nat \<Rightarrow> int \<Rightarrow> (shadow_db \<times> nat) res" where
  "day_fill_one m spec day now pid run i =
     (case (find_order (fst run) i, find_book (fst run) pid) of
        (Some o', Some b) \<Rightarrow>
          bnd (is_execution_date_eligible (so_decision_at o') day) (\<lambda>ok.
          if \<not> ok \<or> day < so_min_execution_date o' then Inr run else
          bnd (price_fill (sd_profiles (fst run)) spec o' day (map_option fst (candle_open_close m (so_instrument o') day))) (\<lambda>p. case p of
            NoOpen \<Rightarrow> Inr run
          | FeeUnknown \<Rightarrow> Inr (day_settle now day run (Keep b (limit_order now o')))
          | Priced f \<Rightarrow>
              bnd (if so_side o' = ''BUY'' then day_buy spec b o' f
                   else day_sell now (sd_profiles (fst run)) spec day b o' f) (\<lambda>out.
              Inr (day_settle now day run out))))
      | _ \<Rightarrow> Inr run)"

definition day_pending_ids :: "int \<Rightarrow> shadow_db \<Rightarrow> int list" where
  "day_pending_ids pid d = map so_id (sort_key (\<lambda>o'. if so_side o' = ''SELL'' then 0 else 1 :: int)
     (filter (\<lambda>o'. so_portfolio o' = pid \<and> so_status o' = PENDING) (sd_orders d)))"

definition day_fill_pending :: "day_market \<Rightarrow> shadow_spec \<Rightarrow> date \<Rightarrow> instant \<Rightarrow> int \<Rightarrow> shadow_db \<Rightarrow> (shadow_db \<times> nat) res" where
  "day_fill_pending m spec day now pid d = foldM (day_fill_one m spec day now pid) (d, 0) (day_pending_ids pid d)"

section \<open>Net asset value\<close>

definition held_rows :: "pos_rows \<Rightarrow> pos_row list" where
  "held_rows pos = filter (\<lambda>r. \<not> \<bar>pw_quantity r\<bar> < eps12) (map snd pos)"

definition close_of :: "day_market \<Rightarrow> date \<Rightarrow> int \<Rightarrow> pyfloat option" where
  "close_of m day i = map_option snd (candle_open_close m i day)"

definition missing_closes :: "day_market \<Rightarrow> date \<Rightarrow> pos_rows \<Rightarrow> int list" where
  "missing_closes m day pos = map pw_instrument (filter (\<lambda>r. close_of m day (pw_instrument r) = None) (held_rows pos))"

definition market_value :: "day_market \<Rightarrow> date \<Rightarrow> pos_rows \<Rightarrow> pyfloat" where
  "market_value m day pos =
     foldl (\<lambda>mv r. fadd mv (fmul (pw_quantity r) (opt_or (close_of m day (pw_instrument r)) 0))) 0 (held_rows pos)"

text \<open>\<open>float(x or default)\<close>: zero counts as missing.\<close>

definition float_or :: "pyfloat option \<Rightarrow> pyfloat \<Rightarrow> pyfloat" where
  "float_or a b = (case a of Some x \<Rightarrow> if x = 0 then b else x | None \<Rightarrow> b)"

definition spec_guard :: "shadow_spec \<Rightarrow> guard_params" where
  "spec_guard spec = \<lparr>gd_trigger = float_or (sx_dd_trigger spec) (fl (- 1 / 5)), gd_recovery = float_or (sx_dd_recovery spec) (fl (- 1 / 10)),
     gd_risk_off_gross = float_or (sx_dd_risk_off_gross spec) (1 / 2), gd_normal_gross = float_or (sx_dd_normal_gross spec) 1\<rparr>"

datatype mark = Blocked "int list" | Marked shadow_book nav_row "guard_event list"

text \<open>The new peak and the drawdown from it.\<close>

definition new_peak :: "pyfloat \<Rightarrow> pyfloat \<Rightarrow> pyfloat" where
  "new_peak peak nav = max (if peak \<le> 0 then nav else peak) nav"

definition drawdown_of :: "pyfloat \<Rightarrow> pyfloat \<Rightarrow> pyfloat" where
  "drawdown_of nav peak = (if 0 < peak then fsub (fdiv nav peak) 1 else 0)"

definition mark_nav :: "day_market \<Rightarrow> shadow_spec \<Rightarrow> date \<Rightarrow> instant \<Rightarrow> shadow_book \<Rightarrow> mark" where
  "mark_nav m spec day now b =
     (let missing = missing_closes m day (sb_positions b) in
      if missing \<noteq> [] then Blocked (sort (remdups missing)) else
      let mv = market_value m day (sb_positions b);
          nav = fadd (sb_cash b) mv;
          peak = new_peak (sb_peak_nav b) nav;
          dd = drawdown_of nav peak;
          gross = (if 0 < nav then fdiv mv nav else 0);
          g = (if sx_risk_name spec = RISK_DD_GUARD_V1
               then update_drawdown_guard (spec_guard spec)
                      \<lparr>gs_mode = sb_risk_mode b, gs_cap = sb_exposure_cap b, gs_events = []\<rparr> day nav peak dd
               else \<lparr>gs_mode = sb_risk_mode b, gs_cap = sb_exposure_cap b, gs_events = []\<rparr>)
      in Marked (b\<lparr>sb_peak_nav := peak, sb_risk_mode := gs_mode g, sb_exposure_cap := gs_cap g,
                   sb_last_day := Some day, sb_updated_at := now\<rparr>)
                \<lparr>nr_portfolio = sb_id b, nr_day = day, nr_cash = sb_cash b, nr_market_value = mv, nr_nav = nav, nr_gross = gross,
                 nr_drawdown = dd, nr_peak = peak, nr_count = int (length (held_rows (sb_positions b)))\<rparr>
                (gs_events g))"

section \<open>The day\<close>

record day_result =
  dr_day :: date
  dr_skipped :: bool
  dr_fills :: nat
  dr_blocked :: "int list option"

definition store_nav :: "nav_row \<Rightarrow> nav_row list \<Rightarrow> nav_row list" where
  "store_nav r navs = (if \<exists>x \<in> set navs. nr_portfolio x = nr_portfolio r \<and> nr_day x = nr_day r then navs else navs @ [r])"

definition process_shadow_market_day ::
  "day_market \<Rightarrow> shadow_spec \<Rightarrow> instant \<Rightarrow> int \<Rightarrow> day_world \<Rightarrow> date \<Rightarrow> (day_result \<times> day_world) res" where
  "process_shadow_market_day m spec now pid w day =
     (case find_book (dw_db w) pid of
        None \<Rightarrow> Inl (ValueError ''shadow portfolio not found'')
      | Some b \<Rightarrow>
          if day \<le> instant_date (sb_activated_at b)
          then Inr (\<lparr>dr_day = day, dr_skipped = True, dr_fills = 0, dr_blocked = None\<rparr>,
                    w\<lparr>dw_db := put_shadow_book (b\<lparr>sb_last_day := Some day, sb_updated_at := now\<rparr>) (dw_db w)\<rparr>)
          else
          bnd (apply_ca_for_day (mk_actions m) day (sb_positions b)) (\<lambda>pos.
          bnd (day_fill_pending m spec day now pid (put_shadow_book (b\<lparr>sb_positions := pos\<rparr>) (dw_db w))) (\<lambda>(d, fills).
          (case find_book d pid of
             None \<Rightarrow> Inl (ValueError ''shadow portfolio not found'')
           | Some b2 \<Rightarrow> (case mark_nav m spec day now b2 of
               Blocked missing \<Rightarrow> Inr (\<lparr>dr_day = day, dr_skipped = False, dr_fills = 0, dr_blocked = Some missing\<rparr>, w)
             | Marked b3 row events \<Rightarrow>
                 Inr (\<lparr>dr_day = day, dr_skipped = False, dr_fills = fills, dr_blocked = None\<rparr>,
                      \<lparr>dw_db = put_shadow_book b3 d, dw_navs = store_nav row (dw_navs w),
                       dw_events = dw_events w @ map (Pair pid) events\<rparr>))))))"

text \<open>The days after the watermark, up to the first that is blocked.\<close>

fun advance_days :: "day_market \<Rightarrow> shadow_spec \<Rightarrow> instant \<Rightarrow> int \<Rightarrow> day_world \<Rightarrow> date list \<Rightarrow> (day_result list \<times> day_world) res" where
  "advance_days m spec now pid w [] = Inr ([], w)"
| "advance_days m spec now pid w (day # days) =
     bnd (process_shadow_market_day m spec now pid w day) (\<lambda>(r, w').
     if dr_blocked r \<noteq> None then Inr ([r], w')
     else bnd (advance_days m spec now pid w' days) (\<lambda>(rs, w''). Inr (r # rs, w'')))"

definition refresh_shadow_portfolio_status :: "instant \<Rightarrow> shadow_db \<Rightarrow> shadow_book \<Rightarrow> shadow_book" where
  "refresh_shadow_portfolio_status now d b =
     b\<lparr>sb_status := (if \<exists>o' \<in> set (sd_orders d). so_portfolio o' = sb_id b \<and> so_status o' = PENDING
                      then ''WAITING_FOR_FUTURE_MARKET_OPEN''
                      else if \<exists>f \<in> set (sd_fills d). sf_portfolio f = sb_id b then ''ACTIVE''
                      else if sb_last_decision b \<noteq> None \<and> sb_last_decision b \<noteq> Some 0 then ''DECISION_READY''
                      else sb_status b),
       sb_updated_at := now\<rparr>"

text \<open>Orders left from an earlier decision are cancelled when a new one is made.\<close>

definition cancel_order :: "string \<Rightarrow> instant \<Rightarrow> shadow_order \<Rightarrow> shadow_order" where
  "cancel_order reason ts o' = o'\<lparr>so_status := CANCELLED, so_cancel_reason := Some reason, so_updated_at := ts\<rparr>"

definition cancel_pending_orders :: "int \<Rightarrow> string \<Rightarrow> instant \<Rightarrow> int option \<Rightarrow> shadow_db \<Rightarrow> nat \<times> shadow_db" where
  "cancel_pending_orders pid reason ts except d =
     (let hit = (\<lambda>o'. so_portfolio o' = pid \<and> so_status o' = PENDING \<and> (case except of None \<Rightarrow> True | Some x \<Rightarrow> so_decision o' \<noteq> x))
      in (length (filter hit (sd_orders d)),
          d\<lparr>sd_orders := map (\<lambda>o'. if hit o' then cancel_order reason ts o' else o') (sd_orders d)\<rparr>))"

section \<open>Both execution paths book the same fills\<close>

text \<open>The two paths book a priced order in the same cases, with the same result.\<close>

lemma bookings_agree:
  "(day_buy spec b o' f = Inr (Book b' o2 f') \<longleftrightarrow> book_buy spec b o' f = Inr (Fill b' o2 f')) \<and>
   (day_sell now profiles spec day b o' f = Inr (Book b' o2 f') \<longleftrightarrow> book_sell now profiles spec day b o' f = Inr (Fill b' o2 f')) \<and>
   (day_buy spec b o' f = Inl e \<longleftrightarrow> book_buy spec b o' f = Inl e) \<and>
   (day_sell now profiles spec day b o' f = Inl e \<longleftrightarrow> book_sell now profiles spec day b o' f = Inl e)"
proof (intro conjI)
  have s: "sell_lot_size (b\<lparr>sb_cash := c\<rparr>) o' = sell_lot_size b o'" for c by (simp add: sell_lot_size_def split: option.split)
  show "day_buy spec b o' f = Inr (Book b' o2 f') \<longleftrightarrow> book_buy spec b o' f = Inr (Fill b' o2 f')"
    "day_buy spec b o' f = Inl e \<longleftrightarrow> book_buy spec b o' f = Inl e"
    by (cases "order_lot_size o'"; simp add: day_buy_def book_buy_def Let_def bnd_eq_Inr bnd_eq_Inl)+
  define q where "q = min (hf_quantity f) (position_qty (sb_positions b) (so_instrument o'))"
  show "day_sell now profiles spec day b o' f = Inr (Book b' o2 f') \<longleftrightarrow> book_sell now profiles spec day b o' f = Inr (Fill b' o2 f')"
  proof (cases "sell_commission profiles spec o' day f q")
    case (Inr k)
    then show ?thesis
      by (cases k; cases "sell_lot_size b o'"; simp add: day_sell_def book_sell_def Let_def bnd_eq_Inr s flip: q_def)
  qed (simp add: day_sell_def book_sell_def Let_def flip: q_def)
  show "day_sell now profiles spec day b o' f = Inl e \<longleftrightarrow> book_sell now profiles spec day b o' f = Inl e"
  proof (cases "sell_commission profiles spec o' day f q")
    case (Inr k)
    then show ?thesis
      by (cases k; cases "sell_lot_size b o'"; simp add: day_sell_def book_sell_def Let_def bnd_eq_Inl s flip: q_def)
  qed (simp add: day_sell_def book_sell_def Let_def flip: q_def)
qed

text \<open>They differ without a lot size: the market-day path keeps the order pending and the cash debited.\<close>

theorem unknown_lot_debits_cash:
  assumes "is_lot_aware_spec spec" and "order_lot_size o' = None"
    and "fadd (hf_notional f) (hf_commission f) \<le> fadd (sb_cash b) eps6"
    and "- eps9 \<le> fsub (sb_cash b) (fadd (hf_notional f) (hf_commission f))"
  shows "day_buy spec b o' f = Inr (Keep (b\<lparr>sb_cash := fsub (sb_cash b) (fadd (hf_notional f) (hf_commission f))\<rparr>) o')"
  using assms by (simp add: day_buy_def Let_def)

text \<open>The corporate-action step rewrites every position with its quantity alone, split or not: lots, lot
  size, entry price, cost basis and realised result are lost.\<close>

theorem corporate_action_step_wipes_lots:
  assumes "apply_ca_for_day rows day pos = Inr pos'" and "\<forall>(i, r) \<in> set pos. pw_instrument r = i" and "distinct (map fst pos)"
    and "(i, r) \<in> set pos'"
  shows "pw_lots r = None \<and> pw_lot_size r = None \<and> pw_avg_entry r = None \<and> pw_cost_basis r = None \<and> pw_realized r = None"
proof -
  have fr: "r' = fractional_row j t q \<Longrightarrow> pw_lots r' = None \<and> pw_lot_size r' = None \<and> pw_avg_entry r' = None \<and>
      pw_cost_basis r' = None \<and> pw_realized r' = None" for r' j t q by (simp add: fractional_row_def)
  have upd: "\<And>k v. (k, v) \<in> set (set_fractional_position q j t x) \<Longrightarrow> distinct (map fst q) \<Longrightarrow>
      (k = j \<and> v = fractional_row j t x) \<or> (k \<noteq> j \<and> (k, v) \<in> set q)" for q j t x
  proof -
    fix k v assume m: "(k, v) \<in> set (set_fractional_position q j t x)" and d: "distinct (map fst q)"
    have d': "distinct (map fst (set_fractional_position q j t x))" using d
      by (simp add: set_fractional_position_def distinct_update distinct_delete)
    then have "map_of (set_fractional_position q j t x) k = Some v" using m by simp
    then show "(k = j \<and> v = fractional_row j t x) \<or> (k \<noteq> j \<and> (k, v) \<in> set q)"
      by (auto simp: set_fractional_position_def update_conv' delete_conv' split: if_splits dest: map_of_SomeD)
  qed
  have "distinct (map fst q') \<and> (\<forall>(k, v) \<in> set q'. (k, v) \<in> set q \<and> k \<notin> set (map pw_instrument rs) \<or> (\<exists>t x. v = fractional_row k t x))"
    if "foldM (ca_position rows day) q rs = Inr q'" "distinct (map fst q)" for q q' rs
    using that
  proof (induction rs arbitrary: q)
    case (Cons a rs)
    then obtain q1 where q1: "ca_position rows day q a = Inr q1" "foldM (ca_position rows day) q1 rs = Inr q'"
      by (auto simp: exn_simps)
    from q1(1) obtain as where "q1 = set_fractional_position q (pw_instrument a) (pw_ticker a) (ca_quantity day as (pw_quantity a))"
      by (auto simp: exn_simps ca_position_def)
    with q1 have s: "foldM (ca_position rows day) (set_fractional_position q (pw_instrument a) (pw_ticker a) (ca_quantity day as (pw_quantity a))) rs = Inr q'" by simp
    have d: "distinct (map fst (set_fractional_position q (pw_instrument a) (pw_ticker a) (ca_quantity day as (pw_quantity a))))"
      using Cons.prems(2) by (simp add: set_fractional_position_def distinct_update distinct_delete)
    show ?case using Cons.IH [OF s d] upd [OF _ Cons.prems(2)] by fastforce
  qed auto
  from this [OF assms(1) [unfolded apply_ca_for_day_def] assms(3)] assms(4)
  have "(i, r) \<in> set pos \<and> i \<notin> set (map pw_instrument (map snd pos)) \<or> (\<exists>t x. r = fractional_row i t x)" by blast
  with assms(2) fr show ?thesis by force
qed

section \<open>What the fills of a day keep\<close>

text \<open>The part of a portfolio that fills do not touch.\<close>

definition book_frame :: "shadow_book \<Rightarrow> shadow_book \<Rightarrow> bool" where
  "book_frame b b' \<longleftrightarrow> sb_id b' = sb_id b \<and> sb_peak_nav b' = sb_peak_nav b \<and> sb_risk_mode b' = sb_risk_mode b \<and>
     sb_exposure_cap b' = sb_exposure_cap b \<and> sb_activated_at b' = sb_activated_at b \<and> sb_last_day b' = sb_last_day b"

lemma book_frame_refl [simp]: "book_frame b b"
  by (simp add: book_frame_def)

lemma book_frame_trans: "book_frame a b \<Longrightarrow> book_frame b c \<Longrightarrow> book_frame a c"
  by (simp add: book_frame_def)

lemma day_buy_outcome:
  assumes "day_buy spec b o' f = Inr out"
  shows "case out of Keep b' o2 \<Rightarrow> o2 = o' \<and> book_frame b b' | Book b' o2 f' \<Rightarrow> o2 = o' \<and> book_frame b b'"
  using assms by (cases "order_lot_size o'") (auto simp: day_buy_def Let_def exn_simps book_frame_def split: if_splits)

lemma day_sell_outcome:
  assumes "day_sell now profiles spec day b o' f = Inr out" and "so_status o' = PENDING"
  shows "case out of Keep b' o2 \<Rightarrow> order_step\<^sup>*\<^sup>* o' o2 \<and> so_status o2 \<noteq> FILLED \<and> book_frame b b' | Book b' o2 f' \<Rightarrow> o2 = o' \<and> book_frame b b'"
proof -
  have "o'\<lparr>so_status := CANCELLED, so_updated_at := now\<rparr> =
      o'\<lparr>so_status := CANCELLED, so_cancel_reason := so_cancel_reason o', so_updated_at := now\<rparr>" by (cases o') simp
  then have "order_step o' (o'\<lparr>so_status := CANCELLED, so_updated_at := now\<rparr>)"
    using order_step.cancel [where o' = o' and r = "so_cancel_reason o'" and t = now] assms(2) by simp
  then have c: "order_step\<^sup>*\<^sup>* o' (o'\<lparr>so_status := CANCELLED, so_updated_at := now\<rparr>)" by blast
  have l: "order_step\<^sup>*\<^sup>* o' (limit_order now o')" using order_step.annotate [OF assms(2)] by blast
  define q where "q = min (hf_quantity f) (position_qty (sb_positions b) (so_instrument o'))"
  show ?thesis
  proof (cases "q \<le> 0")
    case True
    with assms c show ?thesis by (auto simp: day_sell_def Let_def q_def order_status)
  next
    case False
    with assms(1) obtain k where k: "sell_commission profiles spec o' day f q = Inr k"
      by (auto simp: day_sell_def Let_def q_def exn_simps)
    show ?thesis
    proof (cases k)
      case None
      with assms False k l show ?thesis
        by (auto simp: day_sell_def Let_def limit_order_def order_status simp flip: q_def)
    next
      case (Some comm)
      have s: "sell_lot_size (b\<lparr>sb_cash := c\<rparr>) o' = sell_lot_size b o'" for c by (simp add: sell_lot_size_def split: option.split)
      show ?thesis
        using assms False k Some
        by (cases "is_lot_aware_spec spec"; cases "sell_lot_size b o'")
          (auto simp: day_sell_def Let_def exn_simps order_status book_frame_def s simp flip: q_def)
    qed
  qed
qed

lemma day_fill_one_cases [consumes 2]:
  assumes r: "day_fill_one m spec day now pid run i = Inr run'" and p: "\<forall>x. find_order (fst run) i = Some x \<longrightarrow> so_status x = PENDING"
  obtains (same) "run' = run"
  | (keep) o1 o2 b0 b where "find_order (fst run) i = Some o1" "find_book (fst run) pid = Some b0" "book_frame b0 b" "order_step\<^sup>*\<^sup>* o1 o2"
      "so_status o2 \<noteq> FILLED" "fst run' = put_shadow_book b (put_order o2 (fst run))"
  | (again) o1 b0 b x where "find_order (fst run) i = Some o1" "find_book (fst run) pid = Some b0" "book_frame b0 b"
      "x \<in> set (sd_fills (fst run))" "sf_order x = so_id o1" "fst run' = put_shadow_book b (fst run)"
  | (fill) o1 b0 b f where "find_order (fst run) i = Some o1" "find_book (fst run) pid = Some b0" "book_frame b0 b"
      "\<not> (\<exists>x \<in> set (sd_fills (fst run)). sf_order x = i)"
      "so_min_execution_date o1 \<le> day" "is_execution_date_eligible (so_decision_at o1) day = Inr True"
      "fst run' = put_shadow_book b (put_order (o1\<lparr>so_status := FILLED, so_execution_date := Some day, so_updated_at := now\<rparr>) (fst run)
          \<lparr>sd_fills := sd_fills (fst run) @ [fill_row b o1 f day now]\<rparr>)"
proof (cases "find_order (fst run) i")
  case None
  with r show thesis by (intro same) (simp add: day_fill_one_def)
next
  case (Some o1)
  note o1 = Some
  have pe: "so_status o1 = PENDING" using p o1 by blast
  have oi: "so_id o1 = i" using find_orderD [OF o1] by simp
  have lim: "order_step\<^sup>*\<^sup>* o1 (limit_order now o1)" "so_status (limit_order now o1) \<noteq> FILLED"
    using order_step.annotate [OF pe] pe by (auto simp: limit_order_def order_status)
  show thesis
  proof (cases "find_book (fst run) pid")
    case None
    with r o1 show thesis by (intro same) (simp add: day_fill_one_def)
  next
    case (Some b0)
    note b0 = Some
    from r o1 b0 obtain ok where ok: "is_execution_date_eligible (so_decision_at o1) day = Inr ok"
      by (auto simp: day_fill_one_def exn_simps)
    show thesis
    proof (cases "\<not> ok \<or> day < so_min_execution_date o1")
      case True
      with r o1 b0 ok show thesis by (intro same) (simp add: day_fill_one_def)
    next
      case False
      with r o1 b0 ok obtain pr where
        pr: "price_fill (sd_profiles (fst run)) spec o1 day (map_option fst (candle_open_close m (so_instrument o1) day)) = Inr pr"
        by (auto simp: day_fill_one_def exn_simps)
      show thesis
      proof (cases pr)
        case NoOpen
        with r o1 b0 ok False pr show thesis by (intro same) (simp add: day_fill_one_def)
      next
        case FeeUnknown
        with r o1 b0 ok False pr show thesis
          by (intro keep [OF o1 b0 _ lim, of b0]) (simp_all add: day_fill_one_def day_settle_def case_prod_unfold, metis prod.collapse fst_conv)
      next
        case (Priced f)
        with r o1 b0 ok False pr obtain out where
          out: "(if so_side o1 = ''BUY'' then day_buy spec b0 o1 f else day_sell now (sd_profiles (fst run)) spec day b0 o1 f) = Inr out"
          and rr: "run' = day_settle now day run out"
          by (auto simp: day_fill_one_def exn_simps)
        have oo: "case out of Keep b' o2 \<Rightarrow> order_step\<^sup>*\<^sup>* o1 o2 \<and> so_status o2 \<noteq> FILLED \<and> book_frame b0 b' | Book b' o2 f' \<Rightarrow> o2 = o1 \<and> book_frame b0 b'"
          using out day_buy_outcome [of spec b0 o1 f out] day_sell_outcome [OF _ pe] pe
          by (cases out) (fastforce split: if_splits simp: order_status)+
        show thesis
        proof (cases out)
          case (Keep b o2)
          with oo rr show thesis by (intro keep [OF o1 b0, of b o2]) (auto simp: day_settle_def case_prod_unfold)
        next
          case (Book b o2 f')
          show thesis
          proof (cases "\<exists>x \<in> set (sd_fills (fst run)). sf_order x = so_id o1")
            case True
            with Book oo rr show thesis by (auto intro!: again [OF o1 b0, of b] simp: day_settle_def case_prod_unfold)
          next
            case nf: False
            with Book oo rr oi ok False show thesis
              by (intro fill [OF o1 b0, of b f']) (auto simp: day_settle_def case_prod_unfold)
          qed
        qed
      qed
    qed
  qed
qed

lemma find_order_put_other: "j \<noteq> so_id o2 \<Longrightarrow> find_order (put_order o2 d) j = find_order d j"
proof -
  assume j: "j \<noteq> so_id o2"
  have "List.find (\<lambda>o'. so_id o' = j) (map (\<lambda>x. if so_id x = so_id o2 then o2 else x) xs) = List.find (\<lambda>o'. so_id o' = j) xs" for xs
    using j by (induction xs) auto
  then show ?thesis by (simp add: find_order_def put_order_def)
qed

lemma find_order_put_book [simp]: "find_order (put_shadow_book b d) j = find_order d j"
  by (simp add: find_order_def)

lemma find_book_put: "find_book d p = Some b0 \<Longrightarrow> sb_id b = p \<Longrightarrow> find_book (put_shadow_book b d) p = Some b"
proof -
  assume "find_book d p = Some b0" "sb_id b = p"
  moreover have "List.find (\<lambda>x. sb_id x = p) xs = Some b0 \<Longrightarrow> sb_id b = p \<Longrightarrow>
      List.find (\<lambda>x. sb_id x = p) (map (\<lambda>x. if sb_id x = sb_id b then b else x) xs) = Some b" for xs
    by (induction xs) (auto split: if_splits)
  ultimately show ?thesis by (simp add: find_book_def put_shadow_book_def)
qed

lemma find_book_put_order [simp]: "find_book (put_order o' d) p = find_book d p" "find_book (d\<lparr>sd_fills := fs\<rparr>) p = find_book d p"
  by (simp_all add: find_book_def)

lemma order_step_origin: "order_step\<^sup>*\<^sup>* o1 o2 \<Longrightarrow> so_decision_at o2 = so_decision_at o1"
  by (induction rule: rtranclp_induct) (auto elim!: order_stepE simp: limit_order_def)

lemma eligible_after_decision: "is_execution_date_eligible t day = Inr True \<Longrightarrow> instant_date t < day"
  by (auto simp: is_execution_date_eligible_def min_execution_market_date_def add_days_Inr exn_simps less_date_def less_eq_date_def)

text \<open>A fill of the day belongs to a pending order of the portfolio that was decided on an earlier date.\<close>

definition day_justified :: "date \<Rightarrow> int \<Rightarrow> shadow_db \<Rightarrow> shadow_fill \<Rightarrow> bool" where
  "day_justified day pid d f \<longleftrightarrow> sf_execution_date f = day \<and> sf_portfolio f = pid \<and>
     (\<exists>o' \<in> set (sd_orders d). so_id o' = sf_order f \<and> so_portfolio o' = pid \<and> so_status o' = PENDING \<and>
       so_instrument o' = sf_instrument f \<and> so_side o' = sf_side f \<and>
       so_min_execution_date o' \<le> day \<and> instant_date (so_decision_at o') < day)"

definition day_run_inv :: "date \<Rightarrow> int \<Rightarrow> shadow_book \<Rightarrow> shadow_db \<Rightarrow> int list \<Rightarrow> shadow_db \<Rightarrow> bool" where
  "day_run_inv day pid b0 d0 rest d \<longleftrightarrow> fills_match d \<and> orders_step d0 d \<and>
     (\<exists>b. find_book d pid = Some b \<and> book_frame b0 b) \<and>
     (\<forall>i \<in> set rest. \<forall>x. find_order d i = Some x \<longrightarrow> so_status x = PENDING \<and> so_portfolio x = pid) \<and>
     (\<exists>new. sd_fills d = sd_fills d0 @ new \<and> (\<forall>f \<in> set new. day_justified day pid d0 f))"

lemma day_run_inv_step:
  assumes I: "day_run_inv day pid b0 d0 (i # rest) (fst run)" and i: "i \<notin> set rest"
    and r: "day_fill_one m spec day now pid run i = Inr run'"
  shows "day_run_inv day pid b0 d0 rest (fst run')"
proof -
  define d where "d = fst run"
  obtain new bb where m: "fills_match d" and os: "orders_step d0 d" and bb: "find_book d pid = Some bb" "book_frame b0 bb"
    and fl: "sd_fills d = sd_fills d0 @ new" and ju: "\<forall>f \<in> set new. day_justified day pid d0 f"
    using I by (auto simp: day_run_inv_def d_def)
  have pe: "so_status x = PENDING" "so_portfolio x = pid" if "j \<in> set (i # rest)" "find_order d j = Some x" for j x
    using I that unfolding day_run_inv_def d_def by blast+
  have waiting: "\<forall>j \<in> set rest. \<forall>x. find_order d j = Some x \<longrightarrow> so_status x = PENDING \<and> so_portfolio x = pid"
    using pe by (metis list.set_intros(2))
  have id: "sb_id bb = pid" using find_bookD [OF bb(1)] by simp
  have inv: "day_run_inv day pid b0 d0 rest d'" if "fills_match d'" "orders_step d d'" "find_book d' pid = Some b" "book_frame bb b"
      "\<And>j. j \<in> set rest \<Longrightarrow> find_order d' j = find_order d j" "sd_fills d' = sd_fills d0 @ new'" "\<forall>f \<in> set new'. day_justified day pid d0 f"
    for d' b new'
    using that waiting orders_step_trans [OF os] book_frame_trans [OF bb(2)] unfolding day_run_inv_def by auto
  have pi: "\<forall>x. find_order (fst run) i = Some x \<longrightarrow> so_status x = PENDING"
    using pe(1) [of i] by (simp add: d_def)
  from r pi show ?thesis
  proof (cases rule: day_fill_one_cases)
    case same
    then show ?thesis using I by (auto simp: day_run_inv_def)
  next
    case (keep o1 o2 b0' b)
    note k = keep [folded d_def]
    have o1: "so_id o1 = i" "so_status o1 = PENDING" using find_orderD [OF k(1)] pe(1) [OF _ k(1)] by auto
    have o2: "so_id o2 = i" using order_step_id [OF k(4)] o1 by simp
    have b: "sb_id b = pid" "book_frame bb b" "b0' = bb" using k(2,3) bb id by (auto simp: book_frame_def)
    show ?thesis unfolding k(6)
    proof (rule inv [where b = b and new' = new])
      show "fills_match (put_shadow_book b (put_order o2 d))" by (rule fills_match_skip [OF m k(1) o1(2) k(4,5)])
      show "orders_step d (put_shadow_book b (put_order o2 d))"
        using orders_step_put [OF k(4,1) fills_match_id [OF m]] by (simp add: orders_step_def)
      show "find_book (put_shadow_book b (put_order o2 d)) pid = Some b" using bb b by (intro find_book_put) auto
      show "find_order (put_shadow_book b (put_order o2 d)) j = find_order d j" if "j \<in> set rest" for j
      proof -
        have "j \<noteq> so_id o2" using that i o2 by blast
        then show ?thesis by (simp add: find_order_put_other)
      qed
    qed (use b fl ju in auto)
  next
    case (again o1 b0' b x)
    note k = again [folded d_def]
    have "so_id o1 \<in> sf_order ` set (sd_fills d)" using k(4,5) by force
    moreover have "so_status o1 = PENDING" "o1 \<in> set (sd_orders d)" using pe [OF _ k(1)] find_orderD [OF k(1)] by auto
    ultimately show ?thesis using m by (auto simp: fills_match_def order_status)
  next
    case (fill o1 b0' b f)
    note k = fill [folded d_def]
    define row where "row = fill_row b o1 f day now"
    define o2 where "o2 = o1\<lparr>so_status := FILLED, so_execution_date := Some day, so_updated_at := now\<rparr>"
    have o1: "so_id o1 = i" "so_status o1 = PENDING" "o1 \<in> set (sd_orders d)" using find_orderD [OF k(1)] pe(1) [OF _ k(1)] by auto
    have b: "sb_id b = pid" "book_frame bb b" "b0' = bb" using k(2,3) bb id by (auto simp: book_frame_def)
    have st: "order_step\<^sup>*\<^sup>* o1 o2" using order_step.fill [OF o1(2), where d = day and t = now] by (auto simp: o2_def)
    have e: "fst run' = put_shadow_book b (put_order o2 d\<lparr>sd_fills := sd_fills d @ [row]\<rparr>)" using k(7) by (simp add: o2_def row_def)
    have row: "sf_order row = i" "sf_execution_date row = day" "sf_portfolio row = pid"
      "sf_instrument row = so_instrument o1" "sf_side row = so_side o1" using o1 b by (simp_all add: row_def fill_row_def)
    have own: "so_portfolio o1 = pid" using pe(2) [OF _ k(1)] by simp
    obtain o0 where o0: "o0 \<in> set (sd_orders d0)" "order_step\<^sup>*\<^sup>* o0 o1"
      using list_all2_right_member [OF os [unfolded orders_step_def] o1(3)] by blast
    have "so_status o0 = PENDING" using order_step_final [OF o0(2)] o1(2) by blast
    then have "day_justified day pid d0 row"
      using o0 row own k(5) eligible_after_decision [OF k(6)] order_step_id [OF o0(2)] order_step_origin [OF o0(2)] o1
      unfolding day_justified_def by (intro conjI bexI [of _ o0]) auto
    moreover have "fills_match (fst run')" unfolding e by (rule fills_match_fill [OF m k(1,4)]) (simp_all add: o2_def row o1)
    moreover have "orders_step d (put_order o2 d)" by (rule orders_step_put [OF st k(1) fills_match_id [OF m]])
    then have "orders_step d (fst run')" by (simp add: orders_step_def e put_shadow_book_def)
    moreover have "find_book (fst run') pid = Some b" unfolding e using bb b by (intro find_book_put) (auto simp: find_book_def)
    moreover have "find_order (fst run') j = find_order d j" if "j \<in> set rest" for j
    proof -
      have "find_order (put_order o2 d) j = find_order d j" using that i o1 by (intro find_order_put_other) (auto simp: o2_def)
      then show ?thesis by (simp add: e find_order_def)
    qed
    moreover have "sd_fills (fst run') = sd_fills d0 @ new @ [row]" using fl by (simp add: e put_shadow_book_def)
    ultimately show ?thesis using b ju by (intro inv [where b = b and new' = "new @ [row]"]) auto
  qed
qed

lemma day_run_inv_all:
  "foldM (day_fill_one m spec day now pid) run is = Inr run' \<Longrightarrow> distinct is \<Longrightarrow>
    day_run_inv day pid b0 d0 is (fst run) \<Longrightarrow> day_run_inv day pid b0 d0 [] (fst run')"
proof (induction "is" arbitrary: run)
  case (Cons i "is")
  then obtain r1 where "day_fill_one m spec day now pid run i = Inr r1" "foldM (day_fill_one m spec day now pid) r1 is = Inr run'"
    by (auto simp: exn_simps)
  with Cons day_run_inv_step show ?case by (metis distinct.simps(2))
qed simp

lemma day_fill_pending_inv:
  assumes f: "day_fill_pending m spec day now pid d = Inr (d', n)" and m: "fills_match d" and b: "find_book d pid = Some b0"
  shows "day_run_inv day pid b0 d [] d'"
proof -
  have i: "distinct (map so_id (sd_orders d))" by (rule fills_match_id [OF m])
  have dis: "distinct (day_pending_ids pid d)"
    using i by (simp add: day_pending_ids_def distinct_map inj_on_def)
  have "so_status x = PENDING \<and> so_portfolio x = pid" if "j \<in> set (day_pending_ids pid d)" "find_order d j = Some x" for j x
  proof -
    note h = that
    obtain y where "y \<in> set (sd_orders d)" "so_id y = j" "so_status y = PENDING \<and> so_portfolio y = pid" using h(1) by (auto simp: day_pending_ids_def)
    moreover have "x \<in> set (sd_orders d)" "so_id x = j" using find_orderD [OF h(2)] by auto
    ultimately show ?thesis using i by (metis distinct_map inj_onD)
  qed
  then have "day_run_inv day pid b0 d (day_pending_ids pid d) d"
    using m b unfolding day_run_inv_def by auto
  with day_run_inv_all [OF f [unfolded day_fill_pending_def] dis] show ?thesis by simp
qed

section \<open>What a day leaves\<close>

lemma drawdown_nonpos: "nav \<le> peak \<Longrightarrow> drawdown_of nav peak \<le> 0"
proof -
  assume "nav \<le> peak"
  then have "fdiv nav peak \<le> 1" if "0 < peak" using that by (simp add: fdiv_def fl_le_1)
  then show ?thesis by (auto simp: drawdown_of_def fsub_def intro!: fl_nonpos)
qed

definition nav_sound :: "nav_row \<Rightarrow> bool" where
  "nav_sound r \<longleftrightarrow> nr_nav r = fadd (nr_cash r) (nr_market_value r) \<and> nr_nav r \<le> nr_peak r \<and> nr_drawdown r \<le> 0"

lemma mark_nav_facts:
  assumes "mark_nav m spec day now b = Marked b3 row events"
  shows "missing_closes m day (sb_positions b) = [] \<and> nav_sound row \<and> nr_portfolio row = sb_id b \<and> nr_day row = day \<and>
    nr_market_value row = market_value m day (sb_positions b) \<and>
    nr_cash row = sb_cash b \<and> sb_id b3 = sb_id b \<and> sb_activated_at b3 = sb_activated_at b \<and> sb_last_day b3 = Some day \<and>
    nr_nav row \<le> sb_peak_nav b3 \<and> (0 < sb_peak_nav b \<longrightarrow> sb_peak_nav b \<le> sb_peak_nav b3) \<and>
    mode_path (sb_risk_mode b) events = Some (sb_risk_mode b3)"
proof -
  define nav where "nav = fadd (sb_cash b) (market_value m day (sb_positions b))"
  define peak where "peak = new_peak (sb_peak_nav b) nav"
  define g where "g = (if sx_risk_name spec = RISK_DD_GUARD_V1
     then update_drawdown_guard (spec_guard spec) \<lparr>gs_mode = sb_risk_mode b, gs_cap = sb_exposure_cap b, gs_events = []\<rparr> day nav peak
       (drawdown_of nav peak)
     else \<lparr>gs_mode = sb_risk_mode b, gs_cap = sb_exposure_cap b, gs_events = []\<rparr>)"
  have pk: "nav \<le> peak" "0 < sb_peak_nav b \<longrightarrow> sb_peak_nav b \<le> peak" by (auto simp: peak_def new_peak_def)
  have g: "mode_path (sb_risk_mode b) (gs_events g) = Some (gs_mode g)"
    unfolding g_def by (auto simp: update_drawdown_guard_def guard_move_def guard_modes)
  have mc: "missing_closes m day (sb_positions b) = []" using assms by (simp add: mark_nav_def Let_def split: if_splits)
  with assms have "b3 = b\<lparr>sb_peak_nav := peak, sb_risk_mode := gs_mode g, sb_exposure_cap := gs_cap g, sb_last_day := Some day, sb_updated_at := now\<rparr>"
    "row = \<lparr>nr_portfolio = sb_id b, nr_day = day, nr_cash = sb_cash b, nr_market_value = market_value m day (sb_positions b), nr_nav = nav,
       nr_gross = (if 0 < nav then fdiv (market_value m day (sb_positions b)) nav else 0), nr_drawdown = drawdown_of nav peak, nr_peak = peak,
       nr_count = int (length (held_rows (sb_positions b)))\<rparr>" "events = gs_events g"
    unfolding mark_nav_def Let_def nav_def [symmetric] peak_def [symmetric] g_def [symmetric] by simp_all
  then show ?thesis using pk g mc drawdown_nonpos [OF pk(1)] by (simp add: nav_sound_def nav_def)
qed

text \<open>The state of a day after its corporate actions and fills, before it is marked; and the names held then that
  have no candle on the day.\<close>

definition reached :: "day_market \<Rightarrow> shadow_spec \<Rightarrow> instant \<Rightarrow> int \<Rightarrow> day_world \<Rightarrow> date \<Rightarrow> shadow_db \<Rightarrow> shadow_book \<Rightarrow> bool" where
  "reached m spec now pid w day d b \<longleftrightarrow> (\<exists>b0 pos n. find_book (dw_db w) pid = Some b0 \<and> instant_date (sb_activated_at b0) < day \<and>
     apply_ca_for_day (mk_actions m) day (sb_positions b0) = Inr pos \<and>
     day_fill_pending m spec day now pid (put_shadow_book (b0\<lparr>sb_positions := pos\<rparr>) (dw_db w)) = Inr (d, n) \<and>
     find_book d pid = Some b)"

definition unpriced :: "day_market \<Rightarrow> date \<Rightarrow> shadow_book \<Rightarrow> int set" where
  "unpriced m day b = pw_instrument ` {r \<in> snd ` set (sb_positions b). eps12 \<le> \<bar>pw_quantity r\<bar> \<and>
     (\<forall>c \<in> set (mk_candles m). cd_instrument c = pw_instrument r \<longrightarrow> cd_day c \<noteq> day)}"

lemma missing_unpriced: "set (missing_closes m day (sb_positions b)) = unpriced m day b"
proof -
  have "close_of m day i = None \<longleftrightarrow> (\<forall>c \<in> set (mk_candles m). cd_instrument c = i \<longrightarrow> cd_day c \<noteq> day)" for i
    by (auto simp: close_of_def candle_open_close_def find_None_iff)
  then show ?thesis by (auto simp: missing_closes_def held_rows_def unpriced_def)
qed

lemma mark_nav_blocked:
  "mark_nav m spec day now b = Blocked missing \<longleftrightarrow> unpriced m day b \<noteq> {} \<and> missing = sorted_list_of_set (unpriced m day b)"
proof -
  have "unpriced m day b \<noteq> {} \<longleftrightarrow> missing_closes m day (sb_positions b) \<noteq> []"
    unfolding missing_unpriced [symmetric] by simp
  then show ?thesis unfolding missing_unpriced [symmetric]
    by (auto simp: mark_nav_def Let_def sorted_list_of_set_sort_remdups)
qed

lemma process_day_cases [consumes 1]:
  assumes p: "process_shadow_market_day m spec now pid w day = Inr (r, w')"
  obtains (skipped) b where "find_book (dw_db w) pid = Some b" "day \<le> instant_date (sb_activated_at b)" "dr_skipped r" "dr_blocked r = None"
      "w' = w\<lparr>dw_db := put_shadow_book (b\<lparr>sb_last_day := Some day, sb_updated_at := now\<rparr>) (dw_db w)\<rparr>" "dr_day r = day"
  | (blocked) missing d b where "dr_blocked r = Some missing" "\<not> dr_skipped r" "w' = w" "dr_day r = day" "dr_fills r = 0"
      "reached m spec now pid w day d b" "mark_nav m spec day now b = Blocked missing"
  | (marked) b pos d fills b2 b3 row events where "find_book (dw_db w) pid = Some b" "\<not> dr_skipped r" "dr_blocked r = None"
      "apply_ca_for_day (mk_actions m) day (sb_positions b) = Inr pos"
      "day_fill_pending m spec day now pid (put_shadow_book (b\<lparr>sb_positions := pos\<rparr>) (dw_db w)) = Inr (d, fills)"
      "find_book d pid = Some b2" "mark_nav m spec day now b2 = Marked b3 row events"
      "w' = \<lparr>dw_db = put_shadow_book b3 d, dw_navs = store_nav row (dw_navs w), dw_events = dw_events w @ map (Pair pid) events\<rparr>" "dr_day r = day"
      "reached m spec now pid w day d b2"
proof (cases "find_book (dw_db w) pid")
  case None
  with p show thesis by (simp add: process_shadow_market_day_def)
next
  case (Some b)
  show thesis
  proof (cases "day \<le> instant_date (sb_activated_at b)")
    case True
    with Some p show thesis by (intro skipped [of b]) (auto simp: process_shadow_market_day_def)
  next
    case False
    with Some p obtain pos d fills where
      a: "apply_ca_for_day (mk_actions m) day (sb_positions b) = Inr pos"
      and f: "day_fill_pending m spec day now pid (put_shadow_book (b\<lparr>sb_positions := pos\<rparr>) (dw_db w)) = Inr (d, fills)"
      by (auto simp: process_shadow_market_day_def exn_simps)
    with Some p False obtain b2 where b2: "find_book d pid = Some b2"
      by (cases "find_book d pid") (auto simp: process_shadow_market_day_def exn_simps)
    have rd: "reached m spec now pid w day d b2"
      using Some False a f b2 unfolding reached_def by (intro exI [of _ b] exI [of _ pos] exI [of _ fills]) auto
    show thesis
    proof (cases "mark_nav m spec day now b2")
      case (Blocked missing)
      with p Some False a f b2 show thesis
        by (intro blocked [OF _ _ _ _ _ rd Blocked]) (auto simp: process_shadow_market_day_def)
    next
      case (Marked b3 row events)
      with p Some False a f b2 show thesis
        by (intro marked [OF Some _ _ a f b2 Marked _ _ rd]) (auto simp: process_shadow_market_day_def)
    qed
  qed
qed

lemma process_day_date: "process_shadow_market_day m spec now pid w day = Inr (r, w') \<Longrightarrow> dr_day r = day"
  by (cases rule: process_day_cases) auto

definition nav_key :: "nav_row \<Rightarrow> int \<times> date" where
  "nav_key r = (nr_portfolio r, nr_day r)"

definition events_of :: "int \<Rightarrow> day_world \<Rightarrow> guard_event list" where
  "events_of pid w = map snd (filter (\<lambda>e. fst e = pid) (dw_events w))"

text \<open>The invariant of a portfolio and its history.\<close>

definition day_inv :: "int \<Rightarrow> day_world \<Rightarrow> bool" where
  "day_inv pid w \<longleftrightarrow> fills_match (dw_db w) \<and> distinct (map nav_key (dw_navs w)) \<and>
     (\<forall>r \<in> set (dw_navs w). nav_sound r) \<and>
     (\<exists>b. find_book (dw_db w) pid = Some b \<and> 0 < sb_peak_nav b \<and> mode_path NORMAL (events_of pid w) = Some (sb_risk_mode b) \<and>
       (\<forall>r \<in> set (dw_navs w). nr_portfolio r = pid \<longrightarrow> nr_nav r \<le> sb_peak_nav b))"

lemma store_nav_set: "set (store_nav r navs) \<subseteq> insert r (set navs)"
  by (auto simp: store_nav_def)

lemma store_nav_key: "nav_key r \<in> nav_key ` set (store_nav r navs)"
  by (auto simp: store_nav_def nav_key_def image_iff) metis

lemma store_nav_mono: "set navs \<subseteq> set (store_nav r navs)"
  by (auto simp: store_nav_def)

lemma fills_match_book [simp]: "fills_match (put_shadow_book b d) = fills_match d"
  by (simp add: fills_match_def)

lemma process_day_inv:
  assumes p: "process_shadow_market_day m spec now pid w day = Inr (r, w')" and I: "day_inv pid w"
  shows "day_inv pid w'"
proof -
  obtain b where m: "fills_match (dw_db w)" and nk: "distinct (map nav_key (dw_navs w))"
    and ns: "\<forall>r \<in> set (dw_navs w). nav_sound r" and b: "find_book (dw_db w) pid = Some b" "0 < sb_peak_nav b"
    and ev: "mode_path NORMAL (events_of pid w) = Some (sb_risk_mode b)"
    and le: "\<forall>r \<in> set (dw_navs w). nr_portfolio r = pid \<longrightarrow> nr_nav r \<le> sb_peak_nav b"
    using I by (auto simp: day_inv_def)
  have id: "sb_id b = pid" using find_bookD [OF b(1)] by simp
  from p show ?thesis
  proof (cases rule: process_day_cases)
    case (skipped b')
    have "find_book (dw_db w') pid = Some (b\<lparr>sb_last_day := Some day, sb_updated_at := now\<rparr>)"
      using skipped b id by (auto intro!: find_book_put)
    then show ?thesis using skipped m nk ns b ev le by (auto simp: day_inv_def events_of_def)
  next
    case (blocked missing)
    with I show ?thesis by simp
  next
    case (marked b' pos d fills b2 b3 row events)
    define b1 where "b1 = b\<lparr>sb_positions := pos\<rparr>"
    have b': "b' = b" using marked(1) b by simp
    have f1: "find_book (put_shadow_book b1 (dw_db w)) pid = Some b1"
      using b id by (intro find_book_put [OF b(1)]) (simp add: b1_def)
    have R: "day_run_inv day pid b1 (put_shadow_book b1 (dw_db w)) [] d"
      using day_fill_pending_inv [OF marked(5) [unfolded b', folded b1_def] _ f1] m by simp
    then have fr: "book_frame b1 b2" and fm: "fills_match d" using marked(6) by (auto simp: day_run_inv_def)
    have id2: "sb_id b2 = pid" using find_bookD [OF marked(6)] by simp
    note M = mark_nav_facts [OF marked(7)]
    have b3: "find_book (dw_db w') pid = Some b3"
      using marked(6,8) M id2 by (auto intro!: find_book_put)
    have pk: "sb_peak_nav b \<le> sb_peak_nav b3" using M fr b(2) by (auto simp: book_frame_def b1_def)
    have "distinct (map nav_key (dw_navs w'))"
      using nk marked(8) by (auto simp: store_nav_def nav_key_def)
    moreover have "\<forall>r \<in> set (dw_navs w'). nav_sound r \<and> (nr_portfolio r = pid \<longrightarrow> nr_nav r \<le> sb_peak_nav b3)"
    proof
      fix x assume "x \<in> set (dw_navs w')"
      then consider "x = row" | "x \<in> set (dw_navs w)" using store_nav_set [of row "dw_navs w"] marked(8) by auto
      then show "nav_sound x \<and> (nr_portfolio x = pid \<longrightarrow> nr_nav x \<le> sb_peak_nav b3)"
        using M ns le pk order_trans [OF _ pk] by cases auto
    qed
    moreover have "events_of pid w' = events_of pid w @ events"
      using marked(8) by (simp add: events_of_def filter_map comp_def)
    then have "mode_path NORMAL (events_of pid w') = Some (sb_risk_mode b3)"
      using ev M fr by (simp add: mode_path_append book_frame_def b1_def)
    moreover have "fills_match (dw_db w')" using fm marked(8) by simp
    ultimately show ?thesis using b3 pk b(2) unfolding day_inv_def by (auto intro: less_le_trans)
  qed
qed

lemma advance_days_inv:
  "advance_days m spec now pid w days = Inr (rs, w') \<Longrightarrow> day_inv pid w \<Longrightarrow> day_inv pid w'"
proof (induction days arbitrary: w rs)
  case (Cons day days)
  then obtain r w1 where "process_shadow_market_day m spec now pid w day = Inr (r, w1)"
    "dr_blocked r \<noteq> None \<and> w' = w1 \<or> (\<exists>rs'. advance_days m spec now pid w1 days = Inr (rs', w'))"
    by (auto simp: exn_simps split: if_splits)
  with Cons process_day_inv show ?case by blast
qed simp

text \<open>What a sequence of days leaves: results in order, a block only at the end.\<close>

definition days_done :: "day_result list \<Rightarrow> date list" where
  "days_done rs = map dr_day (filter (\<lambda>r. dr_blocked r = None) rs)"

lemma process_day_unblocked:
  assumes p: "process_shadow_market_day m spec now pid w day = Inr (r, w')" and u: "dr_blocked r = None" and I: "day_inv pid w"
  shows "(\<exists>b. find_book (dw_db w') pid = Some b \<and> sb_last_day b = Some day) \<and> set (dw_navs w) \<subseteq> set (dw_navs w') \<and>
    (\<not> dr_skipped r \<longrightarrow> (pid, day) \<in> nav_key ` set (dw_navs w'))"
  using p
proof (cases rule: process_day_cases)
  case (skipped b)
  then have "find_book (dw_db w') pid = Some (b\<lparr>sb_last_day := Some day, sb_updated_at := now\<rparr>)"
    using find_bookD [OF skipped(1)] by (auto intro!: find_book_put)
  with skipped show ?thesis by simp
next
  case (blocked missing)
  with u show ?thesis by simp
next
  case (marked b pos d fills b2 b3 row events)
  note M = mark_nav_facts [OF marked(7)]
  have id2: "sb_id b2 = pid" using find_bookD [OF marked(6)] by simp
  have b3: "find_book (dw_db w') pid = Some b3" using marked(6,8) M id2 by (auto intro!: find_book_put)
  have k: "nav_key row = (pid, day)" using M id2 by (simp add: nav_key_def)
  show ?thesis using b3 M marked(8) store_nav_key [of row "dw_navs w"] store_nav_mono [of "dw_navs w" row] k by simp
qed

lemma advance_days_done:
  assumes "advance_days m spec now pid w days = Inr (rs, w')" and "day_inv pid w"
  shows "(\<exists>rest. days = days_done rs @ rest \<and> (rest = [] \<longleftrightarrow> (\<forall>r \<in> set rs. dr_blocked r = None))) \<and>
    set (dw_navs w) \<subseteq> set (dw_navs w') \<and>
    (if days_done rs = [] then w' = w else \<exists>b. find_book (dw_db w') pid = Some b \<and> sb_last_day b = Some (last (days_done rs))) \<and>
    (\<forall>r \<in> set rs. dr_blocked r = None \<and> \<not> dr_skipped r \<longrightarrow> (pid, dr_day r) \<in> nav_key ` set (dw_navs w'))"
  using assms
proof (induction days arbitrary: w rs)
  case Nil
  then show ?case by (simp add: days_done_def)
next
  case (Cons day days)
  then obtain r w1 where p: "process_shadow_market_day m spec now pid w day = Inr (r, w1)" by (auto simp: exn_simps)
  show ?case
  proof (cases "dr_blocked r")
    case (Some missing)
    with p have "w1 = w" by (cases rule: process_day_cases) auto
    with Cons p Some show ?thesis by (auto simp: days_done_def)
  next
    case None
    with Cons p obtain rs' where a: "advance_days m spec now pid w1 days = Inr (rs', w')" and rs: "rs = r # rs'"
      by (auto simp: exn_simps)
    note IH = Cons.IH [OF a process_day_inv [OF p Cons.prems(2)]]
    have d: "days_done rs = day # days_done rs'" using None process_day_date [OF p] by (simp add: rs days_done_def)
    note U = process_day_unblocked [OF p None Cons.prems(2)]
    obtain rest where "days = days_done rs' @ rest" "rest = [] \<longleftrightarrow> (\<forall>r \<in> set rs'. dr_blocked r = None)" using IH by blast
    then have 1: "\<exists>rest. day # days = days_done rs @ rest \<and> (rest = [] \<longleftrightarrow> (\<forall>r \<in> set rs. dr_blocked r = None))"
      using None by (intro exI [of _ rest]) (simp add: d, simp add: rs)
    have 2: "set (dw_navs w) \<subseteq> set (dw_navs w')" using U IH by blast
    have 3: "\<exists>b. find_book (dw_db w') pid = Some b \<and> sb_last_day b = Some (last (days_done rs))"
      using U IH by (cases "days_done rs' = []") (auto simp: d)
    have 4: "(pid, dr_day x) \<in> nav_key ` set (dw_navs w')" if "x \<in> set rs" "dr_blocked x = None" "\<not> dr_skipped x" for x
    proof (cases "x = r")
      case True
      then have "(pid, dr_day x) \<in> nav_key ` set (dw_navs w1)" using U that process_day_date [OF p] by simp
      then show ?thesis using IH by blast
    next
      case False
      then show ?thesis using that IH by (simp add: rs)
    qed
    show ?thesis using 1 2 3 4 d by simp
  qed
qed

text \<open>One day: rolled back when a held name has no close, and otherwise marked, adding at most the NAV row of
  the day.\<close>

lemma process_day_step:
  assumes p: "process_shadow_market_day m spec now pid w day = Inr (r, w')"
  obtains (blocked) d b where "reached m spec now pid w day d b" "unpriced m day b \<noteq> {}" "w' = w"
      "r = \<lparr>dr_day = day, dr_skipped = False, dr_fills = 0, dr_blocked = Some (sorted_list_of_set (unpriced m day b))\<rparr>"
  | (skipped) "dr_blocked r = None" "dr_skipped r" "dr_day r = day" "dw_navs w' = dw_navs w" "dw_events w' = dw_events w"
  | (marked) d b row events where "dr_blocked r = None" "\<not> dr_skipped r" "dr_day r = day"
      "reached m spec now pid w day d b" "unpriced m day b = {}" "dw_navs w' = store_nav row (dw_navs w)" "nav_key row = (pid, day)"
      "nr_cash row = sb_cash b" "nr_market_value row = market_value m day (sb_positions b)"
      "dw_events w' = dw_events w @ map (Pair pid) events"
  using p
proof (cases rule: process_day_cases)
  case (skipped b)
  then show thesis by (intro that(2)) auto
next
  case (blocked missing d b)
  then show thesis by (intro that(1) [of d b]) (auto simp: mark_nav_blocked)
next
  case (marked b0 pos d fills b b3 row events)
  note M = mark_nav_facts [OF marked(7)]
  have "sb_id b = pid" using find_bookD [OF marked(6)] by simp
  moreover have "unpriced m day b = {}" using M by (simp flip: missing_unpriced)
  ultimately show thesis using M marked by (intro that(3) [of d b row events]) (auto simp: nav_key_def)
qed

text \<open>A run of days is the run of its completed prefix; the day after it, if any, was blocked without a trace.\<close>

definition day_completed :: "day_market \<Rightarrow> shadow_spec \<Rightarrow> instant \<Rightarrow> int \<Rightarrow> day_world \<Rightarrow> date list \<Rightarrow> day_result list \<Rightarrow> nat \<Rightarrow> bool" where
  "day_completed m spec now pid w days rs k \<longleftrightarrow> dr_blocked (rs ! k) = None \<and> (\<not> dr_skipped (rs ! k) \<longrightarrow>
     (\<exists>wk d b. advance_days m spec now pid w (take k days) = Inr (take k rs, wk) \<and> reached m spec now pid wk (days ! k) d b \<and>
       unpriced m (days ! k) b = {}))"

definition run_blocked :: "day_market \<Rightarrow> shadow_spec \<Rightarrow> instant \<Rightarrow> int \<Rightarrow> day_world \<Rightarrow> date \<Rightarrow> day_result \<Rightarrow> bool" where
  "run_blocked m spec now pid w day r \<longleftrightarrow> (\<exists>d b. reached m spec now pid w day d b \<and> unpriced m day b \<noteq> {} \<and>
     r = \<lparr>dr_day = day, dr_skipped = False, dr_fills = 0, dr_blocked = Some (sorted_list_of_set (unpriced m day b))\<rparr>)"

lemma advance_days_split:
  "advance_days m spec now pid w days = Inr (rs, w') \<Longrightarrow> \<exists>before rest rs1. days = before @ rest \<and>
    advance_days m spec now pid w before = Inr (rs1, w') \<and> map dr_day rs1 = before \<and>
    (\<forall>k < length before. day_completed m spec now pid w before rs1 k) \<and>
    (rest = [] \<and> rs = rs1 \<or> (\<exists>day later r. rest = day # later \<and> rs = rs1 @ [r] \<and> run_blocked m spec now pid w' day r))"
proof (induction days arbitrary: w rs)
  case Nil
  then show ?case by simp
next
  case (Cons day days)
  then obtain r w1 where p: "process_shadow_market_day m spec now pid w day = Inr (r, w1)" by (auto simp: exn_simps)
  have date: "dr_day r = day" by (rule process_day_date [OF p])
  show ?case
  proof (cases "dr_blocked r")
    case (Some missing)
    have "run_blocked m spec now pid w day r \<and> w1 = w"
      using p Some by (cases rule: process_day_step) (auto simp: run_blocked_def)
    moreover have "rs = [r]" "w' = w1" using Cons.prems p Some by auto
    ultimately show ?thesis by (intro exI [of _ "[]"] exI [of _ "day # days"]) simp
  next
    case None
    have first: "\<not> dr_skipped r \<longrightarrow> (\<exists>d b. reached m spec now pid w day d b \<and> unpriced m day b = {})"
      using p None by (cases rule: process_day_step) auto
    obtain rs' where "advance_days m spec now pid w1 days = Inr (rs', w')" and rs: "rs = r # rs'"
      using Cons.prems p None by (auto simp: exn_simps)
    from Cons.IH [OF this(1)] obtain before rest rs1 where d: "days = before @ rest"
      and a: "advance_days m spec now pid w1 before = Inr (rs1, w')" "map dr_day rs1 = before"
      and c: "\<forall>k < length before. day_completed m spec now pid w1 before rs1 k"
      and e: "rest = [] \<and> rs' = rs1 \<or> (\<exists>day later r. rest = day # later \<and> rs' = rs1 @ [r] \<and> run_blocked m spec now pid w' day r)"
      by blast
    have later: "day_completed m spec now pid w (day # before) (r # rs1) (Suc j)" if h: "day_completed m spec now pid w1 before rs1 j" for j
    proof -
      have "advance_days m spec now pid w (take (Suc j) (day # before)) = Inr (take (Suc j) (r # rs1), wk)"
        if "advance_days m spec now pid w1 (take j before) = Inr (take j rs1, wk)" for wk
        using that p None by simp
      with h show ?thesis unfolding day_completed_def nth_Cons_Suc by blast
    qed
    have "day_completed m spec now pid w (day # before) (r # rs1) k" if "k < length (day # before)" for k
      using that c later first None by (cases k) (auto simp: day_completed_def)
    then show ?thesis
      using d a e p None date rs by (intro exI [of _ "day # before"] exI [of _ rest] exI [of _ "r # rs1"]) auto
  qed
qed

text \<open>The NAV rows a run adds are those of its completed days that had none, in order, each valued after the day's
  fills.\<close>

definition nav_row_of :: "day_market \<Rightarrow> shadow_spec \<Rightarrow> instant \<Rightarrow> int \<Rightarrow> day_world \<Rightarrow> date list \<Rightarrow> nav_row \<Rightarrow> bool" where
  "nav_row_of m spec now pid w days x \<longleftrightarrow> nr_portfolio x = pid \<and>
     (\<exists>k rsk wk d b. k < length days \<and> days ! k = nr_day x \<and> advance_days m spec now pid w (take k days) = Inr (rsk, wk) \<and>
        reached m spec now pid wk (nr_day x) d b \<and> nr_cash x = sb_cash b \<and> nr_market_value x = market_value m (nr_day x) (sb_positions b))"

definition new_nav :: "nav_row list \<Rightarrow> int \<Rightarrow> day_result \<Rightarrow> bool" where
  "new_nav navs pid r \<longleftrightarrow> dr_blocked r = None \<and> \<not> dr_skipped r \<and> (pid, dr_day r) \<notin> nav_key ` set navs"

lemma advance_days_dates: "advance_days m spec now pid w days = Inr (rs, w') \<Longrightarrow> dr_day ` set rs \<subseteq> set days"
proof (induction days arbitrary: w rs)
  case (Cons day days)
  then obtain r w1 where p: "process_shadow_market_day m spec now pid w day = Inr (r, w1)"
    and "rs = [r] \<or> (\<exists>rs'. rs = r # rs' \<and> advance_days m spec now pid w1 days = Inr (rs', w'))"
    by (auto simp: exn_simps split: if_splits)
  with Cons.IH process_day_date [OF p] show ?case by fastforce
qed simp

lemma advance_days_navs:
  "advance_days m spec now pid w days = Inr (rs, w') \<Longrightarrow> distinct days \<Longrightarrow> \<exists>new. dw_navs w' = dw_navs w @ new \<and>
    map nav_key new = map (\<lambda>r. (pid, dr_day r)) (filter (new_nav (dw_navs w) pid) rs) \<and>
    (\<forall>x \<in> set new. nav_row_of m spec now pid w days x)"
proof (induction days arbitrary: w rs)
  case Nil
  then show ?case by simp
next
  case (Cons day days)
  then obtain r w1 where p: "process_shadow_market_day m spec now pid w day = Inr (r, w1)" by (auto simp: exn_simps)
  have date: "dr_day r = day" by (rule process_day_date [OF p])
  show ?case
  proof (cases "dr_blocked r")
    case (Some missing)
    have "w1 = w" using p Some by (cases rule: process_day_step) auto
    moreover have "rs = [r]" "w' = w1" using Cons.prems p Some by auto
    ultimately show ?thesis using Some by (simp add: new_nav_def)
  next
    case None
    obtain rs' where a: "advance_days m spec now pid w1 days = Inr (rs', w')" and rs: "rs = r # rs'"
      using Cons.prems p None by (auto simp: exn_simps)
    have out: "dr_day x \<noteq> day" if "x \<in> set rs'" for x using advance_days_dates [OF a] that Cons.prems(2) by auto
    obtain new where n: "dw_navs w' = dw_navs w1 @ new"
      "map nav_key new = map (\<lambda>r. (pid, dr_day r)) (filter (new_nav (dw_navs w1) pid) rs')"
      "\<forall>x \<in> set new. nav_row_of m spec now pid w1 days x"
      using Cons.IH [OF a] Cons.prems(2) by auto
    have shift: "nav_row_of m spec now pid w (day # days) x" if x: "nav_row_of m spec now pid w1 days x" for x
    proof -
      from x obtain k rsk wk d b where k: "k < length days" "days ! k = nr_day x" "advance_days m spec now pid w1 (take k days) = Inr (rsk, wk)"
        "reached m spec now pid wk (nr_day x) d b" "nr_cash x = sb_cash b" "nr_market_value x = market_value m (nr_day x) (sb_positions b)"
        "nr_portfolio x = pid" by (auto simp: nav_row_of_def)
      have "advance_days m spec now pid w (take (Suc k) (day # days)) = Inr (r # rsk, wk)" using k(3) p None by simp
      then show ?thesis using k unfolding nav_row_of_def
        by (intro conjI exI [of _ "Suc k"] exI [of _ "r # rsk"] exI [of _ wk] exI [of _ d] exI [of _ b]) auto
    qed
    from p show ?thesis
    proof (cases rule: process_day_step)
      case (blocked d b)
      with None show ?thesis by simp
    next
      case skipped
      then have "\<not> new_nav (dw_navs w) pid r" by (simp add: new_nav_def)
      then show ?thesis using n rs shift skipped(4) by (intro exI [of _ new]) auto
    next
      case (marked d b row events)
      have same: "filter (new_nav (dw_navs w1) pid) rs' = filter (new_nav (dw_navs w) pid) rs'"
        using out marked(6,7) by (intro filter_cong refl) (auto simp: new_nav_def store_nav_def nav_key_def)
      show ?thesis
      proof (cases "(pid, day) \<in> nav_key ` set (dw_navs w)")
        case True
        then have "dw_navs w1 = dw_navs w" using marked(6,7) by (auto simp: store_nav_def nav_key_def)
        moreover have "\<not> new_nav (dw_navs w) pid r" using True date by (simp add: new_nav_def)
        ultimately show ?thesis using n same rs shift by (intro exI [of _ new]) auto
      next
        case False
        then have "\<not> (\<exists>x \<in> set (dw_navs w). nr_portfolio x = nr_portfolio row \<and> nr_day x = nr_day row)"
          using marked(7) by (force simp: nav_key_def image_iff)
        then have st: "dw_navs w1 = dw_navs w @ [row]" using marked(6) by (simp add: store_nav_def)
        have row: "nr_portfolio row = pid" "nr_day row = day" using marked(7) by (auto simp: nav_key_def)
        then have "nav_row_of m spec now pid w (day # days) row"
          using marked unfolding nav_row_of_def
          by (intro conjI exI [of _ 0] exI [of _ "[]"] exI [of _ w] exI [of _ d] exI [of _ b]) auto
        moreover have "new_nav (dw_navs w) pid r" using False date marked(1,2) by (simp add: new_nav_def)
        ultimately show ?thesis
          using n same rs shift date st marked(7) by (intro exI [of _ "row # new"]) auto
      qed
    qed
  qed
qed

lemma advance_days_events:
  "advance_days m spec now pid w days = Inr (rs, w') \<Longrightarrow> \<exists>events. dw_events w' = dw_events w @ map (Pair pid) events"
proof (induction days arbitrary: w rs)
  case (Cons day days)
  then obtain r w1 where p: "process_shadow_market_day m spec now pid w day = Inr (r, w1)"
    and e: "w' = w1 \<or> (\<exists>rs'. advance_days m spec now pid w1 days = Inr (rs', w'))"
    by (auto simp: exn_simps split: if_splits)
  obtain es where 1: "dw_events w1 = dw_events w @ map (Pair pid) es"
    using p by (cases rule: process_day_step) (auto intro: that [of "[]"] that)
  from e show ?case
  proof (elim disjE exE)
    assume "w' = w1"
    then show ?thesis using 1 by blast
  next
    fix rs' assume "advance_days m spec now pid w1 days = Inr (rs', w')"
    from Cons.IH [OF this] obtain fs where "dw_events w' = dw_events w1 @ map (Pair pid) fs" by blast
    then show ?thesis using 1 by (intro exI [of _ "es @ fs"]) simp
  qed
qed (auto intro: exI [of _ "[]"])

section \<open>Properties\<close>

definition sample_market :: day_market where
  "sample_market = \<lparr>mk_candles = [\<lparr>cd_instrument = 7, cd_day = Ord 11, cd_open = 100, cd_close = 96\<rparr>,
     \<lparr>cd_instrument = 8, cd_day = Ord 13, cd_open = 50, cd_close = 51\<rparr>], mk_actions = []\<rparr>"

definition sample_world :: day_world where
  "sample_world = \<lparr>dw_db = sample_db, dw_navs = [], dw_events = []\<rparr>"

definition sample_days :: "(day_result list \<times> day_world) res" where
  "sample_days = advance_days sample_market sample_spec 0 1 sample_world [Ord 11, Ord 13]"

lemma sample_days_value:
  "map_sum id (\<lambda>(rs, w). (map (\<lambda>r. (dr_fills r, dr_blocked r)) rs, map (\<lambda>n. (nr_nav n, nr_peak n)) (dw_navs w))) sample_days =
   Inr ([(1, None), (0, Some [7])], [(4959, 5000)])"
  by code_simp

lemma sample_days_returned:
  obtains rs w where "sample_days = Inr (rs, w)" "map (\<lambda>r. (dr_fills r, dr_blocked r)) rs = [(1, None), (0, Some [7])]"
    "map (\<lambda>n. (nr_nav n, nr_peak n)) (dw_navs w) = [(4959, 5000)]"
proof (cases sample_days)
  case (Inl e)
  show thesis using sample_days_value unfolding Inl by simp
next
  case (Inr rw)
  obtain rs w where rw: "rw = (rs, w)" by (cases rw)
  have "map (\<lambda>r. (dr_fills r, dr_blocked r)) rs = [(1, None), (0, Some [7])]" "map (\<lambda>n. (nr_nav n, nr_peak n)) (dw_navs w) = [(4959, 5000)]"
    using sample_days_value unfolding Inr rw by auto
  with Inr rw show thesis by (intro that) auto
qed

lemma sample_world_inv: "day_inv 1 sample_world"
  using sample_db_ok(1)
  by (simp add: day_inv_def sample_world_def events_of_def find_book_def) (simp add: sample_db_def NORMAL_def)

text \<open>A fill without the moment it was booked at, in which the two paths differ: the observation of the quote
  against the clock of the day's run.\<close>

definition unstamped :: "shadow_fill \<Rightarrow> shadow_fill" where
  "unstamped f = f\<lparr>sf_filled_at := 0\<rparr>"

text \<open>C33: the two execution paths of the shadow book agree. Take a pending order without a fill that both let
  through, at the same open price of the same day: the open-session path and the market-day path then either raise the
  same exception, or both leave the order without a fill, or both append one and the same fill (but for its time
  stamp), mark the order FILLED in the same way and leave the portfolio with the same cash and the same positions.\<close>

theorem execution_paths_agree:
  assumes ord: "find_order (fr_db run) i = Some o'" "so_status o' = PENDING" "so_portfolio o' = pid"
      "\<forall>f \<in> set (sd_fills (fr_db run)). sf_order f \<noteq> i"
    and bk: "find_book (fr_db run) pid = Some b" "find_spec (fr_db run) (sb_spec b) = Some spec"
    and quote: "quotes (so_instrument o') = Some q" "iq_trading_date q = Some day"
      "map_option fst (candle_open_close m (so_instrument o') day) = iq_open q"
    and open_path: "oe_eligible (can_fill_with_session_open (so_created_at o') (so_min_execution_date o') day (iq_open q)
      (iq_status q) (iq_freshness q) (iq_observed_at q) (Some now))"
    and day_path: "is_execution_date_eligible (so_decision_at o') day = Inr True" "so_min_execution_date o' \<le> day"
  shows "case fill_one quotes now run i of
      Inl e \<Rightarrow> day_fill_one m spec day now pid (fr_db run, n) i = Inl e
    | Inr run' \<Rightarrow> (\<exists>d' n'. day_fill_one m spec day now pid (fr_db run, n) i = Inr (d', n') \<and>
        map unstamped (sd_fills (fr_db run')) = map unstamped (sd_fills d') \<and>
        (fr_filled run' = fr_filled run \<and> n' = n \<and> sd_fills d' = sd_fills (fr_db run) \<or>
         fr_filled run' = fr_filled run + 1 \<and> n' = n + 1 \<and> length (sd_fills d') = length (sd_fills (fr_db run)) + 1 \<and>
         sd_orders (fr_db run') = sd_orders d' \<and>
         (\<exists>b1 b2. find_book (fr_db run') pid = Some b1 \<and> find_book d' pid = Some b2 \<and>
           sb_cash b1 = sb_cash b2 \<and> sb_positions b1 = sb_positions b2)))"
proof -
  define d where "d = fr_db run"
  define late where "late = oe_delayed (can_fill_with_session_open (so_created_at o') (so_min_execution_date o') day (iq_open q)
      (iq_status q) (iq_freshness q) (iq_observed_at q) (Some now))"
  have nf: "\<not> (\<exists>f \<in> set (sd_fills d). sf_order f = i)" using ord(4) by (auto simp: d_def)
  have oi: "so_id o' = i" using find_orderD [OF ord(1)] by simp
  have id: "sb_id b = pid" using find_bookD [OF bk(1)] by simp
  have open_run: "fill_one quotes now run i = execute_order now run o' q day late"
    using ord bk quote open_path nf by (simp add: fill_one_def Let_def late_def d_def)
  have day_run: "day_fill_one m spec day now pid (d, n) i =
      bnd (price_fill (sd_profiles d) spec o' day (iq_open q)) (\<lambda>p. case p of
          NoOpen \<Rightarrow> Inr (d, n)
        | FeeUnknown \<Rightarrow> Inr (day_settle now day (d, n) (Keep b (limit_order now o')))
        | Priced f \<Rightarrow> bnd (if so_side o' = ''BUY'' then day_buy spec b o' f else day_sell now (sd_profiles d) spec day b o' f)
            (\<lambda>out. Inr (day_settle now day (d, n) out)))"
  proof -
    have "\<not> day < so_min_execution_date o'" using day_path(2) by simp
    then show ?thesis unfolding d_def using ord(1) bk(1) day_path(1) quote(3)
      by (cases "price_fill (sd_profiles (fr_db run)) spec o' day (iq_open q)") (simp_all add: day_fill_one_def split: priced.split)
  qed
  have exec: "execute_order now run o' q day late =
      bnd (price_fill (sd_profiles d) spec o' day (iq_open q)) (\<lambda>p. case p of
          NoOpen \<Rightarrow> Inr (skip_order run (reason_of o' ''OPEN_PRICE_NOT_AVAILABLE'' (Some day) False))
        | FeeUnknown \<Rightarrow> Inr (settle now run day (iq_observed_at q) late (Skip FEE_RULE_UNAVAILABLE b (limit_order now o')))
        | Priced f \<Rightarrow> bnd (if so_side o' = ''BUY'' then book_buy spec b o' f else book_sell now (sd_profiles d) spec day b o' f)
            (\<lambda>out. Inr (settle now run day (iq_observed_at q) late out)))"
    unfolding d_def using ord(3) bk by (simp add: execute_order_def)
  have skip: "fr_db (settle now run day at' late (Skip r b' o2)) = put_shadow_book b' (put_order o2 d)"
    "fr_filled (settle now run day at' late (Skip r b' o2)) = fr_filled run" for at' r b' o2
    by (simp_all add: settle_def skip_order_def d_def)
  have keep: "day_settle now day (d, n) (Keep b' o2) = (put_shadow_book b' (put_order o2 d), n)" for b' o2
    by (simp add: day_settle_def)
  show ?thesis
  proof (cases "price_fill (sd_profiles d) spec o' day (iq_open q)")
    case (Inl e)
    then show ?thesis by (simp add: open_run exec day_run flip: d_def)
  next
    case (Inr pr)
    note price = Inr
    show ?thesis
    proof (cases pr)
      case NoOpen
      then show ?thesis by (simp add: open_run exec day_run price skip_order_def flip: d_def)
    next
      case FeeUnknown
      then show ?thesis by (simp add: open_run exec day_run price skip keep flip: d_def)
    next
      case (Priced f)
      define bk_open where "bk_open = (if so_side o' = ''BUY'' then book_buy spec b o' f else book_sell now (sd_profiles d) spec day b o' f)"
      define bk_day where "bk_day = (if so_side o' = ''BUY'' then day_buy spec b o' f else day_sell now (sd_profiles d) spec day b o' f)"
      have agree: "bk_day = Inr (Book b' o2 f') \<longleftrightarrow> bk_open = Inr (Fill b' o2 f')" "bk_day = Inl e \<longleftrightarrow> bk_open = Inl e" for b' o2 f' e
        unfolding bk_open_def bk_day_def using bookings_agree [of spec b o' f b' o2 f' now "sd_profiles d" day e] by auto
      have runs: "fill_one quotes now run i = bnd bk_open (\<lambda>out. Inr (settle now run day (iq_observed_at q) late out))"
        "day_fill_one m spec day now pid (d, n) i = bnd bk_day (\<lambda>out. Inr (day_settle now day (d, n) out))"
        by (simp_all add: open_run exec day_run price Priced bk_open_def bk_day_def)
      show ?thesis
      proof (cases bk_open)
        case (Inl e)
        then show ?thesis using agree(2) [of e] runs by (simp flip: d_def)
      next
        case (Inr out)
        then obtain out' where bk_day: "bk_day = Inr out'" using agree(2) by (cases bk_day) auto
        show ?thesis
        proof (cases out)
          case (Skip r b' o2)
          with Inr bk_day agree(1) obtain b'' o3 where "out' = Keep b'' o3" by (cases out') auto
          then show ?thesis using Inr bk_day Skip by (simp add: runs skip keep flip: d_def)
        next
          case (Fill b' o2 f')
          then have bk_day': "out' = Book b' o2 f'" using Inr bk_day agree(1) by auto
          have bb: "o2 = o'" "sb_id b' = pid"
            using bk_day bk_day' day_buy_outcome [of spec b o' f out'] day_sell_outcome [OF _ ord(2), of now "sd_profiles d" spec day b f out'] id
            by (auto simp: bk_day_def book_frame_def split: if_splits)
          define o3 where "o3 = o'\<lparr>so_status := FILLED, so_execution_date := Some day, so_updated_at := now\<rparr>"
          define bs where "bs = b'\<lparr>sb_status := status_after_fill (put_order o3 d) b' o', sb_updated_at := now\<rparr>"
          have 1: "fr_db (settle now run day (iq_observed_at q) late out) =
              put_shadow_book bs (put_order o3 d\<lparr>sd_fills := sd_fills d @ [fill_row b' o' f' day (iq_observed_at q)]\<rparr>)"
            "fr_filled (settle now run day (iq_observed_at q) late out) = fr_filled run + 1"
            by (simp_all add: Fill bb settle_def commit_fill_def Let_def d_def o3_def bs_def)
          have 2: "day_settle now day (d, n) out' = (put_shadow_book b' (put_order o3 d\<lparr>sd_fills := sd_fills d @ [fill_row b' o' f' day now]\<rparr>), n + 1)"
            using nf by (simp add: bk_day' bb oi day_settle_def o3_def)
          have fb: "find_book (put_order o3 d\<lparr>sd_fills := fs\<rparr>) pid = Some b" for fs using bk(1) by (simp add: d_def)
          have 3: "find_book (put_shadow_book bs (put_order o3 d\<lparr>sd_fills := fs\<rparr>)) pid = Some bs"
            "find_book (put_shadow_book b' (put_order o3 d\<lparr>sd_fills := fs\<rparr>)) pid = Some b'" for fs
            by (rule find_book_put [OF fb], simp add: bs_def bb(2))+
          have 4: "unstamped (fill_row b' o' f' day t) = unstamped (fill_row b' o' f' day t')" for t t'
            by (simp add: unstamped_def fill_row_def)
          show ?thesis
            using Inr bk_day by (simp add: runs 1 2 3 4 [of "iq_observed_at q" now] flip: d_def) (simp add: bs_def)
        qed
      qed
    qed
  qed
qed

lemma sample_eligible:
  "oe_eligible (can_fill_with_session_open (so_created_at (sample_order 1 (combine_utc (Ord 10) 12 0))) (Ord 11) (Ord 11) (Some 100)
     M_OPEN Q_DELAYED (combine_utc (Ord 11) 13 0) (Some (combine_utc (Ord 11) 14 0)))"
  "is_execution_date_eligible (combine_utc (Ord 10) 12 0) (Ord 11) = Inr True"
  "map_option fst (candle_open_close sample_market 7 (Ord 11)) = Some 100"
  by code_simp+

definition sample_fill_run :: fill_run where
  "sample_fill_run = \<lparr>fr_db = sample_db, fr_filled = 0, fr_skipped = 0, fr_reasons = []\<rparr>"

lemma sample_fill_one: "map_sum id fr_filled (fill_one (quote_index [sample_quote] None) (combine_utc (Ord 11) 14 0) sample_fill_run 1) = Inr 1"
  by code_simp

theorem execution_paths_agree_witness:
  "\<exists>run' d'. fill_one (quote_index [sample_quote] None) (combine_utc (Ord 11) 14 0) sample_fill_run 1 = Inr run' \<and>
     day_fill_one sample_market sample_spec (Ord 11) (combine_utc (Ord 11) 14 0) 1 (sample_db, 0) 1 = Inr (d', 1) \<and>
     map unstamped (sd_fills (fr_db run')) = map unstamped (sd_fills d') \<and> sd_orders (fr_db run') = sd_orders d'"
proof -
  let ?o = "sample_order 1 (combine_utc (Ord 10) 12 0)"
  obtain run' where r: "fill_one (quote_index [sample_quote] None) (combine_utc (Ord 11) 14 0) sample_fill_run 1 = Inr run'" "fr_filled run' = 1"
    using sample_fill_one by (auto simp: map_sum_Inr)
  have o: "find_order (fr_db sample_fill_run) 1 = Some ?o" "so_status ?o = PENDING" "so_portfolio ?o = 1"
    "\<forall>f \<in> set (sd_fills (fr_db sample_fill_run)). sf_order f \<noteq> 1"
    by (simp_all add: sample_fill_run_def sample_db_def find_order_def sample_order_def)
  obtain b where b: "find_book (fr_db sample_fill_run) 1 = Some b" "find_spec (fr_db sample_fill_run) (sb_spec b) = Some sample_spec"
    by (simp add: sample_fill_run_def sample_db_def find_book_def find_spec_def sample_spec_def)
  have q: "quote_index [sample_quote] None (so_instrument ?o) = Some sample_quote" "iq_trading_date sample_quote = Some (Ord 11)"
    "map_option fst (candle_open_close sample_market (so_instrument ?o) (Ord 11)) = iq_open sample_quote"
    using sample_eligible(3) by (simp_all add: quote_index_def sample_quote_def sample_order_def)
  have e: "oe_eligible (can_fill_with_session_open (so_created_at ?o) (so_min_execution_date ?o) (Ord 11) (iq_open sample_quote)
      (iq_status sample_quote) (iq_freshness sample_quote) (iq_observed_at sample_quote) (Some (combine_utc (Ord 11) 14 0)))"
    "is_execution_date_eligible (so_decision_at ?o) (Ord 11) = Inr True" "so_min_execution_date ?o \<le> Ord 11"
    using sample_eligible(1,2) by (simp_all add: sample_quote_def sample_order_def)
  show ?thesis
    using execution_paths_agree [where n = 0 and run = sample_fill_run and i = 1 and quotes = "quote_index [sample_quote] None" and m = sample_market
      and day = "Ord 11" and now = "combine_utc (Ord 11) 14 0", OF o b q e] r by (auto simp: sample_fill_run_def)
qed

text \<open>C34: the history of a portfolio over any run of market days, blocked ones included. NAV rows are only
  appended: exactly one for every completed day that had none, in the order of the days, holding the cash and the
  market value of the positions after that day's fills; risk events are only appended too. And the history stays sound:
  one row per portfolio and day, each value is cash plus market value and never above its recorded peak, the drawdown
  is never positive, the stored peak is at least every recorded value, the risk events connect to the current mode, and
  an order is FILLED exactly when it has its one fill.\<close>

theorem market_days_keep_history:
  assumes "advance_days m spec now pid w days = Inr (rs, w')" and "day_inv pid w" and "distinct days"
  shows "day_inv pid w' \<and>
    (\<exists>new. dw_navs w' = dw_navs w @ new \<and>
      map nav_key new = map (\<lambda>r. (pid, dr_day r)) (filter (new_nav (dw_navs w) pid) rs) \<and>
      (\<forall>x \<in> set new. nav_row_of m spec now pid w days x)) \<and>
    (\<exists>events. dw_events w' = dw_events w @ map (Pair pid) events)"
  using advance_days_inv [OF assms(1,2)] advance_days_navs [OF assms(1,3)] advance_days_events [OF assms(1)] by blast

theorem market_days_keep_history_witness:
  "\<exists>rs w. sample_days = Inr (rs, w) \<and> day_inv 1 w \<and> map (\<lambda>n. (nr_nav n, nr_peak n)) (dw_navs w) = [(4959, 5000)] \<and>
     map nav_key (dw_navs w) = map (\<lambda>r. (1, dr_day r)) (filter (new_nav [] 1) rs)"
proof -
  obtain rs w where r: "sample_days = Inr (rs, w)" "map (\<lambda>n. (nr_nav n, nr_peak n)) (dw_navs w) = [(4959, 5000)]"
    by (rule sample_days_returned)
  have d: "distinct [Ord 11, Ord 13]" by simp
  show ?thesis using r market_days_keep_history [OF r(1) [unfolded sample_days_def] sample_world_inv d]
    by (intro exI conjI) (auto simp: sample_world_def)
qed

text \<open>C35: advancing processes the days in order up to the first on which a held name lacks a close. The result is
  that of the days before it alone, so a blocked day leaves no trace, wherever it stands. It is blocked because some
  name held after its corporate actions and fills has no candle on that day, and it reports exactly these names; on
  every completed day each held name had one. The completed days each have their NAV row, the watermark is the last of
  them, and recorded values are never removed.\<close>

theorem market_days_fail_closed:
  assumes "advance_days m spec now pid w days = Inr (rs, w')" and "day_inv pid w"
  shows "\<exists>before rest rs1. days = before @ rest \<and> advance_days m spec now pid w before = Inr (rs1, w') \<and> map dr_day rs1 = before \<and>
    (rest = [] \<and> rs = rs1 \<or> (\<exists>day later r. rest = day # later \<and> rs = rs1 @ [r] \<and> run_blocked m spec now pid w' day r)) \<and>
    (\<forall>k < length before. day_completed m spec now pid w before rs1 k) \<and>
    (\<forall>r \<in> set rs1. \<not> dr_skipped r \<longrightarrow> (pid, dr_day r) \<in> nav_key ` set (dw_navs w')) \<and>
    set (dw_navs w) \<subseteq> set (dw_navs w') \<and>
    (if before = [] then w' = w else \<exists>b. find_book (dw_db w') pid = Some b \<and> sb_last_day b = Some (last before))"
proof -
  obtain before rest rs1 where s: "days = before @ rest" "map dr_day rs1 = before"
      "rest = [] \<and> rs = rs1 \<or> (\<exists>day later r. rest = day # later \<and> rs = rs1 @ [r] \<and> run_blocked m spec now pid w' day r)"
      "\<forall>k < length before. day_completed m spec now pid w before rs1 k"
    and a: "advance_days m spec now pid w before = Inr (rs1, w')"
    using advance_days_split [OF assms(1)] by blast
  have u: "dr_blocked r = None" if "r \<in> set rs1" for r
    using s(2,4) that by (metis day_completed_def in_set_conv_nth length_map)
  then have d: "days_done rs1 = before" using s(2) by (simp add: days_done_def filter_True)
  have "set (dw_navs w) \<subseteq> set (dw_navs w') \<and> (\<forall>r \<in> set rs1. \<not> dr_skipped r \<longrightarrow> (pid, dr_day r) \<in> nav_key ` set (dw_navs w')) \<and>
    (if before = [] then w' = w else \<exists>b. find_book (dw_db w') pid = Some b \<and> sb_last_day b = Some (last before))"
    using advance_days_done [OF a assms(2)] u unfolding d by blast
  with s a show ?thesis by (intro exI [of _ before] exI [of _ rest] exI [of _ rs1]) blast
qed

theorem market_days_fail_closed_witness:
  "\<exists>rs w. sample_days = Inr (rs, w) \<and> (\<exists>rs1 r. rs = rs1 @ [r] \<and> advance_days sample_market sample_spec 0 1 sample_world [Ord 11] = Inr (rs1, w) \<and>
     run_blocked sample_market sample_spec 0 1 w (Ord 13) r)"
proof -
  obtain rs w where r: "sample_days = Inr (rs, w)" "map (\<lambda>r. (dr_fills r, dr_blocked r)) rs = [(1, None), (0, Some [7])]"
    by (rule sample_days_returned)
  obtain before rest rs1 where s: "[Ord 11, Ord 13] = before @ rest" "advance_days sample_market sample_spec 0 1 sample_world before = Inr (rs1, w)"
      "map dr_day rs1 = before" "\<forall>k < length before. day_completed sample_market sample_spec 0 1 sample_world before rs1 k"
    and c: "rest = [] \<and> rs = rs1 \<or> (\<exists>day later r. rest = day # later \<and> rs = rs1 @ [r] \<and> run_blocked sample_market sample_spec 0 1 w day r)"
    using market_days_fail_closed [OF r(1) [unfolded sample_days_def] sample_world_inv] by blast
  have n: "length rs = 2" using arg_cong [OF r(2), of length] by simp
  have b: "dr_blocked (rs ! 1) \<noteq> None" using r(2) by (auto simp: map_eq_Cons_conv)
  have l: "length rs1 = length before" using s(3) by (metis length_map)
  show ?thesis
  proof (cases "rest = []")
    case True
    then have "rs = rs1" "length before = 2" using c s(1) by (auto simp: append_eq_Cons_conv)
    then show ?thesis using b s(4) by (auto simp: day_completed_def)
  next
    case False
    then obtain day later x where d: "rest = day # later" "rs = rs1 @ [x]" "run_blocked sample_market sample_spec 0 1 w day x"
      using c by auto
    then have "length before = 1" using n l by simp
    then have "before = [Ord 11]" "day = Ord 13" using s(1) d(1) by (auto simp: length_Suc_conv)
    then show ?thesis using r(1) s(2) d by auto
  qed
qed

text \<open>C36: the fills of a market day have no look-ahead: the day's run only appends fills of that date to the
  portfolio it runs for, each for an order of this portfolio, on its instrument and side, that was pending, was decided
  on an earlier calendar date and may execute on the day; orders move only forward, and no order is filled twice.\<close>

theorem market_day_fills_justified:
  assumes "day_fill_pending m spec day now pid d = Inr (d', n)" and "fills_match d" and "find_book d pid = Some b"
  shows "fills_match d' \<and> list_all2 order_step\<^sup>*\<^sup>* (sd_orders d) (sd_orders d') \<and>
    (\<exists>new. sd_fills d' = sd_fills d @ new \<and> (\<forall>f \<in> set new. day_justified day pid d f))"
  using day_fill_pending_inv [OF assms] by (auto simp: day_run_inv_def orders_step_def)

definition sample_fills :: "(shadow_db \<times> nat) res" where
  "sample_fills = day_fill_pending sample_market sample_spec (Ord 11) 0 1 sample_db"

lemma sample_fills_value: "map_sum id (\<lambda>(d, n). (map sf_order (sd_fills d), n)) sample_fills = Inr ([1], 1)"
  by code_simp

theorem market_day_fills_justified_witness:
  "\<exists>d n. sample_fills = Inr (d, n) \<and> map sf_order (sd_fills d) = [1] \<and> fills_match d"
proof (cases sample_fills)
  case (Inl e)
  show ?thesis using sample_fills_value unfolding Inl by simp
next
  case (Inr dn)
  obtain b where b: "find_book sample_db 1 = Some b" by (simp add: find_book_def sample_db_def)
  obtain d n where dn: "dn = (d, n)" by (cases dn)
  have "map sf_order (sd_fills d) = [1]" using sample_fills_value unfolding Inr dn by simp
  moreover have "fills_match d"
    using market_day_fills_justified [OF Inr [unfolded dn sample_fills_def] sample_db_ok(1) b] by simp
  ultimately show ?thesis using Inr dn by (intro exI [of _ d] exI [of _ n]) simp
qed

end
