(* ===== verification/Simulator.thy ===== *)
theory Simulator
  imports Policy Corpact Simcal
begin

text \<open>
  The historical simulator: \<open>simulator/application/ledger.py\<close>, \<open>market_view.py\<close>, \<open>predictions.py\<close>
  (\<open>signals_for_date\<close>) and the daily event loop of \<open>engine.py\<close>. A day runs corporate actions, the pending
  orders due at its open, a snapshot at its close, the drawdown guard and, on a rebalance day with
  predictions, the new orders for the next trading day. The invariant \<open>sim_inv\<close> holds after every prefix of
  the days; the properties of a finished run follow from it. The reports computed from the finished ledger
  (metrics, benchmark, hashes) and the weights inside a snapshot's position rows are not modelled.
\<close>

section \<open>Market\<close>

record market_view =
  mv_bars :: "int \<rightharpoonup> (date \<rightharpoonup> pyfloat \<times> pyfloat)"   \<comment> \<open>open and close\<close>
  mv_actions :: "int \<rightharpoonup> mech_action list"
  mv_tickers :: "(int \<times> string) list"
  mv_days :: "date list"

definition bar_of :: "market_view \<Rightarrow> int \<Rightarrow> date \<Rightarrow> (pyfloat \<times> pyfloat) option" where
  "bar_of m i d = Option.bind (mv_bars m i) (\<lambda>bars. bars d)"

definition open_price :: "market_view \<Rightarrow> int \<Rightarrow> date \<Rightarrow> pyfloat option" where
  "open_price m i d = map_option fst (bar_of m i d)"

definition close_price :: "market_view \<Rightarrow> int \<Rightarrow> date \<Rightarrow> pyfloat option" where
  "close_price m i d = map_option snd (bar_of m i d)"

definition ca_on :: "market_view \<Rightarrow> int \<Rightarrow> date \<Rightarrow> mech_action list" where
  "ca_on m i d = filter (\<lambda>a. ma_date a = d) (opt_or (mv_actions m i) [])"

section \<open>Ledger\<close>

record order_intent =
  oi_decision_date :: date
  oi_execution_date :: date
  oi_instrument :: int
  oi_ticker :: string
  oi_side :: string
  oi_target_weight :: pyfloat
  oi_target_notional :: pyfloat
  oi_quantity :: pyfloat
  oi_reason :: string
  oi_prediction_date :: "date option"
  oi_predicted :: "pyfloat option"
  oi_rank :: "int option"
  oi_policy :: string
  oi_fold :: "string option"

text \<open>A fill takes its dates and instrument from the intent.\<close>

record sim_fill =
  fi_intent :: order_intent
  fi_fill :: hist_fill

record ca_event =
  ce_date :: date
  ce_instrument :: int
  ce_ticker :: string
  ce_type :: string
  ce_factor :: decimal
  ce_before :: pyfloat
  ce_after :: pyfloat

record sim_position =
  sq_ticker :: string
  sq_quantity :: pyfloat

record snapshot =
  ss_as_of :: date
  ss_cash :: pyfloat
  ss_nav :: pyfloat
  ss_gross :: pyfloat
  ss_cash_weight :: pyfloat
  ss_positions :: "(int \<times> (string \<times> pyfloat \<times> pyfloat option)) list"
  ss_peak :: pyfloat
  ss_drawdown :: pyfloat

record sim_ledger =
  sl_cash :: pyfloat
  sl_positions :: "(int \<times> sim_position) list"
  sl_pending :: "order_intent list"
  sl_fills :: "sim_fill list"
  sl_orders :: "order_intent list"
  sl_ca_events :: "ca_event list"
  sl_risk_events :: "guard_event list"
  sl_snapshots :: "snapshot list"
  sl_peak :: pyfloat
  sl_rebalances :: nat
  sl_mode :: string
  sl_cap :: pyfloat

definition sim_qty :: "sim_ledger \<Rightarrow> int \<Rightarrow> pyfloat" where
  "sim_qty l i = (case map_of (sl_positions l) i of None \<Rightarrow> 0 | Some p \<Rightarrow> sq_quantity p)"

definition set_position :: "int \<Rightarrow> string \<Rightarrow> pyfloat \<Rightarrow> sim_ledger \<Rightarrow> sim_ledger" where
  "set_position i ticker q l =
     (if \<bar>q\<bar> < eps12 then l\<lparr>sl_positions := AList.delete i (sl_positions l)\<rparr>
      else l\<lparr>sl_positions := AList.update i \<lparr>sq_ticker = ticker, sq_quantity = q\<rparr> (sl_positions l)\<rparr>)"

definition sim_market_value :: "(int \<Rightarrow> pyfloat option) \<Rightarrow> sim_ledger \<Rightarrow> pyfloat" where
  "sim_market_value closes l = foldl (\<lambda>total (i, p). case closes i of
      None \<Rightarrow> total | Some px \<Rightarrow> fadd total (fmul (sq_quantity p) px)) 0 (sl_positions l)"

definition sim_nav :: "(int \<Rightarrow> pyfloat option) \<Rightarrow> sim_ledger \<Rightarrow> pyfloat" where
  "sim_nav closes l = fadd (sl_cash l) (sim_market_value closes l)"

definition record_snapshot :: "date \<Rightarrow> (int \<Rightarrow> pyfloat option) \<Rightarrow> sim_ledger \<Rightarrow> snapshot \<times> sim_ledger" where
  "record_snapshot as_of closes l =
     (let mv = sim_market_value closes l;
          nav = fadd (sl_cash l) mv;
          peak = max (if sl_peak l \<le> 0 then nav else sl_peak l) nav;
          dd = (if peak \<le> 0 then 0 else fsub (fdiv nav peak) 1);
          snap = \<lparr>ss_as_of = as_of, ss_cash = sl_cash l, ss_nav = nav,
                  ss_gross = (if nav \<le> 0 then 0 else fdiv mv nav), ss_cash_weight = (if nav \<le> 0 then 0 else fdiv (sl_cash l) nav),
                  ss_positions = map (\<lambda>(i, p). (i, sq_ticker p, sq_quantity p, closes i)) (sl_positions l),
                  ss_peak = peak, ss_drawdown = dd\<rparr>
      in (snap, l\<lparr>sl_peak := peak, sl_snapshots := sl_snapshots l @ [snap]\<rparr>))"

section \<open>Corporate actions\<close>

text \<open>Every action of the day starts from the quantity the position had when the loop over positions read it.\<close>

definition sim_ca_action :: "date \<Rightarrow> int \<Rightarrow> sim_position \<Rightarrow> sim_ledger \<Rightarrow> mech_action \<Rightarrow> sim_ledger" where
  "sim_ca_action day i p l a =
     (let after = quantity_after_ca (sq_quantity p) (ma_factor a); l1 = set_position i (sq_ticker p) after l
      in l1\<lparr>sl_ca_events := sl_ca_events l1 @ [\<lparr>ce_date = day, ce_instrument = i, ce_ticker = sq_ticker p, ce_type = ma_type a,
              ce_factor = ma_factor a, ce_before = sq_quantity p, ce_after = after\<rparr>]\<rparr>)"

definition sim_apply_ca :: "market_view \<Rightarrow> date \<Rightarrow> sim_ledger \<Rightarrow> sim_ledger" where
  "sim_apply_ca m day l = foldl (\<lambda>l (i, p). foldl (sim_ca_action day i p) l (ca_on m i day)) l (sl_positions l)"

section \<open>Execution\<close>

record sim_spec =
  sm_segment :: string
  sm_policy :: string
  sm_risk :: string
  sm_top_quantile :: pyfloat
  sm_entry_quantile :: pyfloat
  sm_exit_quantile :: pyfloat
  sm_min_delta :: pyfloat
  sm_max_single :: pyfloat
  sm_max_gross :: pyfloat
  sm_long_only :: bool
  sm_fractional :: bool
  sm_commission_bps :: pyfloat
  sm_slippage_bps :: pyfloat
  sm_capital :: pyfloat
  sm_guard :: guard_params

definition POLICY_NAME :: string where "POLICY_NAME = ''RANK_LONG_ONLY_V0''"
definition POLICY_HYSTERESIS_V1 :: string where "POLICY_HYSTERESIS_V1 = ''RANK_HYSTERESIS_LONG_ONLY_V1''"

definition intent_fill :: "sim_spec \<Rightarrow> market_view \<Rightarrow> date \<Rightarrow> order_intent \<Rightarrow> hist_fill option" where
  "intent_fill spec m day o' =
     adapter_fill (oi_side o') (oi_quantity o') (open_price m (oi_instrument o') day) (sm_commission_bps spec) (sm_slippage_bps spec)"

text \<open>A purchase that costs more than the cash is scaled down to what the cash buys.\<close>

definition cash_scaled :: "sim_spec \<Rightarrow> pyfloat \<Rightarrow> hist_fill \<Rightarrow> order_intent \<Rightarrow> order_intent option" where
  "cash_scaled spec cash0 f o' =
     (if hf_price f \<le> 0 \<or> cash0 \<le> 0 then None else
      let q = fdiv cash0 (fmul (hf_price f) (fadd 1 (fdiv (sm_commission_bps spec) 10000))) in
      if q \<le> eps12 then None
      else Some (o'\<lparr>oi_target_notional := fmul q (hf_price f), oi_quantity := q, oi_reason := oi_reason o' @ ''|cash_scaled''\<rparr>))"

definition book_fill :: "order_intent \<Rightarrow> hist_fill \<Rightarrow> sim_ledger \<Rightarrow> sim_ledger" where
  "book_fill o' f l =
     (let cash' = (if hf_side f = ''BUY'' then fsub (sl_cash l) (fadd (hf_notional f) (hf_commission f))
                   else fadd (sl_cash l) (fsub (hf_notional f) (hf_commission f)));
          q = (if hf_side f = ''BUY'' then fadd (sim_qty l (oi_instrument o')) (hf_quantity f)
               else fsub (sim_qty l (oi_instrument o')) (hf_quantity f));
          l1 = set_position (oi_instrument o') (oi_ticker o') q (l\<lparr>sl_cash := cash'\<rparr>)
      in l1\<lparr>sl_fills := sl_fills l1 @ [\<lparr>fi_intent = o', fi_fill = f\<rparr>]\<rparr>)"

definition sim_apply_fill :: "sim_spec \<Rightarrow> market_view \<Rightarrow> date \<Rightarrow> sim_ledger \<Rightarrow> order_intent \<Rightarrow> sim_ledger" where
  "sim_apply_fill spec m day l o' = (case intent_fill spec m day o' of
     None \<Rightarrow> l
   | Some f \<Rightarrow>
       if hf_side f = ''BUY'' \<and> fadd (sl_cash l) eps6 < fadd (hf_notional f) (hf_commission f)
       then (case cash_scaled spec (sl_cash l) f o' of
               None \<Rightarrow> l
             | Some o2 \<Rightarrow> (case intent_fill spec m day o2 of None \<Rightarrow> l | Some f2 \<Rightarrow> book_fill o2 f2 l))
       else book_fill o' f l)"

text \<open>The float literal \<open>1e-8\<close>.\<close>

definition eps8 :: pyfloat where "eps8 = fl (1 / 10 ^ 8)"

definition execute_pending :: "sim_spec \<Rightarrow> market_view \<Rightarrow> date \<Rightarrow> sim_ledger \<Rightarrow> sim_ledger res" where
  "execute_pending spec m day l =
     (let due = filter (\<lambda>o'. oi_execution_date o' = day) (sl_pending l) in
      if due = [] then Inr l else
      let l0 = l\<lparr>sl_pending := filter (\<lambda>o'. oi_execution_date o' \<noteq> day) (sl_pending l)\<rparr>;
          l1 = foldl (sim_apply_fill spec m day) l0 (filter (\<lambda>o'. oi_side o' = ''SELL'') due);
          l2 = foldl (sim_apply_fill spec m day) l1 (filter (\<lambda>o'. oi_side o' = ''BUY'') due);
          l3 = (if \<bar>sl_cash l2\<bar> < eps8 then l2\<lparr>sl_cash := 0\<rparr> else l2)
      in if sl_cash l3 < - eps6 then Inl (RuntimeError ''negative cash after execution'') else Inr l3)"

section \<open>Predictions\<close>

record prediction_row =
  px_instrument :: int
  px_as_of :: date
  px_y_pred :: pyfloat
  px_fold :: string
  px_sample :: int

record prediction_bundle =
  pb_segment :: string
  pb_rows :: "prediction_row list"
  pb_fold_aware :: bool
  pb_semantic :: string

definition signal_of_row :: "prediction_bundle \<Rightarrow> market_view \<Rightarrow> date \<Rightarrow> prediction_row \<Rightarrow> signal option" where
  "signal_of_row b m day r = (case map_of (mv_tickers m) (px_instrument r) of
     Some (c # cs) \<Rightarrow>
       (let ranking = pb_semantic b = ''RANKING_SCORE'' in
        Some \<lparr>sg_instrument = px_instrument r, sg_ticker = c # cs, sg_as_of = day,
          sg_return = (if ranking then 0 else px_y_pred r), sg_fold = (if pb_fold_aware b then Some (px_fold r) else None),
          sg_sample = Some (px_sample r), sg_semantic = (if ranking then ''RANKING_SCORE'' else ''EXPECTED_RETURN''),
          sg_prediction_score = (if ranking then Some (px_y_pred r) else None)\<rparr>)
   | _ \<Rightarrow> None)"

definition signals_for_date :: "prediction_bundle \<Rightarrow> date \<Rightarrow> market_view \<Rightarrow> signal list" where
  "signals_for_date b day m = List.map_filter (signal_of_row b m day) (filter (\<lambda>r. px_as_of r = day) (pb_rows b))"

section \<open>Rebalancing\<close>

definition order_reason :: "sim_spec \<Rightarrow> pyfloat \<Rightarrow> pyfloat \<Rightarrow> string option \<Rightarrow> string" where
  "order_reason spec target_w current_w action =
     (if sm_policy spec = POLICY_NAME then POLICY_NAME
      else if target_w \<le> 0 then ''EXIT_BELOW_TOP35''
      else let act = opt_or action '''' in
      if current_w \<le> eps12 then (if act = '''' then ''ENTER_TOP20'' else act)
      else if fsub (sm_min_delta spec) eps15 \<le> \<bar>fsub target_w current_w\<bar> \<and> act = HOLD_ACTION then ''REBALANCE_WEIGHT_DELTA''
      else if fsub (sm_min_delta spec) eps15 \<le> \<bar>fsub target_w current_w\<bar> \<and> act = ENTER_ACTION then ENTER_ACTION
      else if act = '''' then ''REBALANCE_WEIGHT_DELTA'' else act)"

definition policy_decide :: "sim_spec \<Rightarrow> int list \<Rightarrow> signal list \<Rightarrow> decision list res" where
  "policy_decide spec held signals =
     (if sm_policy spec = POLICY_NAME then Inr (po_decisions (long_only_decide (sm_top_quantile spec) signals))
      else if sm_policy spec = POLICY_HYSTERESIS_V1
           then Inr (po_decisions (hysteresis_decide (sm_entry_quantile spec) (sm_exit_quantile spec) held signals))
      else Inl (ValueError ''unsupported policy_name''))"

definition risk_decide :: "sim_spec \<Rightarrow> pyfloat \<Rightarrow> decision list \<Rightarrow> risk_decision list" where
  "risk_decide spec exposure_cap ds =
     (let out = ro_decisions (guardrails_apply (sm_max_single spec) (sm_max_gross spec) (sm_long_only spec) ds) in
      if sm_risk spec = RISK_DD_GUARD_V1 \<and> exposure_cap < fsub 1 eps12
      then ro_decisions (apply_exposure_cap out exposure_cap (sm_max_single spec)) else out)"

text \<open>The targets that can be sized today and bought at the next open; a later decision on the same name wins.\<close>

definition sizable_targets :: "market_view \<Rightarrow> date \<Rightarrow> date \<Rightarrow> risk_decision list \<Rightarrow> int \<rightharpoonup> risk_decision" where
  "sizable_targets m today exec ds = map_of (rev (map (\<lambda>d. (dm_instrument (rd_meta d), d))
     (filter (\<lambda>d. \<not> (rd_blocked d \<or> rd_weight d \<le> 0) \<and> close_price m (dm_instrument (rd_meta d)) today \<noteq> None \<and>
        open_price m (dm_instrument (rd_meta d)) exec \<noteq> None) ds)))"

definition name_of :: "market_view \<Rightarrow> sim_ledger \<Rightarrow> int \<Rightarrow> string" where
  "name_of m l i = (case map_of (mv_tickers m) i of
     Some (c # cs) \<Rightarrow> c # cs
   | _ \<Rightarrow> (case map_of (sl_positions l) i of Some p \<Rightarrow> sq_ticker p | None \<Rightarrow> ''''))"

definition exit_without_mark :: "sim_spec \<Rightarrow> date \<Rightarrow> date \<Rightarrow> int \<Rightarrow> string \<Rightarrow> pyfloat \<Rightarrow> order_intent" where
  "exit_without_mark spec today exec i ticker q =
     \<lparr>oi_decision_date = today, oi_execution_date = exec, oi_instrument = i, oi_ticker = ticker, oi_side = ''SELL'',
      oi_target_weight = 0, oi_target_notional = 0, oi_quantity = q, oi_reason = ''exit_missing_mark'',
      oi_prediction_date = None, oi_predicted = None, oi_rank = None, oi_policy = sm_policy spec, oi_fold = None\<rparr>"

definition sized_intent ::
  "sim_spec \<Rightarrow> market_view \<Rightarrow> sim_ledger \<Rightarrow> date \<Rightarrow> date \<Rightarrow> pyfloat \<Rightarrow> (int \<rightharpoonup> risk_decision) \<Rightarrow> int \<Rightarrow> pyfloat \<Rightarrow> order_intent option" where
  "sized_intent spec m l today exec nav targets i px =
     (let d = targets i;
          target_w = (case d of Some x \<Rightarrow> rd_weight x | None \<Rightarrow> 0);
          ticker = (case d of Some x \<Rightarrow> rd_ticker x | None \<Rightarrow> name_of m l i);
          current_qty = sim_qty l i;
          current_value = fmul current_qty px;
          current_w = (if 0 < nav then fdiv current_value nav else 0);
          delta = fsub (fmul nav target_w) current_value in
      if \<bar>delta\<bar> < 1 then None
      else if 0 < sm_min_delta spec \<and> \<bar>fsub target_w current_w\<bar> < fsub (sm_min_delta spec) eps15 then None
      else if \<not> opt_sat (\<lambda>x. 0 < x) (open_price m i exec) then None
      else
      let q0 = fdiv \<bar>delta\<bar> px;
          q1 = (if sm_fractional spec then q0 else of_int (dtrunc q0));
          side = (if 0 < delta then ''BUY'' else ''SELL'');
          q = (if side = ''SELL'' then min q1 current_qty else q1) in
      if (\<not> sm_fractional spec \<and> q1 \<le> 0) \<or> (side = ''SELL'' \<and> q \<le> 0) then None
      else Some \<lparr>oi_decision_date = today, oi_execution_date = exec, oi_instrument = i, oi_ticker = ticker, oi_side = side,
            oi_target_weight = target_w, oi_target_notional = \<bar>delta\<bar>, oi_quantity = q,
            oi_reason = order_reason spec target_w current_w (Option.bind d (\<lambda>x. dm_action (rd_meta x))),
            oi_prediction_date = Some (case d of Some x \<Rightarrow> dm_prediction_date (rd_meta x) | None \<Rightarrow> today),
            oi_predicted = Option.bind d (\<lambda>x. dm_predicted (rd_meta x)), oi_rank = map_option (\<lambda>x. dm_rank (rd_meta x)) d,
            oi_policy = sm_policy spec, oi_fold = Option.bind d (\<lambda>x. dm_fold (rd_meta x))\<rparr>)"

definition intent_for ::
  "sim_spec \<Rightarrow> market_view \<Rightarrow> sim_ledger \<Rightarrow> date \<Rightarrow> date \<Rightarrow> pyfloat \<Rightarrow> (int \<rightharpoonup> risk_decision) \<Rightarrow> int \<Rightarrow> order_intent option" where
  "intent_for spec m l today exec nav targets i =
     (case close_price m i today of
        Some px \<Rightarrow> if 0 < px then sized_intent spec m l today exec nav targets i px
          else if 0 < sim_qty l i \<and> targets i = None then Some (exit_without_mark spec today exec i (name_of m l i) (sim_qty l i)) else None
      | None \<Rightarrow> if 0 < sim_qty l i \<and> targets i = None then Some (exit_without_mark spec today exec i (name_of m l i) (sim_qty l i)) else None)"

definition build_rebalance_intents ::
  "sim_spec \<Rightarrow> market_view \<Rightarrow> prediction_bundle \<Rightarrow> sim_ledger \<Rightarrow> date \<Rightarrow> date \<Rightarrow> pyfloat \<Rightarrow> order_intent list res" where
  "build_rebalance_intents spec m b l today exec exposure_cap =
     (let signals = signals_for_date b today m in
      if signals = [] then Inr [] else
      bnd (policy_decide spec (sort (map fst (sl_positions l))) signals) (\<lambda>decisions.
      let nav = sim_nav (\<lambda>i. close_price m i today) l;
          ds = risk_decide spec exposure_cap decisions;
          targets = sizable_targets m today exec ds;
          ids = sort (remdups (map fst (sl_positions l) @ filter (\<lambda>i. targets i \<noteq> None) (map (\<lambda>d. dm_instrument (rd_meta d)) ds)))
      in Inr (if nav \<le> 0 then [] else List.map_filter (intent_for spec m l today exec nav targets) ids)))"

section \<open>The daily loop\<close>

record sim_state =
  st_ledger :: sim_ledger
  st_guard :: guard_state

definition guard_step :: "sim_spec \<Rightarrow> date \<Rightarrow> snapshot \<Rightarrow> sim_state \<Rightarrow> sim_state" where
  "guard_step spec day snap s =
     (if sm_risk spec \<noteq> RISK_DD_GUARD_V1 then s else
      let g = update_drawdown_guard (sm_guard spec) (st_guard s) day (ss_nav snap) (ss_peak snap) (ss_drawdown snap)
      in \<lparr>st_ledger = (st_ledger s)\<lparr>sl_mode := gs_mode g, sl_cap := gs_cap g,
            sl_risk_events := sl_risk_events (st_ledger s) @ drop (length (gs_events (st_guard s))) (gs_events g)\<rparr>,
          st_guard = g\<rparr>)"

definition rebalance_step :: "sim_spec \<Rightarrow> market_view \<Rightarrow> prediction_bundle \<Rightarrow> date list \<Rightarrow> date \<Rightarrow> date \<Rightarrow> sim_state \<Rightarrow> sim_state res" where
  "rebalance_step spec m b days last_pred day s =
     (if \<not> (day \<in> set (weekly_rebalance_dates days) \<and> day \<in> set (map px_as_of (pb_rows b)) \<and> day \<le> last_pred) then Inr s else
      case next_trading_day days day of
        None \<Rightarrow> Inr s
      | Some exec \<Rightarrow>
          let l = st_ledger s in
          bnd (build_rebalance_intents spec m b l day exec (if sm_risk spec = RISK_DD_GUARD_V1 then sl_cap l else 1)) (\<lambda>intents.
          Inr (if intents = [] then s
               else s\<lparr>st_ledger := l\<lparr>sl_rebalances := sl_rebalances l + 1, sl_orders := sl_orders l @ intents,
                       sl_pending := sl_pending l @ intents\<rparr>\<rparr>)))"

definition end_of_day :: "sim_spec \<Rightarrow> market_view \<Rightarrow> prediction_bundle \<Rightarrow> date list \<Rightarrow> date \<Rightarrow> date \<Rightarrow> sim_state \<Rightarrow> sim_ledger \<Rightarrow> sim_state res" where
  "end_of_day spec m b days last_pred day s l = (case record_snapshot day (\<lambda>i. close_price m i day) l of
     (snap, l1) \<Rightarrow> rebalance_step spec m b days last_pred day (guard_step spec day snap (s\<lparr>st_ledger := l1\<rparr>)))"

definition sim_day :: "sim_spec \<Rightarrow> market_view \<Rightarrow> prediction_bundle \<Rightarrow> date list \<Rightarrow> date \<Rightarrow> sim_state \<Rightarrow> date \<Rightarrow> sim_state res" where
  "sim_day spec m b days last_pred s day =
     bnd (execute_pending spec m day (sim_apply_ca m day (st_ledger s))) (end_of_day spec m b days last_pred day s)"

definition start_ledger :: "sim_spec \<Rightarrow> sim_ledger" where
  "start_ledger spec = \<lparr>sl_cash = sm_capital spec, sl_positions = [], sl_pending = [], sl_fills = [], sl_orders = [],
     sl_ca_events = [], sl_risk_events = [], sl_snapshots = [], sl_peak = sm_capital spec, sl_rebalances = 0,
     sl_mode = NORMAL, sl_cap = 1\<rparr>"

definition start_state :: "sim_spec \<Rightarrow> sim_state" where
  "start_state spec = \<lparr>st_ledger = start_ledger spec, st_guard = \<lparr>gs_mode = NORMAL,
     gs_cap = (if sm_risk spec = RISK_DD_GUARD_V1 then gd_normal_gross (sm_guard spec) else 1), gs_events = []\<rparr>\<rparr>"

text \<open>The window: from the first prediction (or \<open>date_from\<close>) to one session past the last, not past \<open>date_to\<close>.\<close>

definition sim_window :: "market_view \<Rightarrow> date list \<Rightarrow> date option \<Rightarrow> date option \<Rightarrow> date list \<times> date" where
  "sim_window m pred_dates date_from date_to =
     (let first_pred = opt_or date_from (hd pred_dates);
          last_pred = opt_or date_to (last pred_dates);
          end1 = opt_or (next_trading_day (mv_days m) last_pred) last_pred;
          end2 = (case date_to of None \<Rightarrow> end1 | Some d \<Rightarrow> min end1 d)
      in (filter (\<lambda>d. first_pred \<le> d \<and> d \<le> end2) (mv_days m), last_pred))"

definition run_simulation :: "sim_spec \<Rightarrow> prediction_bundle \<Rightarrow> market_view \<Rightarrow> date option \<Rightarrow> date option \<Rightarrow> sim_ledger res" where
  "run_simulation spec b m date_from date_to =
     (if pb_segment b \<noteq> sm_segment spec then Inl (ValueError ''spec.segment must match prediction bundle segment'') else
      let pred_dates = sort (remdups (map px_as_of (pb_rows b))) in
      if pred_dates = [] then Inl (ValueError ''no prediction dates'') else
      let (days, last_pred) = sim_window m pred_dates date_from date_to in
      if days = [] then Inl (ValueError ''no trading days in simulation window'') else
      if sm_policy spec \<notin> {POLICY_NAME, POLICY_HYSTERESIS_V1} then Inl (ValueError ''unsupported policy_name'') else
      bnd (foldM (sim_day spec m b days last_pred) (start_state spec) days) (\<lambda>s. Inr (st_ledger s)))"

section \<open>What the steps touch\<close>

lemma eps8_code [code]: "eps8 = 3022314549036573 / 2 ^ 78"
  by code_simp

lemma set_position_shape: "\<exists>ps. set_position i t q l = l\<lparr>sl_positions := ps\<rparr>"
  by (auto simp: set_position_def)

lemma sim_ca_action_shape: "\<exists>ps es. sim_ca_action day i p l a = l\<lparr>sl_positions := ps, sl_ca_events := es\<rparr>"
proof -
  obtain ps where "set_position i (sq_ticker p) (quantity_after_ca (sq_quantity p) (ma_factor a)) l = l\<lparr>sl_positions := ps\<rparr>"
    using set_position_shape by blast
  then show ?thesis by (auto simp: sim_ca_action_def Let_def)
qed

lemma foldl_shape:
  assumes "\<And>l x. \<exists>ps es. f l x = l\<lparr>sl_positions := ps, sl_ca_events := es\<rparr>"
  shows "\<exists>ps es. foldl f l xs = l\<lparr>sl_positions := ps, sl_ca_events := es\<rparr>"
proof (induction xs arbitrary: l)
  case Nil
  show ?case by (intro exI [of _ "sl_positions l"] exI [of _ "sl_ca_events l"]) simp
next
  case (Cons x xs)
  obtain ps es where "f l x = l\<lparr>sl_positions := ps, sl_ca_events := es\<rparr>" using assms by blast
  moreover obtain ps' es' where "foldl f (f l x) xs = (f l x)\<lparr>sl_positions := ps', sl_ca_events := es'\<rparr>" using Cons by blast
  ultimately show ?case by auto
qed

lemma sim_apply_ca_shape: "\<exists>ps es. sim_apply_ca m day l = l\<lparr>sl_positions := ps, sl_ca_events := es\<rparr>"
  unfolding sim_apply_ca_def
proof (rule foldl_shape)
  fix l and x :: "int \<times> sim_position"
  show "\<exists>ps es. (case x of (i, p) \<Rightarrow> foldl (sim_ca_action day i p) l (ca_on m i day)) = l\<lparr>sl_positions := ps, sl_ca_events := es\<rparr>"
    by (cases x) (auto intro!: foldl_shape sim_ca_action_shape)
qed

lemma book_fill_shape: "\<exists>c ps. book_fill o' f l = l\<lparr>sl_cash := c, sl_positions := ps, sl_fills := sl_fills l @ [\<lparr>fi_intent = o', fi_fill = f\<rparr>]\<rparr>"
proof -
  obtain c q where "book_fill o' f l = (let l1 = set_position (oi_instrument o') (oi_ticker o') q (l\<lparr>sl_cash := c\<rparr>)
      in l1\<lparr>sl_fills := sl_fills l1 @ [\<lparr>fi_intent = o', fi_fill = f\<rparr>]\<rparr>)" by (simp add: book_fill_def Let_def)
  moreover obtain ps where "set_position (oi_instrument o') (oi_ticker o') q (l\<lparr>sl_cash := c\<rparr>) = (l\<lparr>sl_cash := c\<rparr>)\<lparr>sl_positions := ps\<rparr>"
    using set_position_shape by blast
  ultimately show ?thesis by (auto simp: Let_def)
qed

text \<open>A fill executes a pending order at the open of its execution date, after its decision.\<close>

definition fill_sound :: "market_view \<Rightarrow> sim_fill \<Rightarrow> bool" where
  "fill_sound m f \<longleftrightarrow> oi_decision_date (fi_intent f) < oi_execution_date (fi_intent f) \<and>
     open_price m (oi_instrument (fi_intent f)) (oi_execution_date (fi_intent f)) = Some (hf_raw_open (fi_fill f)) \<and>
     0 < hf_raw_open (fi_fill f) \<and> hf_quantity (fi_fill f) = \<bar>oi_quantity (fi_intent f)\<bar>"

lemma adapter_fill_facts: "adapter_fill side q px c s = Some f \<Longrightarrow> px = Some (hf_raw_open f) \<and> 0 < hf_raw_open f \<and> hf_quantity f = \<bar>q\<bar>"
  by (auto simp: adapter_fill_def Let_def split: option.splits if_splits)

lemma intent_fill_sound:
  assumes "intent_fill spec m (oi_execution_date o') o' = Some f" and "oi_decision_date o' < oi_execution_date o'"
  shows "fill_sound m \<lparr>fi_intent = o', fi_fill = f\<rparr>"
  using adapter_fill_facts [OF assms(1) [unfolded intent_fill_def]] assms(2) by (auto simp: fill_sound_def)

lemma cash_scaled_dates: "cash_scaled spec c f o' = Some o2 \<Longrightarrow>
    oi_decision_date o2 = oi_decision_date o' \<and> oi_execution_date o2 = oi_execution_date o' \<and> oi_instrument o2 = oi_instrument o' \<and> oi_side o2 = oi_side o'"
  by (auto simp: cash_scaled_def Let_def split: if_splits)

definition same_frame :: "sim_ledger \<Rightarrow> sim_ledger \<Rightarrow> bool" where
  "same_frame l l' \<longleftrightarrow> sl_orders l' = sl_orders l \<and> sl_risk_events l' = sl_risk_events l \<and> sl_snapshots l' = sl_snapshots l \<and>
     sl_peak l' = sl_peak l \<and> sl_mode l' = sl_mode l \<and> sl_cap l' = sl_cap l \<and> sl_pending l' = sl_pending l"

lemma same_frame_refl [simp]: "same_frame l l"
  by (simp add: same_frame_def)

lemma same_frame_trans: "same_frame l l' \<Longrightarrow> same_frame l' l'' \<Longrightarrow> same_frame l l''"
  by (simp add: same_frame_def)

definition fills_sound :: "market_view \<Rightarrow> sim_ledger \<Rightarrow> bool" where
  "fills_sound m l \<longleftrightarrow> (\<forall>f \<in> set (sl_fills l). fill_sound m f)"

lemma book_fill_step:
  assumes "intent_fill spec m day x = Some f" and "oi_execution_date x = day" and "oi_decision_date x < day" and "fills_sound m l"
  shows "same_frame l (book_fill x f l) \<and> fills_sound m (book_fill x f l)"
proof -
  obtain c ps where "book_fill x f l = l\<lparr>sl_cash := c, sl_positions := ps, sl_fills := sl_fills l @ [\<lparr>fi_intent = x, fi_fill = f\<rparr>]\<rparr>"
    using book_fill_shape by blast
  moreover have "fill_sound m \<lparr>fi_intent = x, fi_fill = f\<rparr>" using intent_fill_sound [of spec m x f] assms by simp
  ultimately show ?thesis using assms(4) by (auto simp: same_frame_def fills_sound_def)
qed

lemma sim_apply_fill_step:
  assumes "oi_execution_date o' = day" and "oi_decision_date o' < day" and "fills_sound m l"
  shows "same_frame l (sim_apply_fill spec m day l o') \<and> fills_sound m (sim_apply_fill spec m day l o')"
proof (cases "intent_fill spec m day o'")
  case None
  with assms show ?thesis by (simp add: sim_apply_fill_def)
next
  case (Some f)
  then have plain: "same_frame l (book_fill o' f l) \<and> fills_sound m (book_fill o' f l)"
    using book_fill_step assms by blast
  have scaled: "same_frame l (book_fill o2 f2 l) \<and> fills_sound m (book_fill o2 f2 l)"
    if "cash_scaled spec (sl_cash l) f o' = Some o2" "intent_fill spec m day o2 = Some f2" for o2 f2
    using book_fill_step [OF that(2) _ _ assms(3)] cash_scaled_dates [OF that(1)] assms by simp
  show ?thesis
    using plain scaled assms(3) Some by (simp add: sim_apply_fill_def split: option.split)
qed

lemma sim_apply_fills:
  assumes "\<forall>o' \<in> set os. oi_execution_date o' = day \<and> oi_decision_date o' < day" and "fills_sound m l"
  shows "same_frame l (foldl (sim_apply_fill spec m day) l os) \<and> fills_sound m (foldl (sim_apply_fill spec m day) l os)"
  using assms
proof (induction os arbitrary: l)
  case (Cons o' os)
  then have s: "same_frame l (sim_apply_fill spec m day l o')" "fills_sound m (sim_apply_fill spec m day l o')"
    using sim_apply_fill_step [of o' day m l spec] by auto
  have "same_frame (sim_apply_fill spec m day l o') (foldl (sim_apply_fill spec m day) (sim_apply_fill spec m day l o') os) \<and>
      fills_sound m (foldl (sim_apply_fill spec m day) (sim_apply_fill spec m day l o') os)"
    using Cons.prems(1) s(2) by (intro Cons.IH) simp_all
  then show ?case using same_frame_trans [OF s(1)] by simp
qed simp

lemma execute_pending_step:
  assumes "execute_pending spec m day l = Inr l'" and "\<forall>o' \<in> set (sl_pending l). oi_decision_date o' < oi_execution_date o'"
    and "fills_sound m l" and "- eps6 \<le> sl_cash l"
  shows "same_frame (l\<lparr>sl_pending := sl_pending l'\<rparr>) l' \<and> sl_pending l' = filter (\<lambda>o'. oi_execution_date o' \<noteq> day) (sl_pending l) \<and>
    fills_sound m l' \<and> - eps6 \<le> sl_cash l'"
proof (cases "filter (\<lambda>o'. oi_execution_date o' = day) (sl_pending l) = []")
  case True
  then have "filter (\<lambda>o'. oi_execution_date o' \<noteq> day) (sl_pending l) = sl_pending l" by (auto simp: filter_empty_conv filter_id_conv)
  with True assms show ?thesis by (simp add: execute_pending_def same_frame_def)
next
  case False
  define l0 where "l0 = l\<lparr>sl_pending := filter (\<lambda>o'. oi_execution_date o' \<noteq> day) (sl_pending l)\<rparr>"
  define due where "due side = filter (\<lambda>o'. oi_side o' = side) (filter (\<lambda>o'. oi_execution_date o' = day) (sl_pending l))" for side
  define l1 where "l1 = foldl (sim_apply_fill spec m day) l0 (due ''SELL'')"
  define l2 where "l2 = foldl (sim_apply_fill spec m day) l1 (due ''BUY'')"
  have d: "\<forall>o' \<in> set (due side). oi_execution_date o' = day \<and> oi_decision_date o' < day" for side
    using assms(2) by (auto simp: due_def)
  have f0: "fills_sound m l0" using assms(3) by (simp add: l0_def fills_sound_def)
  note 1 = sim_apply_fills [OF d f0, of spec "''SELL''", folded l1_def]
  note 2 = sim_apply_fills [OF d 1 [THEN conjunct2], of spec "''BUY''", folded l2_def]
  have "l' = (if \<bar>sl_cash l2\<bar> < eps8 then l2\<lparr>sl_cash := 0\<rparr> else l2)" "- eps6 \<le> sl_cash l'"
    using assms(1) False unfolding execute_pending_def Let_def l0_def [symmetric] due_def [symmetric] l1_def [symmetric] l2_def [symmetric]
    by (auto split: if_splits simp: not_less)
  then show ?thesis using 1 2 by (auto simp: same_frame_def l0_def fills_sound_def)
qed


section \<open>Loading the market\<close>

text \<open>The candles the query returns, in its order; a price may be missing.\<close>

record sim_candle =
  sc_instrument :: int
  sc_day :: date
  sc_open :: "pyfloat option"
  sc_close :: "pyfloat option"

definition usable_candle :: "sim_candle \<Rightarrow> bool" where
  "usable_candle c \<longleftrightarrow> sc_open c \<noteq> None \<and> sc_close c \<noteq> None"

definition add_bar :: "(int \<rightharpoonup> (date \<rightharpoonup> pyfloat \<times> pyfloat)) \<Rightarrow> sim_candle \<Rightarrow> (int \<rightharpoonup> (date \<rightharpoonup> pyfloat \<times> pyfloat))" where
  "add_bar bars c = (case (sc_open c, sc_close c) of
     (Some x, Some y) \<Rightarrow> bars(sc_instrument c \<mapsto> (opt_or (bars (sc_instrument c)) Map.empty)(sc_day c \<mapsto> (x, y)))
   | _ \<Rightarrow> bars)"

definition load_market_view :: "int option \<Rightarrow> (int \<times> string) list \<Rightarrow> (int \<rightharpoonup> mech_action list) \<Rightarrow> sim_candle list \<Rightarrow> market_view" where
  "load_market_view imoex tickers acts candles =
     (let days = map sc_day (filter (\<lambda>c. usable_candle c \<and> (imoex = None \<or> imoex \<noteq> Some (sc_instrument c))) candles);
          days1 = (if days = [] then map sc_day (filter usable_candle candles) else days)
      in \<lparr>mv_bars = foldl add_bar Map.empty candles,
          mv_actions = (\<lambda>i. if imoex = Some i then None else acts i), mv_tickers = tickers, mv_days = sort (remdups days1)\<rparr>)"

lemma load_market_view_days: "sorted_wrt (<) (mv_days (load_market_view imoex tickers acts candles))"
  by (simp add: load_market_view_def Let_def strict_sorted_iff)

section \<open>Invariants of the run\<close>

definition position_value :: "(int \<times> (string \<times> pyfloat \<times> pyfloat option)) list \<Rightarrow> pyfloat" where
  "position_value ps = foldl (\<lambda>t (i, tk, q, px). case px of None \<Rightarrow> t | Some x \<Rightarrow> fadd t (fmul q x)) 0 ps"

text \<open>A snapshot marks its positions at the closes of its day and its net asset value is cash plus these.\<close>

definition snapshot_sound :: "market_view \<Rightarrow> snapshot \<Rightarrow> bool" where
  "snapshot_sound m s \<longleftrightarrow> ss_nav s = fadd (ss_cash s) (position_value (ss_positions s)) \<and>
     (\<forall>(i, tk, q, px) \<in> set (ss_positions s). px = close_price m i (ss_as_of s))"

text \<open>The peak of each snapshot is the running maximum of the capital and the values so far.\<close>

fun peaks_run :: "pyfloat \<Rightarrow> snapshot list \<Rightarrow> pyfloat option" where
  "peaks_run p [] = Some p"
| "peaks_run p (s # ss) = (if ss_peak s = max p (ss_nav s) \<and> ss_drawdown s = fsub (fdiv (ss_nav s) (ss_peak s)) 1 \<and>
     ss_drawdown s \<le> 0 then peaks_run (ss_peak s) ss else None)"

lemma peaks_run_append: "peaks_run p (ss @ ts) = Option.bind (peaks_run p ss) (\<lambda>q. peaks_run q ts)"
  by (induction ss arbitrary: p) auto

lemma peaks_run_ge: "peaks_run p ss = Some q \<Longrightarrow> p \<le> q"
proof (induction ss arbitrary: p)
  case (Cons s ss)
  then have "peaks_run (max p (ss_nav s)) ss = Some q" by (simp split: if_splits)
  then have "max p (ss_nav s) \<le> q" by (rule Cons.IH)
  then show ?case by simp
qed simp

lemma run_drawdown_nonpos: "0 < p \<Longrightarrow> x \<le> p \<Longrightarrow> fsub (fdiv x p) 1 \<le> 0"
  using fl_le_1 [of "x / p"] by (auto simp: fsub_def fdiv_def intro!: fl_nonpos)

lemma record_snapshot_step:
  assumes "record_snapshot day closes l = (snap, l1)" and "0 < sl_peak l"
  shows "l1 = l\<lparr>sl_peak := ss_peak snap, sl_snapshots := sl_snapshots l @ [snap]\<rparr> \<and> ss_as_of snap = day \<and> ss_cash snap = sl_cash l \<and>
    peaks_run (sl_peak l) [snap] = Some (ss_peak snap) \<and> 0 < ss_peak snap \<and>
    ss_nav snap = fadd (ss_cash snap) (position_value (ss_positions snap)) \<and>
    (\<forall>(i, tk, q, px) \<in> set (ss_positions snap). px = closes i)"
proof -
  define mv where "mv = sim_market_value closes l"
  define nav where "nav = fadd (sl_cash l) mv"
  define pk where "pk = max (sl_peak l) nav"
  have pk: "0 < pk" "nav \<le> pk" using assms(2) by (auto simp: pk_def less_max_iff_disj)
  define ps where "ps = map (\<lambda>(i, p). (i, sq_ticker p, sq_quantity p, closes i)) (sl_positions l)"
  have r: "record_snapshot day closes l = (\<lparr>ss_as_of = day, ss_cash = sl_cash l, ss_nav = nav,
      ss_gross = (if nav \<le> 0 then 0 else fdiv mv nav), ss_cash_weight = (if nav \<le> 0 then 0 else fdiv (sl_cash l) nav),
      ss_positions = ps, ss_peak = pk, ss_drawdown = fsub (fdiv nav pk) 1\<rparr>,
      l\<lparr>sl_peak := pk, sl_snapshots := sl_snapshots l @ [\<lparr>ss_as_of = day, ss_cash = sl_cash l, ss_nav = nav,
      ss_gross = (if nav \<le> 0 then 0 else fdiv mv nav), ss_cash_weight = (if nav \<le> 0 then 0 else fdiv (sl_cash l) nav),
      ss_positions = ps, ss_peak = pk, ss_drawdown = fsub (fdiv nav pk) 1\<rparr>]\<rparr>)"
    using pk assms(2) by (simp add: record_snapshot_def Let_def mv_def nav_def pk_def ps_def)
  have pv: "position_value ps = mv"
    by (simp add: position_value_def sim_market_value_def ps_def mv_def foldl_map case_prod_unfold cong: option.case_cong)
  have dd: "fsub (fdiv nav pk) 1 \<le> 0" by (rule run_drawdown_nonpos [OF pk])
  have c: "\<forall>(i, tk, q, px) \<in> set ps. px = closes i" by (auto simp: ps_def)
  have "snap = fst (record_snapshot day closes l)" "l1 = snd (record_snapshot day closes l)" using assms(1) by simp_all
  then show ?thesis unfolding r using pv dd c pk(1) by (simp add: nav_def pk_def)
qed

text \<open>What every prefix of the run keeps: \<open>past\<close> is the list of the days done.\<close>

definition orders_forward :: "order_intent list \<Rightarrow> bool" where
  "orders_forward os \<longleftrightarrow> (\<forall>o' \<in> set os. oi_decision_date o' < oi_execution_date o')"

definition sim_inv :: "sim_spec \<Rightarrow> market_view \<Rightarrow> date list \<Rightarrow> sim_state \<Rightarrow> bool" where
  "sim_inv spec m past s \<longleftrightarrow> (let l = st_ledger s in
     fills_sound m l \<and> orders_forward (sl_orders l) \<and> orders_forward (sl_pending l) \<and> - eps6 \<le> sl_cash l \<and>
     map ss_as_of (sl_snapshots l) = past \<and> (\<forall>x \<in> set (sl_snapshots l). snapshot_sound m x \<and> - eps6 \<le> ss_cash x) \<and>
     0 < sl_peak l \<and> peaks_run (sm_capital spec) (sl_snapshots l) = Some (sl_peak l) \<and>
     sl_risk_events l = gs_events (st_guard s) \<and> sl_mode l = gs_mode (st_guard s) \<and> guard_ok (sm_guard spec) (st_guard s))"

lemma orders_forward_simps [simp]: "orders_forward []" "orders_forward (os @ ps) \<longleftrightarrow> orders_forward os \<and> orders_forward ps"
  by (auto simp: orders_forward_def)

lemma eps6_pos: "0 < eps6"
  by (simp add: eps6_code)

lemma sim_inv_start: "0 < sm_capital spec \<Longrightarrow> sim_inv spec m [] (start_state spec)"
  using eps6_pos by (simp add: sim_inv_def start_state_def start_ledger_def guard_ok_def fills_sound_def)

lemma guard_step_inv:
  assumes "sim_inv spec m past s"
  shows "sim_inv spec m past (guard_step spec day snap s) \<and> sl_pending (st_ledger (guard_step spec day snap s)) = sl_pending (st_ledger s)"
proof (cases "sm_risk spec = RISK_DD_GUARD_V1")
  case True
  define g where "g = update_drawdown_guard (sm_guard spec) (st_guard s) day (ss_nav snap) (ss_peak snap) (ss_drawdown snap)"
  have "gs_events (st_guard s) @ drop (length (gs_events (st_guard s))) (gs_events g) = gs_events g"
    by (auto simp: g_def update_drawdown_guard_def split: prod.split)
  moreover have "guard_ok (sm_guard spec) g"
    using assms unfolding g_def by (intro update_guard_ok) (simp add: sim_inv_def Let_def)
  ultimately show ?thesis
    using assms True by (simp add: guard_step_def Let_def g_def [symmetric] sim_inv_def fills_sound_def)
qed (use assms in \<open>simp add: guard_step_def\<close>)

lemma sized_intent_dates: "sized_intent spec m l today exec nav targets i px = Some o' \<Longrightarrow> oi_decision_date o' = today \<and> oi_execution_date o' = exec"
  by (auto simp: sized_intent_def Let_def split: if_splits)

lemma intent_for_dates: "intent_for spec m l today exec nav targets i = Some o' \<Longrightarrow> oi_decision_date o' = today \<and> oi_execution_date o' = exec"
  by (auto simp: intent_for_def exit_without_mark_def split: option.splits if_splits dest: sized_intent_dates)

lemma build_rebalance_dates:
  assumes "build_rebalance_intents spec m b l today exec cap = Inr os" and "o' \<in> set os"
  shows "oi_decision_date o' = today \<and> oi_execution_date o' = exec"
proof -
  have "\<exists>nav targets i. intent_for spec m l today exec nav targets i = Some o'"
    using assms by (auto simp: build_rebalance_intents_def Let_def exn_simps List.map_filter_def split: if_splits) blast+
  then show ?thesis using intent_for_dates by blast
qed


lemma rebalance_step_cases:
  assumes "rebalance_step spec m b days last_pred day s = Inr s'"
  obtains "s' = s" | exec os cap where "next_trading_day days day = Some exec"
      "build_rebalance_intents spec m b (st_ledger s) day exec cap = Inr os"
      "s' = s\<lparr>st_ledger := (st_ledger s)\<lparr>sl_rebalances := sl_rebalances (st_ledger s) + 1,
         sl_orders := sl_orders (st_ledger s) @ os, sl_pending := sl_pending (st_ledger s) @ os\<rparr>\<rparr>"
proof (cases "s' = s")
  case False
  then obtain exec where e: "next_trading_day days day = Some exec"
    using assms by (auto simp: rebalance_step_def split: if_splits option.splits)
  define cap where "cap = (if sm_risk spec = RISK_DD_GUARD_V1 then sl_cap (st_ledger s) else 1)"
  from e False obtain os where "build_rebalance_intents spec m b (st_ledger s) day exec cap = Inr os" "os \<noteq> []"
      "s' = s\<lparr>st_ledger := (st_ledger s)\<lparr>sl_rebalances := sl_rebalances (st_ledger s) + 1,
         sl_orders := sl_orders (st_ledger s) @ os, sl_pending := sl_pending (st_ledger s) @ os\<rparr>\<rparr>"
    using assms by (simp add: rebalance_step_def Let_def cap_def [symmetric] exn_simps split: if_splits) (metis Inr_inject)
  with e show ?thesis using that by blast
qed (use that in blast)

lemma rebalance_step_inv:
  assumes "rebalance_step spec m b days last_pred day s = Inr s'" and "sim_inv spec m past s"
  shows "sim_inv spec m past s' \<and> (\<exists>os. sl_pending (st_ledger s') = sl_pending (st_ledger s) @ os \<and>
    (\<forall>o' \<in> set os. next_trading_day days day = Some (oi_execution_date o')))"
  using assms(1)
proof (cases rule: rebalance_step_cases)
  case (2 exec os cap)
  have "orders_forward os" using build_rebalance_dates [OF 2(2)] next_trading_day_SomeD [OF 2(1)]
    by (simp add: orders_forward_def)
  then show ?thesis using assms(2) 2(1) build_rebalance_dates [OF 2(2)]
    unfolding 2(3) by (simp add: sim_inv_def fills_sound_def Let_def)
qed (use assms(2) in simp)

lemma sim_day_inv:
  assumes "sim_day spec m b days last_pred s day = Inr s'" and "sim_inv spec m past s"
  shows "sim_inv spec m (past @ [day]) s' \<and> (\<forall>o' \<in> set (sl_pending (st_ledger s')).
    o' \<in> set (sl_pending (st_ledger s)) \<and> oi_execution_date o' \<noteq> day \<or> next_trading_day days day = Some (oi_execution_date o'))"
proof -
  obtain l where l: "execute_pending spec m day (sim_apply_ca m day (st_ledger s)) = Inr l"
    using assms(1) by (auto simp: sim_day_def exn_simps)
  obtain snap l1 where r: "record_snapshot day (\<lambda>i. close_price m i day) l = (snap, l1)" by fastforce
  have s': "rebalance_step spec m b days last_pred day (guard_step spec day snap (s\<lparr>st_ledger := l1\<rparr>)) = Inr s'"
    using assms(1) by (simp add: sim_day_def end_of_day_def l r)
  note I = assms(2) [unfolded sim_inv_def Let_def]
  obtain ps es where ca: "sim_apply_ca m day (st_ledger s) = (st_ledger s)\<lparr>sl_positions := ps, sl_ca_events := es\<rparr>"
    using sim_apply_ca_shape by blast
  have e: "same_frame (sim_apply_ca m day (st_ledger s)\<lparr>sl_pending := sl_pending l\<rparr>) l"
      "sl_pending l = filter (\<lambda>o'. oi_execution_date o' \<noteq> day) (sl_pending (st_ledger s))" "fills_sound m l" "- eps6 \<le> sl_cash l"
    using execute_pending_step [OF l] I by (auto simp: ca orders_forward_def fills_sound_def)
  have f: "sl_orders l = sl_orders (st_ledger s)" "sl_risk_events l = sl_risk_events (st_ledger s)"
      "sl_snapshots l = sl_snapshots (st_ledger s)" "sl_peak l = sl_peak (st_ledger s)" "sl_mode l = sl_mode (st_ledger s)"
    using e(1) by (simp_all add: same_frame_def ca)
  note R = record_snapshot_step [OF r]
  have p: "0 < sl_peak l" using I f by simp
  have "sim_inv spec m (past @ [day]) (s\<lparr>st_ledger := l1\<rparr>)"
    using I e f R [OF p] by (auto simp: sim_inv_def Let_def fills_sound_def orders_forward_def snapshot_sound_def peaks_run_append simp del: peaks_run.simps)
  from guard_step_inv [OF this, of day snap] have g: "sim_inv spec m (past @ [day]) (guard_step spec day snap (s\<lparr>st_ledger := l1\<rparr>))"
    "sl_pending (st_ledger (guard_step spec day snap (s\<lparr>st_ledger := l1\<rparr>))) = sl_pending l" using R [OF p] by simp_all
  show ?thesis using rebalance_step_inv [OF s' g(1)] g(2) e(2) by auto
qed


lemma sim_days_inv:
  assumes "foldM (sim_day spec m b days last_pred) s ds = Inr s'" and "sim_inv spec m past s"
    and "days = past @ ds" and "sorted_wrt (<) days" and "\<forall>o' \<in> set (sl_pending (st_ledger s)). oi_execution_date o' \<in> set ds"
  shows "sim_inv spec m days s' \<and> sl_pending (st_ledger s') = []"
  using assms
proof (induction ds arbitrary: s past)
  case (Cons d ds)
  then obtain s1 where s1: "sim_day spec m b days last_pred s d = Inr s1" "foldM (sim_day spec m b days last_pred) s1 ds = Inr s'"
    by (auto simp: exn_simps)
  note I = sim_day_inv [OF s1(1) Cons.prems(2)]
  have "oi_execution_date o' \<in> set ds" if o': "o' \<in> set (sl_pending (st_ledger s1))" for o'
  proof -
    consider "o' \<in> set (sl_pending (st_ledger s))" "oi_execution_date o' \<noteq> d" | "next_trading_day days d = Some (oi_execution_date o')"
      using I o' by blast
    then show ?thesis
    proof cases
      case 1
      then show ?thesis using Cons.prems(5) by auto
    next
      case 2
      then show ?thesis using next_trading_day_SomeD [OF 2] Cons.prems(3,4) by (auto simp: sorted_wrt_append)
    qed
  qed
  then show ?case using I Cons.prems(3,4) by (intro Cons.IH [OF s1(2)]) auto
qed simp

lemma run_simulation_inv:
  assumes "run_simulation spec b m df dt = Inr l" and "0 < sm_capital spec" and "sorted_wrt (<) (mv_days m)"
  obtains s where "l = st_ledger s" "sim_inv spec m (fst (sim_window m (sort (remdups (map px_as_of (pb_rows b)))) df dt)) s" "sl_pending l = []"
proof -
  obtain days last_pred where w: "sim_window m (sort (remdups (map px_as_of (pb_rows b)))) df dt = (days, last_pred)" by fastforce
  obtain s where s: "foldM (sim_day spec m b days last_pred) (start_state spec) days = Inr s" "l = st_ledger s"
    using assms(1) by (auto simp: run_simulation_def Let_def w exn_simps split: if_splits)
  have "sorted_wrt (<) days" using w assms(3) by (auto simp: sim_window_def Let_def sorted_wrt_filter)
  from sim_days_inv [OF s(1) sim_inv_start [OF assms(2)] _ this]
  have "sim_inv spec m days s \<and> sl_pending (st_ledger s) = []" by (simp add: start_state_def start_ledger_def)
  with that s(2) w show ?thesis by simp
qed

section \<open>What becomes of an order\<close>

text \<open>The orders due on a session in the order they take their turn: the sales, then the purchases.\<close>

definition execution_queue :: "date \<Rightarrow> order_intent list \<Rightarrow> order_intent list" where
  "execution_queue day os = filter (\<lambda>o'. oi_side o' = ''SELL'') (filter (\<lambda>o'. oi_execution_date o' = day) os) @
     filter (\<lambda>o'. oi_side o' = ''BUY'') (filter (\<lambda>o'. oi_execution_date o' = day) os)"

text \<open>The ledger an order finds when \<open>xs\<close> had their turn on its session.\<close>

definition turn_ledger :: "sim_spec \<Rightarrow> market_view \<Rightarrow> date \<Rightarrow> sim_ledger \<Rightarrow> order_intent list \<Rightarrow> sim_ledger" where
  "turn_ledger spec m day l xs =
     foldl (sim_apply_fill spec m day) (l\<lparr>sl_pending := filter (\<lambda>o'. oi_execution_date o' \<noteq> day) (sl_pending l)\<rparr>) xs"

text \<open>An order that can be priced on its session is among the fills; only a purchase that the cash \<open>c\<close> of its turn
  does not pay is replaced by the purchase scaled to that cash, when one remains.\<close>

definition order_settled :: "sim_spec \<Rightarrow> market_view \<Rightarrow> pyfloat \<Rightarrow> sim_fill list \<Rightarrow> order_intent \<Rightarrow> bool" where
  "order_settled spec m c fills o' \<longleftrightarrow> (\<forall>f. intent_fill spec m (oi_execution_date o') o' = Some f \<longrightarrow>
     (if hf_side f = ''BUY'' \<and> fadd c eps6 < fadd (hf_notional f) (hf_commission f)
      then \<forall>o2 f2. cash_scaled spec c f o' = Some o2 \<and> intent_fill spec m (oi_execution_date o') o2 = Some f2 \<longrightarrow>
        \<lparr>fi_intent = o2, fi_fill = f2\<rparr> \<in> set fills
      else \<lparr>fi_intent = o', fi_fill = f\<rparr> \<in> set fills))"

text \<open>The order was waiting when the run came to its session, had its turn there and was settled.\<close>

definition met_session :: "sim_spec \<Rightarrow> prediction_bundle \<Rightarrow> market_view \<Rightarrow> date list \<Rightarrow> date \<Rightarrow> sim_fill list \<Rightarrow> order_intent \<Rightarrow> bool" where
  "met_session spec b m days last_pred fills o' \<longleftrightarrow> (\<exists>past rest s xs ys. days = past @ oi_execution_date o' # rest \<and>
     foldM (sim_day spec m b days last_pred) (start_state spec) past = Inr s \<and>
     execution_queue (oi_execution_date o') (sl_pending (st_ledger s)) = xs @ o' # ys \<and>
     order_settled spec m (sl_cash (turn_ledger spec m (oi_execution_date o') (sim_apply_ca m (oi_execution_date o') (st_ledger s)) xs)) fills o')"

definition two_sided :: "order_intent list \<Rightarrow> bool" where
  "two_sided os \<longleftrightarrow> (\<forall>o' \<in> set os. oi_side o' = ''SELL'' \<or> oi_side o' = ''BUY'')"

lemma order_settled_mono: "order_settled spec m c fs o' \<Longrightarrow> set fs \<subseteq> set fs' \<Longrightarrow> order_settled spec m c fs' o'"
  unfolding order_settled_def by (auto split: if_splits)

lemma met_session_mono: "met_session spec b m days lp fs o' \<Longrightarrow> set fs \<subseteq> set fs' \<Longrightarrow> met_session spec b m days lp fs' o'"
  unfolding met_session_def using order_settled_mono by blast

lemma book_fill_fills: "sl_fills (book_fill x f l) = sl_fills l @ [\<lparr>fi_intent = x, fi_fill = f\<rparr>]"
  using book_fill_shape [of x f l] by auto

lemma sim_apply_fill_settles:
  "oi_execution_date o' = day \<Longrightarrow> order_settled spec m (sl_cash l) (sl_fills (sim_apply_fill spec m day l o')) o'"
  by (auto simp: order_settled_def sim_apply_fill_def book_fill_fills)

lemma sim_apply_fill_keeps: "set (sl_fills l) \<subseteq> set (sl_fills (sim_apply_fill spec m day l o'))"
  by (auto simp: sim_apply_fill_def book_fill_fills split: option.split)

lemma sim_apply_fills_keep: "set (sl_fills l) \<subseteq> set (sl_fills (foldl (sim_apply_fill spec m day) l os))"
  by (induction os arbitrary: l) (simp, metis foldl_Cons sim_apply_fill_keeps subset_trans)

lemma sim_apply_fills_settle:
  assumes "oi_execution_date o' = day"
  shows "order_settled spec m (sl_cash (foldl (sim_apply_fill spec m day) l xs)) (sl_fills (foldl (sim_apply_fill spec m day) l (xs @ o' # ys))) o'"
  using order_settled_mono [OF sim_apply_fill_settles [OF assms] sim_apply_fills_keep] by simp

text \<open>A session's execution is one fold over the queue.\<close>

lemma execute_pending_fills:
  assumes "execute_pending spec m day l = Inr l'"
  shows "sl_fills l' = sl_fills (turn_ledger spec m day l (execution_queue day (sl_pending l)))"
proof (cases "filter (\<lambda>o'. oi_execution_date o' = day) (sl_pending l) = []")
  case True
  with assms show ?thesis by (simp add: execute_pending_def turn_ledger_def execution_queue_def)
next
  case False
  with assms show ?thesis
    by (simp add: execute_pending_def turn_ledger_def execution_queue_def Let_def del: filter_filter split: if_splits)
      (use assms in auto)
qed

lemma execute_pending_settles:
  assumes "execute_pending spec m day l = Inr l'" and "execution_queue day (sl_pending l) = xs @ o' # ys"
  shows "order_settled spec m (sl_cash (turn_ledger spec m day l xs)) (sl_fills l') o'"
proof -
  have "o' \<in> set (execution_queue day (sl_pending l))" using assms(2) by simp
  then have "oi_execution_date o' = day" by (auto simp: execution_queue_def)
  from sim_apply_fills_settle [OF this] show ?thesis
    unfolding execute_pending_fills [OF assms(1)] assms(2) by (simp add: turn_ledger_def)
qed

lemma execute_pending_keeps: "execute_pending spec m day l = Inr l' \<Longrightarrow> set (sl_fills l) \<subseteq> set (sl_fills l')"
  using sim_apply_fills_keep [of "l\<lparr>sl_pending := filter (\<lambda>o'. oi_execution_date o' \<noteq> day) (sl_pending l)\<rparr>"]
  by (simp add: execute_pending_fills turn_ledger_def)

lemma build_rebalance_sides:
  assumes "build_rebalance_intents spec m b l today exec cap = Inr os"
  shows "two_sided os"
proof -
  have "\<exists>nav targets i. intent_for spec m l today exec nav targets i = Some o'" if "o' \<in> set os" for o'
    using assms that by (auto simp: build_rebalance_intents_def Let_def exn_simps List.map_filter_def split: if_splits) blast+
  moreover have "oi_side o' = ''SELL'' \<or> oi_side o' = ''BUY''" if "intent_for spec m l today exec nav targets i = Some o'" for nav targets i o'
    using that by (auto simp: intent_for_def exit_without_mark_def sized_intent_def Let_def split: option.splits if_splits)
  ultimately show ?thesis unfolding two_sided_def by blast
qed

text \<open>What every prefix of the run keeps of its orders: those whose session is still to come are pending, the
  others have met it.\<close>

definition order_inv :: "sim_spec \<Rightarrow> prediction_bundle \<Rightarrow> market_view \<Rightarrow> date list \<Rightarrow> date \<Rightarrow> date list \<Rightarrow> sim_state \<Rightarrow> bool" where
  "order_inv spec b m days last_pred past s \<longleftrightarrow> (let l = st_ledger s in
     sl_pending l = filter (\<lambda>o'. oi_execution_date o' \<notin> set past) (sl_orders l) \<and> two_sided (sl_orders l) \<and>
     (\<forall>o' \<in> set (sl_orders l). oi_execution_date o' \<in> set days) \<and>
     (\<forall>o' \<in> set (sl_orders l). oi_execution_date o' \<in> set past \<longrightarrow> met_session spec b m days last_pred (sl_fills l) o'))"

lemma order_inv_start: "order_inv spec b m days last_pred [] (start_state spec)"
  by (simp add: order_inv_def start_state_def start_ledger_def two_sided_def)

lemma order_inv_cong:
  assumes "sl_orders (st_ledger s') = sl_orders (st_ledger s)" and "sl_pending (st_ledger s') = sl_pending (st_ledger s)"
    and "sl_fills (st_ledger s') = sl_fills (st_ledger s)"
  shows "order_inv spec b m days last_pred past s' \<longleftrightarrow> order_inv spec b m days last_pred past s"
  using assms by (simp add: order_inv_def Let_def)

lemma guard_step_orders:
  "sl_orders (st_ledger (guard_step spec day snap s)) = sl_orders (st_ledger s) \<and>
   sl_pending (st_ledger (guard_step spec day snap s)) = sl_pending (st_ledger s) \<and>
   sl_fills (st_ledger (guard_step spec day snap s)) = sl_fills (st_ledger s)"
  by (simp add: guard_step_def Let_def)

lemma rebalance_step_orders:
  assumes "rebalance_step spec m b days last_pred day s = Inr s'" and "order_inv spec b m days last_pred past s"
    and "\<forall>d \<in> set past. d \<le> day"
  shows "order_inv spec b m days last_pred past s'"
  using assms(1)
proof (cases rule: rebalance_step_cases)
  case (2 exec os cap)
  note D = build_rebalance_dates [OF 2(2)] next_trading_day_SomeD [OF 2(1)]
  have new: "\<forall>o' \<in> set os. oi_execution_date o' \<in> set days \<and> oi_execution_date o' \<notin> set past"
    using D assms(3) by fastforce
  have two: "two_sided os" by (rule build_rebalance_sides [OF 2(2)])
  show ?thesis
    using assms(2) new two unfolding 2(3) by (auto simp: order_inv_def Let_def two_sided_def filter_id_conv)
qed (use assms(2) in simp)

text \<open>The turn of the orders of one session.\<close>

lemma execute_pending_order_inv:
  assumes run: "foldM (sim_day spec m b days last_pred) (start_state spec) past = Inr s" and days: "days = past @ day # rest"
    and I: "order_inv spec b m days last_pred past s"
    and x: "execute_pending spec m day (sim_apply_ca m day (st_ledger s)) = Inr l"
    and f: "sl_orders l = sl_orders (st_ledger s)" "sl_pending l = filter (\<lambda>o'. oi_execution_date o' \<noteq> day) (sl_pending (st_ledger s))"
    and k: "set (sl_fills (st_ledger s)) \<subseteq> set (sl_fills l)" "sl_pending (sim_apply_ca m day (st_ledger s)) = sl_pending (st_ledger s)"
    and st: "st_ledger s' = l"
  shows "order_inv spec b m days last_pred (past @ [day]) s'"
proof -
  note J = I [unfolded order_inv_def Let_def]
  have "met_session spec b m days last_pred (sl_fills l) o'" if o': "o' \<in> set (sl_orders l)" "oi_execution_date o' \<in> set (past @ [day])" for o'
  proof (cases "oi_execution_date o' \<in> set past")
    case True
    then show ?thesis using J o'(1) f(1) met_session_mono [OF _ k(1)] by simp
  next
    case False
    then have d: "oi_execution_date o' = day" using o'(2) by simp
    have "o' \<in> set (sl_pending (st_ledger s))" "oi_side o' = ''SELL'' \<or> oi_side o' = ''BUY''"
      using False J o'(1) f(1) by (auto simp: two_sided_def)
    then have "o' \<in> set (execution_queue day (sl_pending (st_ledger s)))" using d by (auto simp: execution_queue_def)
    then obtain xs ys where q: "execution_queue day (sl_pending (st_ledger s)) = xs @ o' # ys" by (meson split_list)
    show ?thesis unfolding met_session_def d
      using days run q execute_pending_settles [OF x, unfolded k(2), OF q] by blast
  qed
  then show ?thesis using J f st by (auto simp: order_inv_def Let_def intro: filter_cong)
qed

lemma sim_day_order_inv:
  assumes "sim_day spec m b days last_pred s day = Inr s'" and "sim_inv spec m past s"
    and run: "foldM (sim_day spec m b days last_pred) (start_state spec) past = Inr s" and days: "days = past @ day # rest"
    and "sorted_wrt (<) days" and "order_inv spec b m days last_pred past s"
  shows "order_inv spec b m days last_pred (past @ [day]) s'"
proof -
  obtain l where l: "execute_pending spec m day (sim_apply_ca m day (st_ledger s)) = Inr l"
    using assms(1) by (auto simp: sim_day_def exn_simps)
  obtain snap l1 where r: "record_snapshot day (\<lambda>i. close_price m i day) l = (snap, l1)" by fastforce
  have s': "rebalance_step spec m b days last_pred day (guard_step spec day snap (s\<lparr>st_ledger := l1\<rparr>)) = Inr s'"
    using assms(1) by (simp add: sim_day_def end_of_day_def l r)
  note I = assms(2) [unfolded sim_inv_def Let_def]
  obtain ps es where ca: "sim_apply_ca m day (st_ledger s) = (st_ledger s)\<lparr>sl_positions := ps, sl_ca_events := es\<rparr>"
    using sim_apply_ca_shape by blast
  have e: "same_frame (sim_apply_ca m day (st_ledger s)\<lparr>sl_pending := sl_pending l\<rparr>) l"
      "sl_pending l = filter (\<lambda>o'. oi_execution_date o' \<noteq> day) (sl_pending (st_ledger s))"
    using execute_pending_step [OF l] I by (auto simp: ca orders_forward_def fills_sound_def)
  have f: "sl_orders l = sl_orders (st_ledger s)" "sl_peak l = sl_peak (st_ledger s)"
    using e(1) by (simp_all add: same_frame_def ca)
  have k: "set (sl_fills (st_ledger s)) \<subseteq> set (sl_fills l)" using execute_pending_keeps [OF l] by (simp add: ca)
  have p: "0 < sl_peak l" using I f(2) by simp
  from record_snapshot_step [OF r p] have l1: "sl_orders l1 = sl_orders l" "sl_pending l1 = sl_pending l" "sl_fills l1 = sl_fills l" by simp_all
  have "order_inv spec b m days last_pred (past @ [day]) (s\<lparr>st_ledger := l\<rparr>)"
    by (rule execute_pending_order_inv [OF run days assms(6) l f(1) e(2) k]) (simp_all add: ca)
  then have "order_inv spec b m days last_pred (past @ [day]) (guard_step spec day snap (s\<lparr>st_ledger := l1\<rparr>))"
    using l1 guard_step_orders [of spec day snap "s\<lparr>st_ledger := l1\<rparr>"]
    by (subst order_inv_cong [where s = "s\<lparr>st_ledger := l\<rparr>"]) simp_all
  moreover have "\<forall>d \<in> set (past @ [day]). d \<le> day" using assms(5) by (auto simp: days sorted_wrt_append)
  ultimately show ?thesis using rebalance_step_orders [OF s'] by blast
qed

lemma sim_days_order_inv:
  assumes "foldM (sim_day spec m b days last_pred) s ds = Inr s'" and "sim_inv spec m past s"
    and "foldM (sim_day spec m b days last_pred) (start_state spec) past = Inr s" and "days = past @ ds" and "sorted_wrt (<) days"
    and "order_inv spec b m days last_pred past s"
  shows "order_inv spec b m days last_pred days s'"
  using assms
proof (induction ds arbitrary: s past)
  case (Cons d ds)
  then obtain s1 where s1: "sim_day spec m b days last_pred s d = Inr s1" "foldM (sim_day spec m b days last_pred) s1 ds = Inr s'"
    by (auto simp: exn_simps)
  have r1: "foldM (sim_day spec m b days last_pred) (start_state spec) (past @ [d]) = Inr s1"
    using Cons.prems(3) s1(1) by (simp add: foldM_append)
  note i1 = sim_day_inv [OF s1(1) Cons.prems(2), THEN conjunct1]
  note o1 = sim_day_order_inv [OF s1(1) Cons.prems(2,3,4,5,6)]
  show ?case using Cons.prems(4,5) by (intro Cons.IH [OF s1(2) i1 r1 _ _ o1]) simp_all
qed simp

lemma run_simulation_orders:
  assumes "run_simulation spec b m df dt = Inr l" and "0 < sm_capital spec" and "sorted_wrt (<) (mv_days m)"
    and w: "sim_window m (sort (remdups (map px_as_of (pb_rows b)))) df dt = (days, last_pred)"
  shows "sl_pending l = [] \<and> (\<forall>o' \<in> set (sl_orders l). met_session spec b m days last_pred (sl_fills l) o')"
proof -
  obtain s where s: "foldM (sim_day spec m b days last_pred) (start_state spec) days = Inr s" "l = st_ledger s"
    using assms(1) by (auto simp: run_simulation_def Let_def w exn_simps split: if_splits)
  have "sorted_wrt (<) days" using w assms(3) by (auto simp: sim_window_def Let_def sorted_wrt_filter)
  from sim_days_order_inv [OF s(1) sim_inv_start [OF assms(2)] _ _ this order_inv_start]
  have "order_inv spec b m days last_pred days s" by simp
  then show ?thesis by (auto simp: order_inv_def Let_def s(2) filter_empty_conv)
qed

section \<open>A sample run\<close>

text \<open>Two names, one bought on the second session; on the third it falls and the guard reduces.\<close>

definition sample_guard :: guard_params where
  "sample_guard = \<lparr>gd_trigger = - 1/8, gd_recovery = - 1/16, gd_risk_off_gross = 1/2, gd_normal_gross = 1\<rparr>"

definition sample_spec :: sim_spec where
  "sample_spec = \<lparr>sm_segment = ''s'', sm_policy = POLICY_NAME, sm_risk = RISK_DD_GUARD_V1, sm_top_quantile = 1/2,
     sm_entry_quantile = 1/4, sm_exit_quantile = 1/2, sm_min_delta = 0, sm_max_single = 1, sm_max_gross = 1, sm_long_only = True,
     sm_fractional = False, sm_commission_bps = 0, sm_slippage_bps = 0, sm_capital = 1000, sm_guard = sample_guard\<rparr>"

definition sample_candles :: "sim_candle list" where
  "sample_candles = map (\<lambda>(d, p). \<lparr>sc_instrument = 1, sc_day = Ord d, sc_open = Some p, sc_close = Some p\<rparr>)
     [(1, 10), (2, 10), (3, 8)]"

definition sample_view :: market_view where
  "sample_view = load_market_view None [(1, ''AA''), (2, ''BB'')] (\<lambda>_. None) sample_candles"

definition sample_bundle :: prediction_bundle where
  "sample_bundle = \<lparr>pb_segment = ''s'', pb_rows = map (\<lambda>(i, d, y). \<lparr>px_instrument = i, px_as_of = Ord d, px_y_pred = y, px_fold = ''f'', px_sample = 1\<rparr>)
     [(1, 1, 2), (2, 1, 1)], pb_fold_aware = False, pb_semantic = ''EXPECTED_RETURN''\<rparr>"

lemma sample_simulation:
  "map_sum id (\<lambda>l. (map (\<lambda>f. (oi_execution_date (fi_intent f), hf_side (fi_fill f), hf_quantity (fi_fill f))) (sl_fills l),
     map ss_nav (sl_snapshots l), sl_mode l, length (sl_risk_events l), length (sl_orders l), sl_cash l))
     (run_simulation sample_spec sample_bundle sample_view None (Some (Ord 3))) =
   Inr ([(Ord 2, ''BUY'', 100)], [1000, 1000, 800], RISK_OFF, 1, 1, 0)"
  by code_simp

lemma sample_simulation_returned:
  obtains l where "run_simulation sample_spec sample_bundle sample_view None (Some (Ord 3)) = Inr l" and "length (sl_fills l) = 1"
    and "map ss_nav (sl_snapshots l) = [1000, 1000, 800]" and "sl_mode l = RISK_OFF" and "length (sl_risk_events l) = 1" and "length (sl_orders l) = 1"
proof (cases "run_simulation sample_spec sample_bundle sample_view None (Some (Ord 3))")
  case (Inl e)
  then show thesis using sample_simulation by simp
next
  case (Inr l)
  have f: "map (\<lambda>f. (oi_execution_date (fi_intent f), hf_side (fi_fill f), hf_quantity (fi_fill f))) (sl_fills l) = [(Ord 2, ''BUY'', 100)]"
    and r: "map ss_nav (sl_snapshots l) = [1000, 1000, 800]" "sl_mode l = RISK_OFF" "length (sl_risk_events l) = 1" "length (sl_orders l) = 1"
    using sample_simulation unfolding Inr by simp_all
  show thesis using that [OF Inr _ r] arg_cong [OF f, of length] by simp
qed

lemma sample_view_days: "sorted_wrt (<) (mv_days sample_view)" and sample_capital: "0 < sm_capital sample_spec"
  by (simp_all add: sample_view_def load_market_view_days sample_spec_def)

lemma sample_capital_is: "sm_capital sample_spec = 1000"
  by (simp add: sample_spec_def)

section \<open>Properties\<close>

text \<open>C37: a simulated run never looks ahead. Every order is decided strictly before its execution date; every
  fill was made at the open the market view has for that instrument on the execution date, for the whole
  quantity of the order (or of the order scaled down to the cash).\<close>

theorem simulation_no_lookahead:
  assumes "run_simulation spec b m df dt = Inr l" and "0 < sm_capital spec" and "sorted_wrt (<) (mv_days m)"
  shows "orders_forward (sl_orders l) \<and> (\<forall>f \<in> set (sl_fills l). fill_sound m f)"
  using assms by (rule run_simulation_inv) (simp add: sim_inv_def fills_sound_def Let_def)

theorem simulation_no_lookahead_witness:
  "\<exists>l. run_simulation sample_spec sample_bundle sample_view None (Some (Ord 3)) = Inr l \<and> length (sl_fills l) = 1 \<and>
     (\<forall>f \<in> set (sl_fills l). fill_sound sample_view f)"
proof -
  obtain l where l: "run_simulation sample_spec sample_bundle sample_view None (Some (Ord 3)) = Inr l" "length (sl_fills l) = 1"
    by (rule sample_simulation_returned) (rule that)
  show ?thesis using simulation_no_lookahead [OF l(1) sample_capital sample_view_days] l by blast
qed

text \<open>C38: a run takes exactly one snapshot per session of its window, in order. Each values its positions at
  that session's closes and adds the cash, which is never below the tolerance; its peak is the running
  maximum of the capital and the values so far, and its drawdown is never positive.\<close>

theorem simulation_snapshots:
  assumes "run_simulation spec b m df dt = Inr l" and "0 < sm_capital spec" and "sorted_wrt (<) (mv_days m)"
  shows "map ss_as_of (sl_snapshots l) = fst (sim_window m (sort (remdups (map px_as_of (pb_rows b)))) df dt) \<and>
    (\<forall>x \<in> set (sl_snapshots l). snapshot_sound m x \<and> - eps6 \<le> ss_cash x) \<and>
    peaks_run (sm_capital spec) (sl_snapshots l) = Some (sl_peak l)"
  using assms by (rule run_simulation_inv) (simp add: sim_inv_def Let_def)

theorem simulation_snapshots_witness:
  "\<exists>l. run_simulation sample_spec sample_bundle sample_view None (Some (Ord 3)) = Inr l \<and>
     map ss_nav (sl_snapshots l) = [1000, 1000, 800] \<and> peaks_run 1000 (sl_snapshots l) = Some (sl_peak l)"
proof -
  obtain l where l: "run_simulation sample_spec sample_bundle sample_view None (Some (Ord 3)) = Inr l"
      "map ss_nav (sl_snapshots l) = [1000, 1000, 800]" by (rule sample_simulation_returned) (rule that)
  note s = simulation_snapshots [OF l(1) sample_capital sample_view_days, unfolded sample_capital_is]
  show ?thesis by (intro exI [of _ l] conjI l s [THEN conjunct2, THEN conjunct2])
qed

text \<open>C39: no order is left over. On a market loaded from candles, when a run returns, none is pending and every
  order it placed has met its session: its execution date is a session of the run, it was waiting in the queue
  when the run came there, and, where the session prices it, it was filled; only a purchase that the cash at its
  turn did not pay was scaled to that cash, or dropped when the cash bought nothing.\<close>

theorem simulation_drains_orders:
  assumes "run_simulation spec b (load_market_view imoex tickers acts candles) df dt = Inr l" and "0 < sm_capital spec"
    and "sim_window (load_market_view imoex tickers acts candles) (sort (remdups (map px_as_of (pb_rows b)))) df dt = (days, last_pred)"
  shows "sl_pending l = [] \<and>
    (\<forall>o' \<in> set (sl_orders l). met_session spec b (load_market_view imoex tickers acts candles) days last_pred (sl_fills l) o')"
  using run_simulation_orders [OF assms(1,2) load_market_view_days assms(3)] .

theorem simulation_drains_orders_witness:
  "\<exists>l days last_pred. run_simulation sample_spec sample_bundle sample_view None (Some (Ord 3)) = Inr l \<and> length (sl_orders l) = 1 \<and>
     (\<forall>o' \<in> set (sl_orders l). met_session sample_spec sample_bundle sample_view days last_pred (sl_fills l) o')"
proof -
  obtain l where l: "run_simulation sample_spec sample_bundle sample_view None (Some (Ord 3)) = Inr l" "length (sl_orders l) = 1"
    by (rule sample_simulation_returned) (rule that)
  obtain days last_pred where w: "sim_window sample_view (sort (remdups (map px_as_of (pb_rows sample_bundle)))) None (Some (Ord 3)) = (days, last_pred)"
    by fastforce
  show ?thesis
    using simulation_drains_orders [OF l(1) [unfolded sample_view_def] sample_capital w [unfolded sample_view_def]] l
    unfolding sample_view_def [symmetric] by blast
qed

text \<open>C40: the risk events of a run are a history of the drawdown guard: they alternate between the modes from
  \<open>normal\<close> to the ledger's final mode, each reduction at a drawdown below the trigger, each recovery above
  the recovery level.\<close>

theorem simulation_guard_history:
  assumes "run_simulation spec b m df dt = Inr l" and "0 < sm_capital spec" and "sorted_wrt (<) (mv_days m)"
  shows "mode_path NORMAL (sl_risk_events l) = Some (sl_mode l) \<and>
    (\<forall>e \<in> set (sl_risk_events l). if ge_new_mode e = RISK_OFF then ge_drawdown e \<le> fadd (gd_trigger (sm_guard spec)) eps15
       else fsub (gd_recovery (sm_guard spec)) eps15 \<le> ge_drawdown e)"
  using assms by (rule run_simulation_inv) (simp add: sim_inv_def guard_ok_def Let_def)

theorem simulation_guard_history_witness:
  "\<exists>l. run_simulation sample_spec sample_bundle sample_view None (Some (Ord 3)) = Inr l \<and> length (sl_risk_events l) = 1 \<and>
     mode_path NORMAL (sl_risk_events l) = Some RISK_OFF"
proof -
  obtain l where l: "run_simulation sample_spec sample_bundle sample_view None (Some (Ord 3)) = Inr l" "length (sl_risk_events l) = 1"
      "sl_mode l = RISK_OFF" by (rule sample_simulation_returned) (rule that)
  show ?thesis using simulation_guard_history [OF l(1) sample_capital sample_view_days] l by simp
qed

section \<open>What the code does not do\<close>

text \<open>Two actions on one day: both start from the quantity before the day, so only the last one counts.\<close>

lemma set_position_qty: "eps12 \<le> \<bar>q\<bar> \<Longrightarrow> sim_qty (set_position i t q l) i = q"
  by (auto simp: set_position_def sim_qty_def update_conv')

lemma same_day_actions_last_wins:
  assumes "eps12 \<le> \<bar>quantity_after_ca (sq_quantity p) (ma_factor a2)\<bar>"
  shows "sim_qty (foldl (sim_ca_action day i p) l [a1, a2]) i = quantity_after_ca (sq_quantity p) (ma_factor a2)"
  using set_position_qty [OF assms] by (simp add: sim_ca_action_def Let_def sim_qty_def)

text \<open>An order sized before a reverse split is executed after it for the old quantity: the sale of a position
  of 10 that a consolidation has turned into 1 leaves a position of -9.\<close>

definition sample_sell :: order_intent where
  "sample_sell = (exit_without_mark sample_spec (Ord 1) (Ord 2) 1 ''AA'' 10)"

definition sample_split :: market_view where
  "sample_split = sample_view\<lparr>mv_actions := [1 \<mapsto> [\<lparr>ma_instrument = 1, ma_date = Ord 2, ma_type = ''REVERSE_SPLIT'', ma_factor = 1/10\<rparr>]]\<rparr>"

lemma sample_sell_fill: "intent_fill sample_spec sample_split (Ord 2) sample_sell =
    Some \<lparr>hf_side = ''SELL'', hf_quantity = 10, hf_raw_open = 10, hf_price = 10, hf_notional = 100, hf_commission = 0, hf_slippage = 0\<rparr>"
  by code_simp


lemma reverse_split_oversells:
  "map_sum id (\<lambda>l. sim_qty l 1) (execute_pending sample_spec sample_split (Ord 2) (sim_apply_ca sample_split (Ord 2)
     ((start_ledger sample_spec)\<lparr>sl_positions := [(1, \<lparr>sq_ticker = ''AA'', sq_quantity = 10\<rparr>)], sl_pending := [sample_sell]\<rparr>))) = Inr (- 9)"
proof -
  have q: "quantity_after_ca 10 (1 / 10) = 1" by code_simp
  have e: "eps12 < 1" "eps8 < 1100" "eps6 > 0" by (simp_all add: eps12_code eps8_code eps6_code)
  have f: "fadd 1000 100 = 1100" "fsub 1 10 = - 9" "fsub 100 0 = 100" by code_simp+
  have o': "oi_execution_date sample_sell = Ord 2" "oi_side sample_sell = ''SELL''" "oi_instrument sample_sell = 1" "oi_ticker sample_sell = ''AA''"
    by (simp_all add: sample_sell_def exit_without_mark_def)
  have m: "sm_capital sample_spec = 1000" "ca_on sample_split 1 (Ord 2) = [\<lparr>ma_instrument = 1, ma_date = Ord 2, ma_type = ''REVERSE_SPLIT'', ma_factor = 1/10\<rparr>]"
    by (simp_all add: sample_spec_def sample_split_def ca_on_def)
  show ?thesis using e
    by (simp add: execute_pending_def Let_def sim_apply_ca_def sim_ca_action_def q set_position_def start_ledger_def
      sample_sell_fill sim_apply_fill_def book_fill_def sim_qty_def o' f m)
qed

end
