(* ===== verification/Alloc.thy ===== *)
theory Alloc
  imports Bonds "HOL-Library.Sublist"
begin

text \<open>
  Splitting capital between equity, fixed income and cash: the allocation policies of
  \<open>backend/app/modules/investment/domain/policy.py\<close> and \<open>allocation.py\<close>, the risk budgets of
  \<open>risk_budget.py\<close> and the decision engine of \<open>decision_engine.py\<close>. Weights are floats and every
  operation on them rounds. Reason codes are kept as the code's strings; the Russian explanations,
  the warnings and the limitation texts, which no code reads back, are not modelled.
\<close>

section \<open>Opportunities and contexts\<close>

datatype asset_sleeve = EQUITY_ALPHA | FIXED_INCOME | CASH_SLEEVE
datatype prediction_quality = PQ_UNKNOWN | PQ_OBSERVED | PQ_CALIBRATED
datatype allocation_status = AS_READY | AS_RESEARCH_ONLY | AS_INSUFFICIENT_DATA

record equity_opportunity =
  eo_expected_return :: "pyfloat option"
  eo_expected_excess_return :: "pyfloat option"
  eo_confidence :: "pyfloat option"
  eo_prediction_quality :: prediction_quality
  eo_calibration_status :: string
  eo_confidence_level :: string
  eo_sample_size :: "int option"

record fixed_income_opportunity =
  fo_expected_yield :: "pyfloat option"
  fo_duration :: "pyfloat option"
  fo_credit_quality :: string
  fo_liquidity :: string
  fo_data_quality :: string
  fo_supported_ratio :: "pyfloat option"
  fo_liquidity_status :: "string option"
  fo_support_status :: "string option"
  fo_credit_status :: "string option"
  fo_investment_eligibility :: "string option"

record cash_opportunity =
  co_annual_rate :: "pyfloat option"
  co_horizon_return :: "pyfloat option"

record liquidity_state =
  ls_can_rebalance :: bool
  ls_stale_prices :: bool

record allocation_constraints =
  max_equity_weight :: pyfloat
  max_single_position :: pyfloat
  min_cash :: pyfloat
  min_fixed_income :: pyfloat
  max_fixed_income :: pyfloat
  require_supported_bonds :: bool

record allocation_context =
  ac_as_of :: date
  ac_available_capital :: decimal
  ac_hurdle :: "pyfloat option"
  ac_equity :: "equity_opportunity option"
  ac_fixed_income :: "fixed_income_opportunity option"
  ac_cash :: "cash_opportunity option"
  ac_liquidity :: liquidity_state
  ac_constraints :: allocation_constraints
  ac_required_premium :: pyfloat

record allocation_decision =
  ad_policy_id :: string
  ad_equity :: pyfloat
  ad_fixed_income :: pyfloat
  ad_cash :: pyfloat
  ad_reasons :: "string list"
  ad_status :: allocation_status
  ad_confidence :: "pyfloat option"

definition default_constraints :: allocation_constraints where
  "default_constraints = \<lparr>max_equity_weight = 1, max_single_position = 1, min_cash = 0,
     min_fixed_income = 0, max_fixed_income = 1, require_supported_bonds = True\<rparr>"

section \<open>Policies\<close>

definition weight_tolerance :: pyfloat where "weight_tolerance = fl (1 / 10 ^ 9)"

definition validate_weights :: "pyfloat \<Rightarrow> pyfloat \<Rightarrow> pyfloat \<Rightarrow> unit res" where
  "validate_weights e f c =
     (if e < 0 \<or> f < 0 \<or> c < 0 then Inl (ValueError ''allocation weights must be non-negative'')
      else if \<bar>fsub (fadd (fadd e f) c) 1\<bar> > weight_tolerance
      then Inl (ValueError ''allocation weights must sum to 1.0'') else Inr ())"

definition policy_decision ::
  "string \<Rightarrow> pyfloat \<Rightarrow> pyfloat \<Rightarrow> pyfloat \<Rightarrow> string list \<Rightarrow> allocation_status \<Rightarrow> pyfloat option \<Rightarrow>
   allocation_decision res" where
  "policy_decision pid e f c reasons status conf =
     bnd (validate_weights e f c) (\<lambda>_. Inr \<lparr>ad_policy_id = pid, ad_equity = e, ad_fixed_income = f, ad_cash = c,
       ad_reasons = reasons, ad_status = status, ad_confidence = conf\<rparr>)"

definition static_decide :: "string \<Rightarrow> pyfloat \<Rightarrow> pyfloat \<Rightarrow> pyfloat \<Rightarrow> allocation_decision res" where
  "static_decide pid e f c = policy_decision pid e f c [''static_benchmark:'' @ pid] AS_RESEARCH_ONLY (Some 1)"

definition equity_clears_gate :: "allocation_context \<Rightarrow> bool \<times> string list" where
  "equity_clears_gate cx = (case ac_equity cx of
     None \<Rightarrow> (False, [''insufficient_data:equity_opportunity''])
   | Some eq \<Rightarrow>
      let reasons = (if eo_prediction_quality eq = PQ_UNKNOWN then [''prediction_quality_unknown''] else []) in
      (case eo_expected_excess_return eq of
         None \<Rightarrow> (False, reasons @ [''insufficient_data:equity_expected_excess_return''])
       | Some x \<Rightarrow> if x < ac_required_premium cx then (False, reasons @ [''equity_excess_below_premium''])
           else (True, reasons @ [''equity_excess_clears_hurdle''])))"

definition fixed_income_usable :: "allocation_context \<Rightarrow> bool \<times> string list" where
  "fixed_income_usable cx = (case ac_fixed_income cx of
     None \<Rightarrow> (False, [''insufficient_data:fixed_income_opportunity''])
   | Some fi \<Rightarrow>
      if fo_data_quality fi \<in> {''NOT_READY'', ''MISSING''} then (False, [''fixed_income_data_not_ready''])
      else if require_supported_bonds (ac_constraints cx) \<and> \<not> opt_sat (\<lambda>r. 0 < r) (fo_supported_ratio fi)
      then (False, [''no_supported_bonds''])
      else (True, (if fo_credit_quality fi = ''UNKNOWN'' \<and> 0 < opt_or (fo_supported_ratio fi) 0
                   then [''credit_quality_unknown_research_only''] else []) @ [''fixed_income_sleeve_available'']))"

text \<open>Restoring the cash floor: first from equity, then from fixed income (the blocks that both the
  policy and the engine run after normalising).\<close>

definition restore_cash :: "pyfloat \<Rightarrow> pyfloat \<times> pyfloat \<times> pyfloat \<Rightarrow> pyfloat \<times> pyfloat \<times> pyfloat" where
  "restore_cash floor_cash = (\<lambda>(e, f, c).
     let need = fsub floor_cash c;
         take = min need e;
         e1 = fsub e take;
         c1 = fadd c take;
         need1 = fsub floor_cash c1;
         take1 = min need1 f
     in if 0 < need1 then (e1, fsub f take1, fadd c1 take1) else (e1, f, c1))"

definition apply_constraints_and_decide ::
  "allocation_context \<Rightarrow> string \<Rightarrow> pyfloat \<Rightarrow> pyfloat \<Rightarrow> pyfloat \<Rightarrow> string list \<Rightarrow> allocation_status \<Rightarrow>
   pyfloat option \<Rightarrow> allocation_decision res" where
  "apply_constraints_and_decide cx pid e0 f0 c0 reasons status conf =
     (let k = ac_constraints cx;
          e = min e0 (max_equity_weight k);
          c = max c0 (min_cash k);
          f = max (min f0 (max_fixed_income k)) (min_fixed_income k);
          total = fadd (fadd e f) c;
          w = (if total \<le> 0 then (0, 0, 1) else (fdiv e total, fdiv f total, fdiv c total));
          w1 = (if snd (snd w) < min_cash k then restore_cash (min_cash k) w else w)
      in policy_decision pid (fst w1) (fst (snd w1)) (snd (snd w1)) reasons status conf)"

definition equity_mix :: "allocation_constraints \<Rightarrow> bool \<Rightarrow> pyfloat \<times> pyfloat \<times> pyfloat" where
  "equity_mix k fi_ok =
     (let c = max (min_cash k) 0;
          f = max (min_fixed_income k) 0;
          remaining = fsub (fsub 1 c) f;
          e = min (min 1 (max_equity_weight k)) remaining;
          leftover = fsub (fsub (fsub 1 e) c) f
      in if 0 < leftover then (if fi_ok then (e, fadd f leftover, c) else (e, f, fadd c leftover)) else (e, f, c))"

definition defensive_mix :: "allocation_constraints \<Rightarrow> bool \<Rightarrow> pyfloat \<times> pyfloat \<times> pyfloat" where
  "defensive_mix k fi_ok =
     (if fi_ok then let f = min (max_fixed_income k) (fsub 1 (min_cash k)) in (0, f, fsub 1 f) else (0, 0, 1))"

definition CBR_HURDLE_GATE_V0 :: string where "CBR_HURDLE_GATE_V0 = ''CBR_HURDLE_GATE_V0''"

definition cbr_hurdle_gate_decide :: "allocation_context \<Rightarrow> allocation_decision res" where
  "cbr_hurdle_gate_decide cx =
     (if ac_hurdle cx = None \<and> Option.bind (ac_cash cx) co_annual_rate = None
      then policy_decision CBR_HURDLE_GATE_V0 0 0 1 [''insufficient_data:cbr_hurdle''] AS_INSUFFICIENT_DATA None
      else
        let (equity_ok, eq_reasons) = equity_clears_gate cx;
            (fi_ok, fi_reasons) = fixed_income_usable cx;
            reasons = eq_reasons @ fi_reasons @ (if ls_stale_prices (ac_liquidity cx) then [''stale_prices''] else []);
            k = ac_constraints cx
        in if equity_ok then
             let (e, f, c) = equity_mix k fi_ok;
                 conf = (if opt_sat (\<lambda>q. eo_prediction_quality q = PQ_UNKNOWN) (ac_equity cx) then 1 / 2 else fl (6 / 10))
             in apply_constraints_and_decide cx CBR_HURDLE_GATE_V0 e f c
                  (if reasons = [] then [''equity_excess_clears_hurdle''] else reasons) AS_RESEARCH_ONLY (Some conf)
           else
             let (e, f, c) = defensive_mix k fi_ok;
                 tail = [''equity_expected_excess_below_required_premium''] @
                        (if fi_ok then [] else [''fixed_income_unavailable_fallback_cash''])
             in apply_constraints_and_decide cx CBR_HURDLE_GATE_V0 e f c (dedupe (reasons @ tail))
                  AS_RESEARCH_ONLY (Some (fl (55 / 100))))"

definition get_policy :: "string \<Rightarrow> (allocation_context \<Rightarrow> allocation_decision res) res" where
  "get_policy pid =
     (if pid = ''STATIC_100_EQUITY'' then Inr (\<lambda>_. static_decide pid 1 0 0)
      else if pid = ''STATIC_100_FIXED_INCOME'' then Inr (\<lambda>_. static_decide pid 0 1 0)
      else if pid = ''STATIC_100_CASH'' then Inr (\<lambda>_. static_decide pid 0 0 1)
      else if pid = CBR_HURDLE_GATE_V0 then Inr cbr_hurdle_gate_decide
      else Inl (KeyError (''Unknown allocation policy: '' @ pid)))"

section \<open>Whole lots\<close>

record allocation_candidate =
  ca_symbol :: string
  ca_sleeve :: asset_sleeve
  ca_price :: decimal
  ca_lot_size :: int
  ca_target_weight :: decimal

record allocated_position =
  al_symbol :: string
  al_sleeve :: asset_sleeve
  al_lots :: int
  al_units :: int
  al_execution_price :: decimal
  al_notional :: decimal
  al_fees :: decimal
  al_cash_used :: decimal

record allocation_result =
  ar_starting_cash :: decimal
  ar_positions :: "allocated_position list"
  ar_fees :: decimal
  ar_cash_remainder :: decimal
  ar_diagnostics :: "(string \<times> string) list"   \<comment> \<open>symbol and reason of \<open>symbol:reason\<close>\<close>

record lot_run =
  lr_cash :: decimal
  lr_positions :: "allocated_position list"
  lr_diagnostics :: "(string \<times> string) list"

definition diagnose :: "allocation_candidate \<Rightarrow> string \<Rightarrow> lot_run \<Rightarrow> lot_run" where
  "diagnose cand reason s = s\<lparr>lr_diagnostics := lr_diagnostics s @ [(ca_symbol cand, reason)]\<rparr>"

definition allocate_step :: "decimal \<Rightarrow> cost_profile \<Rightarrow> lot_run \<Rightarrow> allocation_candidate \<Rightarrow> lot_run res" where
  "allocate_step capital costs s cand =
     (if ca_price cand \<le> 0 \<or> ca_lot_size cand \<le> 0 \<or> ca_target_weight cand < 0
      then Inr (diagnose cand ''invalid_input'' s) else
      bnd (execution_price costs (ca_price cand) ''BUY'') (\<lambda>px.
      let target_cash = min (lr_cash s) (dmul capital (ca_target_weight cand));
          lot_price = dmul px (of_int (ca_lot_size cand));
          lots = affordable_lots target_cash lot_price costs;
          notional = dmul lot_price (of_int lots);
          fees = cost_fee costs notional;
          used = dadd notional fees
      in if lots = 0 then
           Inr (diagnose cand (if target_cash < lot_price then ''lot_too_expensive'' else ''position_too_small'') s)
         else if lr_cash s < used then Inr (diagnose cand ''insufficient_cash'' s)
         else Inr (s\<lparr>lr_cash := dsub (lr_cash s) used, lr_positions := lr_positions s @
                [\<lparr>al_symbol = ca_symbol cand, al_sleeve = ca_sleeve cand, al_lots = lots,
                  al_units = lots * ca_lot_size cand, al_execution_price = px, al_notional = notional,
                  al_fees = fees, al_cash_used = used\<rparr>]\<rparr>)))"

definition allocate_integer_lots :: "allocation_candidate list \<Rightarrow> decimal \<Rightarrow> cost_profile \<Rightarrow> allocation_result res" where
  "allocate_integer_lots cands capital costs =
     (if capital < 0 then Inl (ValueError ''capital must be non-negative'') else
      bnd (foldM (allocate_step capital costs) \<lparr>lr_cash = capital, lr_positions = [], lr_diagnostics = []\<rparr> cands)
        (\<lambda>s. Inr \<lparr>ar_starting_cash = capital, ar_positions = lr_positions s,
                 ar_fees = foldl dadd 0 (map al_fees (lr_positions s)), ar_cash_remainder = lr_cash s,
                 ar_diagnostics = lr_diagnostics s\<rparr>))"

type_synonym sleeve_weights = "asset_sleeve \<Rightarrow> pyfloat"

text \<open>\<open>StaticAllocationPolicy.weights\<close> sums the dictionary's values with \<open>sum\<close>.\<close>

definition static_weights :: "pyfloat \<Rightarrow> pyfloat \<Rightarrow> pyfloat \<Rightarrow> sleeve_weights res" where
  "static_weights e f c =
     (if (\<exists>v \<in> set [e, f, c]. v < 0) \<or> \<bar>fsub (fsum [e, f, c]) 1\<bar> > weight_tolerance
      then Inl (ValueError ''allocation weights must be non-negative and sum to one'')
      else Inr (\<lambda>s. case s of EQUITY_ALPHA \<Rightarrow> e | FIXED_INCOME \<Rightarrow> f | CASH_SLEEVE \<Rightarrow> c))"

definition hurdle_gated_weights :: "pyfloat \<times> pyfloat \<times> pyfloat \<Rightarrow> pyfloat option \<Rightarrow> sleeve_weights res" where
  "hurdle_gated_weights fallback excess =
     (if opt_sat (\<lambda>x. 0 < x) excess then static_weights 1 0 0
      else case fallback of (e, f, c) \<Rightarrow> static_weights e f c)"

section \<open>The decision engine\<close>

record risk_budget =
  rb_profile_id :: string
  rb_max_equity :: pyfloat
  rb_max_single_position :: pyfloat
  rb_max_credit_risk :: string
  rb_min_cash :: pyfloat
  rb_max_fixed_income :: pyfloat
  rb_required_premium :: pyfloat
  rb_max_volatility :: "pyfloat option"
  rb_max_drawdown :: "pyfloat option"

definition CONSERVATIVE_BUDGET :: risk_budget where
  "CONSERVATIVE_BUDGET = \<lparr>rb_profile_id = ''CONSERVATIVE_ALLOCATION_V0'', rb_max_equity = fl (30/100),
     rb_max_single_position = fl (10/100), rb_max_credit_risk = ''NONE'', rb_min_cash = fl (20/100),
     rb_max_fixed_income = fl (80/100), rb_required_premium = fl (2/100),
     rb_max_volatility = None, rb_max_drawdown = None\<rparr>"

definition BALANCED_BUDGET :: risk_budget where
  "BALANCED_BUDGET = \<lparr>rb_profile_id = ''BALANCED_ALLOCATION_V0'', rb_max_equity = fl (60/100),
     rb_max_single_position = fl (15/100), rb_max_credit_risk = ''RESEARCH_UNKNOWN_OK'', rb_min_cash = fl (10/100),
     rb_max_fixed_income = fl (70/100), rb_required_premium = 0,
     rb_max_volatility = None, rb_max_drawdown = None\<rparr>"

definition GROWTH_BUDGET :: risk_budget where
  "GROWTH_BUDGET = \<lparr>rb_profile_id = ''GROWTH_ALLOCATION_V0'', rb_max_equity = fl (90/100),
     rb_max_single_position = fl (20/100), rb_max_credit_risk = ''RESEARCH_UNKNOWN_OK'', rb_min_cash = fl (5/100),
     rb_max_fixed_income = fl (50/100), rb_required_premium = 0,
     rb_max_volatility = None, rb_max_drawdown = None\<rparr>"

definition get_risk_budget :: "string \<Rightarrow> risk_budget res" where
  "get_risk_budget pid = (case List.find (\<lambda>b. rb_profile_id b = pid) [CONSERVATIVE_BUDGET, BALANCED_BUDGET, GROWTH_BUDGET] of
     Some b \<Rightarrow> Inr b | None \<Rightarrow> Inl (KeyError (''Unknown risk profile: '' @ pid)))"

record market_context =
  mc_as_of :: date
  mc_available_capital :: decimal
  mc_hurdle :: "pyfloat option"
  mc_volatility :: "pyfloat option"
  mc_drawdown :: "pyfloat option"
  mc_concentration :: "pyfloat option"
  mc_liquidity_ok :: bool
  mc_data_quality_ok :: bool

record investment_decision =
  id_profile_id :: string
  id_equity :: pyfloat
  id_fixed_income :: pyfloat
  id_cash :: pyfloat
  id_reasons :: "string list"
  id_status :: allocation_status

definition engine_validate :: "pyfloat \<times> pyfloat \<times> pyfloat \<Rightarrow> (pyfloat \<times> pyfloat \<times> pyfloat) res" where
  "engine_validate = (\<lambda>(e, f, c).
     if e < 0 \<or> f < 0 \<or> c < 0 then Inl (ValueError ''weights must be non-negative'') else
     let total = fadd (fadd e f) c in
     if total \<le> 0 then Inr (0, 0, 1) else
     let e1 = fdiv e total; f1 = fdiv f total; c1 = fdiv c total in
     if \<bar>fsub (fadd (fadd e1 f1) c1) 1\<bar> > weight_tolerance then Inl (ValueError ''weights must sum to 1'')
     else Inr (e1, f1, c1))"

definition str_or :: "string \<Rightarrow> string \<Rightarrow> string" where
  "str_or s d = (if s = [] then d else s)"

definition confidence_cap :: "equity_opportunity \<Rightarrow> risk_budget \<Rightarrow> pyfloat \<times> string list" where
  "confidence_cap eq b =
     (let cal = str_or (eo_calibration_status eq) ''UNKNOWN'';
          level = str_or (eo_confidence_level eq) ''UNKNOWN''
      in if level = ''UNKNOWN'' \<or> eo_prediction_quality eq = PQ_UNKNOWN \<or> cal \<in> {''UNKNOWN'', ''INSUFFICIENT_SAMPLE''}
         then (if sublist ''GROWTH'' (rb_profile_id b) then fl (35/100) else 1/4,
               [''equity_confidence_unknown'', ''equity_capped_due_to_insufficient_calibration''])
         else if level = ''LOW'' then (min (rb_max_equity b) (fl (40/100)), [''equity_confidence_low''])
         else if level = ''MEDIUM'' then (min (rb_max_equity b) (fl (70/100)), [''equity_confidence_medium''])
         else if level = ''HIGH'' then (rb_max_equity b, [''equity_confidence_high_research_only''])
         else (1/4, []))"

definition assess_equity :: "equity_opportunity option \<Rightarrow> risk_budget \<Rightarrow> pyfloat \<times> string list" where
  "assess_equity equity b = (case equity of
     None \<Rightarrow> (0, [''insufficient_data:equity_opportunity''])
   | Some eq \<Rightarrow>
      let (cap, reasons0) = confidence_cap eq b;
          reasons = reasons0 @ (if eo_confidence eq = None then [''confidence_unknown''] else [])
      in (case eo_expected_excess_return eq of
            None \<Rightarrow> (0, reasons @ [''insufficient_data:equity_expected_excess_return''])
          | Some x \<Rightarrow>
             if x < rb_required_premium b then (0, reasons @ [''equity_expected_excess_below_required_premium''])
             else (min (rb_max_equity b) cap, reasons @ [''equity_excess_clears_hurdle''])))"

text \<open>The test of \<open>support_status\<close> only guards the test of the ratio, which it does not decide.\<close>

definition assess_fi :: "fixed_income_opportunity option \<Rightarrow> risk_budget \<Rightarrow> bool \<times> string list" where
  "assess_fi fi_opt b = (case fi_opt of
     None \<Rightarrow> (False, [''insufficient_data:fixed_income_opportunity''])
   | Some fi \<Rightarrow>
      if fo_data_quality fi \<in> {''NOT_READY'', ''MISSING''} then (False, [''fixed_income_data_not_ready''])
      else if (opt_sat (\<lambda>s. s \<noteq> [] \<and> s \<notin> {''SUPPORTED'', ''MIXED'', ''RESEARCH_ONLY''}) (fo_support_status fi) \<or>
               opt_sat (\<lambda>r. r \<le> 0) (fo_supported_ratio fi)) \<and> opt_sat (\<lambda>r. r \<le> 0) (fo_supported_ratio fi)
      then (False, [''no_supported_bonds''])
      else if rb_max_credit_risk b = ''NONE'' \<and> fo_credit_quality fi = ''UNKNOWN''
      then (False, [''credit_risk_blocked_by_conservative_budget''])
      else (True, (if fo_credit_quality fi = ''UNKNOWN'' \<or>
                      fo_credit_status fi \<in> {Some ''UNKNOWN'', Some ''NOT_RATED'', None}
                   then [''credit_quality_unknown_research_only''] else []) @ [''fixed_income_sleeve_available'']))"

text \<open>The reductions for liquidity, volatility and drawdown, and the note on data quality.\<close>

definition stressed_equity :: "pyfloat \<Rightarrow> risk_budget \<Rightarrow> market_context \<Rightarrow> pyfloat \<times> string list" where
  "stressed_equity allowed b m =
     (let half = fmul (rb_max_equity b) (1/2);
          (a1, r1) = (if \<not> mc_liquidity_ok m then (min allowed half, [''liquidity_stress'']) else (allowed, []));
          (a2, r2) = (case (mc_volatility m, rb_max_volatility b) of
                        (Some v, Some mv) \<Rightarrow> if v > mv then (min a1 half, [''volatility_above_budget'']) else (a1, [])
                      | _ \<Rightarrow> (a1, []));
          (a3, r3) = (case (mc_drawdown m, rb_max_drawdown b) of
                        (Some d, Some md) \<Rightarrow> if \<bar>d\<bar> > md then (min a2 (fl (2/10)), [''drawdown_above_budget'']) else (a2, [])
                      | _ \<Rightarrow> (a2, []))
      in (a3, r1 @ r2 @ r3 @ (if \<not> mc_data_quality_ok m then [''data_quality_weak''] else [])))"

definition target_mix :: "pyfloat \<Rightarrow> bool \<Rightarrow> risk_budget \<Rightarrow> pyfloat \<times> pyfloat \<times> pyfloat" where
  "target_mix allowed fi_allowed b =
     (if allowed \<le> 0 then
        (if fi_allowed then let f = min (fsub 1 (rb_min_cash b)) (rb_max_fixed_income b) in (0, f, fsub 1 f) else (0, 0, 1))
      else
        let e = min allowed (rb_max_equity b);
            c = max (rb_min_cash b) 0;
            remaining = max 0 (fsub (fsub 1 e) c)
        in if fi_allowed \<and> 0 < remaining then
             let f = min remaining (rb_max_fixed_income b) in (e, f, fadd c (fsub remaining f))
           else (e, 0, fadd c remaining))"

definition engine_weights :: "pyfloat \<Rightarrow> bool \<Rightarrow> risk_budget \<Rightarrow> (pyfloat \<times> pyfloat \<times> pyfloat) res" where
  "engine_weights allowed fi_allowed b =
     bnd (engine_validate (target_mix allowed fi_allowed b)) (\<lambda>w.
       if snd (snd w) < rb_min_cash b then engine_validate (restore_cash (rb_min_cash b) w) else Inr w)"

definition decide :: "equity_opportunity option \<Rightarrow> fixed_income_opportunity option \<Rightarrow> cash_opportunity option \<Rightarrow>
    risk_budget \<Rightarrow> market_context \<Rightarrow> investment_decision res" where
  "decide equity fixed_income cash b m =
     (if mc_hurdle m = None \<and> Option.bind cash co_annual_rate = None
      then bnd (engine_validate (0, 0, 1)) (\<lambda>(e, f, c). Inr \<lparr>id_profile_id = rb_profile_id b, id_equity = e,
             id_fixed_income = f, id_cash = c, id_reasons = [''insufficient_data:cbr_hurdle''],
             id_status = AS_INSUFFICIENT_DATA\<rparr>)
      else
        let (allowed0, eq_reasons) = assess_equity equity b;
            (fi_allowed, fi_reasons) = assess_fi fixed_income b;
            (allowed, stress_reasons) = stressed_equity allowed0 b m
        in bnd (engine_weights allowed fi_allowed b) (\<lambda>(e, f, c).
             Inr \<lparr>id_profile_id = rb_profile_id b, id_equity = e, id_fixed_income = f, id_cash = c,
                  id_reasons = dedupe (eq_reasons @ fi_reasons @ stress_reasons), id_status = AS_RESEARCH_ONLY\<rparr>))"

section \<open>Rounding errors of weights\<close>

abbreviation e9 :: rat where "e9 \<equiv> 1 / 1000000000"
abbreviation e11 :: rat where "e11 \<equiv> 1 / 100000000000"
abbreviation e12 :: rat where "e12 \<equiv> 1 / 1000000000000"
abbreviation e13 :: rat where "e13 \<equiv> 1 / 10000000000000"
abbreviation e14 :: rat where "e14 \<equiv> 1 / 100000000000000"

lemma fl_near: "\<bar>fl x - x\<bar> \<le> (\<bar>x\<bar> + 1) / 10 ^ 15"
proof -
  have "\<bar>fl x - x\<bar> \<le> \<bar>x\<bar> * 2 powi (1 - 53) / 2 + 2 powi (- 1074) / 2"
    unfolding fl_def using b64.rnd_rel_error [of x] by simp
  also have "(2::rat) powi (1 - 53) / 2 \<le> 1 / 10 ^ 15"
    by (simp add: power_int_def power_one_over field_simps)
  then have "\<bar>x\<bar> * 2 powi (1 - 53) / 2 \<le> \<bar>x\<bar> * (1 / 10 ^ 15)"
    unfolding times_divide_eq_right [symmetric] by (intro mult_left_mono) simp_all
  moreover have "(2::rat) powi (- 1074) / 2 \<le> 1 / 10 ^ 15"
    by (simp add: power_int_def power_one_over field_simps)
  ultimately show ?thesis by (simp add: add_divide_distrib)
qed

lemma fl_close:
  assumes "\<bar>x\<bar> \<le> 9"
  shows "x - e14 \<le> fl x" "fl x \<le> x + e14"
proof -
  have "\<bar>fl x - x\<bar> \<le> e14" using fl_near [of x] assms by simp
  then show "x - e14 \<le> fl x" "fl x \<le> x + e14" by linarith+
qed

lemma fadd_close:
  assumes "0 \<le> a" "0 \<le> b" "a + b \<le> 9"
  shows "a + b - e14 \<le> fadd a b" "fadd a b \<le> a + b + e14"
  using fl_close [of "a + b"] assms by (simp_all add: fadd_def)

lemma fsub_close:
  assumes "\<bar>a - b\<bar> \<le> 9"
  shows "a - b - e14 \<le> fsub a b" "fsub a b \<le> a - b + e14"
  using fl_close [of "a - b"] assms by (simp_all add: fsub_def)

lemma fadd_nonneg [intro]: "\<lbrakk>0 \<le> a; 0 \<le> b\<rbrakk> \<Longrightarrow> 0 \<le> fadd a b"
  by (simp add: fadd_def fl_nonneg)

lemma fsub_nonneg [intro]: "b \<le> a \<Longrightarrow> 0 \<le> fsub a b"
  by (simp add: fsub_def fl_nonneg)

lemma fdiv_nonneg [intro]: "\<lbrakk>0 \<le> a; 0 \<le> b\<rbrakk> \<Longrightarrow> 0 \<le> fdiv a b"
  by (simp add: fdiv_def fl_nonneg)

lemma weight_tolerance_ge: "1 / 10 ^ 9 - e14 \<le> weight_tolerance"
  using fl_close(1) [of "1 / 10 ^ 9"] by (simp add: weight_tolerance_def)

lemma ratio_close:
  fixes x t :: rat
  assumes "0 \<le> x" "x \<le> 2" "1 - a \<le> t" "0 \<le> a" "a \<le> 1 / 2"
  shows "x / t \<le> x + 4 * a"
proof -
  have "x \<le> (x + 4 * a) * t"
  proof -
    have "(x + 4 * a) * (1 - a) \<le> (x + 4 * a) * t"
      using assms by (intro mult_left_mono) auto
    moreover have "x * a \<le> 2 * a" "4 * a * a \<le> 2 * a"
      using assms mult_right_mono [of x 2 a] mult_right_mono [of "4 * a" 2 a] by simp_all
    ultimately show ?thesis by (simp add: algebra_simps)
  qed
  then show ?thesis using assms by (simp add: pos_divide_le_eq)
qed

lemma engine_validate_ok:
  assumes nn: "0 \<le> e" "0 \<le> f" "0 \<le> c" and le: "e \<le> 2" "f \<le> 2" "c \<le> 2"
    and S: "1 - 3 * e12 \<le> e + f + c"
  obtains e1 f1 c1 where "engine_validate (e, f, c) = Inr (e1, f1, c1)"
    "0 \<le> e1" "0 \<le> f1" "0 \<le> c1" "e1 \<le> e + 2 * e11" "f1 \<le> f + 2 * e11"
    "c \<le> (e + f + c) * (c1 + e12)" "\<bar>e1 + f1 + c1 - 1\<bar> \<le> e12"
proof -
  define t where "t = fadd (fadd e f) c"
  have t: "\<bar>t - (e + f + c)\<bar> \<le> 2 * e14"
    using fadd_close [of e f] fadd_close [of "fadd e f" c] fadd_nonneg [of e f] nn le unfolding t_def by linarith
  have t1: "1 - 4 * e12 \<le> t" "t \<le> 7" using t S le by linarith+
  then have tp: "0 < t" by simp
  have d: "\<bar>fdiv x t - x / t\<bar> \<le> e14" "x / t \<le> x + 16 * e12" "0 \<le> fdiv x t" "fdiv x t \<le> 5 / 2"
    if "0 \<le> x" "x \<le> 2" for x
  proof -
    show a: "x / t \<le> x + 16 * e12" using ratio_close [of x "4 * e12" t] that t1 by simp
    have "\<bar>x / t\<bar> \<le> 9" using a that tp by simp
    then show b: "\<bar>fdiv x t - x / t\<bar> \<le> e14"
      using fl_close [of "x / t"] unfolding fdiv_def by linarith
    show "0 \<le> fdiv x t" using that tp by auto
    show "fdiv x t \<le> 5 / 2" using a b that by linarith
  qed
  let ?e = "fdiv e t" and ?f = "fdiv f t" and ?c = "fdiv c t"
  note de = d [OF nn(1) le(1)] and df = d [OF nn(2) le(2)] and dc = d [OF nn(3) le(3)]
  have "\<bar>(e + f + c) / t - 1\<bar> \<le> 3 * e14"
  proof -
    have "(e + f + c) / t - 1 = (e + f + c - t) / t" using tp by (simp add: field_simps)
    then have "\<bar>(e + f + c) / t - 1\<bar> = \<bar>e + f + c - t\<bar> / t" using tp by simp
    also have "\<dots> \<le> 3 * e14" using t t1 tp by (simp add: pos_divide_le_eq abs_minus_commute)
    finally show ?thesis .
  qed
  then have sum: "\<bar>?e + ?f + ?c - 1\<bar> \<le> e13"
    using de(1) df(1) dc(1) unfolding add_divide_distrib by linarith
  define s where "s = fadd (fadd ?e ?f) ?c"
  have "\<bar>s - (?e + ?f + ?c)\<bar> \<le> 2 * e14"
    using fadd_close [of ?e ?f] fadd_close [of "fadd ?e ?f" ?c] de df dc fadd_nonneg [of ?e ?f] unfolding s_def by linarith
  then have "\<bar>s - 1\<bar> \<le> 2 * e13" using sum by linarith
  then have "\<bar>fsub s 1\<bar> \<le> 3 * e13" using fsub_close [of s 1] by linarith
  then have "\<not> \<bar>fsub s 1\<bar> > weight_tolerance" using weight_tolerance_ge by (simp add: not_less)
  then have ok: "engine_validate (e, f, c) = Inr (?e, ?f, ?c)"
    using nn tp by (simp add: engine_validate_def Let_def flip: t_def s_def)
  have "c = t * (c / t)" using tp by simp
  also have "\<dots> \<le> t * (?c + e14)" using tp dc(1) by (intro mult_left_mono) linarith+
  also have "\<dots> \<le> (e + f + c) * (?c + e12)"
  proof -
    let ?S = "e + f + c"
    have "(t - ?S) * (?c + e14) \<le> 2 * e14 * 4"
      using t dc(3,4) by (intro mult_mono) linarith+
    also have "\<dots> \<le> (1 / 2) * (99 * e14)" by simp
    also have "\<dots> \<le> ?S * (99 * e14)" using S by (intro mult_right_mono) simp_all
    finally have "?S * (?c + e14) + (t - ?S) * (?c + e14) \<le> ?S * (?c + e14) + ?S * (99 * e14)"
      by (rule add_left_mono)
    moreover have "t * (?c + e14) = ?S * (?c + e14) + (t - ?S) * (?c + e14)"
      unfolding left_diff_distrib by simp
    moreover have "?S * (?c + e12) = ?S * (?c + e14) + ?S * (99 * e14)"
      unfolding distrib_left [symmetric] by simp
    ultimately show ?thesis by (simp only:)
  qed
  finally have cc: "c \<le> (e + f + c) * (?c + e12)" .
  show thesis
    by (rule that [OF ok de(3) df(3) dc(3) _ _ cc]) (use de df sum in linarith)+
qed

lemma restore_cash_ok:
  assumes nn: "0 \<le> e" "0 \<le> f" "0 \<le> c" and sum: "\<bar>e + f + c - 1\<bar> \<le> e12" and c: "c < m" "m \<le> 1"
  obtains e1 f1 c1 where "restore_cash m (e, f, c) = (e1, f1, c1)" "0 \<le> e1" "0 \<le> f1" "0 \<le> c1"
    "e1 \<le> e + e14" "f1 \<le> f + e14" "m - 2 * e12 \<le> c1" "\<bar>e1 + f1 + c1 - 1\<bar> \<le> 2 * e12"
proof -
  have le: "e \<le> 2" "f \<le> 2" "c \<le> 2" "0 \<le> m" using nn sum c by linarith+
  define need where "need = fsub m c"
  define take where "take = min need e"
  define e1 where "e1 = fsub e take"
  define c1 where "c1 = fadd c take"
  define need1 where "need1 = fsub m c1"
  define take1 where "take1 = min need1 f"
  have n: "0 \<le> need" "m - c - e14 \<le> need" "need \<le> m - c + e14"
    using fsub_close [of m c] c le nn by (auto simp: need_def)
  have t: "0 \<le> take" "take \<le> e" "take \<le> need" "take = need \<or> take = e" using n nn by (auto simp: take_def)
  have e1: "0 \<le> e1" "e - take - e14 \<le> e1" "e1 \<le> e - take + e14"
    using fsub_close [of e take] t le nn by (auto simp: e1_def)
  have c1: "0 \<le> c1" "c + take - e14 \<le> c1" "c1 \<le> c + take + e14" "c1 \<le> 5"
    using fadd_close [of c take] t le nn by (auto simp: c1_def)
  have n1: "m - c1 - e14 \<le> need1" "need1 \<le> m - c1 + e14"
    using fsub_close [of m c1] c c1 le by (auto simp: need1_def)
  show thesis
  proof (cases "0 < need1")
    case False
    then have "restore_cash m (e, f, c) = (e1, f, c1)"
      by (simp add: restore_cash_def Let_def flip: need_def take_def e1_def c1_def need1_def)
    then show thesis
      by (rule that) (use False e1 c1 n1 nn sum t in linarith)+
  next
    case True
    have t1: "0 \<le> take1" "take1 \<le> f" "take1 = need1 \<or> take1 = f" "take1 \<le> need1" using True nn by (auto simp: take1_def)
    have f1: "0 \<le> fsub f take1" "f - take1 - e14 \<le> fsub f take1" "fsub f take1 \<le> f - take1 + e14"
      using fsub_close [of f take1] t1 le nn by auto
    have c2: "0 \<le> fadd c1 take1" "c1 + take1 - e14 \<le> fadd c1 take1" "fadd c1 take1 \<le> c1 + take1 + e14"
      using fadd_close [of c1 take1] t1 le c1 by auto
    have m: "m - 2 * e12 \<le> fadd c1 take1"
    proof (cases "take1 = need1 \<or> take = need")
      case True
      then show ?thesis using n1 c2 n c1 t1 by auto
    next
      case False
      then have "take1 = f" "take = e" using t t1 by auto
      then show ?thesis using c2 c1 sum c by linarith
    qed
    have "restore_cash m (e, f, c) = (e1, fsub f take1, fadd c1 take1)"
      using True by (simp add: restore_cash_def Let_def flip: need_def take_def e1_def c1_def need1_def take1_def)
    then show thesis
      by (rule that) (use m e1 c1 f1 c2 sum t t1 in linarith)+
  qed
qed

section \<open>The engine respects its budget\<close>

definition sane_budget :: "risk_budget \<Rightarrow> bool" where
  "sane_budget b \<longleftrightarrow> 0 \<le> rb_min_cash b \<and> rb_min_cash b \<le> 1 \<and> 0 \<le> rb_max_equity b \<and> rb_max_equity b \<le> 1 \<and>
     0 \<le> rb_max_fixed_income b \<and> rb_max_fixed_income b \<le> 1"

lemma sane_budgetD:
  assumes "sane_budget b"
  shows "0 \<le> rb_min_cash b" "rb_min_cash b \<le> 1" "0 \<le> rb_max_equity b" "rb_max_equity b \<le> 1"
    "0 \<le> rb_max_fixed_income b" "rb_max_fixed_income b \<le> 1"
  using assms by (simp_all add: sane_budget_def)

lemma fsub_le_1: "\<lbrakk>a \<le> 1; 0 \<le> x\<rbrakk> \<Longrightarrow> fsub a x \<le> 1"
  by (simp add: fsub_def fl_le_1)

lemma target_mix_ok:
  assumes "sane_budget b"
  obtains e f c where "target_mix a fa b = (e, f, c)" "0 \<le> e" "0 \<le> f" "0 \<le> c" "e \<le> 1" "f \<le> 1" "c \<le> 2"
    "1 - e13 \<le> e + f + c" "e \<le> max 0 (min a (rb_max_equity b))" "f \<le> rb_max_fixed_income b" "\<not> fa \<longrightarrow> f = 0"
proof -
  note b = sane_budgetD [OF assms]
  show thesis
  proof (cases "a \<le> 0")
    case True
    define f where "f = min (fsub 1 (rb_min_cash b)) (rb_max_fixed_income b)"
    have f: "0 \<le> f" "f \<le> 1" "f \<le> rb_max_fixed_income b" using b by (auto simp: f_def min_le_iff_disj)
    have c: "0 \<le> fsub 1 f" "fsub 1 f \<le> 1" using f by (auto intro: fsub_le_1)
    have s: "1 - e13 \<le> 0 + f + fsub 1 f" using fsub_close [of 1 f] f by simp
    show thesis
    proof (cases fa)
      case fa: True
      have "target_mix a fa b = (0, f, fsub 1 f)" using True fa by (simp add: target_mix_def f_def Let_def)
      then show thesis by (rule that) (use f c s b fa in simp_all)
    next
      case fa: False
      have "target_mix a fa b = (0, 0, 1)" using True fa by (simp add: target_mix_def)
      then show thesis by (rule that) (use b in simp_all)
    qed
  next
    case False
    define e where "e = min a (rb_max_equity b)"
    define m where "m = rb_min_cash b"
    define rest where "rest = max 0 (fsub (fsub 1 e) m)"
    have e: "0 \<le> e" "e \<le> 1" "e \<le> max 0 (min a (rb_max_equity b))" using False b by (auto simp: e_def min_le_iff_disj)
    have m: "max (rb_min_cash b) 0 = m" "0 \<le> m" "m \<le> 1" using b by (simp_all add: m_def)
    have c1: "0 \<le> fsub 1 e" "fsub 1 e \<le> 1" "1 - e - e14 \<le> fsub 1 e" using e fsub_close [of 1 e] by (auto intro: fsub_le_1)
    have r0: "fsub (fsub 1 e) m \<le> 1" "fsub 1 e - m - e14 \<le> fsub (fsub 1 e) m"
      using c1 m fsub_close [of "fsub 1 e" m] by (auto intro: fsub_le_1)
    then have r: "0 \<le> rest" "rest \<le> 1" "1 - e - m - 2 * e14 \<le> rest" using c1 by (simp_all add: rest_def)
    show thesis
    proof (cases "fa \<and> 0 < rest")
      case True
      define f where "f = min rest (rb_max_fixed_income b)"
      have f: "0 \<le> f" "f \<le> 1" "f \<le> rest" "f \<le> rb_max_fixed_income b" using r b by (simp_all add: f_def min_le_iff_disj)
      have g: "0 \<le> fsub rest f" "fsub rest f \<le> 1" "rest - f - e14 \<le> fsub rest f"
        using f r fsub_close [of rest f] by (auto intro: fsub_le_1)
      have "target_mix a fa b = (e, f, fadd m (fsub rest f))"
        using True False by (simp add: target_mix_def Let_def m flip: e_def rest_def f_def)
      moreover have "0 \<le> fadd m (fsub rest f)" using g m by auto
      moreover have "m + fsub rest f - e14 \<le> fadd m (fsub rest f)" "fadd m (fsub rest f) \<le> 2"
        using fadd_close [of m "fsub rest f"] g m fl_mono [of "m + fsub rest f" 2] fl_of_int [of 2] by (auto simp: fadd_def)
      ultimately show thesis using g f e r True by (intro that) auto
    next
      case F: False
      have "target_mix a fa b = (e, 0, fadd m rest)"
        using F False by (auto simp: target_mix_def Let_def m simp flip: e_def rest_def)
      moreover have "0 \<le> fadd m rest" using r m by auto
      moreover have "m + rest - e14 \<le> fadd m rest" "fadd m rest \<le> 2"
        using fadd_close [of m rest] r m fl_mono [of "m + rest" 2] fl_of_int [of 2] by (auto simp: fadd_def)
      ultimately show thesis using e r b by (intro that) auto
    qed
  qed
qed

lemma engine_validate_zero:
  "engine_validate (0, f, c) = Inr (e1, f1, c1) \<Longrightarrow> e1 = 0"
  "engine_validate (e, 0, c) = Inr (e1, f1, c1) \<Longrightarrow> f1 = 0"
  by (auto simp: engine_validate_def Let_def fdiv_def exn_simps split: if_splits)

lemma restore_cash_zero:
  "\<lbrakk>restore_cash m (0, f, c) = (e1, f1, c1); c \<le> m\<rbrakk> \<Longrightarrow> e1 = 0"
  "restore_cash m (e, 0, c) = (e1, f1, c1) \<Longrightarrow> f1 = 0"
proof -
  assume r: "restore_cash m (0, f, c) = (e1, f1, c1)" and "c \<le> m"
  then have "min (fsub m c) 0 = 0" by (simp add: fsub_def fl_nonneg)
  then show "e1 = 0" using r by (auto simp: restore_cash_def Let_def fsub_def split: if_splits)
next
  assume r: "restore_cash m (e, 0, c) = (e1, f1, c1)"
  then show "f1 = 0" by (auto simp: restore_cash_def Let_def fsub_def min_def split: if_splits)
qed

lemma engine_weights_ok:
  assumes "sane_budget b"
  obtains e f c where "engine_weights a fa b = Inr (e, f, c)" "0 \<le> e" "0 \<le> f" "0 \<le> c"
    "\<bar>e + f + c - 1\<bar> \<le> e9" "e \<le> max 0 (min a (rb_max_equity b)) + e9"
    "f \<le> rb_max_fixed_income b + e9" "rb_min_cash b \<le> c + e9"
    "a \<le> 0 \<longrightarrow> e = 0" "\<not> fa \<longrightarrow> f = 0"
proof -
  note b = sane_budgetD [OF assms]
  obtain e0 f0 c0 where t: "target_mix a fa b = (e0, f0, c0)" "0 \<le> e0" "0 \<le> f0" "0 \<le> c0" "e0 \<le> 1" "f0 \<le> 1" "c0 \<le> 2"
    "1 - e13 \<le> e0 + f0 + c0" "e0 \<le> max 0 (min a (rb_max_equity b))" "f0 \<le> rb_max_fixed_income b" "\<not> fa \<longrightarrow> f0 = 0"
    by (rule target_mix_ok [OF assms])
  obtain e1 f1 c1 where v: "engine_validate (e0, f0, c0) = Inr (e1, f1, c1)" "0 \<le> e1" "0 \<le> f1" "0 \<le> c1"
    "e1 \<le> e0 + 2 * e11" "f1 \<le> f0 + 2 * e11" "\<bar>e1 + f1 + c1 - 1\<bar> \<le> e12"
    by (rule engine_validate_ok [of e0 f0 c0]) (use t in simp_all)
  have z: "a \<le> 0 \<longrightarrow> e1 = 0" "\<not> fa \<longrightarrow> f1 = 0"
    using t(2,9,11) v(1) by (auto dest: engine_validate_zero)
  show thesis
  proof (cases "c1 < rb_min_cash b")
    case False
    then have "engine_weights a fa b = Inr (e1, f1, c1)" by (simp add: engine_weights_def t v)
    then show thesis by (rule that) (use False v t z in \<open>linarith | blast\<close>)+
  next
    case True
    obtain e2 f2 c2 where r: "restore_cash (rb_min_cash b) (e1, f1, c1) = (e2, f2, c2)" "0 \<le> e2" "0 \<le> f2" "0 \<le> c2"
      "e2 \<le> e1 + e14" "f2 \<le> f1 + e14" "rb_min_cash b - 2 * e12 \<le> c2" "\<bar>e2 + f2 + c2 - 1\<bar> \<le> 2 * e12"
      by (rule restore_cash_ok [OF v(2-4,7) True b(2)])
    have s: "e2 \<le> 2" "f2 \<le> 2" "c2 \<le> 2" "1 - 3 * e12 \<le> e2 + f2 + c2" using r by linarith+
    obtain e3 f3 c3 where w: "engine_validate (e2, f2, c2) = Inr (e3, f3, c3)" "0 \<le> e3" "0 \<le> f3" "0 \<le> c3"
      "e3 \<le> e2 + 2 * e11" "f3 \<le> f2 + 2 * e11" "c2 \<le> (e2 + f2 + c2) * (c3 + e12)" "\<bar>e3 + f3 + c3 - 1\<bar> \<le> e12"
      by (rule engine_validate_ok [OF r(2-4) s])
    note w(7)
    also have "(e2 + f2 + c2) * (c3 + e12) \<le> (1 + 2 * e12) * (c3 + e12)"
      by (rule mult_right_mono) (use r w in linarith)+
    also have "\<dots> = c3 + e12 + 2 * e12 * (c3 + e12)" unfolding distrib_right by simp
    also have "\<dots> \<le> c3 + e12 + 2 * e12 * 2"
      by (intro add_left_mono mult_left_mono) (use w in linarith)+
    finally have c: "c2 \<le> c3 + e12 + 2 * e12 * 2" .
    have z3: "a \<le> 0 \<longrightarrow> e3 = 0" "\<not> fa \<longrightarrow> f3 = 0"
      using z r(1) w(1) True by (auto dest: engine_validate_zero dest!: restore_cash_zero)
    have "engine_weights a fa b = Inr (e3, f3, c3)" using True by (simp add: engine_weights_def t v r w)
    then show thesis by (rule that) (use w r v t z3 c in \<open>linarith | blast\<close>)+
  qed
qed

section \<open>What the engine promises\<close>

lemma confidence_cap_unknown:
  "\<lbrakk>eo_prediction_quality q = PQ_UNKNOWN \<or> eo_confidence_level q \<in> {[], ''UNKNOWN''}\<rbrakk>
   \<Longrightarrow> fst (confidence_cap q b) \<le> 36 / 100"
  using fl_close(2) [of "35 / 100"] by (auto simp: confidence_cap_def str_or_def Let_def)

lemma assess_equity_positive:
  assumes "assess_equity equity b = (a, rs)" "0 < a"
  obtains q x where "equity = Some q" "eo_expected_excess_return q = Some x" "rb_required_premium b \<le> x"
    "a = min (rb_max_equity b) (fst (confidence_cap q b))"
  using assms by (auto simp: assess_equity_def Let_def split: option.splits prod.splits if_splits)

lemma assess_fi_allowed:
  assumes "assess_fi fi b = (True, rs)"
  obtains o1 where "fi = Some o1" "fo_data_quality o1 \<notin> {''NOT_READY'', ''MISSING''}"
    "\<not> opt_sat (\<lambda>r. r \<le> 0) (fo_supported_ratio o1)"
    "\<not> (rb_max_credit_risk b = ''NONE'' \<and> fo_credit_quality o1 = ''UNKNOWN'')"
  using assms by (auto simp: assess_fi_def split: option.splits if_splits)

lemma stressed_equity_le: "stressed_equity a b m = (a1, rs) \<Longrightarrow> a1 \<le> a"
  by (auto simp: stressed_equity_def Let_def split: option.splits if_splits)

lemma engine_validate_cash [simp]: "engine_validate (0, 0, 1) = Inr (0, 0, 1)"
proof -
  have "\<not> weight_tolerance < 0" using weight_tolerance_ge by (simp add: not_less)
  then show ?thesis by (simp add: engine_validate_def fadd_def fdiv_def fsub_def)
qed

lemma decide_split:
  assumes "sane_budget b"
  obtains (blind) "mc_hurdle m = None" "Option.bind cash co_annual_rate = None"
      "decide eq fi cash b m = Inr \<lparr>id_profile_id = rb_profile_id b, id_equity = 0, id_fixed_income = 0, id_cash = 1,
         id_reasons = [''insufficient_data:cbr_hurdle''], id_status = AS_INSUFFICIENT_DATA\<rparr>"
    | (mix) a0 er fa fr a sr e f c where "\<not> (mc_hurdle m = None \<and> Option.bind cash co_annual_rate = None)"
      "assess_equity eq b = (a0, er)" "assess_fi fi b = (fa, fr)" "stressed_equity a0 b m = (a, sr)"
      "engine_weights a fa b = Inr (e, f, c)"
      "decide eq fi cash b m = Inr \<lparr>id_profile_id = rb_profile_id b, id_equity = e, id_fixed_income = f, id_cash = c,
         id_reasons = dedupe (er @ fr @ sr), id_status = AS_RESEARCH_ONLY\<rparr>"
proof (cases "mc_hurdle m = None \<and> Option.bind cash co_annual_rate = None")
  case True
  then show thesis by (intro blind) (simp_all add: decide_def)
next
  case False
  obtain a0 er where a0: "assess_equity eq b = (a0, er)" by fastforce
  obtain fa fr where fa: "assess_fi fi b = (fa, fr)" by fastforce
  obtain a sr where a: "stressed_equity a0 b m = (a, sr)" by fastforce
  obtain e f c where w: "engine_weights a fa b = Inr (e, f, c)" by (rule engine_weights_ok [OF assms])
  show thesis by (rule mix [OF False a0 fa a w]) (use False a0 fa a w in \<open>simp add: decide_def\<close>)
qed

text \<open>C11: under a budget whose fractions lie in the unit interval the engine always decides: the weights
  are non-negative and sum to one within 1e-9, equity and fixed income stay under the caps of the
  budget and cash above its floor, all within 1e-9.\<close>

theorem engine_respects_budget:
  assumes "sane_budget b"
  shows "\<exists>d. decide eq fi cash b m = Inr d \<and>
    0 \<le> id_equity d \<and> 0 \<le> id_fixed_income d \<and> 0 \<le> id_cash d \<and>
    \<bar>id_equity d + id_fixed_income d + id_cash d - 1\<bar> \<le> e9 \<and>
    id_equity d \<le> rb_max_equity b + e9 \<and> id_fixed_income d \<le> rb_max_fixed_income b + e9 \<and>
    rb_min_cash b \<le> id_cash d + e9"
proof (cases rule: decide_split [OF assms, of m cash eq fi])
  case 1
  then show ?thesis using sane_budgetD [OF assms] by simp
next
  case (2 a0 er fa fr a sr e f c)
  obtain e' f' c' where w: "engine_weights a fa b = Inr (e', f', c')" "0 \<le> e'" "0 \<le> f'" "0 \<le> c'"
    "\<bar>e' + f' + c' - 1\<bar> \<le> e9" "e' \<le> max 0 (min a (rb_max_equity b)) + e9"
    "f' \<le> rb_max_fixed_income b + e9" "rb_min_cash b \<le> c' + e9"
    by (rule engine_weights_ok [OF assms])
  have "e' \<le> rb_max_equity b + e9" using w(6) sane_budgetD(3) [OF assms] by linarith
  then show ?thesis using 2 w by (auto simp del: abs_le_iff)
qed

text \<open>C19: what a sleeve needs before it gets any weight. Equity: a known hurdle, an opportunity whose
  expected excess return reaches the required premium, and at most 37 percent while its quality or
  confidence is unknown. Fixed income: an opportunity whose data is ready, with supported bonds if the
  ratio is known, and with known credit under a budget that takes no credit risk.\<close>

theorem engine_gates:
  assumes "sane_budget b" and "decide eq fi cash b m = Inr d"
  shows "(0 < id_equity d \<longrightarrow> (\<exists>q x. eq = Some q \<and> eo_expected_excess_return q = Some x \<and> rb_required_premium b \<le> x \<and>
      (mc_hurdle m \<noteq> None \<or> Option.bind cash co_annual_rate \<noteq> None) \<and>
      (eo_prediction_quality q = PQ_UNKNOWN \<or> eo_confidence_level q \<in> {[], ''UNKNOWN''} \<longrightarrow> id_equity d \<le> 37 / 100))) \<and>
    (0 < id_fixed_income d \<longrightarrow> (\<exists>p. fi = Some p \<and> fo_data_quality p \<notin> {''NOT_READY'', ''MISSING''} \<and>
      \<not> opt_sat (\<lambda>r. r \<le> 0) (fo_supported_ratio p) \<and>
      \<not> (rb_max_credit_risk b = ''NONE'' \<and> fo_credit_quality p = ''UNKNOWN'')))"
proof (cases rule: decide_split [OF assms(1), of m cash eq fi])
  case 1
  then show ?thesis using assms(2) by auto
next
  case (2 a0 er fa fr a sr e f c)
  then have d: "id_equity d = e" "id_fixed_income d = f" using assms(2) by auto
  obtain e' f' c' where "engine_weights a fa b = Inr (e', f', c')" "e' \<le> max 0 (min a (rb_max_equity b)) + e9"
    "a \<le> 0 \<longrightarrow> e' = 0" "\<not> fa \<longrightarrow> f' = 0"
    by (rule engine_weights_ok [OF assms(1)])
  then have w: "e \<le> max 0 (min a (rb_max_equity b)) + e9" "a \<le> 0 \<longrightarrow> e = 0" "\<not> fa \<longrightarrow> f = 0" using 2(5) by auto
  have a0: "a \<le> a0" using stressed_equity_le [OF 2(4)] .
  have E: "\<exists>q x. eq = Some q \<and> eo_expected_excess_return q = Some x \<and> rb_required_premium b \<le> x \<and>
      (eo_prediction_quality q = PQ_UNKNOWN \<or> eo_confidence_level q \<in> {[], ''UNKNOWN''} \<longrightarrow> e \<le> 37 / 100)" if "0 < e"
  proof -
    have "0 < a0" using that w(2) a0 by linarith
    then obtain q x where q: "eq = Some q" "eo_expected_excess_return q = Some x" "rb_required_premium b \<le> x"
      "a0 = min (rb_max_equity b) (fst (confidence_cap q b))"
      by (rule assess_equity_positive [OF 2(2)])
    have "e \<le> 37 / 100" if u: "eo_prediction_quality q = PQ_UNKNOWN \<or> eo_confidence_level q \<in> {[], ''UNKNOWN''}"
      using confidence_cap_unknown [OF u, of b] q(4) a0 w(1) \<open>0 < a0\<close> by linarith
    then show ?thesis using q by auto
  qed
  moreover have "\<exists>p. fi = Some p \<and> fo_data_quality p \<notin> {''NOT_READY'', ''MISSING''} \<and>
      \<not> opt_sat (\<lambda>r. r \<le> 0) (fo_supported_ratio p) \<and>
      \<not> (rb_max_credit_risk b = ''NONE'' \<and> fo_credit_quality p = ''UNKNOWN'')" if "0 < f"
    using that w(3) 2(3) by (cases fa) (auto elim: assess_fi_allowed)
  ultimately show ?thesis using 2(1) d by auto
qed

definition sample_equity :: equity_opportunity where
  "sample_equity = \<lparr>eo_expected_return = Some (fl (25/100)), eo_expected_excess_return = Some (fl (6/100)),
     eo_confidence = None, eo_prediction_quality = PQ_UNKNOWN, eo_calibration_status = ''UNKNOWN'',
     eo_confidence_level = ''UNKNOWN'', eo_sample_size = None\<rparr>"

definition sample_fixed_income :: fixed_income_opportunity where
  "sample_fixed_income = \<lparr>fo_expected_yield = Some (fl (16/100)), fo_duration = None, fo_credit_quality = ''OBSERVED'',
     fo_liquidity = ''OK'', fo_data_quality = ''READY'', fo_supported_ratio = Some 1, fo_liquidity_status = None,
     fo_support_status = Some ''SUPPORTED'', fo_credit_status = Some ''RATED'', fo_investment_eligibility = None\<rparr>"

definition sample_market :: market_context where
  "sample_market = \<lparr>mc_as_of = date_of 2026 10 1, mc_available_capital = 100000, mc_hurdle = Some (fl (18/100)), mc_volatility = None,
     mc_drawdown = None, mc_concentration = None, mc_liquidity_ok = True, mc_data_quality_ok = True\<rparr>"

lemma conservative_sane: "sane_budget CONSERVATIVE_BUDGET" by code_simp

lemma sample_decision:
  "map_sum id (\<lambda>d. (0 < id_equity d, 0 < id_fixed_income d)) (decide (Some sample_equity) (Some sample_fixed_income) None CONSERVATIVE_BUDGET sample_market)
    = Inr (True, True)"
  by code_simp

lemma sample_decided:
  obtains d where "decide (Some sample_equity) (Some sample_fixed_income) None CONSERVATIVE_BUDGET sample_market = Inr d"
    "0 < id_equity d" "0 < id_fixed_income d"
  using sample_decision by (cases "decide (Some sample_equity) (Some sample_fixed_income) None CONSERVATIVE_BUDGET sample_market") auto

theorem engine_respects_budget_witness:
  "\<exists>d. decide (Some sample_equity) (Some sample_fixed_income) None CONSERVATIVE_BUDGET sample_market = Inr d \<and>
     0 < id_equity d \<and> 0 < id_fixed_income d \<and> rb_min_cash CONSERVATIVE_BUDGET \<le> id_cash d + e9"
proof -
  obtain d where d: "decide (Some sample_equity) (Some sample_fixed_income) None CONSERVATIVE_BUDGET sample_market = Inr d"
    "0 < id_equity d" "0 < id_fixed_income d" by (rule sample_decided)
  show ?thesis
    using engine_respects_budget [OF conservative_sane, of "Some sample_equity" "Some sample_fixed_income" None sample_market] d
    by auto
qed

theorem engine_gates_witness:
  "\<exists>d. decide (Some sample_equity) (Some sample_fixed_income) None CONSERVATIVE_BUDGET sample_market = Inr d \<and>
     0 < id_equity d \<and> id_equity d \<le> 37 / 100"
proof -
  obtain d where d: "decide (Some sample_equity) (Some sample_fixed_income) None CONSERVATIVE_BUDGET sample_market = Inr d"
    "0 < id_equity d" "0 < id_fixed_income d" by (rule sample_decided)
  show ?thesis using engine_gates [OF conservative_sane d(1)] d by (auto simp: sample_equity_def)
qed

section \<open>The hurdle gate\<close>

lemma policy_decision_Inr:
  assumes "policy_decision pid e f c rs st conf = Inr d"
  shows "d = \<lparr>ad_policy_id = pid, ad_equity = e, ad_fixed_income = f, ad_cash = c, ad_reasons = rs,
      ad_status = st, ad_confidence = conf\<rparr>" "0 \<le> e" "0 \<le> f" "0 \<le> c" "\<bar>fsub (fadd (fadd e f) c) 1\<bar> \<le> weight_tolerance"
  using assms by (auto simp: policy_decision_def validate_weights_def exn_simps split: if_splits)

lemma apply_constraints_zero:
  assumes "apply_constraints_and_decide cx pid 0 f c rs st conf = Inr d" "0 \<le> max_equity_weight (ac_constraints cx)"
  shows "ad_equity d = 0"
proof -
  have z: "fst (restore_cash m (fdiv 0 t, f1, c1)) = 0" if "c1 < m" for m t f1 c1
    using restore_cash_zero(1) [of m f1 c1] that
    by (cases "restore_cash m (0, f1, c1)") (auto simp: fdiv_def)
  have z0: "fst (restore_cash m (0, f1, c1)) = 0" if "c1 < m" for m f1 c1
    using z [of c1 m 1 f1] that by (simp add: fdiv_def)
  show ?thesis
    using assms(1) policy_decision_Inr(1) [OF assms(1) [unfolded apply_constraints_and_decide_def Let_def]] assms(2)
    by (simp add: z z0 fdiv_def)
qed

lemma cbr_gate_without_equity:
  assumes "cbr_hurdle_gate_decide cx = Inr d" "\<not> fst (equity_clears_gate cx)" "0 \<le> max_equity_weight (ac_constraints cx)"
  shows "ad_equity d = 0"
proof (cases "ac_hurdle cx = None \<and> Option.bind (ac_cash cx) co_annual_rate = None")
  case True
  then show ?thesis using assms(1) policy_decision_Inr(1) by (fastforce simp: cbr_hurdle_gate_decide_def)
next
  case False
  obtain rs fi rs' where "equity_clears_gate cx = (False, rs)" "fixed_income_usable cx = (fi, rs')"
    using assms(2) by (cases "equity_clears_gate cx"; cases "fixed_income_usable cx") auto
  then show ?thesis using assms(1,3) False
    by (auto simp: cbr_hurdle_gate_decide_def defensive_mix_def Let_def split: if_splits intro: apply_constraints_zero)
qed

text \<open>a decision of the hurdle gate has non-negative weights that sum to one within the tolerance
  of the code, and holds equity only if an equity opportunity has an expected excess return of at
  least the required premium.\<close>

theorem hurdle_gate_needs_premium:
  assumes "cbr_hurdle_gate_decide cx = Inr d" and "0 \<le> max_equity_weight (ac_constraints cx)"
  shows "0 \<le> ad_equity d \<and> 0 \<le> ad_fixed_income d \<and> 0 \<le> ad_cash d \<and>
    \<bar>fsub (fadd (fadd (ad_equity d) (ad_fixed_income d)) (ad_cash d)) 1\<bar> \<le> weight_tolerance \<and>
    (ad_equity d \<noteq> 0 \<longrightarrow> (\<exists>q x. ac_equity cx = Some q \<and> eo_expected_excess_return q = Some x \<and> ac_required_premium cx \<le> x))"
proof -
  obtain e f c rs st conf where p: "policy_decision CBR_HURDLE_GATE_V0 e f c rs st conf = Inr d"
    using assms(1) by (auto simp: cbr_hurdle_gate_decide_def apply_constraints_and_decide_def Let_def split: if_splits prod.splits)
  have "\<exists>q x. ac_equity cx = Some q \<and> eo_expected_excess_return q = Some x \<and> ac_required_premium cx \<le> x"
    if "ad_equity d \<noteq> 0"
  proof -
    have "fst (equity_clears_gate cx)" using cbr_gate_without_equity [OF assms(1) _ assms(2)] that by auto
    then show ?thesis by (auto simp: equity_clears_gate_def Let_def split: option.splits if_splits)
  qed
  then show ?thesis using policy_decision_Inr [OF p] by auto
qed

definition capped_context :: "pyfloat \<Rightarrow> pyfloat \<Rightarrow> pyfloat \<Rightarrow> pyfloat \<Rightarrow> allocation_context" where
  "capped_context max_eq max_fi min_c min_fi = \<lparr>ac_as_of = date_of 2026 10 1, ac_available_capital = 100000, ac_hurdle = Some (fl (18/100)),
     ac_equity = Some sample_equity, ac_fixed_income = Some sample_fixed_income, ac_cash = None,
     ac_liquidity = \<lparr>ls_can_rebalance = True, ls_stale_prices = False\<rparr>,
     ac_constraints = \<lparr>max_equity_weight = max_eq, max_single_position = 1, min_cash = min_c,
       min_fixed_income = min_fi, max_fixed_income = max_fi, require_supported_bonds = True\<rparr>,
     ac_required_premium = 0\<rparr>"

lemma capped_decision:
  "map_sum id (\<lambda>d. (ad_equity d, ad_fixed_income d, ad_cash d)) (cbr_hurdle_gate_decide (capped_context (1/4) (1/4) 0 0)) = Inr (1/2, 1/2, 0)"
  by code_simp

text \<open>The caps of the policy are lost when the capped weights do not fill the portfolio: with caps of
  a quarter for equity and for bonds the normalisation doubles both weights. And floors that sum to
  more than one make the policy raise.\<close>

theorem gate_exceeds_caps:
  "\<exists>d. cbr_hurdle_gate_decide (capped_context (1/4) (1/4) 0 0) = Inr d \<and> ad_equity d = 1/2 \<and>
     ad_equity d > max_equity_weight (ac_constraints (capped_context (1/4) (1/4) 0 0)) \<and>
   cbr_hurdle_gate_decide (capped_context 1 1 (3/4) (3/4)) = Inl (ValueError ''allocation weights must be non-negative'')"
proof -
  have "cbr_hurdle_gate_decide (capped_context 1 1 (3/4) (3/4)) = Inl (ValueError ''allocation weights must be non-negative'')"
    by code_simp
  then show ?thesis using capped_decision
    by (cases "cbr_hurdle_gate_decide (capped_context (1/4) (1/4) 0 0)") (auto simp: capped_context_def)
qed

theorem hurdle_gate_needs_premium_witness:
  "\<exists>d. cbr_hurdle_gate_decide (capped_context (1/4) (1/4) 0 0) = Inr d \<and> ad_equity d \<noteq> 0 \<and>
     ac_required_premium (capped_context (1/4) (1/4) 0 0) \<le> fl (6/100)"
proof -
  obtain d where d: "cbr_hurdle_gate_decide (capped_context (1/4) (1/4) 0 0) = Inr d" "ad_equity d \<noteq> 0"
    using capped_decision by (cases "cbr_hurdle_gate_decide (capped_context (1/4) (1/4) 0 0)") auto
  show ?thesis using hurdle_gate_needs_premium [OF d(1)] d by (auto simp: capped_context_def sample_equity_def)
qed

section \<open>Whole lots\<close>

text \<open>What a purchase is: a positive number of whole lots of its candidate at the execution price of a buy, the
  notional of those lots, the fees of that notional, and all of it within the candidate's share of the capital.\<close>

definition purchase_of :: "decimal \<Rightarrow> cost_profile \<Rightarrow> allocation_candidate \<Rightarrow> allocated_position \<Rightarrow> bool" where
  "purchase_of capital costs cand p \<longleftrightarrow>
     al_symbol p = ca_symbol cand \<and> al_sleeve p = ca_sleeve cand \<and> 0 < al_lots p \<and> 0 < ca_lot_size cand \<and>
     al_units p = al_lots p * ca_lot_size cand \<and>
     execution_price costs (ca_price cand) ''BUY'' = Inr (al_execution_price p) \<and>
     al_notional p = dmul (dmul (al_execution_price p) (of_int (ca_lot_size cand))) (of_int (al_lots p)) \<and>
     al_fees p = cost_fee costs (al_notional p) \<and> al_cash_used p = dadd (al_notional p) (al_fees p) \<and>
     al_cash_used p \<le> dmul capital (ca_target_weight cand)"

definition lot_run_ok :: "decimal \<Rightarrow> lot_run \<Rightarrow> bool" where
  "lot_run_ok capital s \<longleftrightarrow> 0 \<le> lr_cash s \<and> lr_cash s = foldl dsub capital (map al_cash_used (lr_positions s)) \<and>
     (\<forall>p \<in> set (lr_positions s). 0 < al_lots p) \<and>
     (\<forall>(sym, r) \<in> set (lr_diagnostics s). r \<noteq> ''insufficient_cash'')"

lemma allocate_step_ok:
  assumes costs: "costs_ok costs" and ok: "lot_run_ok capital s" and st: "allocate_step capital costs s cand = Inr s'"
  shows "lot_run_ok capital s'"
    and "length (lr_positions s') + length (lr_diagnostics s') = Suc (length (lr_positions s) + length (lr_diagnostics s))"
    and "lr_positions s' = lr_positions s \<or> (\<exists>p. lr_positions s' = lr_positions s @ [p] \<and> purchase_of capital costs cand p)"
proof -
  let ?bad = "ca_price cand \<le> 0 \<or> ca_lot_size cand \<le> 0 \<or> ca_target_weight cand < 0"
  have "lot_run_ok capital s' \<and> length (lr_positions s') + length (lr_diagnostics s') = Suc (length (lr_positions s) + length (lr_diagnostics s)) \<and>
    (lr_positions s' = lr_positions s \<or> (\<exists>p. lr_positions s' = lr_positions s @ [p] \<and> purchase_of capital costs cand p))"
  proof (cases ?bad)
    case True
    then show ?thesis using st ok by (auto simp: allocate_step_def diagnose_def lot_run_ok_def)
  next
    case False
    obtain px where px: "execution_price costs (ca_price cand) ''BUY'' = Inr px"
      using st False by (auto simp: allocate_step_def exn_simps)
    define target where "target = min (lr_cash s) (dmul capital (ca_target_weight cand))"
    define lotp where "lotp = dmul px (of_int (ca_lot_size cand))"
    define k where "k = affordable_lots target lotp costs"
    define used where "used = dadd (dmul lotp (of_int k)) (cost_fee costs (dmul lotp (of_int k)))"
    have k0: "0 \<le> k" by (simp add: k_def affordable_lots_nonneg)
    have fits: "used \<le> target" if "k \<noteq> 0"
    proof -
      have "0 < lotp" using that by (auto simp: k_def affordable_lots_def split: if_splits)
      then have "lots_cost costs lotp (nat k) \<le> target" using affordable_lots_ok [OF costs, of lotp target] that by (auto simp: k_def)
      moreover have "dmul (of_nat (nat k)) lotp = dmul lotp (of_int k)" using k0 by (simp add: dmul_def mult.commute)
      then have "lots_cost costs lotp (nat k) = used" by (simp only: lots_cost_def used_def)
      ultimately show ?thesis by simp
    qed
    then have cash: "used \<le> lr_cash s" if "k \<noteq> 0" using that by (simp add: target_def)
    have "allocate_step capital costs s cand = Inr (if k = 0
        then diagnose cand (if target < lotp then ''lot_too_expensive'' else ''position_too_small'') s
        else s\<lparr>lr_cash := dsub (lr_cash s) used, lr_positions := lr_positions s @
                [\<lparr>al_symbol = ca_symbol cand, al_sleeve = ca_sleeve cand, al_lots = k,
                  al_units = k * ca_lot_size cand, al_execution_price = px, al_notional = dmul lotp (of_int k),
                  al_fees = cost_fee costs (dmul lotp (of_int k)), al_cash_used = used\<rparr>]\<rparr>)"
      unfolding allocate_step_def if_not_P [OF False] px bnd_Inr Let_def
        target_def [symmetric] lotp_def [symmetric] k_def [symmetric] used_def [symmetric]
      using cash by (cases "k = 0") (simp_all only: if_P if_not_P not_less refl if_True if_False simp_thms)
    moreover have "0 \<le> dsub (lr_cash s) used" if "k \<noteq> 0" using cash [OF that] by (simp add: dsub_def dround_nonneg)
    moreover have "used \<le> dmul capital (ca_target_weight cand)" if "k \<noteq> 0" using fits [OF that] by (simp add: target_def)
    ultimately show ?thesis using st ok k0 False px
      by (auto simp: lot_run_ok_def diagnose_def purchase_of_def lotp_def used_def split: if_splits)
  qed
  then show "lot_run_ok capital s'"
    and "length (lr_positions s') + length (lr_diagnostics s') = Suc (length (lr_positions s) + length (lr_diagnostics s))"
    and "lr_positions s' = lr_positions s \<or> (\<exists>p. lr_positions s' = lr_positions s @ [p] \<and> purchase_of capital costs cand p)" by auto
qed

lemma allocate_total: "\<exists>s'. allocate_step capital costs s cand = Inr s'"
proof -
  have "upper ''BUY'' = ''BUY''" by code_simp
  then show ?thesis by (simp add: allocate_step_def execution_price_def Let_def)
qed

lemma foldM_allocate:
  assumes "costs_ok costs" "lot_run_ok capital s"
  shows "\<exists>s' cs ps. foldM (allocate_step capital costs) s cands = Inr s' \<and> lot_run_ok capital s' \<and>
    length (lr_positions s') + length (lr_diagnostics s') = length (lr_positions s) + length (lr_diagnostics s) + length cands \<and>
    lr_positions s' = lr_positions s @ ps \<and> subseq cs cands \<and> list_all2 (purchase_of capital costs) cs ps"
  using assms(2)
proof (induction cands arbitrary: s)
  case (Cons cand cands)
  obtain s1 where s1: "allocate_step capital costs s cand = Inr s1" using allocate_total by blast
  note step = allocate_step_ok [OF assms(1) Cons.prems s1]
  obtain s' cs ps where ih: "foldM (allocate_step capital costs) s1 cands = Inr s'" "lot_run_ok capital s'"
    "length (lr_positions s') + length (lr_diagnostics s') = length (lr_positions s1) + length (lr_diagnostics s1) + length cands"
    "lr_positions s' = lr_positions s1 @ ps" "subseq cs cands" "list_all2 (purchase_of capital costs) cs ps"
    using Cons.IH [OF step(1)] by blast
  from step(3) show ?case
  proof (elim disjE exE conjE)
    assume "lr_positions s1 = lr_positions s"
    then show ?thesis using ih s1 step(2) by (auto intro!: exI [of _ cs])
  next
    fix p assume "lr_positions s1 = lr_positions s @ [p]" "purchase_of capital costs cand p"
    then show ?thesis using ih s1 step(2)
      by (intro exI [of _ s'] exI [of _ "cand # cs"] exI [of _ "p # ps"]) auto
  qed
qed auto

text \<open>C18: buying whole lots from a non-negative capital always returns. The purchases are, in order, those of
  some of the candidates: a positive number of whole lots, units being lots times the lot size, at the execution
  price of a buy, with the notional and fees of exactly these lots, and within the candidate's share of the
  capital. The remaining cash is the capital less the purchases in order and never negative, every other candidate
  is explained, and the code's own \<open>insufficient_cash\<close> branch is dead.\<close>

theorem allocation_conserves_cash:
  assumes "costs_ok costs" and "0 \<le> capital"
  shows "\<exists>r bought. allocate_integer_lots cands capital costs = Inr r \<and>
    subseq bought cands \<and> list_all2 (purchase_of capital costs) bought (ar_positions r) \<and>
    0 \<le> ar_cash_remainder r \<and>
    ar_cash_remainder r = foldl dsub capital (map al_cash_used (ar_positions r)) \<and>
    ar_fees r = foldl dadd 0 (map al_fees (ar_positions r)) \<and>
    (\<forall>(sym, why) \<in> set (ar_diagnostics r). why \<noteq> ''insufficient_cash'') \<and>
    length (ar_positions r) + length (ar_diagnostics r) = length cands"
proof -
  have "lot_run_ok capital \<lparr>lr_cash = capital, lr_positions = [], lr_diagnostics = []\<rparr>"
    using assms(2) by (simp add: lot_run_ok_def)
  from foldM_allocate [OF assms(1) this, of cands] show ?thesis
    using assms(2) by (fastforce simp: allocate_integer_lots_def lot_run_ok_def)
qed

definition two_candidates :: "allocation_candidate list" where
  "two_candidates = [\<lparr>ca_symbol = ''SBER'', ca_sleeve = EQUITY_ALPHA, ca_price = 300, ca_lot_size = 10, ca_target_weight = 1/2\<rparr>,
     \<lparr>ca_symbol = ''LKOH'', ca_sleeve = EQUITY_ALPHA, ca_price = 7000, ca_lot_size = 1, ca_target_weight = 1/2\<rparr>]"

theorem allocation_conserves_cash_witness:
  "\<exists>r bought. allocate_integer_lots two_candidates 10000 ten_bps = Inr r \<and> 0 \<le> ar_cash_remainder r \<and>
     list_all2 (purchase_of 10000 ten_bps) bought (ar_positions r) \<and> length (ar_positions r) + length (ar_diagnostics r) = 2"
proof -
  have "costs_ok ten_bps" by (simp add: costs_ok_def ten_bps_def)
  from allocation_conserves_cash [OF this, of 10000 two_candidates] show ?thesis
    by (fastforce simp: two_candidates_def)
qed

end
