(* ===== verification/Credit.thy ===== *)
theory Credit
  imports Alloc
begin

text \<open>
  Is a bond fit for a real portfolio? Credit availability (\<open>investment/domain/credit_intelligence.py\<close>,
  \<open>credit_quality.py\<close>), liquidity (\<open>liquidity.py\<close>) and investment eligibility
  (\<open>investment_eligibility.py\<close>), composed per bond as \<open>list_bond_risk_assessments\<close> of
  \<open>credit_liquidity_service.py\<close> composes them. Raw exchange fields are a map from names to texts;
  statuses, flags and reason codes are kept, limitation and warning texts are not.
\<close>

section \<open>Texts\<close>

text \<open>\<open>date.fromisoformat\<close>: calendar and week dates, with or without separators (CPython 3.11).\<close>

definition digit :: "char \<Rightarrow> int option" where
  "digit c = (let n = (of_char c :: nat) in if 48 \<le> n \<and> n \<le> 57 then Some (int n - 48) else None)"

fun read_nat :: "int \<Rightarrow> string \<Rightarrow> int option" where
  "read_nat acc [] = Some acc"
| "read_nat acc (c # cs) = (case digit c of None \<Rightarrow> None | Some n \<Rightarrow> read_nat (10 * acc + n) cs)"

definition read_num :: "string \<Rightarrow> int option" where
  "read_num s = (if s = [] then None else read_nat 0 s)"

definition days_in_month :: "int \<Rightarrow> int \<Rightarrow> int" where
  "days_in_month y m = (if m = 2 then (if is_leap y then 29 else 28) else if m \<in> {4, 6, 9, 11} then 30 else 31)"

definition make_date :: "int \<Rightarrow> int \<Rightarrow> int \<Rightarrow> date option" where
  "make_date y m d =
     (if 1 \<le> y \<and> y \<le> 9999 \<and> 1 \<le> m \<and> m \<le> 12 \<and> 1 \<le> d \<and> d \<le> days_in_month y m then Some (date_of y m d) else None)"

definition iso_week_one :: "int \<Rightarrow> int" where   \<comment> \<open>the ordinal of the Monday of week 1\<close>
  "iso_week_one y = (let first = toordinal (date_of y 1 1); wd = (first + 6) mod 7; monday = first - wd
     in if 3 < wd then monday + 7 else monday)"

definition make_iso_week :: "int \<Rightarrow> int \<Rightarrow> int \<Rightarrow> date option" where
  "make_iso_week y w d =
     (let first = (toordinal (date_of y 1 1)) mod 7; long = (first = 4 \<or> (first = 3 \<and> is_leap y));
          o1 = iso_week_one y + (w - 1) * 7 + (d - 1)
      in if 1 \<le> y \<and> y \<le> 9999 \<and> 1 \<le> w \<and> (w < 53 \<or> (w = 53 \<and> long)) \<and> 1 \<le> d \<and> d \<le> 7 \<and> valid_date (Ord o1)
         then Some (Ord o1) else None)"

definition read3 :: "(int \<Rightarrow> int \<Rightarrow> int \<Rightarrow> date option) \<Rightarrow> string \<Rightarrow> string \<Rightarrow> string \<Rightarrow> date option" where
  "read3 f a b c = (case (read_num a, read_num b, read_num c) of (Some x, Some y, Some z) \<Rightarrow> f x y z | _ \<Rightarrow> None)"

definition from_isoformat :: "string \<Rightarrow> date option" where
  "from_isoformat s =
     (let y = take 4 s; rest = drop 4 s in
      if length s \<notin> {7, 8, 10} then None
      else if take 1 rest = ''-'' then
        (if take 1 (drop 1 rest) = ''W'' then
           (if length s = 8 then read3 make_iso_week y (take 2 (drop 2 rest)) ''1''
            else if length s = 10 \<and> take 1 (drop 4 rest) = ''-'' then read3 make_iso_week y (take 2 (drop 2 rest)) (drop 5 rest)
            else None)
         else if length s = 10 \<and> take 1 (drop 3 rest) = ''-'' then read3 make_date y (take 2 (drop 1 rest)) (drop 4 rest)
         else None)
      else if take 1 rest = ''W'' then
        (if length s = 7 then read3 make_iso_week y (take 2 (drop 1 rest)) ''1''
         else if length s = 8 then read3 make_iso_week y (take 2 (drop 1 rest)) (drop 3 rest)
         else None)
      else if length s = 8 then read3 make_date y (take 2 rest) (drop 2 rest)
      else None)"

section \<open>Credit availability\<close>

datatype availability =
    SOURCE_NOT_READY | NO_RATING_FOUND | MAPPING_FAILED | CURRENT_RATING_AVAILABLE | GOVERNMENT_RUSSIAN_FEDERAL

record rating_record =
  rr_agency_code :: string
  rr_rating_raw :: "string option"
  rr_scale :: "string option"
  rr_outlook :: "string option"
  rr_action_date :: "date option"
  rr_known_at :: "date option"
  rr_source :: "string option"

record subject_assessment =
  su_instrument_id :: "int option"
  su_subject_key :: string
  su_availability :: availability
  su_rating_raw :: "string option"
  su_agency_code :: "string option"
  su_scale :: "string option"
  su_outlook :: "string option"
  su_action_date :: "date option"
  su_known_at :: "date option"
  su_source :: string
  su_risk_flags :: "string list"
  su_bond_type :: "string option"

definition is_federal_bond :: "string option \<Rightarrow> string option \<Rightarrow> bool" where
  "is_federal_bond bond_type subtype =
     (strip (or_text bond_type []) \<in> {''Government'', ''OFZ'', ''government''} \<or>
      lower (strip (or_text subtype [])) \<in> {''ofz_gov'', ''ofz'', ''government''})"

definition blank_subject :: "int option \<Rightarrow> string \<Rightarrow> string option \<Rightarrow> availability \<Rightarrow> string \<Rightarrow> string list \<Rightarrow> subject_assessment" where
  "blank_subject iid key bond_type av src flags = \<lparr>su_instrument_id = iid, su_subject_key = key, su_availability = av,
     su_rating_raw = None, su_agency_code = None, su_scale = None, su_outlook = None, su_action_date = None,
     su_known_at = None, su_source = src, su_risk_flags = flags, su_bond_type = bond_type\<rparr>"

definition rated_subject :: "rating_record option \<Rightarrow> subject_assessment \<Rightarrow> subject_assessment" where
  "rated_subject obs s = s\<lparr>su_rating_raw := Option.bind obs rr_rating_raw, su_agency_code := map_option rr_agency_code obs,
     su_scale := Option.bind obs rr_scale, su_outlook := Option.bind obs rr_outlook,
     su_action_date := Option.bind obs rr_action_date, su_known_at := Option.bind obs rr_known_at\<rparr>"

definition assess_credit_availability ::
  "int option \<Rightarrow> string \<Rightarrow> string option \<Rightarrow> bool \<Rightarrow> rating_record option \<Rightarrow> bool \<Rightarrow> bool \<Rightarrow> string option \<Rightarrow> subject_assessment" where
  "assess_credit_availability iid key bond_type provider_ready obs mapping_failed searched_no_rating subtype =
     (let corporate = (if or_text bond_type [] = ''Corporate'' then [''CORPORATE_WITHOUT_RATING''] else []) in
      if is_federal_bond bond_type subtype
      then blank_subject iid key bond_type GOVERNMENT_RUSSIAN_FEDERAL ''BOND_TYPE_GOVERNMENT'' []
      else if mapping_failed
      then rated_subject obs (blank_subject iid key bond_type MAPPING_FAILED ''MAPPING_FAILED'' [''MAPPING_FAILED'', ''CREDIT_UNKNOWN''])
      else if opt_sat (\<lambda>r. or_text (rr_rating_raw r) [] \<noteq> [] \<and> rr_agency_code r \<noteq> []) obs
      then rated_subject obs (blank_subject iid key bond_type CURRENT_RATING_AVAILABLE
             (or_text (Option.bind obs rr_source) ''STORED_OBSERVATION'') [])
      else if searched_no_rating \<and> provider_ready
      then blank_subject iid key bond_type NO_RATING_FOUND ''PROVIDER_SEARCHED_EMPTY'' ([''NO_RATING'', ''CREDIT_UNKNOWN''] @ corporate)
      else blank_subject iid key bond_type SOURCE_NOT_READY ''CREDIT_PROVIDER_NOT_READY''
             (dedupe ([''SOURCE_NOT_READY'', ''CREDIT_UNKNOWN''] @ corporate)))"

section \<open>Credit quality\<close>

datatype credit_status =
    CS_UNKNOWN | CS_AVAILABLE | CS_NOT_RATED | CS_CONFLICT | CS_STALE
  | CS_SOURCE_NOT_READY | CS_NO_RATING_FOUND | CS_MAPPING_FAILED | CS_CURRENT | CS_GOVERNMENT

fun credit_value :: "credit_status \<Rightarrow> string" where
  "credit_value CS_UNKNOWN = ''UNKNOWN''"
| "credit_value CS_AVAILABLE = ''AVAILABLE''"
| "credit_value CS_NOT_RATED = ''NOT_RATED''"
| "credit_value CS_CONFLICT = ''CONFLICT''"
| "credit_value CS_STALE = ''STALE''"
| "credit_value CS_SOURCE_NOT_READY = ''SOURCE_NOT_READY''"
| "credit_value CS_NO_RATING_FOUND = ''NO_RATING_FOUND''"
| "credit_value CS_MAPPING_FAILED = ''MAPPING_FAILED''"
| "credit_value CS_CURRENT = ''CURRENT_RATING_AVAILABLE''"
| "credit_value CS_GOVERNMENT = ''GOVERNMENT_RUSSIAN_FEDERAL''"

fun to_credit_status :: "availability \<Rightarrow> credit_status" where
  "to_credit_status SOURCE_NOT_READY = CS_SOURCE_NOT_READY"
| "to_credit_status NO_RATING_FOUND = CS_NO_RATING_FOUND"
| "to_credit_status MAPPING_FAILED = CS_MAPPING_FAILED"
| "to_credit_status CURRENT_RATING_AVAILABLE = CS_CURRENT"
| "to_credit_status GOVERNMENT_RUSSIAN_FEDERAL = CS_GOVERNMENT"

record credit_assessment =
  cq_instrument_id :: int
  cq_status :: credit_status
  cq_rating_source :: "string option"
  cq_rating_value :: "string option"
  cq_rating_date :: "date option"
  cq_rating_known_at :: "date option"
  cq_source :: string
  cq_risk_flags :: "string list"
  cq_agency :: "string option"
  cq_availability :: "availability option"

type_synonym raw_fields = "string \<rightharpoonup> string"

fun first_str :: "raw_fields \<Rightarrow> string list \<Rightarrow> string option" where
  "first_str raw [] = None"
| "first_str raw (k # ks) = (case raw k of Some (c # cs) \<Rightarrow> Some (c # cs) | _ \<Rightarrow> first_str raw ks)"

definition parse_date :: "string option \<Rightarrow> date option" where
  "parse_date v = (if v = None \<or> v = Some [] then None else from_isoformat (take 10 (the v)))"

record observed_rating =   \<comment> \<open>the optional \<open>rating_*\<close> arguments\<close>
  ob_value :: "string option"
  ob_agency :: "string option"
  ob_date :: "date option"
  ob_known_at :: "date option"
  ob_source :: "string option"

definition no_observation :: observed_rating where
  "no_observation = \<lparr>ob_value = None, ob_agency = None, ob_date = None, ob_known_at = None, ob_source = None\<rparr>"

definition observed_value :: "observed_rating \<Rightarrow> raw_fields \<Rightarrow> string option" where
  "observed_value obs raw = or_else (ob_value obs) (first_str raw [''RATING'', ''CREDITRATING'', ''RATINGVALUE'', ''RATING_VALUE''])"

definition observed_agency :: "observed_rating \<Rightarrow> raw_fields \<Rightarrow> string option" where
  "observed_agency obs raw = or_else (ob_agency obs) (first_str raw [''RATINGAGENCY'', ''AGENCY'', ''RATING_AGENCY''])"

definition observed_date :: "observed_rating \<Rightarrow> raw_fields \<Rightarrow> date option" where
  "observed_date obs raw = (case ob_date obs of Some d \<Rightarrow> Some d
     | None \<Rightarrow> parse_date (or_else (raw ''RATINGDATE'') (raw ''RATING_DATE'')))"

definition unrated :: "int \<Rightarrow> credit_status \<Rightarrow> string \<Rightarrow> string list \<Rightarrow> availability option \<Rightarrow> credit_assessment" where
  "unrated iid st src flags av = \<lparr>cq_instrument_id = iid, cq_status = st, cq_rating_source = None, cq_rating_value = None,
     cq_rating_date = None, cq_rating_known_at = None, cq_source = src, cq_risk_flags = flags, cq_agency = None,
     cq_availability = av\<rparr>"

definition rating_stale :: "int \<Rightarrow> date \<Rightarrow> date option \<Rightarrow> bool" where
  "rating_stale stale_after as_of d = opt_sat (\<lambda>x. stale_after < days_between x as_of) d"

definition assess_credit_from_observed ::
  "(int \<Rightarrow> string) \<Rightarrow> int \<Rightarrow> string \<Rightarrow> string option \<Rightarrow> raw_fields \<Rightarrow> date \<Rightarrow> observed_rating \<Rightarrow> int \<Rightarrow> bool \<Rightarrow>
   string option \<Rightarrow> credit_assessment" where
  "assess_credit_from_observed str_of iid bond_type stored raw as_of obs stale_after provider_ready subtype =
     (let intel = (\<lambda>ready searched. assess_credit_availability (Some iid) (str_of iid) (Some bond_type) ready None False searched subtype);
          v = observed_value obs raw; a = observed_agency obs raw; d = observed_date obs raw;
          stale = rating_stale stale_after as_of d
      in if is_federal_bond (Some bond_type) subtype then
           let i = intel provider_ready False
           in unrated iid (to_credit_status (su_availability i)) (su_source i) [''GOVERNMENT_DEBT''] (Some (su_availability i))
         else if or_text v [] \<noteq> [] \<and> or_text a [] \<noteq> [] then
           \<lparr>cq_instrument_id = iid, cq_status = (if stale then CS_STALE else CS_CURRENT),
            cq_rating_source = Some (or_text (ob_source obs) ''OBSERVED_RAW_FIELD''), cq_rating_value = v,
            cq_rating_date = d, cq_rating_known_at = (case ob_known_at obs of Some k \<Rightarrow> Some k | None \<Rightarrow> d),
            cq_source = or_text (ob_source obs) ''OBSERVED_RAW_FIELD'',
            cq_risk_flags = (if stale then [''DATA_STALE''] else []), cq_agency = a,
            cq_availability = (if stale then None else Some CURRENT_RATING_AVAILABLE)\<rparr>
         else if stored \<in> {Some ''NOT_RATED'', Some ''NO_RATING_FOUND''} \<or>
                 upper (or_text (raw ''RATING_STATUS'') []) \<in> {''NOT_RATED'', ''NO_RATING_FOUND''} then
           unrated iid CS_NO_RATING_FOUND ''NO_RATING_OBSERVED'' (su_risk_flags (intel True True)) (Some NO_RATING_FOUND)
         else if \<not> provider_ready then
           let i = intel False False
           in unrated iid CS_SOURCE_NOT_READY (su_source i) (su_risk_flags i) (Some SOURCE_NOT_READY)
         else unrated iid CS_UNKNOWN ''NO_PUBLIC_RATING_IN_PIPELINE''
           (dedupe ([''CREDIT_UNKNOWN'', ''NO_RATING''] @ (if bond_type = ''Corporate'' then [''CORPORATE_WITHOUT_RATING''] else []))) None)"

section \<open>Liquidity\<close>

datatype liquidity_status = LIQ_GOOD | LIQ_MEDIUM | LIQ_LOW | LIQ_UNKNOWN

fun liquidity_value :: "liquidity_status \<Rightarrow> string" where
  "liquidity_value LIQ_GOOD = ''GOOD''"
| "liquidity_value LIQ_MEDIUM = ''MEDIUM''"
| "liquidity_value LIQ_LOW = ''LOW''"
| "liquidity_value LIQ_UNKNOWN = ''UNKNOWN''"

record liquidity_assessment =
  la_instrument_id :: int
  la_volume :: "pyfloat option"
  la_trade_count :: "int option"
  la_last_trade :: "date option"
  la_days :: "int option"
  la_status :: liquidity_status
  la_risk_flags :: "string list"
  la_reasons :: "string list"

definition age_status :: "int option \<Rightarrow> liquidity_status \<times> string list \<times> string list" where
  "age_status days = (case days of
     None \<Rightarrow> (LIQ_UNKNOWN, [''UNKNOWN_LIQUIDITY''], [''UNKNOWN_LIQUIDITY''])
   | Some n \<Rightarrow> if 5 < n then (LIQ_LOW, [''STALE_PRICE'', ''NO_RECENT_TRADES''], [''LOW_LIQUIDITY''])
       else if 1 < n then (LIQ_MEDIUM, [''STALE_PRICE''], []) else (LIQ_GOOD, [], []))"

fun downgrade :: "liquidity_status \<Rightarrow> liquidity_status" where
  "downgrade LIQ_GOOD = LIQ_MEDIUM"
| "downgrade LIQ_MEDIUM = LIQ_LOW"
| "downgrade s = s"

definition assess_liquidity ::
  "int \<Rightarrow> date \<Rightarrow> date option \<Rightarrow> pyfloat option \<Rightarrow> int option \<Rightarrow> liquidity_assessment" where
  "assess_liquidity iid as_of last_trade volume trade_count =
     (if last_trade = None \<and> volume = None \<and> trade_count = None
      then \<lparr>la_instrument_id = iid, la_volume = None, la_trade_count = None, la_last_trade = None, la_days = None,
            la_status = LIQ_UNKNOWN, la_risk_flags = [''UNKNOWN_LIQUIDITY''], la_reasons = [''UNKNOWN_LIQUIDITY'']\<rparr>
      else
        let days = map_option (\<lambda>d. days_between d as_of) last_trade;
            (s0, r0, f0) = age_status days;
            dry = opt_sat (\<lambda>v. v \<le> 0) volume;
            s1 = (if dry then downgrade s0 else s0);
            idle = opt_sat (\<lambda>n. n \<le> 0) trade_count;
            s2 = (if idle \<and> s1 \<noteq> LIQ_UNKNOWN then LIQ_LOW else s1)
        in \<lparr>la_instrument_id = iid, la_volume = volume, la_trade_count = trade_count, la_last_trade = last_trade,
            la_days = days, la_status = s2,
            la_risk_flags = dedupe (f0 @ (if dry then [''LOW_LIQUIDITY''] else []) @ (if idle then [''LOW_LIQUIDITY''] else [])),
            la_reasons = dedupe (r0 @ (if dry then [''LOW_VOLUME''] else []) @ (if idle then [''NO_RECENT_TRADES''] else []))\<rparr>)"

definition liquidity_eligible :: "liquidity_assessment \<Rightarrow> bool \<times> string list" where
  "liquidity_eligible a = (la_status a \<in> {LIQ_GOOD, LIQ_MEDIUM},
     dedupe (la_reasons a @ (if la_status a = LIQ_UNKNOWN then [''UNKNOWN_LIQUIDITY''] else [])))"

section \<open>Investment eligibility\<close>

datatype eligibility_status = REAL_PORTFOLIO_CANDIDATE | EL_RESEARCH_ONLY | EL_BLOCKED

fun eligibility_value :: "eligibility_status \<Rightarrow> string" where
  "eligibility_value REAL_PORTFOLIO_CANDIDATE = ''REAL_PORTFOLIO_CANDIDATE''"
| "eligibility_value EL_RESEARCH_ONLY = ''RESEARCH_ONLY''"
| "eligibility_value EL_BLOCKED = ''BLOCKED''"

record eligibility_assessment =
  el_instrument_id :: int
  el_eligible :: bool
  el_status :: eligibility_status
  el_accounting_supported :: bool
  el_reasons :: "string list"
  el_risk_flags :: "string list"

fun credit_reason :: "credit_status \<Rightarrow> string list" where
  "credit_reason CS_GOVERNMENT = [''government_debt_category'']"
| "credit_reason CS_SOURCE_NOT_READY = [''credit_source_not_ready'']"
| "credit_reason CS_UNKNOWN = [''credit_unknown_or_not_rated'']"
| "credit_reason CS_NOT_RATED = [''credit_unknown_or_not_rated'']"
| "credit_reason CS_NO_RATING_FOUND = [''credit_unknown_or_not_rated'']"
| "credit_reason CS_STALE = [''credit_rating_stale'']"
| "credit_reason CS_CONFLICT = [''credit_rating_conflict'']"
| "credit_reason CS_MAPPING_FAILED = [''credit_mapping_failed'']"
| "credit_reason _ = []"

definition assess_investment_eligibility ::
  "int \<Rightarrow> string \<Rightarrow> credit_assessment \<Rightarrow> liquidity_assessment \<Rightarrow> eligibility_assessment" where
  "assess_investment_eligibility iid support credit liq =
     (let accounting_ok = (support = ''SUPPORTED'');
          credit_ok = (cq_status credit \<in> {CS_GOVERNMENT, CS_AVAILABLE, CS_CURRENT});
          liq_ok = (la_status liq \<in> {LIQ_GOOD, LIQ_MEDIUM});
          reasons = (if accounting_ok then [] else [''accounting_not_supported'']) @ credit_reason (cq_status credit) @
            (if la_status liq = LIQ_LOW then [''liquidity_low''] else if la_status liq = LIQ_UNKNOWN then [''liquidity_unknown''] else []);
          flags = cq_risk_flags credit @ la_risk_flags liq @ (if accounting_ok then [] else [''ACCOUNTING_UNSUPPORTED'']);
          (status, final) = (if accounting_ok \<and> credit_ok \<and> liq_ok then (REAL_PORTFOLIO_CANDIDATE, [])
            else if support \<in> {''SUPPORTED'', ''RESEARCH_ONLY''} then (EL_RESEARCH_ONLY, [''research_only_investment_quality''])
            else (EL_BLOCKED, [''blocked_unsupported_or_unsafe'']))
      in \<lparr>el_instrument_id = iid, el_eligible = (status = REAL_PORTFOLIO_CANDIDATE), el_status = status,
          el_accounting_supported = accounting_ok, el_reasons = dedupe (reasons @ final), el_risk_flags = dedupe flags\<rparr>)"

text \<open>One item of \<open>list_bond_risk_assessments\<close>: no provider, no observation besides the raw fields.\<close>

record bond_term =
  bt_instrument_id :: int
  bt_bond_type :: string
  bt_support_status :: string
  bt_credit_quality_status :: "string option"
  bt_raw_fields :: raw_fields

definition bond_risk :: "(int \<Rightarrow> string) \<Rightarrow> date \<Rightarrow> bond_term \<Rightarrow> date option \<Rightarrow> pyfloat option \<Rightarrow> int option \<Rightarrow>
    credit_assessment \<times> liquidity_assessment \<times> eligibility_assessment" where
  "bond_risk str_of as_of term last_trade volume trade_count =
     (let iid = bt_instrument_id term;
          credit = assess_credit_from_observed str_of iid (bt_bond_type term) (bt_credit_quality_status term)
            (bt_raw_fields term) as_of no_observation 365 False None;
          liq = assess_liquidity iid as_of last_trade volume trade_count
      in (credit, liq, assess_investment_eligibility iid (bt_support_status term) credit liq))"

section \<open>Lemmas\<close>

definition tradable :: "date \<Rightarrow> date option \<Rightarrow> pyfloat option \<Rightarrow> int option \<Rightarrow> bool" where
  "tradable as_of last_trade volume trade_count \<longleftrightarrow>
     (\<exists>d. last_trade = Some d \<and> days_between d as_of \<le> (if opt_sat (\<lambda>v. v \<le> 0) volume then 1 else 5)) \<and>
     \<not> opt_sat (\<lambda>n. n \<le> 0) trade_count"

lemma liquid_iff_tradable:
  "la_status (assess_liquidity iid as_of lt volume n) \<in> {LIQ_GOOD, LIQ_MEDIUM} \<longleftrightarrow> tradable as_of lt volume n"
  by (cases lt) (auto simp: assess_liquidity_def age_status_def tradable_def Let_def split: if_splits)

text \<open>A rating counts when its value and its agency were observed and it is not known to be too old.\<close>

definition rated :: "date \<Rightarrow> observed_rating \<Rightarrow> raw_fields \<Rightarrow> int \<Rightarrow> bool" where
  "rated as_of obs raw stale_after \<longleftrightarrow> or_text (observed_value obs raw) [] \<noteq> [] \<and> or_text (observed_agency obs raw) [] \<noteq> [] \<and>
     \<not> rating_stale stale_after as_of (observed_date obs raw)"

lemma federal_availability [simp]:
  "is_federal_bond bt st \<Longrightarrow> su_availability (assess_credit_availability i k bt r ob mf se st) = GOVERNMENT_RUSSIAN_FEDERAL"
  by (simp add: assess_credit_availability_def blank_subject_def)

lemma credit_ok_iff:
  "cq_status (assess_credit_from_observed str_of iid bt stored raw as_of obs stale ready st) \<in> {CS_GOVERNMENT, CS_AVAILABLE, CS_CURRENT}
   \<longleftrightarrow> is_federal_bond (Some bt) st \<or> rated as_of obs raw stale"
  by (auto simp: assess_credit_from_observed_def Let_def unrated_def rated_def)

text \<open>C17: a bond is a candidate for a real portfolio exactly if its accounting is supported, it is federal debt
  or has an observed rating with agency that is not dated more than a year back (a rating without date passes), and it was traded within five days
  (one day if the volume is not positive) with no report of zero trades. It is blocked exactly if its
  support status is neither SUPPORTED nor RESEARCH_ONLY.\<close>

theorem real_candidate_iff:
  assumes "bond_risk str_of as_of term lt volume trades = (credit, liq, el)"
  shows "(el_eligible el \<longleftrightarrow> el_status el = REAL_PORTFOLIO_CANDIDATE) \<and>
    (el_eligible el \<longleftrightarrow> bt_support_status term = ''SUPPORTED'' \<and>
      (is_federal_bond (Some (bt_bond_type term)) None \<or> rated as_of no_observation (bt_raw_fields term) 365) \<and>
      tradable as_of lt volume trades) \<and>
    (el_status el = EL_BLOCKED \<longleftrightarrow> bt_support_status term \<notin> {''SUPPORTED'', ''RESEARCH_ONLY''})"
proof -
  have "credit = assess_credit_from_observed str_of (bt_instrument_id term) (bt_bond_type term) (bt_credit_quality_status term)
      (bt_raw_fields term) as_of no_observation 365 False None"
    and "liq = assess_liquidity (bt_instrument_id term) as_of lt volume trades"
    and el: "el = assess_investment_eligibility (bt_instrument_id term) (bt_support_status term) credit liq"
    using assms by (auto simp: bond_risk_def Let_def)
  then have c: "(cq_status credit \<in> {CS_GOVERNMENT, CS_AVAILABLE, CS_CURRENT}) =
      (is_federal_bond (Some (bt_bond_type term)) None \<or> rated as_of no_observation (bt_raw_fields term) 365)"
    and l: "(la_status liq \<in> {LIQ_GOOD, LIQ_MEDIUM}) = tradable as_of lt volume trades"
    using credit_ok_iff liquid_iff_tradable by (simp_all only:)
  show ?thesis unfolding el assess_investment_eligibility_def Let_def c l by (simp split: if_splits)
qed

definition sample_ofz :: bond_term where
  "sample_ofz = \<lparr>bt_instrument_id = 7, bt_bond_type = ''Government'', bt_support_status = ''SUPPORTED'',
     bt_credit_quality_status = None, bt_raw_fields = Map.empty\<rparr>"

theorem real_candidate_iff_witness:
  "el_eligible (snd (snd (bond_risk (\<lambda>_. ''7'') (date_of 2026 10 5) sample_ofz (Some (date_of 2026 10 1)) (Some 100) None)))"
proof -
  let ?r = "bond_risk (\<lambda>_. ''7'') (date_of 2026 10 5) sample_ofz (Some (date_of 2026 10 1)) (Some 100) None"
  have "is_federal_bond (Some (bt_bond_type sample_ofz)) None" "bt_support_status sample_ofz = ''SUPPORTED''"
    by code_simp+
  moreover have "tradable (date_of 2026 10 5) (Some (date_of 2026 10 1)) (Some 100) None"
    by (simp add: tradable_def days_between_def date_of_def days_before_month_def)
  ultimately show ?thesis
    using real_candidate_iff [of "\<lambda>_. ''7''" "date_of 2026 10 5" sample_ofz "Some (date_of 2026 10 1)" "Some 100" None "fst ?r" "fst (snd ?r)" "snd (snd ?r)"]
    by (metis prod.collapse)
qed

lemma from_isoformat_samples:
  "from_isoformat ''2026-10-05'' = Some (date_of 2026 10 5)" "from_isoformat ''20261005'' = Some (date_of 2026 10 5)"
  "from_isoformat ''2026-W41-1'' = Some (date_of 2026 10 5)" "from_isoformat ''2026-02-30'' = None"
  by code_simp+

end
