(* ===== verification/Riskgate.thy ===== *)
theory Riskgate
  imports Credit
begin

text \<open>
  The portfolio risk gate, \<open>investment/domain/portfolio_risk_gate.py\<close>. A check appends a reason code and
  possibly a status; the verdict is the worst status. The codes are kept, the Russian explanations,
  warnings, summary and limitation texts are not modelled.
\<close>

datatype gate_status = BLOCKED | INSUFFICIENT_DATA | GATE_RESEARCH_ONLY | APPROVED_WITH_WARNINGS | APPROVED

fun gate_value :: "gate_status \<Rightarrow> string" where
  "gate_value BLOCKED = ''BLOCKED''"
| "gate_value INSUFFICIENT_DATA = ''INSUFFICIENT_DATA''"
| "gate_value GATE_RESEARCH_ONLY = ''RESEARCH_ONLY''"
| "gate_value APPROVED_WITH_WARNINGS = ''APPROVED_WITH_WARNINGS''"
| "gate_value APPROVED = ''APPROVED''"

text \<open>Statuses are ordered by how much they permit; \<open>_worst\<close> is the minimum.\<close>

fun permits :: "gate_status \<Rightarrow> nat" where
  "permits BLOCKED = 0"
| "permits INSUFFICIENT_DATA = 1"
| "permits GATE_RESEARCH_ONLY = 2"
| "permits APPROVED_WITH_WARNINGS = 3"
| "permits APPROVED = 4"

instantiation gate_status :: linorder
begin

definition less_eq_gate_status :: "gate_status \<Rightarrow> gate_status \<Rightarrow> bool" where
  "less_eq_gate_status a b \<longleftrightarrow> permits a \<le> permits b"

definition less_gate_status :: "gate_status \<Rightarrow> gate_status \<Rightarrow> bool" where
  "less_gate_status a b \<longleftrightarrow> permits a < permits b"

lemma permits_inj: "permits a = permits b \<Longrightarrow> a = b"
  by (cases a; cases b) simp_all

instance
  by standard (auto simp: less_eq_gate_status_def less_gate_status_def intro: permits_inj)

end

lemmas gate_order = less_eq_gate_status_def less_gate_status_def

definition worst :: "gate_status list \<Rightarrow> gate_status" where
  "worst statuses = (case List.find (\<lambda>s. s \<in> set statuses)
       [BLOCKED, INSUFFICIENT_DATA, GATE_RESEARCH_ONLY, APPROVED_WITH_WARNINGS, APPROVED] of
     Some s \<Rightarrow> s | None \<Rightarrow> INSUFFICIENT_DATA)"

record position_input =
  pi_symbol :: string
  pi_sleeve :: string
  pi_target_weight :: pyfloat
  pi_credit_status :: "string option"
  pi_liquidity_status :: "string option"
  pi_data_quality :: "string option"
  pi_support_status :: "string option"
  pi_eligibility :: "string option"
  pi_days_since_trade :: "int option"
  pi_expected_yield :: "pyfloat option"
  pi_risk_flags :: "string list"
  pi_blocked :: bool

record position_verdict =
  pv_symbol :: string
  pv_sleeve :: string
  pv_gate_status :: gate_status
  pv_reasons :: "string list"
  pv_allowed :: bool
  pv_target_weight :: pyfloat

record risk_gate =
  rg_max_single_position :: pyfloat
  rg_concentration_warn :: pyfloat
  rg_allow_unknown_credit :: bool

definition default_gate :: "pyfloat \<Rightarrow> bool \<Rightarrow> risk_gate" where
  "default_gate max_single allow = \<lparr>rg_max_single_position = max_single, rg_concentration_warn = fl (12/100),
     rg_allow_unknown_credit = allow\<rparr>"

type_synonym check = "string list \<times> gate_status list"

definition data_check :: "position_input \<Rightarrow> check" where
  "data_check p = (let dq = upper (or_text (pi_data_quality p) []) in
     if dq \<in> {[], ''NOT_READY'', ''MISSING''} then ([''insufficient_data_quality''], [INSUFFICIENT_DATA])
     else if dq = ''PARTIAL'' then ([''partial_data_quality''], [APPROVED_WITH_WARNINGS]) else ([], []))"

definition support_check :: "position_input \<Rightarrow> check" where
  "support_check p = (let support = upper (or_text (pi_support_status p) []) in
     if support = ''UNSUPPORTED'' then ([''accounting_unsupported''], [BLOCKED])
     else if support \<in> {''RESEARCH_ONLY'', []} \<and> pi_sleeve p = ''FIXED_INCOME''
     then ([''accounting_research_only''], [GATE_RESEARCH_ONLY]) else ([], []))"

definition credit_code :: "position_input \<Rightarrow> string" where
  "credit_code p = upper (or_text (pi_credit_status p) ''UNKNOWN'')"

definition liquidity_code :: "position_input \<Rightarrow> string" where
  "liquidity_code p = upper (or_text (pi_liquidity_status p) ''UNKNOWN'')"

definition credit_check :: "risk_gate \<Rightarrow> position_input \<Rightarrow> check" where
  "credit_check g p = (let credit = credit_code p in
     if pi_sleeve p \<noteq> ''FIXED_INCOME'' then ([], [])
     else if credit \<in> {''UNKNOWN'', ''NOT_RATED''}
     then ([''credit_unknown''], [if rg_allow_unknown_credit g then GATE_RESEARCH_ONLY else BLOCKED])
     else if credit = ''STALE'' then ([''credit_stale''], [APPROVED_WITH_WARNINGS])
     else if credit = ''CONFLICT'' then ([''credit_conflict''], [GATE_RESEARCH_ONLY]) else ([], []))"

definition liquidity_check :: "position_input \<Rightarrow> check" where
  "liquidity_check p = (let liq = liquidity_code p in
     if liq = ''LOW'' then ([''liquidity_low''], [BLOCKED])
     else if liq = ''UNKNOWN'' then ([''liquidity_unknown''], [APPROVED_WITH_WARNINGS])
     else if liq = ''MEDIUM'' then ([''liquidity_medium''], [APPROVED_WITH_WARNINGS]) else ([], []))"

definition staleness_check :: "position_input \<Rightarrow> check" where
  "staleness_check p = (if opt_sat (\<lambda>n. 5 < n) (pi_days_since_trade p)
     then ([''stale_market_data''], [APPROVED_WITH_WARNINGS]) else ([], []))"

definition eligibility_check :: "position_input \<Rightarrow> check" where
  "eligibility_check p = (let elig = upper (or_text (pi_eligibility p) []) in
     if elig = ''BLOCKED'' then ([''investment_eligibility_blocked''], [BLOCKED])
     else if elig = ''RESEARCH_ONLY'' then ([''investment_eligibility_research_only''], [GATE_RESEARCH_ONLY]) else ([], []))"

definition is_aggregate :: "position_input \<Rightarrow> bool" where
  "is_aggregate p = (suffix ''_SLEEVE'' (pi_symbol p) \<or> pi_sleeve p = ''CASH'')"

definition concentration_check :: "risk_gate \<Rightarrow> position_input \<Rightarrow> check" where
  "concentration_check g p = (let w = pi_target_weight p in
     if \<not> is_aggregate p \<and> w > fadd (rg_max_single_position g) (fl (1 / 10 ^ 12))
     then ([''concentration_exceeds_max_single_position''], [BLOCKED])
     else if \<not> is_aggregate p \<and> w \<ge> rg_concentration_warn g then ([''concentration_near_limit''], [APPROVED_WITH_WARNINGS])
     else if is_aggregate p \<and> w > rg_max_single_position g
     then ([''sleeve_weight_above_single_name_cap''], [APPROVED_WITH_WARNINGS]) else ([], []))"

text \<open>The last check looks at the statuses collected before it.\<close>

definition yield_check :: "position_input \<Rightarrow> gate_status list \<Rightarrow> check" where
  "yield_check p statuses =
     (if opt_sat (\<lambda>y. fl (15/100) \<le> y) (pi_expected_yield p) \<and>
         (credit_code p \<in> {''UNKNOWN'', ''NOT_RATED'', []} \<or> liquidity_code p \<in> {''LOW'', ''UNKNOWN''})
      then ([''high_yield_without_risk_clearance''], if APPROVED \<notin> set statuses then [GATE_RESEARCH_ONLY] else [])
      else ([], []))"

definition flag_reasons :: "position_input \<Rightarrow> string list" where
  "flag_reasons p = map (\<lambda>f. ''risk_flag:'' @ f)
     (filter (\<lambda>f. f \<in> {''CREDIT_UNKNOWN'', ''LOW_LIQUIDITY'', ''NO_RATING''}) (pi_risk_flags p))"

definition base_checks :: "risk_gate \<Rightarrow> position_input \<Rightarrow> check list" where
  "base_checks g p = [data_check p, support_check p, credit_check g p, liquidity_check p, staleness_check p,
     eligibility_check p, concentration_check g p]"

definition allowed_status :: "gate_status \<Rightarrow> bool" where
  "allowed_status s \<longleftrightarrow> s \<in> {APPROVED, APPROVED_WITH_WARNINGS, GATE_RESEARCH_ONLY} \<and> s \<noteq> BLOCKED"

definition verdict_of :: "position_input \<Rightarrow> gate_status \<Rightarrow> string list \<Rightarrow> bool \<Rightarrow> position_verdict" where
  "verdict_of p status reasons allowed = \<lparr>pv_symbol = pi_symbol p, pv_sleeve = pi_sleeve p, pv_gate_status = status,
     pv_reasons = reasons, pv_allowed = allowed, pv_target_weight = pi_target_weight p\<rparr>"

definition checked_status :: "risk_gate \<Rightarrow> position_input \<Rightarrow> gate_status" where
  "checked_status g p = (let sts = concat (map snd (base_checks g p)); statuses = sts @ snd (yield_check p sts)
     in worst (if statuses = [] then [APPROVED] else statuses))"

definition assess_position :: "risk_gate \<Rightarrow> position_input \<Rightarrow> position_verdict" where
  "assess_position g p =
     (if pi_blocked p then verdict_of p BLOCKED [''instrument_explicitly_blocked''] False
      else if pi_sleeve p = ''CASH'' then verdict_of p APPROVED [''cash_sleeve_ok''] True
      else
        let checks = base_checks g p;
            reasons = concat (map fst checks) @ fst (yield_check p (concat (map snd checks))) @ flag_reasons p;
            status = checked_status g p
        in verdict_of p status (dedupe reasons) (allowed_status status))"

record risk_assessment =
  ra_status :: gate_status
  ra_capital :: decimal
  ra_positions :: "position_verdict list"
  ra_buckets :: "gate_status \<Rightarrow> string list"   \<comment> \<open>approved, approved\_with\_warnings, research\_only, blocked, insufficient\_data\<close>
  ra_reasons :: "string list"

definition assess_portfolio :: "risk_gate \<Rightarrow> decimal \<Rightarrow> position_input list \<Rightarrow> risk_assessment" where
  "assess_portfolio g capital ps =
     (let vs = map (assess_position g) ps in
      if vs = [] then \<lparr>ra_status = INSUFFICIENT_DATA, ra_capital = capital, ra_positions = [], ra_buckets = (\<lambda>_. []),
        ra_reasons = [''no_positions'']\<rparr>
      else \<lparr>ra_status = worst (map pv_gate_status vs), ra_capital = capital, ra_positions = vs,
        ra_buckets = (\<lambda>s. map pv_symbol (filter (\<lambda>v. pv_gate_status v = s) vs)),
        ra_reasons = dedupe (concat (map pv_reasons vs))\<rparr>)"

section \<open>Lemmas\<close>

lemma worst_least: "s \<in> set xs \<Longrightarrow> worst xs \<le> s"
  by (cases s) (auto simp: worst_def gate_order)

lemma worst_in: "xs \<noteq> [] \<Longrightarrow> worst xs \<in> set xs"
proof -
  assume "xs \<noteq> []"
  then obtain s where s: "s \<in> set xs" by (cases xs) auto
  show ?thesis by (cases s, insert s, simp_all add: worst_def)
qed

lemma worst_Min: "xs \<noteq> [] \<Longrightarrow> worst xs = Min (set xs)"
  using worst_in worst_least by (intro Min_eqI [symmetric]) auto

lemma worst_blocked [simp]: "worst xs = BLOCKED \<longleftrightarrow> BLOCKED \<in> set xs"
  by (auto simp: worst_def)

lemma worst_mono: "\<lbrakk>set xs \<subseteq> set ys; xs \<noteq> []\<rbrakk> \<Longrightarrow> worst ys \<le> worst xs"
  using worst_in [of xs] worst_least [of _ ys] by auto

lemma base_checks_yield [simp]: "base_checks g (p\<lparr>pi_expected_yield := y\<rparr>) = base_checks g p"
  by (simp add: base_checks_def data_check_def support_check_def credit_check_def credit_code_def liquidity_check_def
      liquidity_code_def staleness_check_def eligibility_check_def concentration_check_def is_aggregate_def Let_def)

lemma check_blocked:
  "BLOCKED \<notin> set (snd (data_check p))"
  "BLOCKED \<in> set (snd (support_check p)) \<longleftrightarrow> upper (or_text (pi_support_status p) []) = ''UNSUPPORTED''"
  "BLOCKED \<in> set (snd (credit_check g p)) \<longleftrightarrow>
     pi_sleeve p = ''FIXED_INCOME'' \<and> credit_code p \<in> {''UNKNOWN'', ''NOT_RATED''} \<and> \<not> rg_allow_unknown_credit g"
  "BLOCKED \<in> set (snd (liquidity_check p)) \<longleftrightarrow> liquidity_code p = ''LOW''"
  "BLOCKED \<notin> set (snd (staleness_check p))"
  "BLOCKED \<in> set (snd (eligibility_check p)) \<longleftrightarrow> upper (or_text (pi_eligibility p) []) = ''BLOCKED''"
  "BLOCKED \<in> set (snd (concentration_check g p)) \<longleftrightarrow>
     \<not> is_aggregate p \<and> pi_target_weight p > fadd (rg_max_single_position g) (fl (1 / 10 ^ 12))"
  by (simp_all add: data_check_def support_check_def credit_check_def liquidity_check_def staleness_check_def
      eligibility_check_def concentration_check_def Let_def)

lemma check_never_approves:
  "APPROVED \<notin> set (snd (data_check p))" "APPROVED \<notin> set (snd (support_check p))" "APPROVED \<notin> set (snd (credit_check g p))"
  "APPROVED \<notin> set (snd (liquidity_check p))" "APPROVED \<notin> set (snd (staleness_check p))"
  "APPROVED \<notin> set (snd (eligibility_check p))" "APPROVED \<notin> set (snd (concentration_check g p))"
  by (simp_all add: data_check_def support_check_def credit_check_def liquidity_check_def staleness_check_def
      eligibility_check_def concentration_check_def Let_def)

lemma checks_never_approve: "APPROVED \<notin> set (concat (map snd (base_checks g p)))"
  by (simp add: base_checks_def check_never_approves)

lemma checked_status_cases:
  "checked_status g p = (let sts = concat (map snd (base_checks g p)) in
     if snd (yield_check p sts) = [] then (if sts = [] then APPROVED else worst sts)
     else worst (sts @ [GATE_RESEARCH_ONLY]))"
proof -
  let ?sts = "concat (map snd (base_checks g p))"
  have one: "worst [APPROVED] = APPROVED" using worst_in [of "[APPROVED]"] by simp
  have "snd (yield_check p ?sts) = [] \<or> snd (yield_check p ?sts) = [GATE_RESEARCH_ONLY]"
    by (simp add: yield_check_def)
  then consider "snd (yield_check p ?sts) = []" | "snd (yield_check p ?sts) = [GATE_RESEARCH_ONLY]"
    by blast
  then show ?thesis by cases (simp_all add: checked_status_def Let_def one)
qed

section \<open>Properties\<close>

text \<open>The conditions that block a position, written out.\<close>

definition must_block :: "risk_gate \<Rightarrow> position_input \<Rightarrow> bool" where
  "must_block g p \<longleftrightarrow> pi_blocked p \<or> pi_sleeve p \<noteq> ''CASH'' \<and>
     (upper (or_text (pi_support_status p) []) = ''UNSUPPORTED'' \<or>
      pi_sleeve p = ''FIXED_INCOME'' \<and> credit_code p \<in> {''UNKNOWN'', ''NOT_RATED''} \<and> \<not> rg_allow_unknown_credit g \<or>
      liquidity_code p = ''LOW'' \<or> upper (or_text (pi_eligibility p) []) = ''BLOCKED'' \<or>
      \<not> is_aggregate p \<and> pi_target_weight p > fadd (rg_max_single_position g) (fl (1 / 10 ^ 12)))"

lemma checked_blocked: "checked_status g p = BLOCKED \<longleftrightarrow> BLOCKED \<in> set (concat (map snd (base_checks g p)))"
  by (auto simp: checked_status_def yield_check_def Let_def)

lemma blocked_iff: "pv_gate_status (assess_position g p) = BLOCKED \<longleftrightarrow> must_block g p"
proof -
  have "BLOCKED \<in> set (concat (map snd (base_checks g p))) \<longleftrightarrow> must_block g p" if "\<not> pi_blocked p" "pi_sleeve p \<noteq> ''CASH''"
    using that by (simp add: base_checks_def check_blocked must_block_def)
  then show ?thesis using checked_blocked
    by (auto simp: assess_position_def verdict_of_def Let_def must_block_def)
qed

text \<open>C13: the verdict of the portfolio: it is blocked exactly if some position meets one of the blocking
  conditions, otherwise it is the least permissive verdict of a position; every position is in the
  bucket of its verdict and in no other, and a position is allowed exactly if its verdict is better
  than blocked and than insufficient data.\<close>

theorem portfolio_gate_verdict:
  assumes "ps \<noteq> []" and "a = assess_portfolio g capital ps"
  shows "(ra_status a = BLOCKED \<longleftrightarrow> (\<exists>p \<in> set ps. must_block g p)) \<and>
    ra_status a = Min (pv_gate_status ` assess_position g ` set ps) \<and>
    map pv_symbol (ra_positions a) = map pi_symbol ps \<and>
    (\<forall>s. ra_buckets a s = map pi_symbol (filter (\<lambda>p. pv_gate_status (assess_position g p) = s) ps)) \<and>
    (\<forall>v \<in> set (ra_positions a). pv_allowed v \<longleftrightarrow> INSUFFICIENT_DATA < pv_gate_status v)"
proof -
  have a: "ra_status a = worst (map (pv_gate_status \<circ> assess_position g) ps)" "ra_positions a = map (assess_position g) ps"
    using assms by (simp_all add: assess_portfolio_def Let_def)
  have sym: "pv_symbol (assess_position g p) = pi_symbol p" for p
    by (simp add: assess_position_def verdict_of_def Let_def)
  have allowed: "pv_allowed (assess_position g p) \<longleftrightarrow> INSUFFICIENT_DATA < pv_gate_status (assess_position g p)" for p
    by (cases "checked_status g p") (simp_all add: assess_position_def verdict_of_def Let_def allowed_status_def gate_order)
  have "ra_buckets a s = map pi_symbol (filter (\<lambda>p. pv_gate_status (assess_position g p) = s) ps)" for s
    using assms by (simp add: assess_portfolio_def Let_def filter_map o_def sym)
  moreover have "ra_status a = BLOCKED \<longleftrightarrow> (\<exists>p \<in> set ps. must_block g p)"
    unfolding blocked_iff [symmetric] a worst_blocked by force
  moreover have "ra_status a = Min (pv_gate_status ` assess_position g ` set ps)"
    using assms(1) unfolding a by (simp add: worst_Min image_comp o_def)
  moreover have "map pv_symbol (ra_positions a) = map pi_symbol ps"
    "\<forall>v \<in> set (ra_positions a). pv_allowed v \<longleftrightarrow> INSUFFICIENT_DATA < pv_gate_status v"
    by (simp_all add: a(2) sym allowed)
  ultimately show ?thesis by blast
qed

text \<open>C20: yield alone never approves: an expected yield never improves a verdict, and a yield of at least 15
  percent with unknown credit or with unknown or low liquidity keeps the verdict at research only or
  worse.\<close>

theorem yield_never_improves:
  "pv_gate_status (assess_position g (p\<lparr>pi_expected_yield := Some y\<rparr>)) \<le> pv_gate_status (assess_position g (p\<lparr>pi_expected_yield := None\<rparr>)) \<and>
   (fl (15/100) \<le> y \<and> (credit_code p \<in> {''UNKNOWN'', ''NOT_RATED''} \<or> liquidity_code p \<in> {''LOW'', ''UNKNOWN''}) \<and> pi_sleeve p \<noteq> ''CASH''
     \<longrightarrow> pv_gate_status (assess_position g (p\<lparr>pi_expected_yield := Some y\<rparr>)) \<le> GATE_RESEARCH_ONLY)"
proof -
  let ?y = "p\<lparr>pi_expected_yield := Some y\<rparr>" and ?n = "p\<lparr>pi_expected_yield := None\<rparr>"
  let ?sts = "concat (map snd (base_checks g p))"
  have n: "checked_status g ?n = (if ?sts = [] then APPROVED else worst ?sts)"
    by (simp add: checked_status_cases yield_check_def del: concat_eq_Nil_conv)
  have le: "checked_status g ?y \<le> checked_status g ?n"
  proof (cases "?sts = []")
    case True
    then show ?thesis unfolding n by (cases "checked_status g ?y") (simp_all add: gate_order)
  next
    case False
    have "worst (?sts @ [GATE_RESEARCH_ONLY]) \<le> worst ?sts" by (rule worst_mono) (use False in auto)
    then show ?thesis unfolding n using False by (simp add: checked_status_cases Let_def del: concat_eq_Nil_conv)
  qed
  have "checked_status g ?y \<le> GATE_RESEARCH_ONLY"
    if "fl (15/100) \<le> y" "credit_code p \<in> {''UNKNOWN'', ''NOT_RATED''} \<or> liquidity_code p \<in> {''LOW'', ''UNKNOWN''}"
  proof -
    have "snd (yield_check ?y ?sts) = [GATE_RESEARCH_ONLY]"
      using that checks_never_approve [of g p] by (auto simp: yield_check_def credit_code_def liquidity_code_def)
    then have "checked_status g ?y = worst (?sts @ [GATE_RESEARCH_ONLY])" by (simp add: checked_status_cases Let_def)
    then show ?thesis using worst_least [of GATE_RESEARCH_ONLY "?sts @ [GATE_RESEARCH_ONLY]"] by simp
  qed
  then show ?thesis using le by (auto simp: assess_position_def verdict_of_def Let_def gate_order)
qed

definition risky_bond :: "string option \<Rightarrow> position_input" where
  "risky_bond credit = \<lparr>pi_symbol = ''RU000A'', pi_sleeve = ''FIXED_INCOME'', pi_target_weight = fl (1/10),
     pi_credit_status = credit, pi_liquidity_status = Some ''GOOD'', pi_data_quality = Some ''READY'',
     pi_support_status = Some ''SUPPORTED'', pi_eligibility = Some ''REAL_PORTFOLIO_CANDIDATE'', pi_days_since_trade = Some 1,
     pi_expected_yield = Some (fl (25/100)), pi_risk_flags = [], pi_blocked = False\<rparr>"

theorem portfolio_gate_verdict_witness:
  "ra_status (assess_portfolio (default_gate (fl (15/100)) False) 100000 [risky_bond (Some ''UNKNOWN'')]) = BLOCKED"
proof -
  have "must_block (default_gate (fl (15/100)) False) (risky_bond (Some ''UNKNOWN''))" by code_simp
  then show ?thesis using portfolio_gate_verdict [OF _ refl, of "[risky_bond (Some ''UNKNOWN'')]", THEN conjunct1] by simp
qed

theorem yield_never_improves_witness:
  "pv_gate_status (assess_position (default_gate (fl (15/100)) True) (risky_bond (Some ''UNKNOWN''))) \<le> GATE_RESEARCH_ONLY"
proof -
  have "fl (15/100) \<le> fl (25/100)" by (rule fl_mono) simp
  moreover have "credit_code (risky_bond (Some ''UNKNOWN'')) = ''UNKNOWN''" by code_simp
  ultimately show ?thesis
    using yield_never_improves [of "default_gate (fl (15/100)) True" "fl (25/100)" "risky_bond (Some ''UNKNOWN'')"]
    by (auto simp: risky_bond_def)
qed

text \<open>The gate compares credit codes only with the statuses of the first version. The codes that the credit
  assessment now produces for an unrated corporate bond, SOURCE_NOT_READY and NO_RATING_FOUND, pass every
  check, also in a gate that forbids unknown credit.\<close>

theorem unrated_codes_pass:
  "map (\<lambda>c. pv_gate_status (assess_position (default_gate (fl (15/100)) False) (risky_bond (Some c))))
     [''UNKNOWN'', ''SOURCE_NOT_READY'', ''NO_RATING_FOUND'', ''MAPPING_FAILED''] = [BLOCKED, APPROVED, APPROVED, APPROVED]"
  by code_simp

end
