(* ===== verification/Cashflows.thy ===== *)
theory Cashflows
  imports Credit "HOL-Library.Multiset"
begin

text \<open>
  Bond cashflows: currency codes (\<open>investment/domain/currency.py\<close>), the parsed schedule and the strict
  support classification (\<open>cashflows.py\<close>), the timeline of a holding and its horizon totals
  (\<open>cashflow_timeline.py\<close>) and the ladder of a portfolio (\<open>portfolio_cashflow_service.py\<close>). Exchange rows
  are maps from column names to texts; Russian display texts are not modelled.
\<close>

section \<open>Currencies\<close>

datatype currency_field = FACEUNIT | CURRENCYID | SEC_CURRENCY | OTHER_FIELD

record currency_resolution =
  cr_canonical :: string
  cr_raw_value :: "string option"
  cr_source_field :: currency_field
  cr_role :: string

fun role_for :: "currency_field \<Rightarrow> string" where
  "role_for FACEUNIT = ''nominal''"
| "role_for CURRENCYID = ''settlement_or_quotation''"
| "role_for _ = ''unknown''"

definition resolution :: "currency_field \<Rightarrow> string \<Rightarrow> string option \<Rightarrow> currency_resolution" where
  "resolution field canonical raw = \<lparr>cr_canonical = canonical, cr_raw_value = raw, cr_source_field = field, cr_role = role_for field\<rparr>"

definition normalize_moex_currency_token :: "string option \<Rightarrow> currency_field \<Rightarrow> currency_resolution" where
  "normalize_moex_currency_token raw field = (case raw of
     None \<Rightarrow> resolution field ''UNKNOWN'' None
   | Some s \<Rightarrow>
      if strip s = [] then resolution field ''UNKNOWN'' (Some s) else
      let t = upper (strip s) in
      if field \<in> {FACEUNIT, CURRENCYID} \<and> t \<in> {''SUR'', ''RUR'', ''RUB''} then resolution field ''RUB'' (Some (strip s))
      else if t \<in> {''USD'', ''CNY'', ''EUR'', ''GBP'', ''CHF'', ''JPY'', ''HKD'', ''TRY'', ''AED'', ''KZT''}
      then resolution field t (Some (strip s))
      else resolution field ''UNKNOWN'' (Some (strip s)))"

definition resolve_nominal_currency :: "string option \<Rightarrow> string option \<Rightarrow> currency_resolution" where
  "resolve_nominal_currency face_unit currency_id =
     (if opt_sat (\<lambda>s. strip s \<noteq> []) face_unit then normalize_moex_currency_token face_unit FACEUNIT
      else resolution FACEUNIT ''UNKNOWN'' None)"

definition resolve_bond_currencies ::
  "string option \<Rightarrow> string option \<Rightarrow> string option \<Rightarrow> currency_resolution \<times> currency_resolution \<times> currency_resolution" where
  "resolve_bond_currencies face_unit currency_id sec =
     (normalize_moex_currency_token face_unit FACEUNIT, normalize_moex_currency_token currency_id CURRENCYID,
      normalize_moex_currency_token sec SEC_CURRENCY)"

section \<open>Schedules\<close>

text \<open>\<open>Decimal(str(value))\<close> for finite numerals; the special values are read as absent.\<close>

definition is_digit :: "char \<Rightarrow> bool" where "is_digit c \<longleftrightarrow> digit c \<noteq> None"

definition take_sign :: "string \<Rightarrow> rat \<times> string" where
  "take_sign s = (if take 1 s = ''-'' then (- 1, drop 1 s) else if take 1 s = ''+'' then (1, drop 1 s) else (1, s))"

definition read_exponent :: "string \<Rightarrow> int option" where
  "read_exponent s = (if s = [] then Some 0
     else if upper (take 1 s) = ''E'' then (case take_sign (drop 1 s) of (sg, t) \<Rightarrow> map_option (\<lambda>n. \<lfloor>sg\<rfloor> * n) (read_num t))
     else None)"

definition parse_decimal :: "string \<Rightarrow> decimal option" where
  "parse_decimal text =
     (let (sg, s) = take_sign (filter (\<lambda>c. c \<noteq> CHR ''_'') (strip text));
          ip = takeWhile is_digit s; r = dropWhile is_digit s;
          fp = (if take 1 r = ''.'' then takeWhile is_digit (drop 1 r) else []);
          rest = (if take 1 r = ''.'' then dropWhile is_digit (drop 1 r) else r)
      in case (read_num (ip @ fp), read_exponent rest) of
           (Some n, Some e) \<Rightarrow> Some (sg * of_int n * 10 powi (e - int (length fp)))
         | _ \<Rightarrow> None)"

definition dec_cell :: "string option \<Rightarrow> decimal option" where
  "dec_cell v = (if v = None \<or> v = Some [] then None else parse_decimal (the v))"

definition date_cell :: "string option \<Rightarrow> date option" where
  "date_cell v = (if v \<in> {None, Some [], Some ''0000-00-00''} then None else from_isoformat (take 10 (the v)))"

record schedule_coupon =
  sc_date :: date
  sc_amount :: "decimal option"
  sc_rate_percent :: "decimal option"
  sc_face_value :: "decimal option"
  sc_currency :: "string option"

record schedule_amortization =
  sa_date :: date
  sa_amount :: "decimal option"
  sa_value_percent :: "decimal option"
  sa_face_value :: "decimal option"
  sa_data_source :: "string option"
  sa_currency :: "string option"

record schedule_offer =
  so_date :: date
  so_price :: "decimal option"
  so_type :: "string option"

record schedule =
  se_coupons :: "schedule_coupon list"
  se_amortizations :: "schedule_amortization list"
  se_offers :: "schedule_offer list"

type_synonym moex_row = "string \<rightharpoonup> string"

definition non_blank :: "string option \<Rightarrow> string option" where
  "non_blank v = (if v = Some [] then None else v)"

definition parse_coupon :: "moex_row \<Rightarrow> schedule_coupon option" where
  "parse_coupon row = map_option (\<lambda>d. \<lparr>sc_date = d, sc_amount = dec_cell (row ''value''),
       sc_rate_percent = dec_cell (row ''valueprc''), sc_face_value = dec_cell (row ''facevalue''),
       sc_currency = map_option (\<lambda>u. let c = cr_canonical (resolve_nominal_currency (Some u) None)
         in if c = ''UNKNOWN'' then upper u else c) (non_blank (row ''faceunit''))\<rparr>) (date_cell (row ''coupondate''))"

definition parse_amortization :: "moex_row \<Rightarrow> schedule_amortization option" where
  "parse_amortization row = map_option (\<lambda>d. \<lparr>sa_date = d, sa_amount = dec_cell (row ''value''),
       sa_value_percent = dec_cell (row ''valueprc''), sa_face_value = dec_cell (row ''facevalue''),
       sa_data_source = non_blank (row ''data_source''),
       sa_currency = map_option (\<lambda>u. cr_canonical (resolve_nominal_currency (Some u) None)) (non_blank (row ''faceunit''))\<rparr>)
     (date_cell (row ''amortdate''))"

definition parse_offer :: "moex_row \<Rightarrow> schedule_offer option" where
  "parse_offer row = map_option (\<lambda>d. \<lparr>so_date = d, so_price = dec_cell (row ''price''), so_type = non_blank (row ''offertype'')\<rparr>)
     (date_cell (row ''offerdate''))"

definition parse_bondization_schedule :: "moex_row list \<Rightarrow> moex_row list \<Rightarrow> moex_row list \<Rightarrow> schedule" where
  "parse_bondization_schedule coupons amortizations offers =
     \<lparr>se_coupons = sort_key sc_date (List.map_filter parse_coupon coupons),
      se_amortizations = sort_key sa_date (List.map_filter parse_amortization amortizations),
      se_offers = sort_key so_date (List.map_filter parse_offer offers)\<rparr>"

definition remaining_coupons :: "schedule \<Rightarrow> date \<Rightarrow> schedule_coupon list" where
  "remaining_coupons s as_of = filter (\<lambda>c. as_of \<le> sc_date c) (se_coupons s)"

definition future_offers :: "schedule \<Rightarrow> date \<Rightarrow> schedule_offer list" where
  "future_offers s as_of = filter (\<lambda>x. as_of \<le> so_date x) (se_offers s)"

definition one_value :: "'a list \<Rightarrow> bool" where
  "one_value xs \<longleftrightarrow> length (remdups xs) = 1"

definition coupon_structure_fixed :: "schedule \<Rightarrow> date option \<Rightarrow> bool" where
  "coupon_structure_fixed s as_of =
     (let coupons = (case as_of of None \<Rightarrow> se_coupons s | Some d \<Rightarrow> remaining_coupons s d);
          rates = List.map_filter sc_rate_percent coupons; amounts = List.map_filter sc_amount coupons
      in if rates = [] \<and> amounts = [] then False else if rates \<noteq> [] then one_value rates else one_value amounts)"

definition is_maturity_row :: "schedule_amortization \<Rightarrow> bool" where
  "is_maturity_row a \<longleftrightarrow> lower (or_text (sa_data_source a) []) = ''maturity''"

definition has_complex_amortization :: "schedule \<Rightarrow> bool" where
  "has_complex_amortization s =
     (filter (\<lambda>a. \<not> is_maturity_row a) (se_amortizations s) \<noteq> [] \<or> 1 < length (se_amortizations s))"

record bond_facts =
  bf_face_unit :: "string option"
  bf_currency_id :: "string option"
  bf_nominal :: "pyfloat option"
  bf_lot_size :: "int option"
  bf_maturity :: "date option"
  bf_schedule :: "schedule option"
  bf_market_price :: "pyfloat option"
  bf_perpetual :: bool

definition missing_facts :: "bond_facts \<Rightarrow> string list" where
  "missing_facts f =
     (if bf_nominal f = None then [''missing_nominal''] else []) @
     (if \<not> opt_sat (\<lambda>n. 0 < n) (bf_lot_size f) then [''missing_lot_size''] else []) @
     (if bf_maturity f = None then [''missing_maturity''] else []) @
     (if bf_market_price f = None then [''missing_market_price''] else [])"

definition maturity_rows :: "bond_facts \<Rightarrow> schedule \<Rightarrow> schedule_amortization list" where
  "maturity_rows f s = filter (\<lambda>a. is_maturity_row a \<or> Some (sa_date a) = bf_maturity f) (se_amortizations s)"

definition schedule_reasons :: "bond_facts \<Rightarrow> schedule \<Rightarrow> date \<Rightarrow> string list" where
  "schedule_reasons f s as_of =
     (let remaining = remaining_coupons s as_of; redemption = maturity_rows f s in
     (if remaining = [] then [''no_remaining_coupons'']
      else if \<exists>c \<in> set remaining. sc_amount c = None then [''unfixed_future_coupon_amount''] else []) @
     (if \<not> coupon_structure_fixed s (Some as_of) then [''coupon_structure_not_fixed''] else []) @
     (if has_complex_amortization s then [''complex_amortization''] else []) @
     (if future_offers s as_of \<noteq> [] then [''offer_requires_policy''] else []) @
     (if redemption = [] then (if bf_maturity f \<noteq> None then [''missing_redemption_cashflow''] else [])
      else if \<exists>a \<in> set redemption. sa_amount a = None then [''missing_redemption_amount''] else []))"

definition classify_bond_support_v1 :: "bond_facts \<Rightarrow> date \<Rightarrow> bond_support_status \<times> string list" where
  "classify_bond_support_v1 f as_of =
     (if cr_canonical (resolve_nominal_currency (bf_face_unit f) (bf_currency_id f)) \<noteq> ''RUB''
      then (UNSUPPORTED, [''currency_not_rub''])
      else if bf_perpetual f then (UNSUPPORTED, [''perpetual_or_structured''])
      else (case bf_schedule f of
         None \<Rightarrow> (RESEARCH_ONLY, missing_facts f @ [''missing_coupon_schedule''])
       | Some s \<Rightarrow>
          if se_coupons s = [] then (RESEARCH_ONLY, missing_facts f @ [''missing_coupon_schedule''])
          else let reasons = missing_facts f @ schedule_reasons f s as_of
            in if reasons \<noteq> [] then (RESEARCH_ONLY, reasons) else (SUPPORTED, [])))"

section \<open>Timelines\<close>

datatype event_type = BOND_COUPON | BOND_AMORTIZATION | BOND_REDEMPTION | OFFER

fun event_value :: "event_type \<Rightarrow> string" where
  "event_value BOND_COUPON = ''BOND_COUPON''"
| "event_value BOND_AMORTIZATION = ''BOND_AMORTIZATION''"
| "event_value BOND_REDEMPTION = ''BOND_REDEMPTION''"
| "event_value OFFER = ''OFFER''"

record stored_cashflow =
  st_date :: date
  st_type :: string
  st_amount :: "decimal option"
  st_currency :: "string option"

record cashflow_event =
  ce_instrument_id :: int
  ce_symbol :: string
  ce_date :: date
  ce_type :: event_type
  ce_per_unit :: "decimal option"
  ce_units :: decimal
  ce_gross :: "decimal option"
  ce_currency :: "string option"
  ce_informational :: bool

definition map_stored_cashflow_type :: "string \<Rightarrow> event_type option" where
  "map_stored_cashflow_type s = (let raw = upper s in
     if raw = ''COUPON'' then Some BOND_COUPON else if raw = ''AMORTIZATION'' then Some BOND_AMORTIZATION
     else if raw = ''REDEMPTION'' then Some BOND_REDEMPTION else if raw = ''OFFER'' then Some OFFER else None)"

definition dedupe_day :: "stored_cashflow list \<Rightarrow> (stored_cashflow \<times> event_type) list" where
  "dedupe_day items =
     (let types = set (map (\<lambda>r. upper (st_type r)) items);
          drop_amort = (''REDEMPTION'' \<in> types \<and> ''AMORTIZATION'' \<in> types)
      in List.map_filter (\<lambda>r. case map_stored_cashflow_type (st_type r) of
           None \<Rightarrow> None | Some t \<Rightarrow> if drop_amort \<and> t = BOND_AMORTIZATION then None else Some (r, t)) items)"

definition dedupe_redemption_amort :: "stored_cashflow list \<Rightarrow> (stored_cashflow \<times> event_type) list" where
  "dedupe_redemption_amort rows =
     concat (map (\<lambda>d. dedupe_day (filter (\<lambda>r. st_date r = d) rows)) (sort (remdups (map st_date rows))))"

definition timeline_event :: "int \<Rightarrow> string \<Rightarrow> decimal \<Rightarrow> stored_cashflow \<times> event_type \<Rightarrow> cashflow_event" where
  "timeline_event iid symbol units = (\<lambda>(r, t). \<lparr>ce_instrument_id = iid, ce_symbol = symbol, ce_date = st_date r, ce_type = t,
     ce_per_unit = st_amount r, ce_units = units,
     ce_gross = (if t = OFFER then None else map_option (\<lambda>a. dmul a units) (st_amount r)),
     ce_currency = st_currency r, ce_informational = (t = OFFER)\<rparr>)"

definition build_instrument_timeline :: "int \<Rightarrow> string \<Rightarrow> decimal \<Rightarrow> stored_cashflow list \<Rightarrow> date \<Rightarrow> cashflow_event list" where
  "build_instrument_timeline iid symbol units rows as_of =
     map (timeline_event iid symbol units) (filter (\<lambda>(r, t). as_of \<le> st_date r) (dedupe_redemption_amort rows))"

record horizon_totals =
  ht_days :: int
  ht_gross :: decimal
  ht_coupon :: decimal
  ht_amortization :: decimal
  ht_redemption :: decimal
  ht_count :: int

definition counted :: "date \<Rightarrow> date \<Rightarrow> cashflow_event \<Rightarrow> bool" where
  "counted as_of end_date ev \<longleftrightarrow> \<not> ce_informational ev \<and> ce_gross ev \<noteq> None \<and> as_of < ce_date ev \<and> ce_date ev \<le> end_date"

definition type_total :: "event_type \<Rightarrow> cashflow_event list \<Rightarrow> decimal" where
  "type_total t evs = foldl dadd 0 (map (the \<circ> ce_gross) (filter (\<lambda>e. ce_type e = t) evs))"

definition sum_horizon :: "cashflow_event list \<Rightarrow> date \<Rightarrow> int \<Rightarrow> horizon_totals res" where
  "sum_horizon events as_of days = bnd (add_days as_of days) (\<lambda>end_date.
     let evs = filter (counted as_of end_date) events;
         coupon = type_total BOND_COUPON evs; amort = type_total BOND_AMORTIZATION evs; redemption = type_total BOND_REDEMPTION evs
     in Inr \<lparr>ht_days = days, ht_gross = dadd (dadd coupon amort) redemption, ht_coupon = coupon, ht_amortization = amort,
             ht_redemption = redemption, ht_count = int (length evs)\<rparr>)"

record projection =
  pj_30d :: horizon_totals
  pj_90d :: horizon_totals
  pj_12m :: horizon_totals
  pj_next :: "cashflow_event option"
  pj_events :: "cashflow_event list"

definition next_payment :: "cashflow_event list \<Rightarrow> date \<Rightarrow> cashflow_event option" where
  "next_payment events as_of = List.find (\<lambda>e. \<not> ce_informational e \<and> ce_gross e \<noteq> None \<and> as_of \<le> ce_date e)
     (sort_key (\<lambda>e. (ce_date e, event_value (ce_type e))) events)"

definition project_portfolio_cashflows :: "cashflow_event list \<Rightarrow> date \<Rightarrow> projection res" where
  "project_portfolio_cashflows events as_of =
     bnd (sum_horizon events as_of 30) (\<lambda>h30. bnd (sum_horizon events as_of 90) (\<lambda>h90. bnd (sum_horizon events as_of 365) (\<lambda>h12.
       Inr \<lparr>pj_30d = h30, pj_90d = h90, pj_12m = h12, pj_next = next_payment events as_of,
            pj_events = sort_key (\<lambda>e. (ce_date e, ce_symbol e)) events\<rparr>)))"

text \<open>The maturity ladder and the two counters of \<open>build_manual_portfolio_cashflows\<close>.\<close>

definition ladder_bucket :: "date \<Rightarrow> date option \<Rightarrow> string" where
  "ladder_bucket as_of maturity = (case maturity of None \<Rightarrow> ''unknown'' | Some d \<Rightarrow>
     let days = days_between as_of d in
     if days < 365 then ''<1y'' else if days < 365 * 3 then ''1-3y'' else if days < 365 * 5 then ''3-5y'' else ''5y+'')"

definition gov_vs_corp :: "string option list \<Rightarrow> int \<times> int" where
  "gov_vs_corp types = (int (length (filter (\<lambda>t. t = Some ''GOVERNMENT'') types)),
     int (length (filter (\<lambda>t. t \<noteq> Some ''GOVERNMENT'' \<and> or_text t [] \<noteq> []) types)))"

fun bond_type_value :: "bond_type \<Rightarrow> string" where
  "bond_type_value GOVERNMENT = ''Government''"
| "bond_type_value CORPORATE = ''Corporate''"
| "bond_type_value MUNICIPAL = ''Municipal''"

section \<open>Support\<close>

text \<open>What a supported bond has, written without the reason codes.\<close>

definition fixed_coupons :: "schedule_coupon list \<Rightarrow> bool" where
  "fixed_coupons cs \<longleftrightarrow> (\<forall>c \<in> set cs. sc_amount c \<noteq> None) \<and>
     ((\<exists>r. sc_rate_percent ` set cs - {None} = {Some r}) \<or>
      sc_rate_percent ` set cs \<subseteq> {None} \<and> (\<exists>a. sc_amount ` set cs = {Some a}))"

definition fully_observed :: "bond_facts \<Rightarrow> date \<Rightarrow> bool" where
  "fully_observed f as_of \<longleftrightarrow>
     opt_sat (\<lambda>u. upper (strip u) \<in> {''SUR'', ''RUR'', ''RUB''}) (bf_face_unit f) \<and> \<not> bf_perpetual f \<and>
     bf_nominal f \<noteq> None \<and> opt_sat (\<lambda>n. 0 < n) (bf_lot_size f) \<and> bf_market_price f \<noteq> None \<and> bf_maturity f \<noteq> None \<and>
     (\<exists>s redemption. bf_schedule f = Some s \<and> remaining_coupons s as_of \<noteq> [] \<and> fixed_coupons (remaining_coupons s as_of) \<and>
        (\<forall>x \<in> set (se_offers s). so_date x < as_of) \<and>
        se_amortizations s = [redemption] \<and> is_maturity_row redemption \<and> sa_amount redemption \<noteq> None)"

lemma one_value_iff: "one_value xs \<longleftrightarrow> (\<exists>x. set xs = {x})"
  by (auto simp: one_value_def length_remdups_card_conv card_1_singleton_iff)

lemma one_filtered: "one_value (List.map_filter f xs) \<longleftrightarrow> (\<exists>r. f ` set xs - {None} = {Some r})"
proof -
  let ?B = "{y. Some y \<in> f ` set xs}"
  have "f ` set xs - {None} = Some ` ?B" by (auto simp: image_iff) (metis not_None_eq)
  moreover have "Some ` ?B = {Some r} \<longleftrightarrow> ?B = {r}" for r
    using inj_image_eq_iff [of Some ?B "{r}"] by simp
  ultimately show ?thesis by (simp only: one_value_iff set_map_filter)
qed

lemma structure_fixed_iff:
  assumes "\<forall>c \<in> set (remaining_coupons s d). sc_amount c \<noteq> None" "remaining_coupons s d \<noteq> []"
  shows "coupon_structure_fixed s (Some d) \<longleftrightarrow> fixed_coupons (remaining_coupons s d)"
proof -
  let ?cs = "remaining_coupons s d"
  have a: "sc_amount ` set ?cs - {None} = sc_amount ` set ?cs" using assms(1) by auto
  have "List.map_filter sc_amount ?cs \<noteq> []" unfolding map_filter_empty using assms by (cases ?cs) auto
  moreover have "\<not> sc_rate_percent ` set ?cs \<subseteq> {None}" if "sc_rate_percent ` set ?cs - {None} = {Some r}" for r
    using that by auto
  ultimately show ?thesis
    using assms(1) unfolding coupon_structure_fixed_def Let_def option.case fixed_coupons_def one_filtered map_filter_empty a
    by (auto simp: one_filtered a map_filter_empty)
qed

lemma ruble_iff:
  "cr_canonical (resolve_nominal_currency fu ci) = ''RUB'' \<longleftrightarrow> opt_sat (\<lambda>u. upper (strip u) \<in> {''SUR'', ''RUR'', ''RUB''}) fu"
  by (cases fu) (auto simp: resolve_nominal_currency_def normalize_moex_currency_token_def resolution_def Let_def upper_def)

lemma redemption_iff:
  assumes "bf_maturity f \<noteq> None"
  shows "\<not> has_complex_amortization s \<and> maturity_rows f s \<noteq> [] \<and> (\<forall>a \<in> set (maturity_rows f s). sa_amount a \<noteq> None) \<longleftrightarrow>
    (\<exists>r. se_amortizations s = [r] \<and> is_maturity_row r \<and> sa_amount r \<noteq> None)"
proof
  assume l: "\<not> has_complex_amortization s \<and> maturity_rows f s \<noteq> [] \<and> (\<forall>a \<in> set (maturity_rows f s). sa_amount a \<noteq> None)"
  then have m: "\<forall>a \<in> set (se_amortizations s). is_maturity_row a" and len: "length (se_amortizations s) \<le> 1"
    and ne: "se_amortizations s \<noteq> []"
    by (auto simp: has_complex_amortization_def filter_empty_conv not_less maturity_rows_def)
  obtain r where r: "se_amortizations s = [r]" using len ne by (cases "se_amortizations s") auto
  then show "\<exists>r. se_amortizations s = [r] \<and> is_maturity_row r \<and> sa_amount r \<noteq> None"
    using m l by (simp add: maturity_rows_def)
next
  assume "\<exists>r. se_amortizations s = [r] \<and> is_maturity_row r \<and> sa_amount r \<noteq> None"
  then show "\<not> has_complex_amortization s \<and> maturity_rows f s \<noteq> [] \<and> (\<forall>a \<in> set (maturity_rows f s). sa_amount a \<noteq> None)"
    by (auto simp: has_complex_amortization_def maturity_rows_def)
qed

text \<open>C16: a bond is classified SUPPORTED exactly if everything its cashflows need was observed: rouble face
  value, nominal, lot, price and maturity, at least one coupon to come and every coming coupon with an
  amount, one rate (or, without rates, one amount), no offer to come, and a single amortization row, the
  redemption at maturity, with its amount. Then, and only then, there is no reason code.\<close>

theorem supported_iff_observed:
  "(fst (classify_bond_support_v1 f as_of) = SUPPORTED \<longleftrightarrow> fully_observed f as_of) \<and>
   (snd (classify_bond_support_v1 f as_of) = [] \<longleftrightarrow> fully_observed f as_of)"
proof -
  let ?c = "classify_bond_support_v1 f as_of"
  have same: "snd ?c = [] \<longleftrightarrow> fst ?c = SUPPORTED"
    by (auto simp: classify_bond_support_v1_def Let_def split: option.splits)
  have fst: "fst ?c = SUPPORTED \<longleftrightarrow> cr_canonical (resolve_nominal_currency (bf_face_unit f) (bf_currency_id f)) = ''RUB'' \<and>
      \<not> bf_perpetual f \<and> (\<exists>s. bf_schedule f = Some s \<and> se_coupons s \<noteq> [] \<and> missing_facts f = [] \<and> schedule_reasons f s as_of = [])"
    by (auto simp: classify_bond_support_v1_def Let_def split: option.splits)
  have facts: "missing_facts f = [] \<longleftrightarrow> bf_nominal f \<noteq> None \<and> opt_sat (\<lambda>n. 0 < n) (bf_lot_size f) \<and> bf_market_price f \<noteq> None \<and> bf_maturity f \<noteq> None"
    by (auto simp: missing_facts_def)
  have sched: "se_coupons s \<noteq> [] \<and> schedule_reasons f s as_of = [] \<longleftrightarrow>
      remaining_coupons s as_of \<noteq> [] \<and> fixed_coupons (remaining_coupons s as_of) \<and> (\<forall>x \<in> set (se_offers s). so_date x < as_of) \<and>
      (\<exists>r. se_amortizations s = [r] \<and> is_maturity_row r \<and> sa_amount r \<noteq> None)" if "bf_maturity f \<noteq> None" for s
  proof -
    have offers: "future_offers s as_of = [] \<longleftrightarrow> (\<forall>x \<in> set (se_offers s). so_date x < as_of)"
      by (simp add: future_offers_def filter_empty_conv not_le)
    have coupons: "remaining_coupons s as_of \<noteq> [] \<Longrightarrow> se_coupons s \<noteq> []" by (auto simp: remaining_coupons_def)
    have fixed: "fixed_coupons (remaining_coupons s as_of) \<Longrightarrow> \<forall>c \<in> set (remaining_coupons s as_of). sc_amount c \<noteq> None"
      by (simp add: fixed_coupons_def)
    have "schedule_reasons f s as_of = [] \<longleftrightarrow> remaining_coupons s as_of \<noteq> [] \<and>
        (\<forall>c \<in> set (remaining_coupons s as_of). sc_amount c \<noteq> None) \<and> coupon_structure_fixed s (Some as_of) \<and>
        future_offers s as_of = [] \<and> (\<not> has_complex_amortization s \<and> maturity_rows f s \<noteq> [] \<and>
        (\<forall>a \<in> set (maturity_rows f s). sa_amount a \<noteq> None))"
      using that by (auto simp: schedule_reasons_def Let_def)
    then show ?thesis unfolding redemption_iff [OF that] offers
      using structure_fixed_iff coupons fixed by blast
  qed
  have "fst ?c = SUPPORTED \<longleftrightarrow> fully_observed f as_of"
    unfolding fst facts ruble_iff fully_observed_def using sched by blast
  then show ?thesis using same by simp
qed

section \<open>Timelines without double counting\<close>

definition stays :: "stored_cashflow list \<Rightarrow> stored_cashflow \<Rightarrow> (stored_cashflow \<times> event_type) option" where
  "stays rows r = (case map_stored_cashflow_type (st_type r) of None \<Rightarrow> None
     | Some t \<Rightarrow> if t = BOND_AMORTIZATION \<and> (\<exists>r' \<in> set rows. st_date r' = st_date r \<and> upper (st_type r') = ''REDEMPTION'')
         then None else Some (r, t))"

lemma amortization_type: "map_stored_cashflow_type s = Some BOND_AMORTIZATION \<longleftrightarrow> upper s = ''AMORTIZATION''"
  and redemption_type: "map_stored_cashflow_type s = Some BOND_REDEMPTION \<longleftrightarrow> upper s = ''REDEMPTION''"
  by (auto simp: map_stored_cashflow_type_def Let_def)

lemma dedupe_day_stays: "dedupe_day (filter (\<lambda>r. st_date r = d) rows) = List.map_filter (stays rows) (filter (\<lambda>r. st_date r = d) rows)"
  unfolding dedupe_day_def Let_def
  by (rule map_filter_cong) (force simp: stays_def amortization_type split: option.split)

lemma mset_by_key:
  "\<lbrakk>distinct ds; set (map k xs) \<subseteq> set ds\<rbrakk> \<Longrightarrow> mset (concat (map (\<lambda>d. filter (\<lambda>x. k x = d) xs) ds)) = mset xs"
proof (induction ds arbitrary: xs)
  case (Cons d ds)
  let ?ys = "filter (\<lambda>x. k x \<noteq> d) xs"
  have "filter (\<lambda>x. k x = e) xs = filter (\<lambda>x. k x = e) ?ys" if "e \<in> set ds" for e
    using that Cons.prems(1) by (auto intro: filter_cong)
  then have "concat (map (\<lambda>e. filter (\<lambda>x. k x = e) xs) ds) = concat (map (\<lambda>e. filter (\<lambda>x. k x = e) ?ys) ds)"
    by (metis (mono_tags, lifting) map_eq_conv)
  moreover have "mset (concat (map (\<lambda>e. filter (\<lambda>x. k x = e) ?ys) ds)) = mset ?ys"
    using Cons.prems by (intro Cons.IH) auto
  ultimately show ?case by simp
qed simp

lemma map_filter_concat: "concat (map (\<lambda>d. List.map_filter f (g d)) ds) = List.map_filter f (concat (map g ds))"
  by (induction ds) (simp_all add: List.map_filter_def)

lemma mset_map_filter_cong: "mset xs = mset ys \<Longrightarrow> mset (List.map_filter f xs) = mset (List.map_filter f ys)"
  by (simp add: List.map_filter_def mset_filter)

lemma dedupe_mset: "mset (dedupe_redemption_amort rows) = mset (List.map_filter (stays rows) rows)"
proof -
  have "dedupe_redemption_amort rows =
      List.map_filter (stays rows) (concat (map (\<lambda>d. filter (\<lambda>r. st_date r = d) rows) (sort (remdups (map st_date rows)))))"
    by (simp add: dedupe_redemption_amort_def dedupe_day_stays map_filter_concat)
  then show ?thesis by (simp only:) (intro mset_map_filter_cong mset_by_key; simp)
qed

lemma sorted_concat_key:
  "\<lbrakk>sorted ds; \<And>d x. d \<in> set ds \<Longrightarrow> x \<in> set (g d) \<Longrightarrow> k x = d\<rbrakk> \<Longrightarrow> sorted (map k (concat (map g ds)))"
  by (induction ds) (auto simp: sorted_append sorted_wrt_map intro!: sorted_wrt_mono_rel [OF _ sorted_wrt_true], fastforce+)

lemma dedupe_set: "set (dedupe_redemption_amort rows) = {y. Some y \<in> stays rows ` set rows}"
  unfolding set_mset_mset [symmetric] dedupe_mset by (simp add: set_map_filter)

lemma dedupe_day_date: "x \<in> set (dedupe_day (filter (\<lambda>r. st_date r = d) rows)) \<Longrightarrow> st_date (fst x) = d"
  by (auto simp: dedupe_day_stays set_map_filter stays_def split: option.splits if_splits)

lemma dedupe_sorted: "sorted (map (st_date \<circ> fst) (dedupe_redemption_amort rows))"
  unfolding dedupe_redemption_amort_def by (rule sorted_concat_key) (auto dest: dedupe_day_date)

lemma stays_same: "stays rows r = Some (r', t) \<Longrightarrow> r' = r"
  by (auto simp: stays_def split: option.splits if_splits)

lemma timeline_event_sel [simp]:
  "ce_date (timeline_event i s u (r, t)) = st_date r" "ce_type (timeline_event i s u (r, t)) = t"
  "ce_informational (timeline_event i s u (r, t)) \<longleftrightarrow> t = OFFER"
  "ce_gross (timeline_event i s u (r, t)) = (if t = OFFER then None else map_option (\<lambda>a. dmul a u) (st_amount r))"
  by (simp_all add: timeline_event_def)

text \<open>C15: the timeline of a holding is complete and counts nothing twice: its events are in date order, they
  are exactly the stored rows of a known type from the date on, except the amortizations on a day with a
  redemption, so no day has both, and offers carry no amount.\<close>

theorem timeline_exact:
  assumes "evs = build_instrument_timeline iid symbol units rows as_of"
  shows "sorted (map ce_date evs) \<and>
    mset evs = mset (map (timeline_event iid symbol units) (filter (\<lambda>(r, t). as_of \<le> st_date r) (List.map_filter (stays rows) rows))) \<and>
    (\<forall>e \<in> set evs. \<forall>e' \<in> set evs. ce_type e = BOND_REDEMPTION \<and> ce_date e' = ce_date e \<longrightarrow> ce_type e' \<noteq> BOND_AMORTIZATION) \<and>
    (\<forall>e \<in> set evs. ce_informational e \<longrightarrow> ce_gross e = None)"
proof -
  let ?keep = "\<lambda>(r, t). as_of \<le> st_date r"
  have dates: "map ce_date evs = map (st_date \<circ> fst) (filter ?keep (dedupe_redemption_amort rows))"
    by (simp add: assms build_instrument_timeline_def timeline_event_def case_prod_beta)
  have "sorted (map ce_date evs)"
    unfolding dates using dedupe_sorted [of rows] by (simp only: sorted_map sorted_wrt_filter)
  moreover have "mset evs = mset (map (timeline_event iid symbol units) (filter ?keep (List.map_filter (stays rows) rows)))"
    by (simp add: assms build_instrument_timeline_def mset_filter dedupe_mset)
  moreover have "ce_type e' \<noteq> BOND_AMORTIZATION"
    if e: "e \<in> set evs" "e' \<in> set evs" "ce_type e = BOND_REDEMPTION" "ce_date e' = ce_date e" for e e'
  proof -
    have of_row: "\<exists>r \<in> set rows. stays rows r = Some (r, ce_type x) \<and> st_date r = ce_date x" if "x \<in> set evs" for x
    proof -
      have "x \<in> timeline_event iid symbol units ` set (dedupe_redemption_amort rows)"
        using that by (auto simp: assms build_instrument_timeline_def)
      then obtain y where y: "x = timeline_event iid symbol units y" "Some y \<in> stays rows ` set rows"
        unfolding dedupe_set by blast
      obtain r t where "y = (r, t)" by (cases y)
      with y have r: "x = timeline_event iid symbol units (r, t)" "Some (r, t) \<in> stays rows ` set rows" by simp_all
      then obtain r0 where "r0 \<in> set rows" "stays rows r0 = Some (r, t)" by force
      then show ?thesis using r(1) stays_same by force
    qed
    obtain r r' where r: "r \<in> set rows" "stays rows r = Some (r, BOND_REDEMPTION)" "st_date r = ce_date e"
      and r': "r' \<in> set rows" "stays rows r' = Some (r', ce_type e')" "st_date r' = ce_date e"
      using of_row e by metis
    have "upper (st_type r) = ''REDEMPTION''"
      using r(2) by (simp add: stays_def redemption_type [symmetric] split: option.splits if_splits)
    then show ?thesis using r(1,3) r'(2,3) by (auto simp: stays_def split: option.splits if_splits)
  qed
  moreover have "\<forall>e \<in> set evs. ce_informational e \<longrightarrow> ce_gross e = None"
    by (auto simp: assms build_instrument_timeline_def)
  ultimately show ?thesis by blast
qed

section \<open>Horizons\<close>

lemma foldl_dadd_filter_mono:
  assumes "\<forall>e \<in> set es. 0 \<le> g e" "\<And>e. P e \<Longrightarrow> Q e" "a \<le> b" "dround b = b"
  shows "foldl dadd a (map g (filter P es)) \<le> foldl dadd b (map g (filter Q es))"
  using assms(1,3,4)
proof (induction es arbitrary: a b)
  case (Cons e es)
  have "dround (a + g e) \<le> dround (b + g e)" "b \<le> dround (b + g e)"
    using Cons.prems dround_mono [of b "b + g e"] by (auto intro: dround_mono)
  then show ?case using assms(2) Cons by (auto simp: dadd_def)
qed simp

text \<open>the horizons are nested: with non-negative amounts a longer horizon counts at least the events of a
  shorter one and each of its totals is at least as large; the gross total is the sum of the three
  totals.\<close>

theorem horizon_totals_nested:
  assumes "sum_horizon events as_of n = Inr h" and "sum_horizon events as_of n' = Inr h'" and "n \<le> n'"
    and "\<forall>e \<in> set events. \<forall>g. ce_gross e = Some g \<longrightarrow> 0 \<le> g"
  shows "ht_count h \<le> ht_count h' \<and> ht_coupon h \<le> ht_coupon h' \<and> ht_amortization h \<le> ht_amortization h' \<and>
    ht_redemption h \<le> ht_redemption h' \<and> ht_gross h \<le> ht_gross h' \<and>
    ht_gross h = dadd (dadd (ht_coupon h) (ht_amortization h)) (ht_redemption h)"
proof -
  obtain d d' where d: "add_days as_of n = Inr d" "add_days as_of n' = Inr d'"
    using assms by (auto simp: sum_horizon_def exn_simps)
  have dd: "d \<le> d'" using d assms(3) by (auto simp: add_days_Inr date_order)
  define C where "C = counted as_of d"
  define C' where "C' = counted as_of d'"
  have sub: "C e \<Longrightarrow> C' e" for e using dd by (auto simp: C_def C'_def counted_def)
  have total: "type_total t (filter C events) \<le> type_total t (filter C' events)" for t
  proof -
    let ?es = "filter C' events"
    have f: "filter C events = filter C ?es" using sub by (auto intro: filter_cong)
    have "\<forall>e \<in> set ?es. 0 \<le> (the \<circ> ce_gross) e" using assms(4) by (auto simp: C'_def counted_def)
    then have "foldl dadd 0 (map (the \<circ> ce_gross) (filter (\<lambda>e. C e \<and> ce_type e = t) ?es))
        \<le> foldl dadd 0 (map (the \<circ> ce_gross) (filter (\<lambda>e. ce_type e = t) ?es))"
      by (intro foldl_dadd_filter_mono) auto
    then show ?thesis unfolding f type_total_def by (simp add: conj_ac)
  qed
  have "length (filter C events) \<le> length (filter C' events)"
    using sub by (induction events) auto
  then show ?thesis
    using assms(1,2) d total [of BOND_COUPON] total [of BOND_AMORTIZATION] total [of BOND_REDEMPTION]
    by (auto simp: sum_horizon_def Let_def dadd_def simp flip: C_def C'_def intro!: dround_mono add_mono)
qed

definition sample_rows :: "stored_cashflow list" where
  "sample_rows = [\<lparr>st_date = date_of 2027 3 1, st_type = ''REDEMPTION'', st_amount = Some 1000, st_currency = Some ''RUB''\<rparr>,
     \<lparr>st_date = date_of 2027 3 1, st_type = ''AMORTIZATION'', st_amount = Some 1000, st_currency = Some ''RUB''\<rparr>,
     \<lparr>st_date = date_of 2026 10 20, st_type = ''COUPON'', st_amount = Some 40, st_currency = Some ''RUB''\<rparr>]"

theorem timeline_exact_witness:
  "map ce_type (build_instrument_timeline 7 ''OFZ'' 10 sample_rows (date_of 2026 10 1)) = [BOND_COUPON, BOND_REDEMPTION] \<and>
   sorted (map ce_date (build_instrument_timeline 7 ''OFZ'' 10 sample_rows (date_of 2026 10 1)))"
proof -
  have "map ce_type (build_instrument_timeline 7 ''OFZ'' 10 sample_rows (date_of 2026 10 1)) = [BOND_COUPON, BOND_REDEMPTION]"
    by code_simp
  then show ?thesis using timeline_exact [OF refl, of 7 "''OFZ''" 10 sample_rows "date_of 2026 10 1"] by simp
qed

lemma sample_horizons:
  "map_sum id ht_gross (sum_horizon (build_instrument_timeline 7 ''OFZ'' 10 sample_rows (date_of 2026 10 1)) (date_of 2026 10 1) 30) = Inr 400"
  "map_sum id ht_gross (sum_horizon (build_instrument_timeline 7 ''OFZ'' 10 sample_rows (date_of 2026 10 1)) (date_of 2026 10 1) 365) = Inr 10400"
  by code_simp+

theorem horizon_totals_nested_witness:
  "\<exists>h h'. sum_horizon (build_instrument_timeline 7 ''OFZ'' 10 sample_rows (date_of 2026 10 1)) (date_of 2026 10 1) 30 = Inr h \<and>
     sum_horizon (build_instrument_timeline 7 ''OFZ'' 10 sample_rows (date_of 2026 10 1)) (date_of 2026 10 1) 365 = Inr h' \<and>
     ht_gross h = 400 \<and> ht_gross h \<le> ht_gross h'"
proof -
  let ?e = "build_instrument_timeline 7 ''OFZ'' 10 sample_rows (date_of 2026 10 1)"
  obtain h h' where h: "sum_horizon ?e (date_of 2026 10 1) 30 = Inr h" "ht_gross h = 400"
    and h': "sum_horizon ?e (date_of 2026 10 1) 365 = Inr h'"
    using sample_horizons
    by (cases "sum_horizon ?e (date_of 2026 10 1) 30"; cases "sum_horizon ?e (date_of 2026 10 1) 365") auto
  have "map ce_gross ?e = [Some 400, Some 10000]" by code_simp
  then have "\<forall>e \<in> set ?e. \<forall>g. ce_gross e = Some g \<longrightarrow> 0 \<le> g"
    by (auto simp: map_eq_Cons_conv)
  from horizon_totals_nested [OF h(1) h' _ this] show ?thesis using h h' by auto
qed

text \<open>A payment on the day itself is announced as the next payment, but no horizon counts it.\<close>

lemma payment_today_not_counted:
  "map_sum id (\<lambda>p. (map_option ce_gross (pj_next p), ht_gross (pj_12m p)))
     (project_portfolio_cashflows (build_instrument_timeline 7 ''OFZ'' 10 (drop 2 sample_rows) (date_of 2026 10 20)) (date_of 2026 10 20))
   = Inr (Some (Some 400), 0)"
  by code_simp

text \<open>The counter compares stored bond types, \<open>Government\<close>, with \<open>GOVERNMENT\<close>: every federal bond is counted as
  corporate.\<close>

lemma government_bonds_counted_corporate:
  "gov_vs_corp (map (\<lambda>t. Some (bond_type_value t)) types) = (0, int (length types))"
proof -
  have "bond_type_value t \<noteq> ''GOVERNMENT''" "or_text (Some (bond_type_value t)) [] \<noteq> []" for t
    by (cases t; simp add: or_text_def)+
  then show ?thesis by (induction types) (simp_all add: gov_vs_corp_def)
qed

definition plain_bond :: bond_facts where
  "plain_bond = \<lparr>bf_face_unit = Some ''SUR'', bf_currency_id = None, bf_nominal = Some 1000, bf_lot_size = Some 1,
     bf_maturity = Some (date_of 2027 3 1),
     bf_schedule = Some (parse_bondization_schedule
       [[''coupondate'' \<mapsto> ''2027-03-01'', ''value'' \<mapsto> ''40.5'', ''valueprc'' \<mapsto> ''8.1'', ''faceunit'' \<mapsto> ''SUR'']]
       [[''amortdate'' \<mapsto> ''2027-03-01'', ''value'' \<mapsto> ''1000'', ''data_source'' \<mapsto> ''maturity'']] []),
     bf_market_price = Some 98, bf_perpetual = False\<rparr>"

lemma plain_bond_supported: "classify_bond_support_v1 plain_bond (date_of 2026 10 1) = (SUPPORTED, [])"
  by code_simp

end
