(* ===== verification/Compose.thy ===== *)
theory Compose
  imports Riskgate Cashflows
begin

text \<open>
  From candidates to a concrete portfolio: the limits of \<open>investment/domain/composition_config.py\<close>, the
  capital check of \<open>portfolio_capital.py\<close>, the selection of shares (\<open>equity_composition.py\<close>) and bonds
  (\<open>fixed_income_composition.py\<close>), the gates before and after sizing
  (\<open>application/portfolio_composition_service.py\<close>) and the money of the candidate
  (\<open>application/portfolio_candidate_service.py\<close>, \<open>domain/portfolio_candidate.py\<close>). The rows that
  \<open>load_equity_candidates\<close> and \<open>load_fixed_income_candidates\<close> read from the database are inputs; display
  names, hints, texts and provenance dictionaries are not modelled.
\<close>

record composition_config =
  cc_max_equity_positions :: int
  cc_max_fixed_income_positions :: int
  cc_min_position_rub :: pyfloat
  cc_max_single_position_weight :: pyfloat
  cc_prefer_government_bonds :: bool
  cc_cost_bps :: pyfloat
  cc_stale_after_days :: int
  cc_max_rejected_shown :: nat

definition DEFAULT_COMPOSITION_CONFIG :: composition_config where
  "DEFAULT_COMPOSITION_CONFIG = \<lparr>cc_max_equity_positions = 4, cc_max_fixed_income_positions = 5, cc_min_position_rub = 3000,
     cc_max_single_position_weight = fl (15/100), cc_prefer_government_bonds = True, cc_cost_bps = 5,
     cc_stale_after_days = 10, cc_max_rejected_shown = 12\<rparr>"

definition validate_portfolio_capital :: "decimal \<Rightarrow> decimal res" where
  "validate_portfolio_capital value =
     (if value \<le> 0 then Inl (ValueError ''capital must be greater than 0'')
      else if 100000000 < value then Inl (ValueError ''capital must be <= 100000000 RUB'') else Inr value)"

type_synonym rejection = "string \<times> string"   \<comment> \<open>symbol and risk status\<close>

record 'r selection =
  sel_selected :: "'r list"
  sel_rejected :: "rejection list"
  sel_available :: int
  sel_after_gate :: int
  sel_equal_weight :: pyfloat
  sel_sleeve_weight :: pyfloat

text \<open>The two loops that the selections share, over the symbol and the lot cost of a row: fill the slots, and
  list the remaining eligible rows as skipped.\<close>

fun fill_slots :: "('r \<Rightarrow> string) \<Rightarrow> ('r \<Rightarrow> pyfloat res) \<Rightarrow> composition_config \<Rightarrow> pyfloat \<Rightarrow> int \<Rightarrow> pyfloat \<Rightarrow>
    'r list \<Rightarrow> 'r list \<Rightarrow> rejection list \<Rightarrow> ('r list \<times> rejection list) res" where
  "fill_slots nm cost cfg cap n target [] selected rejected = Inr (selected, rejected)"
| "fill_slots nm cost cfg cap n target (row # rows) selected rejected =
     (if int (length selected) \<ge> n \<or> target < cc_min_position_rub cfg then Inr (selected, rejected) else
      bnd (cost row) (\<lambda>c.
        if c > fmul target (fl (105/100))
        then fill_slots nm cost cfg cap n target rows selected (rejected @ [(nm row, ''SKIPPED'')])
        else if fdiv c cap > cc_max_single_position_weight cfg
        then fill_slots nm cost cfg cap n target rows selected (rejected @ [(nm row, ''BLOCKED'')])
        else fill_slots nm cost cfg cap n target rows (selected @ [row]) rejected))"

fun skip_rest :: "('r \<Rightarrow> string) \<Rightarrow> nat \<Rightarrow> string set \<Rightarrow> 'r list \<Rightarrow> rejection list \<Rightarrow> rejection list" where
  "skip_rest nm shown chosen [] rejected = rejected"
| "skip_rest nm shown chosen (row # rows) rejected =
     (if nm row \<in> chosen then skip_rest nm shown chosen rows rejected
      else if shown \<le> length rejected then rejected
      else if nm row \<in> fst ` set rejected then skip_rest nm shown chosen rows rejected
      else skip_rest nm shown chosen rows (rejected @ [(nm row, ''SKIPPED'')]))"

text \<open>\<open>int(float(capital) * sleeve // min)\<close>: the floor of the quotient.\<close>

definition names_by_minimum :: "composition_config \<Rightarrow> pyfloat \<Rightarrow> pyfloat \<Rightarrow> nat" where
  "names_by_minimum cfg cap sleeve = nat \<lfloor>fmul cap sleeve / cc_min_position_rub cfg\<rfloor>"

definition share_of :: "pyfloat \<Rightarrow> 'r list \<Rightarrow> pyfloat" where
  "share_of sleeve xs = (if xs = [] then 0 else fdiv sleeve (of_nat (length xs)))"

section \<open>Shares\<close>

record equity_row =
  eq_instrument_id :: int
  eq_symbol :: string
  eq_rank :: int
  eq_signal :: pyfloat
  eq_semantic :: string
  eq_price :: decimal
  eq_lot_size :: "int option"

definition equity_reject :: "(string \<rightharpoonup> string) \<Rightarrow> equity_row \<Rightarrow> string option" where
  "equity_reject gate row =
     (let status = opt_or (gate (eq_symbol row)) ''RESEARCH_ONLY'' in
      if status \<in> {''BLOCKED'', ''INSUFFICIENT_DATA''} then Some status
      else if \<not> opt_sat (\<lambda>n. 0 < n) (eq_lot_size row) then Some ''INSUFFICIENT_DATA''
      else if dmul (eq_price row) (of_int (the (eq_lot_size row))) \<le> 0 then Some ''INSUFFICIENT_DATA'' else None)"

definition equity_lot_cost :: "equity_row \<Rightarrow> pyfloat res" where
  "equity_lot_cost row = Inr (fl (dmul (eq_price row) (of_int (opt_or (eq_lot_size row) 0))))"

definition rejection_of :: "('r \<Rightarrow> string) \<Rightarrow> ('r \<Rightarrow> string option) \<Rightarrow> 'r \<Rightarrow> rejection option" where
  "rejection_of nm rej r = map_option (Pair (nm r)) (rej r)"

definition rejections :: "('r \<Rightarrow> string) \<Rightarrow> ('r \<Rightarrow> string option) \<Rightarrow> 'r list \<Rightarrow> rejection list" where
  "rejections nm rej rows = List.map_filter (rejection_of nm rej) rows"

definition equity_admitted :: "(string \<rightharpoonup> string) \<Rightarrow> equity_row \<Rightarrow> bool" where
  "equity_admitted gate r \<longleftrightarrow> equity_reject gate r = None"

definition equity_key :: "equity_row \<Rightarrow> int \<times> int" where
  "equity_key r = (eq_rank r, eq_instrument_id r)"

definition select_equity_composition ::
  "equity_row list \<Rightarrow> pyfloat \<Rightarrow> decimal \<Rightarrow> (string \<rightharpoonup> string) \<Rightarrow> composition_config \<Rightarrow> equity_row selection res" where
  "select_equity_composition candidates sleeve capital gate cfg =
     (let ordered = sort_key equity_key candidates;
          rejected0 = rejections eq_symbol (equity_reject gate) ordered;
          eligible = filter (equity_admitted gate) ordered;
          n = max 0 (min (cc_max_equity_positions cfg) (int (length eligible)));
          shown = cc_max_rejected_shown cfg; cap = fl capital
      in if sleeve \<le> 0 \<or> n = 0 \<or> capital \<le> 0
         then Inr \<lparr>sel_selected = [], sel_rejected = take shown rejected0, sel_available = int (length candidates),
                sel_after_gate = int (length eligible), sel_equal_weight = 0, sel_sleeve_weight = sleeve\<rparr>
         else
           let target = fdiv (fmul cap sleeve) (of_int n) in
           bnd (fill_slots eq_symbol equity_lot_cost cfg cap n target eligible [] rejected0) (\<lambda>(chosen0, rejected1).
             let w0 = share_of sleeve chosen0;
                 chosen = (if chosen0 \<noteq> [] \<and> fmul cap w0 < cc_min_position_rub cfg
                           then take (names_by_minimum cfg cap sleeve) chosen0 else chosen0)
             in Inr \<lparr>sel_selected = chosen,
                   sel_rejected = take shown (skip_rest eq_symbol shown (eq_symbol ` set chosen) eligible rejected1),
                   sel_available = int (length candidates), sel_after_gate = int (length eligible),
                   sel_equal_weight = share_of sleeve chosen, sel_sleeve_weight = sleeve\<rparr>))"

section \<open>Bonds\<close>

record fi_row =
  fr_instrument_id :: int
  fr_symbol :: string
  fr_bond_type :: string
  fr_support_status :: string
  fr_credit_status :: string
  fr_liquidity_status :: string
  fr_eligibility :: string
  fr_lot_size :: int
  fr_nominal :: decimal
  fr_clean_price_percent :: decimal
  fr_accrued_interest :: decimal
  fr_dirty_price :: decimal
  fr_maturity_date :: "string option"
  fr_yield :: "pyfloat option"
  fr_cashflow_count :: int
  fr_risk_flags :: "string list"

definition fi_sort_key :: "bool \<Rightarrow> fi_row \<Rightarrow> int \<times> int \<times> int \<times> int \<times> string \<times> string" where
  "fi_sort_key prefer_gov r =
     ((if fr_support_status r = ''SUPPORTED'' then 0 else if fr_support_status r = ''RESEARCH_ONLY'' then 1
       else if fr_support_status r = ''UNSUPPORTED'' then 9 else 5),
      (if prefer_gov \<and> fr_bond_type r = ''Government'' then 0 else if fr_bond_type r = ''Government'' then 1 else 2),
      (if fr_liquidity_status r = ''HIGH'' then 0 else if fr_liquidity_status r = ''MEDIUM'' then 1
       else if fr_liquidity_status r = ''UNKNOWN'' then 2 else if fr_liquidity_status r = ''LOW'' then 3 else 4),
      - fr_cashflow_count r, or_text (fr_maturity_date r) ''9999-99-99'', fr_symbol r)"

definition fi_reject :: "(string \<rightharpoonup> string) \<Rightarrow> fi_row \<Rightarrow> string option" where
  "fi_reject gate row =
     (let status = opt_or (gate (fr_symbol row)) (or_text (Some (fr_eligibility row)) ''RESEARCH_ONLY'') in
      if fr_support_status row = ''UNSUPPORTED'' then Some ''UNSUPPORTED''
      else if fr_dirty_price row \<le> 0 \<or> fr_lot_size row \<le> 0 \<or> fr_nominal row \<le> 0 then Some ''INSUFFICIENT_DATA''
      else if status \<in> {''BLOCKED'', ''INSUFFICIENT_DATA''} \<or> fr_eligibility row = ''BLOCKED'' then Some status else None)"

definition fi_admitted :: "(string \<rightharpoonup> string) \<Rightarrow> fi_row \<Rightarrow> bool" where
  "fi_admitted gate r \<longleftrightarrow> fi_reject gate r = None"

definition fi_lot_cost :: "fi_row \<Rightarrow> pyfloat res" where
  "fi_lot_cost row = bnd (calculate_bond_purchase (fr_nominal row) (fr_clean_price_percent row) (fr_accrued_interest row) 1
      (fr_lot_size row) 0) (\<lambda>p. Inr (fl (bp_cash_required p)))"

definition fi_effective_sleeve :: "composition_config \<Rightarrow> pyfloat \<Rightarrow> int \<Rightarrow> pyfloat res" where
  "fi_effective_sleeve cfg sleeve n =
     bnd (fdivE sleeve (cc_max_single_position_weight cfg)) (\<lambda>q.
       let min_names = max 1 \<lceil>fsub q (fl (1 / 10 ^ 12))\<rceil>
       in Inr (if 0 < n \<and> n < min_names then fmul (of_int n) (cc_max_single_position_weight cfg) else sleeve))"

definition select_fixed_income_composition ::
  "fi_row list \<Rightarrow> pyfloat \<Rightarrow> decimal \<Rightarrow> (string \<rightharpoonup> string) \<Rightarrow> composition_config \<Rightarrow> fi_row selection res" where
  "select_fixed_income_composition candidates sleeve capital gate cfg =
     (let ordered = sort_key (fi_sort_key (cc_prefer_government_bonds cfg)) candidates;
          rejected0 = rejections fr_symbol (fi_reject gate) ordered;
          eligible = filter (fi_admitted gate) ordered;
          n = max 0 (min (cc_max_fixed_income_positions cfg) (int (length eligible)));
          shown = cc_max_rejected_shown cfg; cap = fl capital; limit = cc_max_single_position_weight cfg
      in bnd (fi_effective_sleeve cfg sleeve n) (\<lambda>effective.
         if effective \<le> 0 \<or> n = 0 \<or> capital \<le> 0
         then Inr \<lparr>sel_selected = [], sel_rejected = take shown rejected0, sel_available = int (length candidates),
                sel_after_gate = int (length eligible), sel_equal_weight = 0, sel_sleeve_weight = sleeve\<rparr>
         else
           let target = fdiv (fmul cap effective) (of_int n) in
           bnd (fill_slots fr_symbol fi_lot_cost cfg cap n target eligible [] rejected0) (\<lambda>(chosen0, rejected1).
             let w0 = min (share_of effective chosen0) limit;
                 chosen = (if chosen0 \<noteq> [] \<and> fmul cap w0 < cc_min_position_rub cfg
                           then take (names_by_minimum cfg cap effective) chosen0 else chosen0)
             in Inr \<lparr>sel_selected = chosen,
                   sel_rejected = take shown (skip_rest fr_symbol shown (fr_symbol ` set chosen) eligible rejected1),
                   sel_available = int (length candidates), sel_after_gate = int (length eligible),
                   sel_equal_weight = (if chosen0 = [] then 0 else min (share_of effective chosen) limit),
                   sel_sleeve_weight = sleeve\<rparr>)))"

section \<open>Gates before and after sizing\<close>

definition profile_gate :: "risk_budget \<Rightarrow> risk_gate" where
  "profile_gate b = default_gate (rb_max_single_position b) (rb_max_credit_risk b \<noteq> ''NONE'')"

definition probe_weight :: "risk_budget \<Rightarrow> pyfloat \<Rightarrow> int \<Rightarrow> pyfloat" where
  "probe_weight b sleeve n = min (fdiv sleeve (of_int (if n = 0 then 1 else n))) (fmul (rb_max_single_position b) (fl (999/1000)))"

definition gate_put :: "('r \<Rightarrow> string) \<Rightarrow> ('r \<Rightarrow> position_verdict) \<Rightarrow> (string \<rightharpoonup> string) \<Rightarrow> 'r \<Rightarrow> (string \<rightharpoonup> string)" where
  "gate_put nm verdict m r = m(nm r \<mapsto> gate_value (pv_gate_status (verdict r)))"

definition gate_map :: "('r \<Rightarrow> string) \<Rightarrow> ('r \<Rightarrow> position_verdict) \<Rightarrow> 'r list \<Rightarrow> (string \<rightharpoonup> string)" where
  "gate_map nm verdict rows = foldl (gate_put nm verdict) Map.empty rows"

definition equity_probe :: "pyfloat \<Rightarrow> bool \<Rightarrow> equity_row \<Rightarrow> position_input" where
  "equity_probe w confidence_unknown row = \<lparr>pi_symbol = eq_symbol row, pi_sleeve = ''EQUITY_ALPHA'', pi_target_weight = w,
     pi_credit_status = None, pi_liquidity_status = Some ''UNKNOWN'', pi_data_quality = Some ''READY'',
     pi_support_status = Some ''SUPPORTED'',
     pi_eligibility = Some (if confidence_unknown then ''RESEARCH_ONLY'' else ''REAL_PORTFOLIO_CANDIDATE''),
     pi_days_since_trade = None, pi_expected_yield = None,
     pi_risk_flags = (if confidence_unknown then [''equity_confidence_unknown''] else []), pi_blocked = False\<rparr>"

definition equity_verdict :: "risk_budget \<Rightarrow> pyfloat \<Rightarrow> bool \<Rightarrow> equity_row \<Rightarrow> position_verdict" where
  "equity_verdict b w confidence_unknown r = assess_position (profile_gate b) (equity_probe w confidence_unknown r)"

definition pre_gate_equity :: "equity_row list \<Rightarrow> pyfloat \<Rightarrow> string \<Rightarrow> bool \<Rightarrow> (string \<rightharpoonup> string) res" where
  "pre_gate_equity rows sleeve profile confidence_unknown =
     (if rows = [] \<or> sleeve \<le> 0 then Inr Map.empty else
      bnd (get_risk_budget profile) (\<lambda>b.
        let w = probe_weight b sleeve (min (int (length rows)) (cc_max_equity_positions DEFAULT_COMPOSITION_CONFIG))
        in Inr (gate_map eq_symbol (equity_verdict b w confidence_unknown) rows)))"

definition fi_data_quality :: "fi_row \<Rightarrow> string" where
  "fi_data_quality row = (if fr_support_status row = ''SUPPORTED'' then ''READY'' else ''PARTIAL'')"

definition fi_probe :: "pyfloat \<Rightarrow> fi_row \<Rightarrow> position_input" where
  "fi_probe w row = \<lparr>pi_symbol = fr_symbol row, pi_sleeve = ''FIXED_INCOME'', pi_target_weight = w,
     pi_credit_status = Some (fr_credit_status row), pi_liquidity_status = Some (fr_liquidity_status row),
     pi_data_quality = Some (fi_data_quality row), pi_support_status = Some (fr_support_status row),
     pi_eligibility = Some (fr_eligibility row), pi_days_since_trade = None, pi_expected_yield = fr_yield row,
     pi_risk_flags = fr_risk_flags row, pi_blocked = False\<rparr>"

definition fi_verdict :: "risk_budget \<Rightarrow> pyfloat \<Rightarrow> fi_row \<Rightarrow> position_verdict" where
  "fi_verdict b w r = assess_position (profile_gate b) (fi_probe w r)"

definition pre_gate_fixed_income :: "fi_row list \<Rightarrow> pyfloat \<Rightarrow> string \<Rightarrow> (string \<rightharpoonup> string) res" where
  "pre_gate_fixed_income rows sleeve profile =
     (if rows = [] \<or> sleeve \<le> 0 then Inr Map.empty else
      bnd (get_risk_budget profile) (\<lambda>b.
        let w = probe_weight b sleeve (min (int (length rows)) (cc_max_fixed_income_positions DEFAULT_COMPOSITION_CONFIG))
        in Inr (gate_map fr_symbol (fi_verdict b w) rows)))"

record composed =
  cp_equity :: "equity_row selection"
  cp_fixed_income :: "fi_row selection"

definition compose_fixed_income ::
  "fi_row list \<Rightarrow> decimal \<Rightarrow> pyfloat \<Rightarrow> (string \<rightharpoonup> string) \<Rightarrow> composition_config \<Rightarrow> equity_row selection \<Rightarrow> composed res" where
  "compose_fixed_income fis capital fi_w fi_gate cfg eq =
     bnd (select_fixed_income_composition fis fi_w capital fi_gate cfg) (\<lambda>fi. Inr \<lparr>cp_equity = eq, cp_fixed_income = fi\<rparr>)"

definition compose_gated ::
  "equity_row list \<Rightarrow> fi_row list \<Rightarrow> decimal \<Rightarrow> pyfloat \<Rightarrow> pyfloat \<Rightarrow> composition_config \<Rightarrow> (string \<rightharpoonup> string) \<Rightarrow> (string \<rightharpoonup> string) \<Rightarrow> composed res" where
  "compose_gated eqs fis capital eq_w fi_w cfg eq_gate fi_gate =
     bnd (select_equity_composition eqs eq_w capital eq_gate cfg) (compose_fixed_income fis capital fi_w fi_gate cfg)"

definition compose_instrument_selections ::
  "equity_row list \<Rightarrow> fi_row list \<Rightarrow> decimal \<Rightarrow> pyfloat \<Rightarrow> pyfloat \<Rightarrow> string \<Rightarrow> bool \<Rightarrow> composition_config \<Rightarrow> composed res" where
  "compose_instrument_selections eqs fis capital eq_w fi_w profile confidence_unknown cfg =
     bnd (pre_gate_equity eqs eq_w profile confidence_unknown) (\<lambda>eq_gate.
     bnd (pre_gate_fixed_income fis fi_w profile) (compose_gated eqs fis capital eq_w fi_w cfg eq_gate))"

section \<open>The candidate\<close>

record draft_position =
  dp_symbol :: string
  dp_sleeve :: string
  dp_lots :: int
  dp_units :: int
  dp_notional :: decimal
  dp_fees :: decimal
  dp_target_weight :: pyfloat
  dp_actual_weight :: pyfloat
  dp_credit_status :: "string option"
  dp_liquidity_status :: "string option"
  dp_eligibility :: string
  dp_data_quality :: string
  dp_support_status :: string
  dp_risk_flags :: "string list"
  dp_risk_status :: string
  dp_executable :: bool

definition equity_candidate :: "decimal \<Rightarrow> equity_row \<Rightarrow> allocation_candidate option" where
  "equity_candidate w r = (if opt_sat (\<lambda>n. 0 < n) (eq_lot_size r)
     then Some \<lparr>ca_symbol = eq_symbol r, ca_sleeve = EQUITY_ALPHA, ca_price = eq_price r, ca_lot_size = the (eq_lot_size r),
                ca_target_weight = w\<rparr>
     else None)"

definition fi_candidate :: "decimal \<Rightarrow> fi_row \<Rightarrow> allocation_candidate" where
  "fi_candidate w r = \<lparr>ca_symbol = fr_symbol r, ca_sleeve = FIXED_INCOME, ca_price = fr_dirty_price r,
     ca_lot_size = fr_lot_size r, ca_target_weight = w\<rparr>"

definition lot_candidates :: "composed \<Rightarrow> allocation_candidate list" where
  "lot_candidates c =
     List.map_filter (equity_candidate (dec_of_float (sel_equal_weight (cp_equity c)))) (sel_selected (cp_equity c)) @
     map (fi_candidate (dec_of_float (sel_equal_weight (cp_fixed_income c)))) (sel_selected (cp_fixed_income c))"

definition by_symbol :: "('r \<Rightarrow> string) \<Rightarrow> 'r list \<Rightarrow> (string \<rightharpoonup> 'r)" where
  "by_symbol nm rows = foldl (\<lambda>m r. m(nm r \<mapsto> r)) Map.empty rows"

definition equity_draft :: "decimal \<Rightarrow> bool \<Rightarrow> pyfloat \<Rightarrow> allocated_position \<Rightarrow> equity_row \<Rightarrow> draft_position" where
  "equity_draft capital confidence_unknown w p row = \<lparr>dp_symbol = eq_symbol row, dp_sleeve = ''EQUITY_ALPHA'', dp_lots = al_lots p,
     dp_units = al_units p, dp_notional = al_notional p, dp_fees = al_fees p, dp_target_weight = w,
     dp_actual_weight = fl (ddiv (al_cash_used p) capital), dp_credit_status = None, dp_liquidity_status = None,
     dp_eligibility = (if confidence_unknown then ''RESEARCH_ONLY'' else ''REAL_PORTFOLIO_CANDIDATE''),
     dp_data_quality = ''READY'', dp_support_status = ''SUPPORTED'',
     dp_risk_flags = (if confidence_unknown then [''equity_confidence_unknown''] else []), dp_risk_status = [], dp_executable = False\<rparr>"

definition fi_draft :: "decimal \<Rightarrow> pyfloat \<Rightarrow> allocated_position \<Rightarrow> fi_row \<Rightarrow> draft_position" where
  "fi_draft capital w p row = \<lparr>dp_symbol = fr_symbol row, dp_sleeve = ''FIXED_INCOME'', dp_lots = al_lots p,
     dp_units = al_units p, dp_notional = al_notional p, dp_fees = al_fees p, dp_target_weight = w,
     dp_actual_weight = fl (ddiv (al_cash_used p) capital), dp_credit_status = Some (fr_credit_status row),
     dp_liquidity_status = Some (fr_liquidity_status row), dp_eligibility = fr_eligibility row,
     dp_data_quality = fi_data_quality row, dp_support_status = fr_support_status row,
     dp_risk_flags = fr_risk_flags row, dp_risk_status = [], dp_executable = False\<rparr>"

definition draft_of :: "decimal \<Rightarrow> bool \<Rightarrow> composed \<Rightarrow> allocated_position \<Rightarrow> draft_position option" where
  "draft_of capital confidence_unknown c p =
     (case by_symbol eq_symbol (sel_selected (cp_equity c)) (al_symbol p) of
        Some row \<Rightarrow> Some (equity_draft capital confidence_unknown (sel_equal_weight (cp_equity c)) p row)
      | None \<Rightarrow> (case by_symbol fr_symbol (sel_selected (cp_fixed_income c)) (al_symbol p) of
          Some row \<Rightarrow> Some (fi_draft capital (sel_equal_weight (cp_fixed_income c)) p row) | None \<Rightarrow> None))"

definition draft_input :: "draft_position \<Rightarrow> position_input" where
  "draft_input d = \<lparr>pi_symbol = dp_symbol d, pi_sleeve = or_text (Some (dp_sleeve d)) ''EQUITY_ALPHA'', pi_target_weight = dp_actual_weight d,
     pi_credit_status = dp_credit_status d, pi_liquidity_status = dp_liquidity_status d,
     pi_data_quality = Some (or_text (Some (dp_data_quality d)) ''READY''), pi_support_status = Some (dp_support_status d),
     pi_eligibility = (if dp_eligibility d = [] then None else Some (dp_eligibility d)), pi_days_since_trade = None,
     pi_expected_yield = None, pi_risk_flags = dp_risk_flags d, pi_blocked = False\<rparr>"

definition judged :: "risk_gate \<Rightarrow> draft_position \<Rightarrow> draft_position" where
  "judged g d = (let status = gate_value (pv_gate_status (assess_position g (draft_input d)))
     in d\<lparr>dp_risk_status := status, dp_executable := status \<in> {''APPROVED'', ''APPROVED_WITH_WARNINGS''}\<rparr>)"

definition survives :: "risk_gate \<Rightarrow> draft_position \<Rightarrow> bool" where
  "survives g d \<longleftrightarrow> (let v = assess_position g (draft_input d)
     in pv_gate_status v \<notin> {BLOCKED, INSUFFICIENT_DATA} \<and> pv_allowed v)"

definition falls :: "risk_gate \<Rightarrow> draft_position \<Rightarrow> bool" where
  "falls g d \<longleftrightarrow> \<not> survives g d"

definition dropped_by :: "risk_gate \<Rightarrow> draft_position \<Rightarrow> rejection" where
  "dropped_by g d = (dp_symbol d, dp_risk_status (judged g d))"

definition revalidate_with :: "draft_position list \<Rightarrow> risk_budget \<Rightarrow> (draft_position list \<times> rejection list) res" where
  "revalidate_with drafts b = (let g = profile_gate b in
     Inr (map (judged g) (filter (survives g) drafts), map (dropped_by g) (filter (falls g) drafts)))"

definition revalidate_actual_weights :: "draft_position list \<Rightarrow> string \<Rightarrow> (draft_position list \<times> rejection list) res" where
  "revalidate_actual_weights drafts profile = bnd (get_risk_budget profile) (revalidate_with drafts)"

text \<open>\<open>d.quantize(Decimal("0.01"))\<close> with the rounding of the context, half to even.\<close>

definition quantize_even :: "nat \<Rightarrow> decimal \<Rightarrow> decimal res" where
  "quantize_even k x = (let m = rhe (x * 10 ^ k)
     in if 10 ^ 28 \<le> \<bar>m\<bar> then Inl InvalidOperation else Inr (of_int m / 10 ^ k))"

definition draft_cash :: "draft_position \<Rightarrow> decimal" where
  "draft_cash d = dadd (dp_notional d) (dp_fees d)"

definition invested_in :: "string \<Rightarrow> draft_position list \<Rightarrow> decimal" where
  "invested_in sleeve ds = foldl dadd 0 (map draft_cash (filter (\<lambda>d. (dp_sleeve d = ''EQUITY_ALPHA'') = (sleeve = ''EQUITY_ALPHA'')) ds))"

record candidate =
  cn_positions :: "draft_position list"
  cn_rejected :: "rejection list"
  cn_invested_equity :: decimal
  cn_invested_fixed_income :: decimal
  cn_strategic_cash :: decimal
  cn_lot_remainder :: decimal
  cn_total_cash :: decimal

definition candidate_money :: "decimal \<Rightarrow> pyfloat \<Rightarrow> draft_position list \<Rightarrow> rejection list \<Rightarrow> candidate res" where
  "candidate_money capital target_cash kept rejected =
     (let eq = invested_in ''EQUITY_ALPHA'' kept; fi = invested_in ''FIXED_INCOME'' kept in
      bnd (quantize_even 2 (dmul capital (dec_of_float target_cash))) (\<lambda>strategic.
      bnd (quantize_even 2 (dsub capital (dadd eq fi))) (\<lambda>total0.
        let total = (if total0 < 0 then 0 else total0) in
      bnd (quantize_even 2 (max 0 (dsub total strategic))) (\<lambda>remainder.
        Inr \<lparr>cn_positions = filter (\<lambda>d. dp_symbol d \<notin> {''EQUITY_SLEEVE'', ''FI_SLEEVE''}) kept, cn_rejected = rejected,
             cn_invested_equity = eq, cn_invested_fixed_income = fi, cn_strategic_cash = strategic,
             cn_lot_remainder = remainder, cn_total_cash = total\<rparr>))))"

text \<open>\<open>build_instrument_portfolio_candidate\<close> after the decision, in its four stages.\<close>

definition settle_candidate ::
  "decimal \<Rightarrow> investment_decision \<Rightarrow> string \<Rightarrow> bool \<Rightarrow> composed \<Rightarrow> allocation_result \<Rightarrow> candidate res" where
  "settle_candidate capital dec profile confidence_unknown c lots =
     bnd (revalidate_actual_weights (List.map_filter (draft_of capital confidence_unknown c) (ar_positions lots)) profile)
       (\<lambda>(kept, dropped).
          candidate_money capital (id_cash dec) kept (sel_rejected (cp_equity c) @ sel_rejected (cp_fixed_income c) @ dropped))"

definition lot_candidate ::
  "decimal \<Rightarrow> investment_decision \<Rightarrow> string \<Rightarrow> bool \<Rightarrow> decimal \<Rightarrow> composed \<Rightarrow> candidate res" where
  "lot_candidate capital dec profile confidence_unknown cost c =
     bnd (allocate_integer_lots (lot_candidates c) capital \<lparr>broker_bps = cost, exchange_bps = 0, slippage_bps = 0, min_fee = 0\<rparr>)
       (settle_candidate capital dec profile confidence_unknown c)"

definition capital_candidate ::
  "equity_row list \<Rightarrow> fi_row list \<Rightarrow> investment_decision \<Rightarrow> string \<Rightarrow> bool \<Rightarrow> decimal \<Rightarrow> composition_config \<Rightarrow> decimal \<Rightarrow> candidate res" where
  "capital_candidate eqs fis dec profile confidence_unknown cost cfg capital =
     bnd (compose_instrument_selections eqs fis capital (id_equity dec) (id_fixed_income dec) profile confidence_unknown cfg)
       (lot_candidate capital dec profile confidence_unknown cost)"

definition build_candidate ::
  "equity_row list \<Rightarrow> fi_row list \<Rightarrow> decimal \<Rightarrow> investment_decision \<Rightarrow> string \<Rightarrow> bool \<Rightarrow> decimal \<Rightarrow> composition_config \<Rightarrow> candidate res" where
  "build_candidate eqs fis capital0 dec profile confidence_unknown cost cfg =
     bnd (validate_portfolio_capital capital0) (capital_candidate eqs fis dec profile confidence_unknown cost cfg)"

text \<open>The status of the candidate.\<close>

datatype candidate_status = READY_FOR_RESEARCH | PARTIAL | CN_INSUFFICIENT_DATA | BLOCKED_BY_RISK | STALE

definition classify_candidate_status :: "string \<Rightarrow> bool \<Rightarrow> bool \<Rightarrow> bool \<Rightarrow> candidate_status" where
  "classify_candidate_status gate_status has_positions stale insufficient =
     (let gate = upper gate_status in
      if stale then STALE else if insufficient then CN_INSUFFICIENT_DATA
      else if gate = ''BLOCKED'' then BLOCKED_BY_RISK
      else if gate = ''INSUFFICIENT_DATA'' then CN_INSUFFICIENT_DATA
      else if \<not> has_positions \<and> gate = ''RESEARCH_ONLY'' then PARTIAL
      else if gate \<in> {''APPROVED'', ''APPROVED_WITH_WARNINGS'', ''RESEARCH_ONLY''}
      then (if has_positions \<or> gate \<noteq> ''BLOCKED'' then READY_FOR_RESEARCH else PARTIAL)
      else PARTIAL)"

definition candidate_gate_status :: "draft_position list \<Rightarrow> string" where
  "candidate_gate_status ps =
     (let research_only = (\<exists>p \<in> set ps. dp_risk_status p = ''RESEARCH_ONLY''); executable = (\<exists>p \<in> set ps. dp_executable p)
      in if research_only \<and> \<not> executable then ''RESEARCH_ONLY''
         else if executable then ''APPROVED_WITH_WARNINGS''
         else if ps = [] then ''INSUFFICIENT_DATA'' else ''RESEARCH_ONLY'')"

definition unallocated :: "decimal \<Rightarrow> pyfloat \<Rightarrow> decimal \<Rightarrow> decimal res" where
  "unallocated capital target invested = quantize_even 2 (max 0 (dsub (dmul capital (dec_of_float target)) invested))"

definition candidate_status_of :: "decimal \<Rightarrow> investment_decision \<Rightarrow> candidate \<Rightarrow> bool \<Rightarrow> bool \<Rightarrow> candidate_status res" where
  "candidate_status_of capital dec cn inputs_ok stale =
     (let ps = cn_positions cn;
          insufficient = (ps = [] \<and> (0 < id_equity dec \<or> 0 < id_fixed_income dec) \<and> \<not> inputs_ok);
          status = classify_candidate_status (candidate_gate_status ps) (ps \<noteq> []) stale insufficient
      in bnd (unallocated capital (id_equity dec) (cn_invested_equity cn)) (\<lambda>u_eq.
         bnd (unallocated capital (id_fixed_income dec) (cn_invested_fixed_income cn)) (\<lambda>u_fi.
           Inr (if ps \<noteq> [] \<and> (1 < fl u_eq \<or> 1 < fl u_fi) \<and> status = READY_FOR_RESEARCH then PARTIAL else status))))"

section \<open>Selections\<close>

text \<open>A row fits below a lot cost: one lot costs no more than that and no more than the single-name limit. Every
  selection is a prefix of the admitted rows that fit, in the order the rows were in.\<close>

definition fits :: "('r \<Rightarrow> pyfloat res) \<Rightarrow> composition_config \<Rightarrow> pyfloat \<Rightarrow> pyfloat \<Rightarrow> 'r \<Rightarrow> bool" where
  "fits cost cfg cap most r \<longleftrightarrow>
     (case cost r of Inl _ \<Rightarrow> False | Inr c \<Rightarrow> c \<le> most \<and> fdiv c cap \<le> cc_max_single_position_weight cfg)"

lemma fill_slots_prefix:
  assumes "fill_slots nm cost cfg cap n target rows selected rejected = Inr (sel, rej)"
  shows "\<exists>k. sel = selected @ take k (filter (fits cost cfg cap (fmul target (fl (105/100)))) rows) \<and>
    int (length selected + k) \<le> max n (int (length selected))"
  using assms
proof (induction rows arbitrary: selected rejected)
  case Nil
  then show ?case by (intro exI [of _ 0]) auto
next
  case (Cons row rows)
  let ?fits = "fits cost cfg cap (fmul target (fl (105/100)))"
  show ?case
  proof (cases "int (length selected) \<ge> n \<or> target < cc_min_position_rub cfg")
    case True
    then show ?thesis using Cons.prems by (intro exI [of _ 0]) auto
  next
    case False
    then obtain c where c: "cost row = Inr c" using Cons.prems by (auto simp: exn_simps)
    show ?thesis
    proof (cases "?fits row")
      case True
      then have "fill_slots nm cost cfg cap n target rows (selected @ [row]) rejected = Inr (sel, rej)"
        using Cons.prems False c by (auto simp: fits_def split: if_splits)
      from Cons.IH [OF this] obtain k where "sel = (selected @ [row]) @ take k (filter ?fits rows)"
        "int (length (selected @ [row]) + k) \<le> max n (int (length (selected @ [row])))" by blast
      then show ?thesis using True False by (intro exI [of _ "Suc k"]) auto
    next
      case no: False
      then obtain rejected' where "fill_slots nm cost cfg cap n target rows selected rejected' = Inr (sel, rej)"
        using Cons.prems False c by (auto simp: fits_def split: if_splits)
      from Cons.IH [OF this] show ?thesis using no by simp
    qed
  qed
qed

definition selection_ok :: "('r \<Rightarrow> bool) \<Rightarrow> ('r \<Rightarrow> pyfloat res) \<Rightarrow> int \<Rightarrow> composition_config \<Rightarrow> decimal \<Rightarrow> 'r list \<Rightarrow> 'r selection \<Rightarrow> bool" where
  "selection_ok admitted cost slots cfg capital ordered s \<longleftrightarrow>
     (\<exists>most k. sel_selected s = take k (filter (fits cost cfg (fl capital) most) (filter admitted ordered)) \<and> int k \<le> max 0 slots)"

lemma chosen_ok:
  assumes "fill_slots nm cost cfg (fl capital) (max 0 (min m (int (length (filter P ordered))))) target (filter P ordered) [] rej0 = Inr (xs, rej)"
    and "sel_selected s = (if b then take j xs else xs)"
  shows "selection_ok P cost m cfg capital ordered s"
proof -
  obtain k where k: "xs = take k (filter (fits cost cfg (fl capital) (fmul target (fl (105/100)))) (filter P ordered))" "int k \<le> max 0 m"
    using fill_slots_prefix [OF assms(1)] by auto
  have "sel_selected s = take (if b then min j k else k) (filter (fits cost cfg (fl capital) (fmul target (fl (105/100)))) (filter P ordered))"
    using assms(2) k(1) by (simp add: min.commute)
  moreover have "int (if b then min j k else k) \<le> max 0 m" using k(2) by auto
  ultimately show ?thesis unfolding selection_ok_def by blast
qed

lemma no_selection_ok: "sel_selected s = [] \<Longrightarrow> selection_ok P cost m cfg capital ordered s"
  unfolding selection_ok_def by (intro exI [of _ 0]) auto

lemma equity_selection_ok:
  assumes "select_equity_composition cands sleeve capital gate cfg = Inr s"
  shows "selection_ok (equity_admitted gate) equity_lot_cost (cc_max_equity_positions cfg) cfg capital
      (sort_key equity_key cands) s"
    and "sel_equal_weight s = share_of sleeve (sel_selected s)"
proof -
  let ?o = "sort_key equity_key cands"
  let ?el = "filter (equity_admitted gate) ?o"
  let ?n = "max 0 (min (cc_max_equity_positions cfg) (int (length ?el)))"
  have "selection_ok (equity_admitted gate) equity_lot_cost (cc_max_equity_positions cfg) cfg capital ?o s \<and>
    sel_equal_weight s = share_of sleeve (sel_selected s)"
  proof (cases "sleeve \<le> 0 \<or> ?n = 0 \<or> capital \<le> 0")
    case True
    then show ?thesis using assms by (auto simp: select_equity_composition_def Let_def share_of_def intro!: no_selection_ok)
  next
    case False
    obtain xs rej where f: "fill_slots eq_symbol equity_lot_cost cfg (fl capital) ?n (fdiv (fmul (fl capital) sleeve) (of_int ?n)) ?el []
        (rejections eq_symbol (equity_reject gate) ?o) = Inr (xs, rej)"
      using assms False unfolding select_equity_composition_def Let_def if_not_P [OF False] bnd_eq_Inr by auto
    then show ?thesis
      using assms chosen_ok [OF f, of s "xs \<noteq> [] \<and> fmul (fl capital) (share_of sleeve xs) < cc_min_position_rub cfg"]
      unfolding select_equity_composition_def Let_def if_not_P [OF False] f bnd_Inr by auto
  qed
  then show "selection_ok (equity_admitted gate) equity_lot_cost (cc_max_equity_positions cfg) cfg capital ?o s"
    "sel_equal_weight s = share_of sleeve (sel_selected s)" by auto
qed

lemma fi_selection_ok:
  assumes "select_fixed_income_composition cands sleeve capital gate cfg = Inr s" "0 \<le> cc_max_single_position_weight cfg"
  shows "selection_ok (fi_admitted gate) fi_lot_cost (cc_max_fixed_income_positions cfg) cfg capital
      (sort_key (fi_sort_key (cc_prefer_government_bonds cfg)) cands) s"
    and "sel_equal_weight s \<le> cc_max_single_position_weight cfg"
proof -
  let ?o = "sort_key (fi_sort_key (cc_prefer_government_bonds cfg)) cands"
  let ?el = "filter (fi_admitted gate) ?o"
  let ?n = "max 0 (min (cc_max_fixed_income_positions cfg) (int (length ?el)))"
  obtain eff where eff: "fi_effective_sleeve cfg sleeve ?n = Inr eff"
    using assms(1) unfolding select_fixed_income_composition_def Let_def bnd_eq_Inr by auto
  have "selection_ok (fi_admitted gate) fi_lot_cost (cc_max_fixed_income_positions cfg) cfg capital ?o s \<and>
    sel_equal_weight s \<le> cc_max_single_position_weight cfg"
  proof (cases "eff \<le> 0 \<or> ?n = 0 \<or> capital \<le> 0")
    case True
    then show ?thesis using assms unfolding select_fixed_income_composition_def Let_def eff bnd_Inr if_P [OF True]
      by (auto intro!: no_selection_ok)
  next
    case False
    obtain xs rej where f: "fill_slots fr_symbol fi_lot_cost cfg (fl capital) ?n (fdiv (fmul (fl capital) eff) (of_int ?n)) ?el []
        (rejections fr_symbol (fi_reject gate) ?o) = Inr (xs, rej)"
      using assms(1) unfolding select_fixed_income_composition_def Let_def eff bnd_Inr if_not_P [OF False] bnd_eq_Inr by auto
    then show ?thesis
      using assms chosen_ok [OF f, of s "xs \<noteq> [] \<and> fmul (fl capital) (min (share_of eff xs) (cc_max_single_position_weight cfg)) < cc_min_position_rub cfg"]
      unfolding select_fixed_income_composition_def Let_def eff bnd_Inr if_not_P [OF False] f by auto
  qed
  then show "selection_ok (fi_admitted gate) fi_lot_cost (cc_max_fixed_income_positions cfg) cfg capital ?o s"
    "sel_equal_weight s \<le> cc_max_single_position_weight cfg" by auto
qed

lemma gate_map_lookup:
  assumes "distinct (map nm rows)" "r \<in> set rows"
  shows "gate_map nm v rows (nm r) = Some (gate_value (pv_gate_status (v r)))"
proof -
  let ?f = "gate_put nm v"
  have other: "foldl ?f m qs x = m x" if "x \<notin> nm ` set qs" for m x qs
    using that by (induction qs arbitrary: m) (auto simp: gate_put_def)
  have "foldl ?f m rows (nm r) = Some (gate_value (pv_gate_status (v r)))" for m
    using assms by (induction rows arbitrary: m) (auto simp: other gate_put_def)
  then show ?thesis by (simp add: gate_map_def)
qed

lemma gate_value_eq: "gate_value a = gate_value b \<longleftrightarrow> a = b"
  by (cases a; cases b; simp)

lemma no_bonds_without_sleeve:
  assumes "select_fixed_income_composition cands sleeve capital gate cfg = Inr s" "sleeve \<le> 0" "0 \<le> cc_max_single_position_weight cfg"
  shows "sel_selected s = []"
proof -
  have q: "fsub (fdiv sleeve l) (fl (1 / 10 ^ 12)) \<le> 1" if "0 \<le> l" for l
    using assms(2) that fl_nonneg [of "1 / 10 ^ 12"] fl_nonpos [of "sleeve / l"]
    by (auto simp: fsub_def fdiv_def divide_nonpos_nonneg intro!: fl_le_1)
  have eff: "e = sleeve" if "fi_effective_sleeve cfg sleeve n = Inr e" for n e
    using that q [OF assms(3)] by (auto simp: fi_effective_sleeve_def fdivE_def Let_def exn_simps ceiling_le_iff split: if_splits)
  let ?n = "max 0 (min (cc_max_fixed_income_positions cfg)
    (int (length (filter (fi_admitted gate) (sort_key (fi_sort_key (cc_prefer_government_bonds cfg)) cands)))))"
  obtain e where e: "fi_effective_sleeve cfg sleeve ?n = Inr e"
    using assms(1) unfolding select_fixed_income_composition_def Let_def bnd_eq_Inr by auto
  then have "e \<le> 0 \<or> ?n = 0 \<or> capital \<le> 0" using eff assms(2) by blast
  then show ?thesis using assms(1) unfolding select_fixed_income_composition_def Let_def e bnd_Inr by (simp only: if_True) auto
qed

lemma no_shares_without_sleeve:
  "\<lbrakk>select_equity_composition cands sleeve capital gate cfg = Inr s; sleeve \<le> 0\<rbrakk> \<Longrightarrow> sel_selected s = []"
  by (auto simp: select_equity_composition_def Let_def)

text \<open>What a selection promises, without its loops: only rows of the list that are admissible, in the order of the
  key, no more than the slots, one lot of each within the single-name limit; and no better-ranked admissible row is
  passed over unless one lot of it is too expensive, beyond the limit or a common bound that all the chosen keep.\<close>

definition ranked_choice ::
  "('r \<Rightarrow> 'k::linorder) \<Rightarrow> ('r \<Rightarrow> bool) \<Rightarrow> ('r \<Rightarrow> pyfloat res) \<Rightarrow> pyfloat \<Rightarrow> pyfloat \<Rightarrow> int \<Rightarrow> 'r list \<Rightarrow> 'r list \<Rightarrow> bool" where
  "ranked_choice key ok cost cap limit slots rows xs \<longleftrightarrow>
     set xs \<subseteq> set rows \<and> (\<forall>r \<in> set xs. ok r) \<and> sorted (map key xs) \<and> int (length xs) \<le> max 0 slots \<and>
     (\<exists>most. (\<forall>r \<in> set xs. \<exists>c. cost r = Inr c \<and> c \<le> most \<and> fdiv c cap \<le> limit) \<and>
       (\<forall>r \<in> set xs. \<forall>q \<in> set rows. ok q \<and> key q < key r \<and> q \<notin> set xs \<longrightarrow>
         (\<forall>c. cost q = Inr c \<longrightarrow> most < c \<or> limit < fdiv c cap)))"

lemma ranked_prefix:
  assumes "r \<in> set (take k zs)" "q \<in> set zs" "q \<notin> set (take k zs)" "sorted (map key zs)"
  shows "key r \<le> key q"
proof -
  have "q \<in> set (drop k zs)" using assms(2,3) by (metis Un_iff append_take_drop_id set_append)
  moreover have "sorted (map key (take k zs) @ map key (drop k zs))" using assms(4) by (simp flip: map_append)
  ultimately show ?thesis using assms(1) by (auto simp: sorted_append)
qed

lemma selection_is_choice:
  assumes "selection_ok adm cost slots cfg capital (sort_key key rows) s"
    and ok: "\<And>r. r \<in> set rows \<Longrightarrow> sel_selected s \<noteq> [] \<Longrightarrow> adm r \<longleftrightarrow> ok r"
  shows "ranked_choice key ok cost (fl capital) (cc_max_single_position_weight cfg) slots rows (sel_selected s)"
proof -
  let ?l = "cc_max_single_position_weight cfg"
  from assms(1) obtain most k where
    sel: "sel_selected s = take k (filter (fits cost cfg (fl capital) most) (filter adm (sort_key key rows)))" and k: "int k \<le> max 0 slots"
    unfolding selection_ok_def by blast
  define zs where "zs = filter (fits cost cfg (fl capital) most) (filter adm (sort_key key rows))"
  have z: "set zs = {r \<in> set rows. adm r \<and> fits cost cfg (fl capital) most r}" by (auto simp: zs_def)
  have srt: "sorted (map key zs)" by (simp add: zs_def sorted_filter)
  have xs: "sel_selected s = take k zs" by (simp add: sel zs_def)
  have sub: "set (take k zs) \<subseteq> set zs" by (rule set_take_subset)
  have len: "int (length (take k zs)) \<le> max 0 slots" using k by simp
  have fit: "\<exists>c. cost r = Inr c \<and> c \<le> most \<and> fdiv c (fl capital) \<le> ?l" if "r \<in> set (take k zs)" for r
    using that sub z by (fastforce simp: fits_def split: sum.splits)
  have pass: "most < c \<or> ?l < fdiv c (fl capital)"
    if r: "r \<in> set (take k zs)" and q: "q \<in> set rows" "ok q" "key q < key r" "q \<notin> set (take k zs)" and c: "cost q = Inr c" for r q c
  proof (rule ccontr)
    assume "\<not> (most < c \<or> ?l < fdiv c (fl capital))"
    note contra = this
    have "sel_selected s \<noteq> []" using r xs by (metis empty_iff list.set(1))
    then have "adm q" using ok [OF q(1)] q(2) by blast
    then have "q \<in> set zs" using contra q(1) c unfolding z by (auto simp: fits_def)
    from ranked_prefix [OF r this q(4) srt] q(3) show False by simp
  qed
  have "ok r" if "r \<in> set (take k zs)" for r using that sub z ok xs by fastforce
  moreover have "sorted (map key (take k zs))" using srt by (simp add: sorted_wrt_take flip: take_map)
  ultimately show ?thesis
    unfolding ranked_choice_def xs using sub z len fit pass by (intro conjI exI [of _ most]) blast+
qed

text \<open>What makes a row admissible, with the weight at which the gate of the profile probes it.\<close>

definition share_admissible :: "risk_budget \<Rightarrow> pyfloat \<Rightarrow> bool \<Rightarrow> equity_row \<Rightarrow> bool" where
  "share_admissible b w unk r \<longleftrightarrow> pv_gate_status (equity_verdict b w unk r) \<notin> {BLOCKED, INSUFFICIENT_DATA} \<and>
     (\<exists>n. eq_lot_size r = Some n \<and> 0 < n \<and> 0 < dmul (eq_price r) (of_int n))"

definition bond_admissible :: "risk_budget \<Rightarrow> pyfloat \<Rightarrow> fi_row \<Rightarrow> bool" where
  "bond_admissible b w r \<longleftrightarrow> pv_gate_status (fi_verdict b w r) \<notin> {BLOCKED, INSUFFICIENT_DATA} \<and>
     fr_support_status r \<noteq> ''UNSUPPORTED'' \<and> fr_eligibility r \<noteq> ''BLOCKED'' \<and>
     0 < fr_dirty_price r \<and> 0 < fr_lot_size r \<and> 0 < fr_nominal r"

lemma gate_values: "gate_value v \<in> {''BLOCKED'', ''INSUFFICIENT_DATA''} \<longleftrightarrow> v \<in> {BLOCKED, INSUFFICIENT_DATA}"
  by (cases v) simp_all

lemma share_gate:
  assumes "pre_gate_equity eqs w profile unk = Inr g" "get_risk_budget profile = Inr b" "distinct (map eq_symbol eqs)" "0 < w" "r \<in> set eqs"
  shows "equity_admitted g r \<longleftrightarrow>
    share_admissible b (probe_weight b w (min (int (length eqs)) (cc_max_equity_positions DEFAULT_COMPOSITION_CONFIG))) unk r"
proof -
  let ?v = "equity_verdict b (probe_weight b w (min (int (length eqs)) (cc_max_equity_positions DEFAULT_COMPOSITION_CONFIG))) unk"
  have "g = gate_map eq_symbol ?v eqs"
    using assms by (cases "eqs = []") (auto simp: pre_gate_equity_def Let_def exn_simps)
  then have "g (eq_symbol r) = Some (gate_value (pv_gate_status (?v r)))"
    using gate_map_lookup [OF assms(3,5)] by simp
  then show ?thesis
    using gate_values [of "pv_gate_status (?v r)"]
    by (cases "eq_lot_size r") (auto simp: equity_admitted_def equity_reject_def share_admissible_def Let_def not_le)
qed

lemma bond_gate:
  assumes "pre_gate_fixed_income fis w profile = Inr g" "get_risk_budget profile = Inr b" "distinct (map fr_symbol fis)" "0 < w" "r \<in> set fis"
  shows "fi_admitted g r \<longleftrightarrow>
    bond_admissible b (probe_weight b w (min (int (length fis)) (cc_max_fixed_income_positions DEFAULT_COMPOSITION_CONFIG))) r"
proof -
  let ?v = "fi_verdict b (probe_weight b w (min (int (length fis)) (cc_max_fixed_income_positions DEFAULT_COMPOSITION_CONFIG)))"
  have "g = gate_map fr_symbol ?v fis"
    using assms by (cases "fis = []") (auto simp: pre_gate_fixed_income_def Let_def exn_simps)
  then have "g (fr_symbol r) = Some (gate_value (pv_gate_status (?v r)))"
    using gate_map_lookup [OF assms(3,5)] by simp
  then show ?thesis
    using gate_values [of "pv_gate_status (?v r)"]
    by (auto simp: fi_admitted_def fi_reject_def bond_admissible_def Let_def not_le)
qed

text \<open>C14: a composition keeps its configuration and its gate. Shares and bonds are chosen from the candidates in
  the order of their rank (for bonds the sort key), at most as many as there are slots, and one lot of each costs
  no more than the single-name share of the capital; every chosen row is admissible, its gate verdict at the probe
  weight of its sleeve included; a better-ranked admissible row is passed over only when one lot of it is too
  expensive. Shares split their sleeve equally, and a bond gets at most the single-name limit.\<close>

theorem composition_respects_limits:
  assumes "compose_instrument_selections eqs fis capital eq_w fi_w profile unk cfg = Inr c"
    and "0 \<le> cc_max_single_position_weight cfg" and "get_risk_budget profile = Inr b"
    and "distinct (map eq_symbol eqs)" and "distinct (map fr_symbol fis)"
  shows "ranked_choice equity_key
      (share_admissible b (probe_weight b eq_w (min (int (length eqs)) (cc_max_equity_positions DEFAULT_COMPOSITION_CONFIG))) unk)
      equity_lot_cost (fl capital) (cc_max_single_position_weight cfg) (cc_max_equity_positions cfg) eqs (sel_selected (cp_equity c)) \<and>
    ranked_choice (fi_sort_key (cc_prefer_government_bonds cfg))
      (bond_admissible b (probe_weight b fi_w (min (int (length fis)) (cc_max_fixed_income_positions DEFAULT_COMPOSITION_CONFIG))))
      fi_lot_cost (fl capital) (cc_max_single_position_weight cfg) (cc_max_fixed_income_positions cfg) fis (sel_selected (cp_fixed_income c)) \<and>
    sel_equal_weight (cp_equity c) = share_of eq_w (sel_selected (cp_equity c)) \<and>
    sel_equal_weight (cp_fixed_income c) \<le> cc_max_single_position_weight cfg"
proof -
  obtain eg fg where g: "pre_gate_equity eqs eq_w profile unk = Inr eg" "pre_gate_fixed_income fis fi_w profile = Inr fg"
    "select_equity_composition eqs eq_w capital eg cfg = Inr (cp_equity c)"
    "select_fixed_income_composition fis fi_w capital fg cfg = Inr (cp_fixed_income c)"
    using assms(1) by (auto simp: compose_instrument_selections_def compose_gated_def compose_fixed_income_def exn_simps)
  note e = equity_selection_ok [OF g(3)] and f = fi_selection_ok [OF g(4) assms(2)]
  have "0 < eq_w" if "sel_selected (cp_equity c) \<noteq> []" using no_shares_without_sleeve [OF g(3)] that by fastforce
  note shares = selection_is_choice [OF e(1) share_gate [OF g(1) assms(3,4) this]]
  have "0 < fi_w" if "sel_selected (cp_fixed_income c) \<noteq> []" using no_bonds_without_sleeve [OF g(4) _ assms(2)] that by fastforce
  note bonds = selection_is_choice [OF f(1) bond_gate [OF g(2) assms(3,5) this]]
  show ?thesis using shares bonds e(2) f(2) by blast
qed

lemma allocate_positions_positive:
  assumes "costs_ok costs" "0 \<le> capital" "allocate_integer_lots cands capital costs = Inr r" "p \<in> set (ar_positions r)"
  shows "0 < al_lots p"
proof -
  have "lot_run_ok capital \<lparr>lr_cash = capital, lr_positions = [], lr_diagnostics = []\<rparr>"
    using assms(2) by (simp add: lot_run_ok_def)
  from foldM_allocate [OF assms(1) this, of cands] show ?thesis
    using assms(2-) by (auto simp: allocate_integer_lots_def lot_run_ok_def)
qed

text \<open>C12: every position of a portfolio candidate was bought in a positive number of lots and has passed the
  final gate with its actual weight: none is blocked, so none is above the profile's limit for a single
  name, of low liquidity, unsupported or, for a profile without credit risk, of unknown credit; it counts
  as executable exactly if the gate approves it; and the remaining cash is not negative.\<close>

theorem candidate_passes_gate:
  assumes "build_candidate eqs fis capital dec profile unk cost cfg = Inr cn" and "0 \<le> cost"
  shows "\<exists>b. get_risk_budget profile = Inr b \<and> 0 \<le> cn_total_cash cn \<and> (\<forall>p \<in> set (cn_positions cn).
    0 < dp_lots p \<and> \<not> must_block (profile_gate b) (draft_input p) \<and>
    dp_risk_status p \<in> {''APPROVED'', ''APPROVED_WITH_WARNINGS'', ''RESEARCH_ONLY''} \<and>
    (dp_executable p \<longleftrightarrow> dp_risk_status p \<noteq> ''RESEARCH_ONLY'') \<and>
    (\<not> suffix ''_SLEEVE'' (dp_symbol p) \<longrightarrow> dp_actual_weight p \<le> fadd (rb_max_single_position b) (fl (1 / 10 ^ 12))))"
proof -
  let ?costs = "\<lparr>broker_bps = cost, exchange_bps = 0, slippage_bps = 0, min_fee = 0\<rparr>"
  obtain cap c lots kept dropped where cap: "validate_portfolio_capital capital = Inr cap"
    and lots: "allocate_integer_lots (lot_candidates c) cap ?costs = Inr lots"
    and re: "revalidate_actual_weights (List.map_filter (draft_of cap unk c) (ar_positions lots)) profile = Inr (kept, dropped)"
    and money: "candidate_money cap (id_cash dec) kept (sel_rejected (cp_equity c) @ sel_rejected (cp_fixed_income c) @ dropped) = Inr cn"
    using assms(1)
    by (auto simp: build_candidate_def capital_candidate_def lot_candidate_def settle_candidate_def exn_simps)
  have "costs_ok ?costs" using assms(2) by (simp add: costs_ok_def)
  moreover have "0 \<le> cap" using cap by (auto simp: validate_portfolio_capital_def split: if_splits)
  ultimately have al: "0 < al_lots p" if "p \<in> set (ar_positions lots)" for p
    using allocate_positions_positive lots that by blast
  obtain b where b: "get_risk_budget profile = Inr b"
    and kept: "kept = map (judged (profile_gate b)) (filter (survives (profile_gate b)) (List.map_filter (draft_of cap unk c) (ar_positions lots)))"
    using re by (auto simp: revalidate_actual_weights_def revalidate_with_def Let_def exn_simps)
  have pos: "set (cn_positions cn) \<subseteq> set kept" and cash: "0 \<le> cn_total_cash cn"
    using money by (auto simp: candidate_money_def Let_def exn_simps)
  have "0 < dp_lots p \<and> \<not> must_block (profile_gate b) (draft_input p) \<and>
    dp_risk_status p \<in> {''APPROVED'', ''APPROVED_WITH_WARNINGS'', ''RESEARCH_ONLY''} \<and>
    (dp_executable p \<longleftrightarrow> dp_risk_status p \<noteq> ''RESEARCH_ONLY'') \<and>
    (\<not> suffix ''_SLEEVE'' (dp_symbol p) \<longrightarrow> dp_actual_weight p \<le> fadd (rb_max_single_position b) (fl (1 / 10 ^ 12)))"
    if pm: "p \<in> set (cn_positions cn)" for p
  proof -
    obtain d q where q: "q \<in> set (ar_positions lots)" "draft_of cap unk c q = Some d" and d: "survives (profile_gate b) d"
      "p = judged (profile_gate b) d"
    proof -
      obtain d where d: "d \<in> set (List.map_filter (draft_of cap unk c) (ar_positions lots))" "survives (profile_gate b) d"
        "p = judged (profile_gate b) d" using pm pos unfolding kept by auto
      then obtain q where "q \<in> set (ar_positions lots)" "draft_of cap unk c q = Some d" unfolding set_map_filter by force
      then show thesis using that d by blast
    qed
    have p: "draft_input p = draft_input d" "dp_lots p = dp_lots d" "dp_symbol p = dp_symbol d" "dp_actual_weight p = dp_actual_weight d"
      by (simp_all add: d(2) judged_def Let_def draft_input_def)
    have l: "dp_lots d = al_lots q" and s: "dp_sleeve d \<in> {''EQUITY_ALPHA'', ''FIXED_INCOME''}"
      using q(2) by (auto simp: draft_of_def equity_draft_def fi_draft_def split: option.splits)
    have nb: "\<not> must_block (profile_gate b) (draft_input d)" using d(1) by (auto simp: survives_def Let_def simp flip: blocked_iff)
    have "dp_actual_weight d \<le> fadd (rb_max_single_position b) (fl (1 / 10 ^ 12))" if "\<not> suffix ''_SLEEVE'' (dp_symbol d)"
      using nb s that by (auto simp: must_block_def draft_input_def is_aggregate_def profile_gate_def default_gate_def or_text_def)
    moreover have "dp_risk_status p \<in> {''APPROVED'', ''APPROVED_WITH_WARNINGS'', ''RESEARCH_ONLY''} \<and>
        (dp_executable p \<longleftrightarrow> dp_risk_status p \<noteq> ''RESEARCH_ONLY'')"
      using d(1) unfolding d(2) judged_def survives_def Let_def
      by (cases "pv_gate_status (assess_position (profile_gate b) (draft_input d))") simp_all
    ultimately show ?thesis using al [OF q(1)] nb by (simp add: p l)
  qed
  then show ?thesis using b cash by blast
qed

section \<open>Examples\<close>

definition ofz :: "string \<Rightarrow> fi_row" where
  "ofz name = \<lparr>fr_instrument_id = 1, fr_symbol = name, fr_bond_type = ''Government'', fr_support_status = ''SUPPORTED'',
     fr_credit_status = ''GOVERNMENT_RUSSIAN_FEDERAL'', fr_liquidity_status = ''GOOD'', fr_eligibility = ''REAL_PORTFOLIO_CANDIDATE'',
     fr_lot_size = 1, fr_nominal = 1000, fr_clean_price_percent = 98, fr_accrued_interest = 0, fr_dirty_price = 980,
     fr_maturity_date = Some ''2030-01-01'', fr_yield = Some (fl (14/100)), fr_cashflow_count = 8, fr_risk_flags = []\<rparr>"

definition one_share :: equity_row where
  "one_share = \<lparr>eq_instrument_id = 9, eq_symbol = ''SBER'', eq_rank = 1, eq_signal = 0, eq_semantic = ''RANKING_SCORE'',
     eq_price = 300, eq_lot_size = Some 10\<rparr>"

definition bond_decision :: "pyfloat \<Rightarrow> investment_decision" where
  "bond_decision w = \<lparr>id_profile_id = [], id_equity = 0, id_fixed_income = w, id_cash = fsub 1 w, id_reasons = [], id_status = AS_RESEARCH_ONLY\<rparr>"




lemma single_candidate:
  "map_sum id (\<lambda>cn. (map (\<lambda>p. (dp_symbol p, dp_lots p, dp_risk_status p)) (cn_positions cn), map snd (cn_rejected cn), cn_total_cash cn))
     (build_candidate [] [ofz ''SU1''] 100000 (bond_decision (fl (10/100))) ''BALANCED_ALLOCATION_V0'' True 5 DEFAULT_COMPOSITION_CONFIG)
   = Inr ([(''SU1'', 10, ''APPROVED'')], [], 901951 / 10)"
  by code_simp

lemma composed_example:
  "map_sum id (\<lambda>c. (map eq_symbol (sel_selected (cp_equity c)), map fr_symbol (sel_selected (cp_fixed_income c))))
     (compose_instrument_selections [one_share] [ofz ''SU1'', ofz ''SU2''] 100000 (fl (1/10)) (fl (2/10)) ''BALANCED_ALLOCATION_V0'' True
        DEFAULT_COMPOSITION_CONFIG) = Inr ([''SBER''], [''SU1'', ''SU2''])"
  by code_simp

lemma default_limit: "0 \<le> cc_max_single_position_weight DEFAULT_COMPOSITION_CONFIG"
  by code_simp

lemma balanced_budget: "get_risk_budget ''BALANCED_ALLOCATION_V0'' = Inr BALANCED_BUDGET"
  by (simp add: get_risk_budget_def CONSERVATIVE_BUDGET_def BALANCED_BUDGET_def GROWTH_BUDGET_def)

lemma conservative_candidate:
  "map_sum id (\<lambda>cn. (map (\<lambda>p. (dp_symbol p, dp_lots p, dp_risk_status p)) (cn_positions cn), map snd (cn_rejected cn), cn_total_cash cn))
     (build_candidate [] [ofz ''SU1''] 100000 (bond_decision (fl (7/10))) ''CONSERVATIVE_ALLOCATION_V0'' True 5 DEFAULT_COMPOSITION_CONFIG)
   = Inr ([], [''BLOCKED''], 100000)"
  by code_simp

theorem composition_respects_limits_witness:
  "\<exists>c. compose_instrument_selections [one_share] [ofz ''SU1'', ofz ''SU2''] 100000 (fl (1/10)) (fl (2/10)) ''BALANCED_ALLOCATION_V0'' True
        DEFAULT_COMPOSITION_CONFIG = Inr c \<and>
    map eq_symbol (sel_selected (cp_equity c)) = [''SBER''] \<and> map fr_symbol (sel_selected (cp_fixed_income c)) = [''SU1'', ''SU2''] \<and>
    ranked_choice (fi_sort_key True)
      (bond_admissible BALANCED_BUDGET (probe_weight BALANCED_BUDGET (fl (2/10)) 2)) fi_lot_cost (fl 100000) (fl (15/100)) 5
      [ofz ''SU1'', ofz ''SU2''] (sel_selected (cp_fixed_income c))"
proof -
  obtain c where c: "compose_instrument_selections [one_share] [ofz ''SU1'', ofz ''SU2''] 100000 (fl (1/10)) (fl (2/10))
      ''BALANCED_ALLOCATION_V0'' True DEFAULT_COMPOSITION_CONFIG = Inr c"
    and s: "map eq_symbol (sel_selected (cp_equity c)) = [''SBER'']" "map fr_symbol (sel_selected (cp_fixed_income c)) = [''SU1'', ''SU2'']"
    using composed_example by (auto simp: map_sum_Inr)
  have "distinct (map fr_symbol [ofz ''SU1'', ofz ''SU2''])" by (simp add: ofz_def)
  from composition_respects_limits [OF c default_limit balanced_budget _ this] c s show ?thesis
    by (simp add: DEFAULT_COMPOSITION_CONFIG_def)
qed

theorem candidate_passes_gate_witness:
  "\<exists>cn b. build_candidate [] [ofz ''SU1''] 100000 (bond_decision (fl (10/100))) ''BALANCED_ALLOCATION_V0'' True 5 DEFAULT_COMPOSITION_CONFIG = Inr cn \<and>
    map dp_symbol (cn_positions cn) = [''SU1''] \<and> get_risk_budget ''BALANCED_ALLOCATION_V0'' = Inr b \<and>
    (\<forall>p \<in> set (cn_positions cn). \<not> must_block (profile_gate b) (draft_input p))"
proof -
  obtain cn where cn: "build_candidate [] [ofz ''SU1''] 100000 (bond_decision (fl (10/100))) ''BALANCED_ALLOCATION_V0'' True 5
      DEFAULT_COMPOSITION_CONFIG = Inr cn"
    and s: "map (\<lambda>p. (dp_symbol p, dp_lots p, dp_risk_status p)) (cn_positions cn) = [(''SU1'', 10, ''APPROVED'')]"
    using single_candidate by (auto simp: map_sum_Inr)
  have "map dp_symbol (cn_positions cn) = [''SU1'']" using s by auto
  with candidate_passes_gate [OF cn] cn show ?thesis by auto
qed

text \<open>The sort key of the bonds ranks a liquidity of \<open>GOOD\<close>, the best one the assessment gives, behind
  \<open>LOW\<close>: its table knows only \<open>HIGH\<close>, \<open>MEDIUM\<close>, \<open>UNKNOWN\<close> and \<open>LOW\<close>.\<close>

lemma good_liquidity_ranks_last:
  "fi_sort_key True (ofz ''SU1'') > fi_sort_key True ((ofz ''SU1'')\<lparr>fr_liquidity_status := ''LOW''\<rparr>)"
  by code_simp

end
