(* ===== verification/Spec2Isabelle.thy ===== *)
theory Spec2Isabelle
  imports Lotplan Sellgate Replay Openfill Corpact Policy Simcal Shadowday Simulator Compose
begin

text \<open>
  ProjectAI (\<open>src/backend/app\<close>): the portfolio core, modelled and verified.

  \<^bold>\<open>The program.\<close> The backend keeps three kinds of portfolios. \<^emph>\<open>Personal portfolios\<close> are entered by their
  owner: an append-only journal of operations is the truth, cash and positions are its projection.
  \<^emph>\<open>Shadow portfolios\<close> follow the model's predictions on paper: a decision is turned into target weights,
  those into lots, those into pending orders, which fill at the next session's open, with the broker's
  tariff applied; every completed market day is marked and guarded against drawdown. The \<^emph>\<open>historical
  simulator\<close> replays the same policies over past predictions. A \<^emph>\<open>portfolio candidate\<close> is a proposal: capital is
  split by a decision engine, bonds and shares are selected under a risk gate and bought in whole lots. The
  portfolios share the fee engine, the lot rules and the corporate-action factors.

  \<^bold>\<open>Theories and sources\<close> (paths below \<open>src/backend/app/modules\<close>):

  \<^item> \<open>Prelude\<close>, \<open>Pynum\<close>, \<open>Pyeval\<close>, \<open>Pydate\<close>, \<open>Session\<close>: Python's exceptions, decimals, floats, dates and a database
    session with savepoints, as far as the code uses them.
  \<^item> \<open>Ledger\<close>: \<open>portfolio/domain/personal_ledger.py\<close>. State \<open>ledger_state\<close>, one definition per branch of
    \<open>apply_event\<close>. The lemmas give the double-entry effect of an event, its invariant and its refusals.
  \<^item> \<open>Fees\<close>, \<open>Feeadapter\<close>, \<open>Commission\<close>: \<open>portfolio/domain/fee_engine.py\<close>, \<open>shadow/domain/fee_estimate.py\<close>,
    \<open>portfolio/application/broker_fee_service.py\<close>. Which rule wins, what it charges, that an unknown tariff
    stays unknown.
  \<^item> \<open>Position\<close>, \<open>Bonds\<close>: \<open>portfolio/domain/lots.py\<close>, \<open>shadow/domain/accounting.py\<close>,
    \<open>investment/domain/fixed_income.py\<close>, \<open>investment/domain/accounting.py\<close>. \<open>position_life\<close> follows a position from its
    opening on: realised result, cost held and cash paid agree up to the rounding.
  \<^item> \<open>Store\<close>, \<open>Bookinv\<close>, \<open>Journal\<close>, \<open>Lifecycle\<close>, \<open>Replay\<close>: the tables of \<open>portfolio/infrastructure/models.py\<close>
    and the services of \<open>portfolio/application/personal_portfolio_service.py\<close> and
    \<open>user_portfolio_service.py\<close>. \<open>api_step\<close> is one request; the lemmas show by induction over reachable states
    that every active book is what its journal replays to, and that keyed requests are idempotent.
  \<^item> \<open>Lotplan\<close>: \<open>shadow/domain/lot_plan.py\<close>, target weights into whole lots under cash and permissions.
  \<^item> \<open>Sellgate\<close>: \<open>shadow/domain/sell_gate.py\<close>, which held names may be sold and for what.
  \<^item> \<open>Lotfill\<close>, \<open>Openfill\<close>: \<open>shadow/application/lot_aware.py\<close>, \<open>open_execution_service.py\<close>,
    \<open>execution_eligibility.py\<close>, \<open>shadow/domain/open_execution.py\<close>, \<open>simulator/application/execution.py\<close>: orders
    filled at a session open. \<open>order_step\<close> is the life of an order as a step relation.
  \<^item> \<open>Corpact\<close>: \<open>market/application/split_events.py\<close>, \<open>mechanical_adjustment.py\<close>: factors and point-in-time
    adjustment.
  \<^item> \<open>Policy\<close>: \<open>simulator/application/policy.py\<close>, \<open>policy_hysteresis.py\<close>, \<open>risk.py\<close>, \<open>drawdown_guard.py\<close>.
  \<^item> \<open>Shadowday\<close>: the completed market day in \<open>shadow/application/service.py\<close>: \<open>process_shadow_market_day\<close> and
    the day loop of \<open>advance_shadow_portfolio\<close>. What a run appends, where it stops and why each fill is justified.
  \<^item> \<open>Simcal\<close>, \<open>Simulator\<close>: \<open>simulator/application/calendar.py\<close>, \<open>market_view.py\<close>, \<open>ledger.py\<close>,
    \<open>predictions.py\<close>, \<open>engine.py\<close>: \<open>run_simulation\<close> with everything it calls up to the finished ledger. Invariants of
    the daily loop (\<open>sim_inv\<close>, \<open>order_inv\<close>): fills, snapshots, guard events, and that every order meets its session.

  \<^item> \<open>Alloc\<close>: \<open>investment/domain/policy.py\<close>, \<open>allocation.py\<close>, \<open>risk_budget.py\<close>, \<open>decision_engine.py\<close>. How capital is
    split between shares, bonds and cash: the engine stays within the risk budget up to rounding, whole lots never
    overspend.
  \<^item> \<open>Credit\<close>: \<open>credit_intelligence.py\<close>, \<open>credit_quality.py\<close>, \<open>liquidity.py\<close>, \<open>investment_eligibility.py\<close>, composed
    per bond (\<open>bond_risk\<close>) as in \<open>credit_liquidity_service.py\<close>: what makes a bond fit for a real portfolio.
  \<^item> \<open>Riskgate\<close>: \<open>portfolio_risk_gate.py\<close>; a verdict is the worst of the statuses that the checks append.
  \<^item> \<open>Cashflows\<close>: \<open>currency.py\<close>, \<open>cashflows.py\<close>, \<open>cashflow_timeline.py\<close> and the counters of
    \<open>portfolio_cashflow_service.py\<close>: when a bond's accounting is supported, and that a timeline counts nothing twice.
  \<^item> \<open>Compose\<close>: \<open>composition_config.py\<close>, \<open>equity_composition.py\<close>, \<open>fixed_income_composition.py\<close> and the services
    \<open>portfolio_composition_service.py\<close>, \<open>portfolio_candidate_service.py\<close>: from a decision to a candidate, gate, selection,
    lots, gate again. \<open>build_candidate\<close> is \<open>build_portfolio_candidate\<close> from the decision to the cash breakdown.

  \<^bold>\<open>How the parts meet.\<close> A component that relies on another states what it needs as a locale, and the provider
  interprets it on its own definitions: \<open>float_format\<close> (rounding, by decimals and floats), \<open>book_service\<close> (what
  a portfolio service keeps of the store), \<open>broker_fee_estimator\<close> (what gate and planner need of a tariff),
  \<open>plan_fee\<close> (the planner's callback). The market day and the open session fill orders by separate code;
  \<open>execution_paths_agree\<close> shows that an order both let through at one price gets the same fill, cash and positions. The simulator runs on the definitions of \<open>Policy\<close>,
  \<open>Corpact\<close>, \<open>Simcal\<close> and the execution adapter of \<open>Lotfill\<close>. The candidate is built on the decision of \<open>Alloc\<close>,
  the verdicts of \<open>Riskgate\<close> and the lots of \<open>Bonds\<close>.

  \<^bold>\<open>Conventions.\<close> A Python exception is a value of \<open>pyexn\<close>, a call that may raise returns \<open>pyexn + 'a\<close>. A loop
  over a list whose body may raise is \<open>foldM\<close>. A dictionary whose order matters is an association list, an
  object stored in a table is a record in a list. Numbers keep Python's rounding: \<open>Decimal\<close> with 28 digits,
  \<open>float\<close> with 53 bits; tolerances such as \<open>1e-6\<close> are the floats \<open>eps6\<close>, \<open>eps12\<close> and so on. All loops of the
  modelled code terminate structurally or by a measure; no fuel is used, but for \<open>repr_from\<close>, which tries at
  most the seventeen digits that suffice to print a float.

  \<^bold>\<open>Parameters.\<close> What is not in the repository's code is an argument: the clock, \<open>date.today()\<close>, fresh keys, the
  iteration order of a Python set, the rows of tables that only other programs write (candles, corporate
  actions, predictions).

  \<^bold>\<open>Not modelled.\<close> NaN, infinities and signed zeros (the numbers come from numeric columns); column widths and
  database failures other than the integrity errors the code handles; locks and concurrent requests (a service
  is one step); texts for people, provenance and explanation dictionaries; read models for display and the HTTP
  layer; of the shadow service the building of a decision from predictions, warnings and late-correction scans;
  of the simulator the metrics, benchmark, hashes and persistence of a finished run; the assistant, news,
  learning, research and ingestion parts of the program, which are prompts, statistics over external libraries,
  crawlers and reports. In the investment part the exchange's rows are maps from names to texts, the database
  queries that load them are not modelled, numerals with special values (\<open>NaN\<close>, \<open>Infinity\<close>) count as absent, and
  spread and turnover, which are only passed through, are left out.
\<close>

end
